(* ===== verification/JsPrelude.thy ===== *)
theory JsPrelude
  imports Main "HOL-Library.Word" "HOL-Library.AList" "HOL-Library.List_Lexorder"
    "HOL-Library.Multiset"
begin

text \<open>
  What the development uses of JavaScript and of its standard library: failures as values
  of a sum type, numbers that may be \<open>NaN\<close>, insertion-ordered maps, arrays with a stable
  sort by a comparator, and the generic lemmas the components share. Strings and the text
  codecs are in the theory \<open>JsString\<close>.
\<close>

section \<open>Failures\<close>

text \<open>
  A \<open>throw new Error(m)\<close> is \<^term>\<open>Inl (Error m)\<close>; of a template literal the model keeps
  the fixed text and leaves the interpolated values out. \<open>RangeError\<close> and \<open>TypeError\<close> are
  the ones the standard library raises. The second named collection gathers the equations
  that run a model on a concrete input.
\<close>

datatype js_error = Error string | RangeError | TypeError

type_synonym 'a res = "js_error + 'a"

named_theorems res_elims \<open>what a successful or failed sequence of steps implies\<close>
named_theorems run_simps \<open>equations that evaluate the models on concrete input\<close>

fun bind_res :: "'a res \<Rightarrow> ('a \<Rightarrow> 'b res) \<Rightarrow> 'b res" where
  "bind_res (Inl e) f = Inl e"
| "bind_res (Inr x) f = f x"

definition guard_res :: "bool \<Rightarrow> js_error \<Rightarrow> unit res" where
  "guard_res b e = (if b then Inr () else Inl e)"

fun map_res :: "('a \<Rightarrow> 'b res) \<Rightarrow> 'a list \<Rightarrow> 'b list res" where
  "map_res f [] = Inr []"
| "map_res f (x # xs) = bind_res (f x) (\<lambda>y. bind_res (map_res f xs) (\<lambda>ys. Inr (y # ys)))"

fun fold_res :: "('a \<Rightarrow> 's \<Rightarrow> 's res) \<Rightarrow> 'a list \<Rightarrow> 's \<Rightarrow> 's res" where
  "fold_res f [] s = Inr s"
| "fold_res f (x # xs) s = bind_res (f x s) (fold_res f xs)"

lemma bind_res_cong [fundef_cong]:
  "m = m' \<Longrightarrow> (\<And>x. m' = Inr x \<Longrightarrow> f x = g x) \<Longrightarrow> bind_res m f = bind_res m' g"
  by (cases m') auto

lemma bind_res_Inr_iff [res_elims]: "bind_res m f = Inr y \<longleftrightarrow> (\<exists>x. m = Inr x \<and> f x = Inr y)"
  by (cases m) auto

lemma bind_res_Inl_iff [res_elims]:
  "bind_res m f = Inl e \<longleftrightarrow> m = Inl e \<or> (\<exists>x. m = Inr x \<and> f x = Inl e)"
  by (cases m) auto

lemma bind_res_assoc: "bind_res (bind_res m f) g = bind_res m (\<lambda>x. bind_res (f x) g)"
  by (cases m) auto

lemma guard_res_simps [simp]: "guard_res True e = Inr ()" "guard_res False e = Inl e"
  by (simp_all add: guard_res_def)

lemma guard_res_Inr_iff [res_elims]: "guard_res b e = Inr u \<longleftrightarrow> b"
  by (cases b) auto

lemma fold_res_append:
  "fold_res f (xs @ ys) s = bind_res (fold_res f xs s) (fold_res f ys)"
  proof (induction xs arbitrary: s)
  case (Cons x xs)
  then show ?case by (cases "f x s") auto
qed simp

lemma map_res_length: "map_res f xs = Inr ys \<Longrightarrow> length ys = length xs"
  by (induction xs arbitrary: ys) (auto simp: res_elims)

text \<open>An invariant of the state that every step keeps holds after the loop.\<close>

lemma fold_res_invariant:
  assumes "fold_res f xs s = Inr t" and "P s"
    and "\<And>x s s'. x \<in> set xs \<Longrightarrow> P s \<Longrightarrow> f x s = Inr s' \<Longrightarrow> P s'"
  shows "P t"
  using assms by (induction xs arbitrary: s) (auto simp: res_elims)

section \<open>Numbers\<close>

text \<open>
  A JavaScript number is a double. The programs modelled here compute with integers, and
  \<open>NaN\<close> is what \<open>parseInt\<close> makes of text that is not a number. Integers are exact up to
  \<open>2 ^ 53\<close>; the model keeps them exact beyond.
\<close>

datatype js_num = NaN | Num int

fun num_is_nan :: "js_num \<Rightarrow> bool" where
  "num_is_nan NaN = True"
| "num_is_nan (Num _) = False"

section \<open>Maps\<close>

text \<open>
  A \<open>Map\<close> iterates in insertion order and \<open>set\<close> on a present key keeps its place: an
  association list with distinct keys, with \<^const>\<open>map_of\<close>, \<^const>\<open>AList.update\<close> and
  \<^const>\<open>AList.delete\<close> as \<open>get\<close>, \<open>set\<close> and \<open>delete\<close>.
\<close>

type_synonym ('k, 'v) js_map = "('k \<times> 'v) list"

definition map_get :: "('k, 'v) js_map \<Rightarrow> 'k \<Rightarrow> 'v option" where
  "map_get m k = map_of m k"

definition map_set :: "'k \<Rightarrow> 'v \<Rightarrow> ('k, 'v) js_map \<Rightarrow> ('k, 'v) js_map" where
  "map_set k v m = AList.update k v m"

definition map_del :: "'k \<Rightarrow> ('k, 'v) js_map \<Rightarrow> ('k, 'v) js_map" where
  "map_del k m = AList.delete k m"

definition map_has :: "('k, 'v) js_map \<Rightarrow> 'k \<Rightarrow> bool" where
  "map_has m k = (map_of m k \<noteq> None)"

definition map_keys :: "('k, 'v) js_map \<Rightarrow> 'k list" where
  "map_keys m = map fst m"

definition map_ok :: "('k, 'v) js_map \<Rightarrow> bool" where
  "map_ok m = distinct (map fst m)"

text \<open>\<open>new Map(pairs)\<close>: later pairs overwrite earlier ones.\<close>

definition map_from :: "('k \<times> 'v) list \<Rightarrow> ('k, 'v) js_map" where
  "map_from ps = fold (\<lambda>(k, v). map_set k v) ps []"

lemma map_get_Nil [simp]: "map_get [] k = None"
  by (simp add: map_get_def)

lemma map_get_set [simp]: "map_get (map_set k v m) k' = (if k' = k then Some v else map_get m k')"
  by (simp add: map_get_def map_set_def update_conv')

lemma map_get_del [simp]: "map_get (map_del k m) k' = (if k' = k then None else map_get m k')"
  by (simp add: map_get_def map_del_def delete_conv')

lemma map_has_get: "map_has m k \<longleftrightarrow> map_get m k \<noteq> None"
  by (simp add: map_has_def map_get_def)

lemma map_ok_Nil [simp]: "map_ok []"
  by (simp add: map_ok_def)

lemma map_ok_set [simp]: "map_ok m \<Longrightarrow> map_ok (map_set k v m)"
  by (simp add: map_ok_def map_set_def distinct_update)

lemma map_ok_del [simp]: "map_ok m \<Longrightarrow> map_ok (map_del k m)"
  by (simp add: map_ok_def map_del_def distinct_delete)

lemma map_get_Some_in: "map_get m k = Some v \<Longrightarrow> (k, v) \<in> set m"
  by (simp add: map_get_def map_of_SomeD)

lemma map_get_iff: "map_ok m \<Longrightarrow> map_get m k = Some v \<longleftrightarrow> (k, v) \<in> set m"
  by (simp add: map_get_def map_ok_def)

lemma set_map_keys: "set (map_keys m) = {k. map_get m k \<noteq> None}"
  by (auto simp: map_keys_def map_get_def map_of_eq_None_iff)

lemma map_keys_get: "k \<in> set (map_keys m) \<longleftrightarrow> (\<exists>v. map_get m k = Some v)"
  by (auto simp: set_map_keys)

lemma map_keys_set: "set (map_keys (map_set k v m)) = insert k (set (map_keys m))"
  by (auto simp: set_map_keys)

lemma map_ok_fold_set: "map_ok m \<Longrightarrow> map_ok (fold (\<lambda>(k, v). map_set k v) ps m)"
  by (induction ps arbitrary: m) auto

lemma map_ok_from [simp]: "map_ok (map_from ps)"
  by (simp add: map_from_def map_ok_fold_set)

lemma map_get_fold_set:
  "map_get (fold (\<lambda>(k, v). map_set k v) ps m) k =
     (case map_of (rev ps) k of None \<Rightarrow> map_get m k | Some v \<Rightarrow> Some v)"
  by (induction ps arbitrary: m) (auto simp: map_add_def split: option.splits)

lemma map_of_eq_rev: "distinct (map fst ps) \<Longrightarrow> map_of (rev ps) = map_of ps"
  by (metis distinct_rev map_of_inject_set rev_map set_rev)

lemma map_get_from: "map_get (map_from ps) k = map_of (rev ps) k"
  by (simp add: map_from_def map_get_fold_set split: option.splits)

lemma map_get_from_distinct: "distinct (map fst ps) \<Longrightarrow> map_get (map_from ps) k = map_of ps k"
  by (simp add: map_get_from map_of_eq_rev)

section \<open>Sorting\<close>

text \<open>
  \<open>Array.prototype.sort\<close> with a comparator is stable: insertion from the right, where an
  element stands before one it compares equal to. A comparator that orders by a key is
  \<^const>\<open>sort_key\<close>.
\<close>

primrec js_insort :: "('a \<Rightarrow> 'a \<Rightarrow> int) \<Rightarrow> 'a \<Rightarrow> 'a list \<Rightarrow> 'a list" where
  "js_insort cmp x [] = [x]"
| "js_insort cmp x (y # ys) = (if cmp x y \<le> 0 then x # y # ys else y # js_insort cmp x ys)"

definition js_sort :: "('a \<Rightarrow> 'a \<Rightarrow> int) \<Rightarrow> 'a list \<Rightarrow> 'a list" where
  "js_sort cmp xs = foldr (js_insort cmp) xs []"

lemma mset_js_insort [simp]: "mset (js_insort cmp x xs) = add_mset x (mset xs)"
  by (induction xs) auto

lemma mset_js_sort [simp]: "mset (js_sort cmp xs) = mset xs"
  by (induction xs) (auto simp: js_sort_def)

lemma set_js_sort [simp]: "set (js_sort cmp xs) = set xs"
  by (metis mset_js_sort set_mset_mset)

lemma length_js_sort [simp]: "length (js_sort cmp xs) = length xs"
  by (metis mset_js_sort size_mset)

lemma distinct_js_sort [simp]: "distinct (js_sort cmp xs) = distinct xs"
  by (metis mset_js_sort mset_eq_imp_distinct_iff)

section \<open>Lists and arithmetic\<close>

text \<open>A \<open>Set\<close> of the elements of a list iterates in the order of first occurrence.\<close>

definition js_set :: "'a list \<Rightarrow> 'a list" where
  "js_set xs = rev (remdups (rev xs))"

lemma js_set_simps [simp]: "set (js_set xs) = set xs" "distinct (js_set xs)"
  by (simp_all add: js_set_def)

lemma dropWhile_append_stop:
  "(\<And>x. x \<in> set xs \<Longrightarrow> P x) \<Longrightarrow> \<not> P y \<Longrightarrow> dropWhile P (xs @ y # ys) = y # ys"
  by (induction xs) auto

lemma takeWhile_append_stop:
  "(\<And>x. x \<in> set xs \<Longrightarrow> P x) \<Longrightarrow> \<not> P y \<Longrightarrow> takeWhile P (xs @ y # ys) = xs"
  by (induction xs) auto

lemma sort_key_perm:
  assumes "mset xs = mset ys" and "distinct (map f xs)"
  shows "sort_key f xs = sort_key f ys"
proof -
  have dist: "distinct (map f (sort_key f zs))" if "mset zs = mset xs" for zs
    using that assms(2) by (metis mset_eq_imp_distinct_iff mset_map mset_sort)
  have "map f (sort_key f xs) = map f (sort_key f ys)"
  proof (rule sorted_distinct_set_unique)
    show "set (map f (sort_key f xs)) = set (map f (sort_key f ys))"
      using assms(1) by (metis mset_eq_setD mset_map mset_sort)
  qed (use dist assms(1) in auto)
  moreover have "inj_on f (set (sort_key f xs) \<union> set (sort_key f ys))"
    using assms by (metis distinct_map mset_eq_setD set_sort sup.idem)
  ultimately show ?thesis by (rule map_inj_on)
qed

end
