(* ===== verification/JsText.thy ===== *)
theory JsText
  imports JsString
begin

text \<open>
  \<open>TextEncoder.encode\<close> and \<open>TextDecoder.decode\<close> as the Encoding Standard describes them:
  UTF-16 code units to scalar values (a lone surrogate becomes U+FFFD), scalar values to
  UTF-8 bytes and back, one U+FFFD for each maximal ill-formed piece, and a leading byte
  order mark dropped. The lemmas say on which strings the two are inverse.
\<close>

section \<open>Encoding\<close>

definition hi_surr :: "unit16 \<Rightarrow> bool" where
  "hi_surr c \<longleftrightarrow> 0xD800 \<le> unat c \<and> unat c \<le> 0xDBFF"

definition lo_surr :: "unit16 \<Rightarrow> bool" where
  "lo_surr c \<longleftrightarrow> 0xDC00 \<le> unat c \<and> unat c \<le> 0xDFFF"

fun code_points :: "jsstring \<Rightarrow> nat list" where
  "code_points [] = []"
| "code_points [c] = [if hi_surr c \<or> lo_surr c then 0xFFFD else unat c]"
| "code_points (c # d # cs) =
     (if hi_surr c then
        (if lo_surr d then (0x10000 + (unat c - 0xD800) * 1024 + (unat d - 0xDC00)) # code_points cs
         else 0xFFFD # code_points (d # cs))
      else (if lo_surr c then 0xFFFD else unat c) # code_points (d # cs))"

definition utf8_char :: "nat \<Rightarrow> bytes" where
  "utf8_char n =
     (if n < 0x80 then [of_nat n]
      else if n < 0x800 then [of_nat (0xC0 + n div 64), of_nat (0x80 + n mod 64)]
      else if n < 0x10000 then
        [of_nat (0xE0 + n div 4096), of_nat (0x80 + n div 64 mod 64), of_nat (0x80 + n mod 64)]
      else
        [of_nat (0xF0 + n div 262144), of_nat (0x80 + n div 4096 mod 64),
         of_nat (0x80 + n div 64 mod 64), of_nat (0x80 + n mod 64)])"

definition utf8_encode :: "jsstring \<Rightarrow> bytes" where
  "utf8_encode s = concat (map utf8_char (code_points s))"

section \<open>Decoding\<close>

definition cont_byte :: "nat \<Rightarrow> nat \<Rightarrow> byte \<Rightarrow> bool" where
  "cont_byte lo hi b \<longleftrightarrow> lo \<le> unat b \<and> unat b \<le> hi"

fun utf8_points :: "bytes \<Rightarrow> nat list" where
  "utf8_points [] = []"
| "utf8_points (b # bs) =
     (let n = unat b in
      if n < 0x80 then n # utf8_points bs
      else if 0xC2 \<le> n \<and> n \<le> 0xDF then
        (case bs of
           c # cs \<Rightarrow>
             if cont_byte 0x80 0xBF c then ((n - 0xC0) * 64 + (unat c - 0x80)) # utf8_points cs
             else 0xFFFD # utf8_points bs
         | [] \<Rightarrow> [0xFFFD])
      else if 0xE0 \<le> n \<and> n \<le> 0xEF then
        (case bs of
           c # cs \<Rightarrow>
             if cont_byte (if n = 0xE0 then 0xA0 else 0x80) (if n = 0xED then 0x9F else 0xBF) c then
               (case cs of
                  d # ds \<Rightarrow>
                    if cont_byte 0x80 0xBF d then
                      ((n - 0xE0) * 4096 + (unat c - 0x80) * 64 + (unat d - 0x80)) # utf8_points ds
                    else 0xFFFD # utf8_points cs
                | [] \<Rightarrow> [0xFFFD])
             else 0xFFFD # utf8_points bs
         | [] \<Rightarrow> [0xFFFD])
      else if 0xF0 \<le> n \<and> n \<le> 0xF4 then
        (case bs of
           c # cs \<Rightarrow>
             if cont_byte (if n = 0xF0 then 0x90 else 0x80) (if n = 0xF4 then 0x8F else 0xBF) c then
               (case cs of
                  d # ds \<Rightarrow>
                    if cont_byte 0x80 0xBF d then
                      (case ds of
                         e # es \<Rightarrow>
                           if cont_byte 0x80 0xBF e then
                             ((n - 0xF0) * 262144 + (unat c - 0x80) * 4096 + (unat d - 0x80) * 64
                               + (unat e - 0x80)) # utf8_points es
                           else 0xFFFD # utf8_points ds
                       | [] \<Rightarrow> [0xFFFD])
                    else 0xFFFD # utf8_points cs
                | [] \<Rightarrow> [0xFFFD])
             else 0xFFFD # utf8_points bs
         | [] \<Rightarrow> [0xFFFD])
      else 0xFFFD # utf8_points bs)"

declare utf8_points.simps(2) [simp del]

definition utf16_char :: "nat \<Rightarrow> jsstring" where
  "utf16_char n =
     (if n < 0x10000 then [of_nat n]
      else [of_nat (0xD800 + (n - 0x10000) div 1024), of_nat (0xDC00 + (n - 0x10000) mod 1024)])"

definition strip_bom :: "bytes \<Rightarrow> bytes" where
  "strip_bom bs = (if take 3 bs = [0xEF, 0xBB, 0xBF] then drop 3 bs else bs)"

definition utf8_decode :: "bytes \<Rightarrow> jsstring" where
  "utf8_decode bs = concat (map utf16_char (utf8_points (strip_bom bs)))"

section \<open>Round trip\<close>

definition scalar :: "nat \<Rightarrow> bool" where
  "scalar n \<longleftrightarrow> n < 0x110000 \<and> \<not> (0xD800 \<le> n \<and> n \<le> 0xDFFF)"

fun wf16 :: "jsstring \<Rightarrow> bool" where
  "wf16 [] = True"
| "wf16 [c] = (\<not> hi_surr c \<and> \<not> lo_surr c)"
| "wf16 (c # d # cs) = (if hi_surr c then lo_surr d \<and> wf16 cs else \<not> lo_surr c \<and> wf16 (d # cs))"

text \<open>Text that survives a round trip: no lone surrogate, no leading byte order mark.\<close>

definition text_ok :: "jsstring \<Rightarrow> bool" where
  "text_ok s \<longleftrightarrow> wf16 s \<and> (s = [] \<or> hd s \<noteq> 0xFEFF)"

definition ascii :: "jsstring \<Rightarrow> bool" where
  "ascii s \<longleftrightarrow> (\<forall>c \<in> set s. unat c < 128)"

lemma base64_digits:
  "n div 4096 * 4096 + n div 64 mod 64 * 64 + n mod 64 = (n::nat)"
  "n div 262144 * 262144 + n div 4096 mod 64 * 4096 + n div 64 mod 64 * 64 + n mod 64 = n"
proof -
  have d: "n div 4096 = n div 64 div 64" "n div 262144 = n div 64 div 64 div 64"
    by (simp_all add: div_mult2_eq [symmetric])
  have *: "m div 64 * 64 + m mod 64 = m" for m :: nat by simp
  show 1: "n div 4096 * 4096 + n div 64 mod 64 * 64 + n mod 64 = n"
    using * [of n] * [of "n div 64"] unfolding d by linarith
  show "n div 262144 * 262144 + n div 4096 mod 64 * 4096 + n div 64 mod 64 * 64 + n mod 64 = n"
    using 1 * [of "n div 64 div 64"] unfolding d by linarith
qed

lemma utf8_points_char: "scalar n \<Longrightarrow> utf8_points (utf8_char n @ rest) = n # utf8_points rest"
proof -
  assume n: "scalar n"
  consider "n < 0x80" | "0x80 \<le> n" "n < 0x800" | "0x800 \<le> n" "n < 0x10000" | "0x10000 \<le> n"
    by linarith
  then show ?thesis
  proof cases
    case 1
    then show ?thesis by (simp add: utf8_char_def utf8_points.simps)
  next
    case 2
    obtain q r where n: "n = r + q * 64" and qr: "q < 32" "2 \<le> q" "r < 64"
    proof
      show "n = n mod 64 + n div 64 * 64" by simp
    qed (use 2 in auto)
    show ?thesis unfolding n using qr
      by (simp add: utf8_char_def utf8_points.simps cont_byte_def Let_def del: of_nat_add)
  next
    case 3
    obtain a b c where abc: "n div 4096 = a" "n div 64 mod 64 = b" "n mod 64 = c" by blast
    then have eq: "a * 4096 + b * 64 + c = n" and "b < 64" "c < 64"
      using base64_digits [of n] by auto
    moreover have "a < 16" "a = 0 \<longrightarrow> 32 \<le> b" "a = 13 \<longrightarrow> b \<le> 31"
      using 3 n eq \<open>b < 64\<close> \<open>c < 64\<close> unfolding scalar_def by linarith+
    ultimately show ?thesis using 3
      by (simp add: utf8_char_def utf8_points.simps cont_byte_def Let_def abc del: of_nat_add)
  next
    case 4
    obtain z a b c where abc: "n div 262144 = z" "n div 4096 mod 64 = a" "n div 64 mod 64 = b"
      "n mod 64 = c" by blast
    then have eq: "z * 262144 + a * 4096 + b * 64 + c = n" and "a < 64" "b < 64" "c < 64"
      using base64_digits [of n] by auto
    moreover have "z < 5" "z = 0 \<longrightarrow> 16 \<le> a" "z = 4 \<longrightarrow> a \<le> 15"
      using 4 n eq \<open>a < 64\<close> \<open>b < 64\<close> \<open>c < 64\<close> unfolding scalar_def by linarith+
    ultimately show ?thesis using 4
      by (simp add: utf8_char_def utf8_points.simps cont_byte_def Let_def abc del: of_nat_add)
  qed
qed

lemma utf8_points_concat:
  "(\<And>n. n \<in> set ns \<Longrightarrow> scalar n) \<Longrightarrow> utf8_points (concat (map utf8_char ns)) = ns"
  by (induction ns) (auto simp: utf8_points_char)

lemma scalar_code_points: "n \<in> set (code_points s) \<Longrightarrow> scalar n"
proof (induction s rule: code_points.induct)
  case (2 c)
  then show ?case
    by (auto simp: scalar_def hi_surr_def lo_surr_def intro: less_trans [OF unat_unit_less])
next
  case (3 c d cs)
  then show ?case
    by (auto simp: scalar_def hi_surr_def lo_surr_def intro: less_trans [OF unat_unit_less]
        split: if_splits)
qed simp

lemma utf16_code_points: "wf16 s \<Longrightarrow> concat (map utf16_char (code_points s)) = s"
proof (induction s rule: code_points.induct)
  case (2 c)
  then show ?case by (simp add: utf16_char_def)
next
  case (3 c d cs)
  show ?case
  proof (cases "hi_surr c")
    case True
    let ?n = "0x10000 + (unat c - 0xD800) * 1024 + (unat d - 0xDC00)"
    have d: "lo_surr d" and wf: "wf16 cs" using True "3.prems" by auto
    have lt: "unat d - 0xDC00 < 1024" using d by (auto simp: lo_surr_def)
    have "(?n - 0x10000) div 1024 = unat c - 0xD800" "(?n - 0x10000) mod 1024 = unat d - 0xDC00"
      using lt by (simp_all add: div_mult_self3)
    moreover have "0xD800 + (unat c - 0xD800) = unat c" "0xDC00 + (unat d - 0xDC00) = unat d"
      using True d by (auto simp: hi_surr_def lo_surr_def)
    ultimately have "utf16_char ?n = [c, d]"
      by (simp add: utf16_char_def del: of_nat_add)
    with True d wf 3 show ?thesis by simp
  next
    case False
    with 3 show ?thesis by (simp add: utf16_char_def)
  qed
qed simp

lemma utf8_points_bom: "utf8_points (0xEF # 0xBB # 0xBF # r) = 0xFEFF # utf8_points r"
  by (simp add: utf8_points.simps cont_byte_def Let_def)

lemma code_points_hd:
  assumes "wf16 (c # cs)" and "code_points (c # cs) = 0xFEFF # ns"
  shows "c = 0xFEFF"
proof -
  have "unat c = 0xFEFF"
    using assms by (cases cs) (auto simp: lo_surr_def hi_surr_def split: if_splits)
  then show ?thesis by (simp add: word_unat_eq_iff)
qed

lemma strip_bom_encode: "text_ok s \<Longrightarrow> strip_bom (utf8_encode s) = utf8_encode s"
proof (rule ccontr)
  assume s: "text_ok s" and "strip_bom (utf8_encode s) \<noteq> utf8_encode s"
  then have "take 3 (utf8_encode s) = [0xEF, 0xBB, 0xBF]" by (auto simp: strip_bom_def split: if_splits)
  then obtain r where "utf8_encode s = 0xEF # 0xBB # 0xBF # r"
    by (metis append_Cons append_Nil append_take_drop_id)
  moreover have "utf8_points (utf8_encode s) = code_points s"
    by (simp add: utf8_encode_def utf8_points_concat scalar_code_points)
  ultimately have cp: "code_points s = 0xFEFF # utf8_points r" by (simp add: utf8_points_bom)
  then obtain c cs where "s = c # cs" by (cases s) auto
  with s cp code_points_hd show False by (auto simp: text_ok_def)
qed

theorem utf8_roundtrip: "text_ok s \<Longrightarrow> utf8_decode (utf8_encode s) = s"
  unfolding utf8_decode_def strip_bom_encode
  by (simp add: utf8_encode_def utf8_points_concat scalar_code_points utf16_code_points text_ok_def
      strip_bom_encode [unfolded utf8_encode_def])

section \<open>Pieces\<close>

lemma code_points_append: "wf16 s \<Longrightarrow> code_points (s @ t) = code_points s @ code_points t"
proof (induction s rule: code_points.induct)
  case (2 c)
  then show ?case by (cases t) auto
qed (auto split: if_splits)

lemma utf8_encode_append: "wf16 s \<Longrightarrow> utf8_encode (s @ t) = utf8_encode s @ utf8_encode t"
  by (simp add: utf8_encode_def code_points_append)

lemma utf8_encode_Nil [simp]: "utf8_encode [] = []"
  by (simp add: utf8_encode_def)

lemma wf16_append: "wf16 s \<Longrightarrow> wf16 t \<Longrightarrow> wf16 (s @ t)"
proof (induction s rule: code_points.induct)
  case (2 c)
  then show ?case by (cases t) auto
qed (auto split: if_splits)

lemma ascii_simps [simp]:
  "ascii []" "ascii (c # s) \<longleftrightarrow> unat c < 128 \<and> ascii s" "ascii (s @ t) \<longleftrightarrow> ascii s \<and> ascii t"
  by (auto simp: ascii_def)

lemma ascii_wf16: "ascii s \<Longrightarrow> wf16 s"
  by (induction s rule: wf16.induct) (auto simp: hi_surr_def lo_surr_def)

lemma ascii_text_ok: "ascii s \<Longrightarrow> text_ok s"
  by (cases s) (auto simp: text_ok_def ascii_wf16)

lemma code_points_ascii: "ascii s \<Longrightarrow> code_points s = map unat s"
  by (induction s rule: code_points.induct) (auto simp: hi_surr_def lo_surr_def)

lemma utf8_encode_ascii: "ascii s \<Longrightarrow> utf8_encode s = map ucast s"
proof (induction s)
  case (Cons c s)
  then have "wf16 [c]" by (simp add: hi_surr_def lo_surr_def)
  then have "utf8_encode ([c] @ s) = utf8_encode [c] @ utf8_encode s" by (rule utf8_encode_append)
  with Cons show ?case
    by (simp add: utf8_encode_def code_points_ascii utf8_char_def)
qed simp

lemma utf8_decode_ascii_encode: "ascii s \<Longrightarrow> utf8_decode (map ucast s) = s"
  by (metis ascii_text_ok utf8_encode_ascii utf8_roundtrip)

lemma utf8_char_low_byte:
  assumes "b \<in> set (utf8_char n)" and "unat b < 128" and "n < 0x110000"
  shows "n = unat b"
proof (cases "n < 0x80")
  case True
  with assms show ?thesis by (simp add: utf8_char_def)
next
  case False
  have "n div 64 < 0x4400" "n div 4096 < 0x110" "n div 262144 < 5" using assms(3) by auto
  with assms False show ?thesis
    by (auto simp: utf8_char_def split: if_splits simp del: of_nat_add)
qed

lemma code_points_low:
  "n \<in> set (code_points s) \<Longrightarrow> n < 128 \<Longrightarrow> of_nat n \<in> set s"
  by (induction s rule: code_points.induct) (auto split: if_splits)

text \<open>A byte below 128 of the encoding stands for that character of the string.\<close>

lemma utf8_encode_low_byte:
  assumes "b \<in> set (utf8_encode s)" and "unat b < 128"
  shows "ucast b \<in> set s"
proof -
  obtain n where n: "n \<in> set (code_points s)" "b \<in> set (utf8_char n)"
    using assms(1) by (auto simp: utf8_encode_def)
  then have "n = unat b"
    using assms(2) scalar_code_points utf8_char_low_byte by (auto simp: scalar_def)
  with n(1) assms(2) have "of_nat (unat b) \<in> set s" using code_points_low by blast
  then show ?thesis by simp
qed

lemma utf8_encode_no_byte: "ucast b \<notin> set s \<Longrightarrow> unat b < 128 \<Longrightarrow> b \<notin> set (utf8_encode s)"
  using utf8_encode_low_byte by blast

lemma ascii_nat_str [simp]: "ascii (nat_str n)"
  using is_digit_range nat_str_digits by (fastforce simp: ascii_def)

lemma ascii_radix_str: "2 \<le> b \<Longrightarrow> b \<le> 36 \<Longrightarrow> ascii (radix_str b n)"
  using is_digit_range radix_str_digits by (fastforce simp: ascii_def)

end
