(* ===== verification/GitObjects.thy ===== *)
theory GitObjects
  imports JsText
begin

text \<open>
  The data of the git layer (\<open>takos-git/local/git-objects.ts\<close>), object ids and byte
  concatenation (\<open>core/sha1.ts\<close>, \<open>shared/utils/encoding-utils.ts\<close>). The SHA-1 digest of
  the platform's \<open>crypto.subtle\<close> is a parameter \<open>digest\<close> wherever it is used.
\<close>

section \<open>Data\<close>

text \<open>
  The type of an object is kept as the text found in its header: the source casts that text
  to its union of literals without checking it.
\<close>

record tree_entry =
  te_mode :: jsstring
  te_name :: jsstring
  te_sha :: jsstring

record git_signature =
  sig_name :: jsstring
  sig_email :: jsstring
  sig_timestamp :: js_num
  sig_tz :: jsstring

record commit_body =
  cm_tree :: jsstring
  cm_parents :: "jsstring list"
  cm_author :: git_signature
  cm_committer :: git_signature
  cm_message :: jsstring

record git_commit = commit_body +
  cm_sha :: jsstring

definition MODE_REGULAR :: jsstring where "MODE_REGULAR = js ''100644''"
definition MODE_SYMLINK :: jsstring where "MODE_SYMLINK = js ''120000''"
definition MODE_DIRECTORY :: jsstring where "MODE_DIRECTORY = js ''040000''"

definition is_dir_mode :: "jsstring \<Rightarrow> bool" where
  "is_dir_mode m \<longleftrightarrow> m = js ''040000'' \<or> m = js ''40000''"

text \<open>\<open>/^[0-9a-f]{40}$/\<close>\<close>

definition is_lower_hex :: "unit16 \<Rightarrow> bool" where
  "is_lower_hex c \<longleftrightarrow> 48 \<le> unat c \<and> unat c \<le> 57 \<or> 97 \<le> unat c \<and> unat c \<le> 102"

definition isValidSha :: "jsstring \<Rightarrow> bool" where
  "isValidSha sha \<longleftrightarrow> length sha = 40 \<and> list_all is_lower_hex sha"

section \<open>Hexadecimal\<close>

definition byte_hex :: "byte \<Rightarrow> jsstring" where
  "byte_hex b = pad_start 2 (js_ch CHR ''0'') (radix_str 16 (unat b))"

definition bytesToHex :: "bytes \<Rightarrow> jsstring" where
  "bytesToHex bs = js_join [] (map byte_hex bs)"

text \<open>A store into a \<open>Uint8Array\<close> keeps the number modulo 256; \<open>NaN\<close> becomes 0.\<close>

fun to_uint8 :: "js_num \<Rightarrow> byte" where
  "to_uint8 NaN = 0"
| "to_uint8 (Num i) = word_of_int i"

text \<open>An odd last character is read but its byte lies outside the array and is dropped.\<close>

fun hexToBytes :: "jsstring \<Rightarrow> bytes" where
  "hexToBytes (a # b # cs) = to_uint8 (parse_int [a, b] 16) # hexToBytes cs"
| "hexToBytes _ = []"

lemma byte_high_nibble [simp]: "unat (b :: byte) div 16 < 16"
  by (rule less_mult_imp_div_less) simp

lemma byte_hex_digits: "byte_hex b = [digit_char (unat b div 16), digit_char (unat b mod 16)]"
proof (cases "unat b < 16")
  case True
  then show ?thesis
    by (simp add: byte_hex_def radix_str.simps pad_start_def js_ch_def digit_char_def)
next
  case False
  then show ?thesis
    by (simp add: byte_hex_def radix_str.simps [of _ "unat b"] radix_str.simps [of _ "unat b div 16"]
        pad_start_def)
qed

lemma js_join_Nil [simp]: "js_join [] xs = concat xs"
  by (induction "[] :: 'a list" xs rule: js_join.induct) auto

lemma bytesToHex_simps [simp]:
  "bytesToHex [] = []" "bytesToHex (b # bs) = byte_hex b @ bytesToHex bs"
  by (simp_all add: bytesToHex_def)

lemma length_bytesToHex [simp]: "length (bytesToHex bs) = 2 * length bs"
  by (induction bs) (auto simp: byte_hex_digits)

lemma is_lower_hex_digit: "d < 16 \<Longrightarrow> is_lower_hex (digit_char d)"
  by (auto simp: is_lower_hex_def digit_char_def simp del: of_nat_add)

lemma lower_hex_digit: "is_lower_hex c \<Longrightarrow> \<exists>d < 16. c = digit_char d \<and> digit_val c = Some d"
proof -
  assume c: "is_lower_hex c"
  define d where "d = (if unat c \<le> 57 then unat c - 48 else unat c - 87)"
  have "d < 16" using c by (auto simp: is_lower_hex_def d_def)
  moreover have "c = digit_char d"
    using c by (auto simp: is_lower_hex_def d_def digit_char_def word_unat_eq_iff simp del: of_nat_add)
  ultimately show ?thesis using digit_val_char by auto
qed

lemma parse_two_hex:
  assumes "x < 16" "y < 16"
  shows "parse_int [digit_char x, digit_char y] 16 = Num (int (16 * x + y))"
proof -
  have hx: "is_digit 16 (digit_char x)" and hy: "is_digit 16 (digit_char y)"
    using assms by (simp_all add: is_digit_char)
  have "digit_char y \<noteq> js_ch CHR ''x''" "digit_char y \<noteq> js_ch CHR ''X''"
    using hy is_digit_def digit_val_def by (auto simp: js_ch_def)
  then have "strip_0x 16 [digit_char x, digit_char y] = [digit_char x, digit_char y]"
    by (simp add: strip_0x_def js_starts_with_def js_def js_ch_def)
  moreover have "digit_char x \<noteq> 45 \<and> digit_char x \<noteq> 43" "\<not> js_ws (digit_char x)"
    using digit_not_sign [OF hx] digit_not_ws [OF hx] by auto
  ultimately show ?thesis using hx hy assms
    by (simp add: parse_int_def parse_digits_def digits_val_def digit_val_char js_ch_def Let_def)
qed

theorem hexToBytes_bytesToHex [simp]: "hexToBytes (bytesToHex bs) = bs"
proof (induction bs)
  case (Cons b bs)
  have "parse_int (byte_hex b) 16 = Num (int (unat b))"
    using parse_two_hex [of "unat b div 16" "unat b mod 16"] by (simp add: byte_hex_digits)
  with Cons show ?case by (simp add: byte_hex_digits)
qed simp

lemma bytesToHex_hexToBytes:
  "even (length s) \<Longrightarrow> list_all is_lower_hex s \<Longrightarrow> bytesToHex (hexToBytes s) = s"
proof (induction s rule: hexToBytes.induct)
  case (1 a b cs)
  then obtain x y where x: "x < 16" "a = digit_char x" and y: "y < 16" "b = digit_char y"
    using lower_hex_digit [of a] lower_hex_digit [of b] by auto
  have "unat (word_of_int (int (16 * x + y)) :: byte) = 16 * x + y"
    using x y by (simp del: of_nat_add of_nat_mult)
  then have "byte_hex (to_uint8 (parse_int [a, b] 16)) = [a, b]"
    using x y by (simp add: byte_hex_digits parse_two_hex)
  with 1 show ?case by simp
qed auto

lemma length_hexToBytes [simp]: "length (hexToBytes s) = length s div 2"
  by (induction s rule: hexToBytes.induct) auto

lemma isValidSha_hex: "length bs = 20 \<Longrightarrow> isValidSha (bytesToHex bs)"
proof -
  have "list_all is_lower_hex (bytesToHex bs)"
    by (induction bs) (auto simp: byte_hex_digits is_lower_hex_digit)
  then show "length bs = 20 \<Longrightarrow> ?thesis" by (simp add: isValidSha_def)
qed

lemma isValidSha_roundtrip: "isValidSha s \<Longrightarrow> bytesToHex (hexToBytes s) = s"
  by (simp add: isValidSha_def bytesToHex_hexToBytes)

lemma length_sha_bytes: "isValidSha s \<Longrightarrow> length (hexToBytes s) = 20"
  by (simp add: isValidSha_def)

section \<open>Concatenation and SHA-1\<close>

text \<open>\<open>result.set(arr, offset)\<close> into a zeroed array of the total length.\<close>

definition set_at :: "'a list \<Rightarrow> nat \<Rightarrow> 'a list \<Rightarrow> 'a list" where
  "set_at xs off ys = take off xs @ ys @ drop (off + length ys) xs"

definition concatBytes :: "bytes list \<Rightarrow> bytes" where
  "concatBytes arrays =
     fst (fold (\<lambda>arr (result, off). (set_at result off arr, off + length arr)) arrays
       (replicate (sum_list (map length arrays)) 0, 0))"

lemma concatBytes_fold:
  "fst (fold (\<lambda>arr (result, off). (set_at result off arr, off + length arr)) arrays
     (pre @ replicate (sum_list (map length arrays)) 0, length pre)) = pre @ concat arrays"
proof (induction arrays arbitrary: pre)
  case (Cons a as)
  have "set_at (pre @ replicate (length a + n) 0) (length pre) a = (pre @ a) @ replicate n 0" for n
    by (simp add: set_at_def)
  with Cons [of "pre @ a"] show ?case by simp
qed simp

lemma concatBytes_eq [simp]: "concatBytes arrays = concat arrays"
  using concatBytes_fold [of arrays "[]"] by (simp add: concatBytes_def)

definition sha1 :: "(bytes \<Rightarrow> bytes) \<Rightarrow> bytes \<Rightarrow> jsstring" where
  "sha1 digest data = bytesToHex (digest data)"

end
