(* ===== verification/ByteCodec.thy ===== *)
theory ByteCodec
  imports JsText
begin

text \<open>
  The interface between the writers and the readers of the byte formats: an encoder of one
  item and a decoder that reads one item at an offset of a buffer and returns what it read
  with the offset of the next one. A provider proves the law for one item in any context;
  what the clients need of sequences of items is proved here once.
\<close>

locale byte_codec =
  fixes enc :: "'a \<Rightarrow> bytes"
    and dec :: "bytes \<Rightarrow> nat \<Rightarrow> ('b \<times> nat) res"
    and view :: "'a \<Rightarrow> 'b"
    and ok :: "'a \<Rightarrow> bool"
  assumes dec_enc:
    "ok a \<Longrightarrow> dec (pre @ enc a @ post) (length pre) = Inr (view a, length pre + length (enc a))"
begin

text \<open>Distinct views have distinct encodings: no two items are written alike.\<close>

lemma enc_inj_view: "ok a \<Longrightarrow> ok b \<Longrightarrow> enc a = enc b \<Longrightarrow> view a = view b"
  using dec_enc [of a "[]" "[]"] dec_enc [of b "[]" "[]"] by simp

text \<open>No encoding is a proper prefix of another one with a different view.\<close>

lemma enc_prefix_free: "ok a \<Longrightarrow> ok b \<Longrightarrow> enc a @ s = enc b @ t \<Longrightarrow> view a = view b \<and> enc a = enc b"
  using dec_enc [of a "[]" s] dec_enc [of b "[]" t] by (simp add: append_eq_append_conv)

lemma dec_enc_at:
  assumes "ok a" and "buf = pre @ enc a @ post" and "off = length pre"
  shows "dec buf off = Inr (view a, off + length (enc a))"
  using assms dec_enc by simp

end

text \<open>A loop that decodes items to the end of the buffer.\<close>

locale stream_codec = byte_codec +
  fixes loop :: "bytes \<Rightarrow> nat \<Rightarrow> 'b list res"
  assumes enc_pos: "ok a \<Longrightarrow> enc a \<noteq> []"
    and loop_end: "loop buf (length buf) = Inr []"
    and loop_step:
      "off < length buf \<Longrightarrow> dec buf off = Inr (x, nxt) \<Longrightarrow> off < nxt \<Longrightarrow> nxt \<le> length buf \<Longrightarrow>
        loop buf off = bind_res (loop buf nxt) (\<lambda>xs. Inr (x # xs))"
begin

lemma loop_concat:
  "(\<And>a. a \<in> set as \<Longrightarrow> ok a) \<Longrightarrow>
    loop (pre @ concat (map enc as)) (length pre) = Inr (map view as)"
proof (induction as arbitrary: pre)
  case Nil
  then show ?case using loop_end [of pre] by simp
next
  case (Cons a as)
  let ?buf = "pre @ enc a @ concat (map enc as)"
  have "dec ?buf (length pre) = Inr (view a, length pre + length (enc a))"
    using Cons.prems by (simp add: dec_enc)
  then have "loop ?buf (length pre) =
      bind_res (loop ?buf (length pre + length (enc a))) (\<lambda>xs. Inr (view a # xs))"
    using Cons.prems enc_pos [of a] by (intro loop_step) auto
  moreover have "loop ((pre @ enc a) @ concat (map enc as)) (length (pre @ enc a)) = Inr (map view as)"
    using Cons.prems by (intro Cons.IH) auto
  ultimately show ?case by simp
qed

lemma loop_all:
  "(\<And>a. a \<in> set as \<Longrightarrow> ok a) \<Longrightarrow> loop (concat (map enc as)) 0 = Inr (map view as)"
  using loop_concat [of as "[]"] by simp

end

end
