(* ===== verification/GitCodec.thy ===== *)
theory GitCodec
  imports GitObjects ByteCodec
begin

text \<open>
  Git object encode and decode (\<open>takos-git/local/core/object.ts\<close>): blobs, trees with git's
  directory-aware order, commits as text, the object header and the object id. The lemmas
  show that decoding inverts encoding on well-formed data and that a tree's bytes do not
  depend on the order of its entries.
\<close>

section \<open>Encoding\<close>

definition SP :: unit16 where "SP = 32"
definition NL :: unit16 where "NL = 10"
definition NUL :: unit16 where "NUL = 0"

definition encodeBlob :: "bytes \<Rightarrow> bytes" where
  "encodeBlob content =
     concatBytes [utf8_encode (js ''blob '' @ nat_str (length content) @ [NUL]), content]"

text \<open>Git sorts entries as if directory names ended in a slash.\<close>

definition tree_sort_name :: "tree_entry \<Rightarrow> jsstring" where
  "tree_sort_name e =
     (if te_mode e = js ''40000'' \<or> te_mode e = js ''040000'' then te_name e @ js ''/'' else te_name e)"

definition strip_zeros :: "jsstring \<Rightarrow> jsstring" where
  "strip_zeros m = dropWhile (\<lambda>c. c = js_ch CHR ''0'') m"

definition encode_tree_entry :: "tree_entry \<Rightarrow> bytes" where
  "encode_tree_entry e =
     utf8_encode (strip_zeros (te_mode e) @ [SP] @ te_name e @ [NUL]) @ hexToBytes (te_sha e)"

definition encodeTreeContent :: "tree_entry list \<Rightarrow> bytes" where
  "encodeTreeContent entries =
     concatBytes (map encode_tree_entry (sort_key tree_sort_name entries))"

definition encodeTree :: "tree_entry list \<Rightarrow> bytes" where
  "encodeTree entries =
     (let content = concatBytes (map encode_tree_entry (sort_key tree_sort_name entries)) in
      concatBytes [utf8_encode (js ''tree '' @ nat_str (length content) @ [NUL]), content])"

definition formatSignature :: "jsstring \<Rightarrow> git_signature \<Rightarrow> jsstring" where
  "formatSignature prefix sig =
     prefix @ js '' '' @ sig_name sig @ js '' <'' @ sig_email sig @ js ''> ''
       @ num_str (sig_timestamp sig) @ js '' '' @ sig_tz sig"

definition commit_header_lines :: "'a commit_body_scheme \<Rightarrow> jsstring list" where
  "commit_header_lines c =
     (js ''tree '' @ cm_tree c) # map (\<lambda>p. js ''parent '' @ p) (cm_parents c)
       @ [formatSignature (js ''author'') (cm_author c),
          formatSignature (js ''committer'') (cm_committer c)]"

definition commit_lines :: "'a commit_body_scheme \<Rightarrow> jsstring list" where
  "commit_lines c = commit_header_lines c @ [[], cm_message c]"

definition encodeCommitContent :: "'a commit_body_scheme \<Rightarrow> bytes" where
  "encodeCommitContent c = utf8_encode (js_join [NL] (commit_lines c))"

definition encodeCommit :: "'a commit_body_scheme \<Rightarrow> bytes" where
  "encodeCommit c =
     (let content = utf8_encode (js_join [NL] (commit_lines c)) in
      concatBytes [utf8_encode (js ''commit '' @ nat_str (length content) @ [NUL]), content])"

section \<open>Hashing\<close>

definition hashObject :: "(bytes \<Rightarrow> bytes) \<Rightarrow> jsstring \<Rightarrow> bytes \<Rightarrow> jsstring" where
  "hashObject digest type content =
     (let header = utf8_encode (type @ js '' '' @ nat_str (length content) @ [NUL]) in
      sha1 digest (concatBytes [header, content]))"

definition hashBlob :: "(bytes \<Rightarrow> bytes) \<Rightarrow> bytes \<Rightarrow> jsstring" where
  "hashBlob digest content = hashObject digest (js ''blob'') content"

definition hashTree :: "(bytes \<Rightarrow> bytes) \<Rightarrow> tree_entry list \<Rightarrow> jsstring" where
  "hashTree digest entries = hashObject digest (js ''tree'') (encodeTreeContent entries)"

definition hashCommit :: "(bytes \<Rightarrow> bytes) \<Rightarrow> 'a commit_body_scheme \<Rightarrow> jsstring" where
  "hashCommit digest c = hashObject digest (js ''commit'') (encodeCommitContent c)"

section \<open>Decoding\<close>

definition decodeObjectHeader :: "bytes \<Rightarrow> (jsstring \<times> js_num \<times> nat) res" where
  "decodeObjectHeader raw =
     (case index_of 0 raw of
        None \<Rightarrow> Inl (Error ''Invalid git object: no null byte in header'')
      | Some nullIdx \<Rightarrow>
          let headerStr = utf8_decode (js_slice raw 0 nullIdx) in
          (case index_of SP headerStr of
             None \<Rightarrow> Inl (Error ''Invalid git object header'')
           | Some spaceIdx \<Rightarrow>
               Inr (js_slice headerStr 0 spaceIdx, parse_int (drop (spaceIdx + 1) headerStr) 10,
                    nullIdx + 1)))"

definition decodeObject :: "bytes \<Rightarrow> (jsstring \<times> bytes) res" where
  "decodeObject raw =
     bind_res (decodeObjectHeader raw) (\<lambda>(type, _, contentOffset).
       Inr (type, drop contentOffset raw))"

text \<open>One round of the loop of \<open>decodeTree\<close>; \<open>None\<close> is one of its three \<open>break\<close>s.\<close>

definition decode_tree_entry :: "bytes \<Rightarrow> nat \<Rightarrow> (tree_entry \<times> nat) option" where
  "decode_tree_entry content offset =
     (case index_from 0x20 content offset of
        None \<Rightarrow> None
      | Some spaceIdx \<Rightarrow>
          let mode = utf8_decode (js_slice content offset spaceIdx);
              normalizedMode = pad_start 6 (js_ch CHR ''0'') mode in
          (case index_from 0 content (spaceIdx + 1) of
             None \<Rightarrow> None
           | Some nullIdx \<Rightarrow>
               let name = utf8_decode (js_slice content (spaceIdx + 1) nullIdx);
                   shaBytes = js_slice content (nullIdx + 1) (nullIdx + 21) in
               if length shaBytes < 20 then None
               else Some (\<lparr>te_mode = normalizedMode, te_name = name, te_sha = bytesToHex shaBytes\<rparr>,
                          nullIdx + 21)))"

lemma index_from_ge: "index_from x xs i = Some k \<Longrightarrow> i \<le> k \<and> k < length xs"
  by (auto simp: index_from_def dest!: index_of_Some)

lemma decode_tree_entry_next:
  "decode_tree_entry content offset = Some (e, nxt) \<Longrightarrow> offset < nxt \<and> nxt \<le> length content"
  by (auto simp: decode_tree_entry_def Let_def js_slice_def split: option.splits if_splits
      dest!: index_from_ge)

function decode_tree_loop :: "bytes \<Rightarrow> nat \<Rightarrow> tree_entry list" where
  "decode_tree_loop content offset =
     (if offset < length content then
        (case decode_tree_entry content offset of
           None \<Rightarrow> []
         | Some (e, nxt) \<Rightarrow> e # decode_tree_loop content nxt)
      else [])"
  by pat_completeness auto
termination
  by (relation "measure (\<lambda>(content, offset). length content - offset)")
    (auto dest!: decode_tree_entry_next)

declare decode_tree_loop.simps [simp del]

definition decodeTree :: "bytes \<Rightarrow> tree_entry list" where
  "decodeTree content = decode_tree_loop content 0"

definition parseSignature :: "jsstring \<Rightarrow> git_signature res" where
  "parseSignature raw =
     (case last_index_of (js_ch CHR ''>'') raw of
        None \<Rightarrow> Inl (Error ''Invalid signature: no email'')
      | Some emailEnd \<Rightarrow>
          (case last_index_of (js_ch CHR ''<'') (take (emailEnd + 1) raw) of
             None \<Rightarrow> Inl (Error ''Invalid signature: no email start'')
           | Some emailStart \<Rightarrow>
               let name = js_trim (js_slice raw 0 emailStart);
                   email = js_slice raw (emailStart + 1) emailEnd;
                   rest = js_split SP (js_trim (drop (emailEnd + 1) raw));
                   timestamp = parse_int (rest ! 0) 10;
                   tzOffset = (if 1 < length rest \<and> rest ! 1 \<noteq> [] then rest ! 1 else js ''+0000'') in
               Inr \<lparr>sig_name = name, sig_email = email, sig_timestamp = timestamp, sig_tz = tzOffset\<rparr>))"

text \<open>The variables the header loop of \<open>decodeCommit\<close> assigns.\<close>

record commit_scan =
  sc_tree :: jsstring
  sc_parents :: "jsstring list"
  sc_author :: "git_signature option"
  sc_committer :: "git_signature option"

definition scan_commit_line :: "jsstring \<Rightarrow> commit_scan \<Rightarrow> commit_scan res" where
  "scan_commit_line line s =
     (if js_starts_with line (js ''tree '') then Inr (s\<lparr>sc_tree := drop 5 line\<rparr>)
      else if js_starts_with line (js ''parent '') then
        Inr (s\<lparr>sc_parents := sc_parents s @ [drop 7 line]\<rparr>)
      else if js_starts_with line (js ''author '') then
        bind_res (parseSignature (drop 7 line)) (\<lambda>sig. Inr (s\<lparr>sc_author := Some sig\<rparr>))
      else if js_starts_with line (js ''committer '') then
        bind_res (parseSignature (drop 10 line)) (\<lambda>sig. Inr (s\<lparr>sc_committer := Some sig\<rparr>))
      else Inr s)"

definition decodeCommit :: "bytes \<Rightarrow> git_commit res" where
  "decodeCommit content =
     (let text = utf8_decode content;
          blankLineIdx = js_find [NL, NL] text;
          headerSection = (case blankLineIdx of Some i \<Rightarrow> js_slice text 0 i | None \<Rightarrow> text);
          message = (case blankLineIdx of Some i \<Rightarrow> drop (i + 2) text | None \<Rightarrow> []) in
      bind_res
        (fold_res scan_commit_line (js_split NL headerSection)
          \<lparr>sc_tree = [], sc_parents = [], sc_author = None, sc_committer = None\<rparr>)
        (\<lambda>s. if sc_tree s = [] then Inl (Error ''Invalid commit object: missing required fields'')
             else (case (sc_author s, sc_committer s) of
                (Some author, Some committer) \<Rightarrow>
                  Inr \<lparr>cm_tree = sc_tree s, cm_parents = sc_parents s, cm_author = author,
                       cm_committer = committer, cm_message = message, cm_sha = []\<rparr>
              | _ \<Rightarrow> Inl (Error ''Invalid commit object: missing required fields''))))"

section \<open>Object headers\<close>

definition object_type_ok :: "jsstring \<Rightarrow> bool" where
  "object_type_ok t \<longleftrightarrow> ascii t \<and> SP \<notin> set t \<and> NUL \<notin> set t"

definition loose_object :: "jsstring \<Rightarrow> bytes \<Rightarrow> bytes" where
  "loose_object type content =
     utf8_encode (type @ js '' '' @ nat_str (length content) @ [NUL]) @ content"

lemma js_simps: "js [] = []" "js (c # s) = of_char c # js s"
  by (simp_all add: js_def)

lemma nat_str_no: "is_digit 10 c \<or> c \<notin> set (nat_str n)"
  using nat_str_digits by blast

lemma SP_nat_str [simp]: "SP \<notin> set (nat_str n)" "32 \<notin> set (nat_str n)"
  using nat_str_no [of 32 n] is_digit_range [of 10 32] by (auto simp: SP_def)

lemma NUL_nat_str [simp]: "NUL \<notin> set (nat_str n)" "0 \<notin> set (nat_str n)"
  using nat_str_no [of 0 n] is_digit_range [of 10 0] by (auto simp: NUL_def)

lemma utf8_encode_char [simp]: "unat c < 128 \<Longrightarrow> utf8_encode [c] = [ucast c]"
  by (simp add: utf8_encode_ascii)

lemma utf8_encode_NUL [simp]: "utf8_encode [NUL] = [0]" "utf8_encode [SP] = [32]"
  by (simp_all add: NUL_def SP_def)

text \<open>Whatever follows it, a header decodes to the type, the length and the content's offset.\<close>

lemma decodeObjectHeader_loose:
  assumes "object_type_ok type"
  shows "decodeObjectHeader (loose_object type content) =
    Inr (type, Num (int (length content)), length (loose_object type content) - length content)"
proof -
  let ?h = "type @ js '' '' @ nat_str (length content)"
  have h: "ascii ?h" "NUL \<notin> set ?h"
    using assms by (auto simp: object_type_ok_def NUL_def js_simps)
  then have enc: "loose_object type content = utf8_encode ?h @ 0 # content"
    using utf8_encode_append [of ?h "[NUL]"] by (simp add: loose_object_def ascii_wf16)
  have "(0 :: byte) \<notin> set (utf8_encode ?h)"
    using h by (intro utf8_encode_no_byte) (auto simp: NUL_def)
  then have "index_of 0 (utf8_encode ?h @ 0 # content) = Some (length (utf8_encode ?h))" by simp
  moreover have "utf8_decode (utf8_encode ?h) = ?h"
    using h by (simp add: utf8_roundtrip ascii_text_ok)
  moreover have "index_of SP ?h = Some (length type)"
    using assms by (simp add: object_type_ok_def SP_def js_simps)
  ultimately show ?thesis
    unfolding decodeObjectHeader_def enc by (simp add: Let_def js_simps)
qed

lemma decodeObject_loose:
  "object_type_ok type \<Longrightarrow> decodeObject (loose_object type content) = Inr (type, content)"
  by (simp add: decodeObject_def decodeObjectHeader_loose) (simp add: loose_object_def)

lemma object_type_ok_base [simp]:
  "object_type_ok (js ''blob'')" "object_type_ok (js ''tree'')" "object_type_ok (js ''commit'')"
  "object_type_ok (js ''tag'')"
  by (simp_all add: object_type_ok_def SP_def NUL_def js_simps)

lemma encodeBlob_loose: "encodeBlob content = loose_object (js ''blob'') content"
  by (simp add: encodeBlob_def loose_object_def js_simps)

lemma encodeTree_loose: "encodeTree es = loose_object (js ''tree'') (encodeTreeContent es)"
  by (simp add: encodeTree_def encodeTreeContent_def loose_object_def Let_def js_simps)

lemma encodeCommit_loose: "encodeCommit c = loose_object (js ''commit'') (encodeCommitContent c)"
  by (simp add: encodeCommit_def encodeCommitContent_def loose_object_def Let_def js_simps)

lemma hashObject_loose: "hashObject digest type content = sha1 digest (loose_object type content)"
  by (simp add: hashObject_def loose_object_def Let_def)

section \<open>Trees\<close>

text \<open>
  What \<open>decodeTree\<close> returns and \<open>encodeTree\<close> keeps: a mode padded to six characters without
  a space, a name that is text without a NUL, a 40-digit id.
\<close>

definition tree_entry_ok :: "tree_entry \<Rightarrow> bool" where
  "tree_entry_ok e \<longleftrightarrow>
     pad_start 6 (js_ch CHR ''0'') (strip_zeros (te_mode e)) = te_mode e \<and>
     ascii (te_mode e) \<and> SP \<notin> set (te_mode e) \<and> NUL \<notin> set (te_mode e) \<and>
     text_ok (te_name e) \<and> NUL \<notin> set (te_name e) \<and> isValidSha (te_sha e)"

definition read_tree_entry :: "bytes \<Rightarrow> nat \<Rightarrow> (tree_entry \<times> nat) res" where
  "read_tree_entry content offset =
     (case decode_tree_entry content offset of None \<Rightarrow> Inl (Error ''break'') | Some r \<Rightarrow> Inr r)"

lemma decode_encode_tree_entry:
  assumes "tree_entry_ok e"
  shows "decode_tree_entry (pre @ encode_tree_entry e @ post) (length pre) =
    Some (e, length pre + length (encode_tree_entry e))"
proof -
  define m where "m = strip_zeros (te_mode e)"
  let ?n = "utf8_encode (te_name e)" and ?s = "hexToBytes (te_sha e)"
  have sub: "set m \<subseteq> set (te_mode e)"
    using set_dropWhileD by (fastforce simp: m_def strip_zeros_def)
  then have m: "ascii m" "SP \<notin> set m"
    using assms by (auto simp: tree_entry_ok_def ascii_def)
  have n: "text_ok (te_name e)" "wf16 (te_name e)" "NUL \<notin> set (te_name e)" and sha: "length ?s = 20"
    using assms by (auto simp: tree_entry_ok_def text_ok_def length_sha_bytes simp del: length_hexToBytes)
  have enc: "encode_tree_entry e = utf8_encode m @ 32 # ?n @ 0 # ?s"
    using m n utf8_encode_append [of "[SP]"]
    by (simp add: encode_tree_entry_def m_def utf8_encode_append ascii_wf16 hi_surr_def lo_surr_def
        SP_def NUL_def)
  have "(32 :: byte) \<notin> set (utf8_encode m)" "(0 :: byte) \<notin> set ?n"
    using m n by (simp_all add: utf8_encode_no_byte SP_def NUL_def)
  then have i: "index_from 32 (pre @ utf8_encode m @ 32 # ?n @ 0 # ?s @ post) (length pre) =
      Some (length pre + length (utf8_encode m))"
    and j: "index_from 0 (pre @ utf8_encode m @ 32 # ?n @ 0 # ?s @ post)
      (Suc (length pre + length (utf8_encode m))) =
      Some (Suc (length pre + length (utf8_encode m)) + length ?n)"
    using index_from_append [of "pre @ utf8_encode m @ [32]" _ 0 ?n "?s @ post"] by auto
  have "js_slice (pre @ utf8_encode m @ 32 # ?n @ 0 # ?s @ post)
      (Suc (length pre + length (utf8_encode m))) (Suc (length pre + length (utf8_encode m)) + length ?n) = ?n"
    using js_slice_append [of "pre @ utf8_encode m @ [32]" _ ?n] by simp
  moreover have "js_slice (pre @ utf8_encode m @ 32 # ?n @ 0 # ?s @ post)
      (Suc (Suc (length pre + length (utf8_encode m)) + length ?n))
      (21 + (Suc (length pre + length (utf8_encode m)) + length ?n)) = ?s"
    using js_slice_append [of "pre @ utf8_encode m @ 32 # ?n @ [0]" _ ?s _ post] sha by simp
  moreover have "bytesToHex ?s = te_sha e" "utf8_decode ?n = te_name e"
    "utf8_decode (utf8_encode m) = m" "pad_start 6 (js_ch CHR ''0'') m = te_mode e"
    using assms m n by (auto simp: tree_entry_ok_def m_def isValidSha_roundtrip utf8_roundtrip ascii_text_ok)
  ultimately show ?thesis using i j sha
    by (simp add: decode_tree_entry_def enc Let_def add.commute add.left_commute del: length_hexToBytes)
qed

lemma decode_tree_loop_step:
  "decode_tree_entry content off = Some (e, nxt) \<Longrightarrow>
    decode_tree_loop content off = e # decode_tree_loop content nxt"
  using decode_tree_entry_next [of content off e nxt] by (subst decode_tree_loop.simps) simp

lemma decode_tree_loop_end: "decode_tree_loop content (length content) = []"
  by (subst decode_tree_loop.simps) simp

interpretation tree_bytes: stream_codec encode_tree_entry read_tree_entry "\<lambda>e. e" tree_entry_ok
  "\<lambda>content offset. Inr (decode_tree_loop content offset)"
proof
  show "tree_entry_ok e \<Longrightarrow> encode_tree_entry e \<noteq> []" for e
    using decode_encode_tree_entry [of e "[]" "[]"] decode_tree_entry_next by fastforce
qed (simp_all add: read_tree_entry_def decode_encode_tree_entry decode_tree_loop_end
    decode_tree_loop_step split: option.splits)

lemma decodeTree_encode_entries:
  "(\<And>e. e \<in> set es \<Longrightarrow> tree_entry_ok e) \<Longrightarrow> decodeTree (concat (map encode_tree_entry es)) = es"
  using tree_bytes.loop_all [of es] by (simp add: decodeTree_def)

section \<open>Commits\<close>

definition sig_ok :: "git_signature \<Rightarrow> bool" where
  "sig_ok s \<longleftrightarrow>
     js_trim (sig_name s) = sig_name s \<and> wf16 (sig_name s) \<and> NL \<notin> set (sig_name s) \<and>
     wf16 (sig_email s) \<and> NL \<notin> set (sig_email s) \<and> js_ch CHR ''<'' \<notin> set (sig_email s) \<and>
     sig_timestamp s \<noteq> NaN \<and>
     sig_tz s \<noteq> [] \<and> wf16 (sig_tz s) \<and> js_ch CHR ''>'' \<notin> set (sig_tz s) \<and>
     list_all (\<lambda>c. \<not> js_ws c) (sig_tz s)"

definition line_ok :: "jsstring \<Rightarrow> bool" where
  "line_ok l \<longleftrightarrow> wf16 l \<and> NL \<notin> set l"

definition commit_ok :: "'a commit_body_scheme \<Rightarrow> bool" where
  "commit_ok c \<longleftrightarrow>
     cm_tree c \<noteq> [] \<and> line_ok (cm_tree c) \<and> list_all line_ok (cm_parents c) \<and>
     sig_ok (cm_author c) \<and> sig_ok (cm_committer c) \<and> wf16 (cm_message c)"

lemma js_trim_ws_Cons: "js_ws c \<Longrightarrow> js_trim (c # s) = js_trim s"
  by (simp add: js_trim_def)

lemma js_trim_ws_snoc: "js_ws c \<Longrightarrow> js_trim (s @ [c]) = js_trim s"
proof (cases "\<forall>x \<in> set s. js_ws x")
  case True
  then have "dropWhile js_ws s = []" by simp
  moreover from True have "js_ws c \<Longrightarrow> dropWhile js_ws (s @ [c]) = []"
    by (simp only: dropWhile_eq_Nil_conv) auto
  ultimately show "js_ws c \<Longrightarrow> ?thesis" by (simp add: js_trim_def del: dropWhile_eq_Nil_conv)
next
  case False
  then obtain x where "x \<in> set s" "\<not> js_ws x" by blast
  then show "js_ws c \<Longrightarrow> ?thesis" by (simp add: js_trim_def dropWhile_append1 [of x])
qed

lemma parse_digits_nat_str: "parse_digits 10 neg (nat_str n) = Num (if neg then - int n else int n)"
proof -
  have "takeWhile (is_digit 10) (nat_str n) = nat_str n"
    using nat_str_digits by (simp only: takeWhile_eq_all_conv) blast
  moreover have "digits_val 10 (nat_str n) = n" by (simp add: nat_str_def digits_val_radix_str)
  ultimately show ?thesis
    by (simp add: parse_digits_def strip_0x_def Let_def del: takeWhile_eq_all_conv)
qed

lemma parse_int_int_str [simp]: "parse_int (int_str i) 10 = Num i"
proof (cases "i < 0")
  case True
  then have "parse_int (int_str i) 10 = parse_digits 10 True (nat_str (nat (- i)))"
    by (simp add: int_str_def parse_int_def js_simps js_ws_def js_ch_def)
  with True show ?thesis by (simp add: parse_digits_nat_str)
qed (simp add: int_str_def)

lemma int_str_chars: "c \<in> set (int_str i) \<Longrightarrow> c = 45 \<or> is_digit 10 c"
  using nat_str_digits by (auto simp: int_str_def js_simps split: if_splits)

lemma int_str_plain: "c \<in> set (int_str i) \<Longrightarrow> \<not> js_ws c \<and> unat c < 60"
  using int_str_chars [of c i] digit_not_ws [of 10 c]
  by (auto simp: js_ws_def is_digit_def digit_val_def Let_def split: if_splits)

lemma int_str_neq_Nil [simp]: "int_str i \<noteq> []"
  by (simp add: int_str_def)

lemma wf16_int_str [simp]: "wf16 (int_str i)"
  using int_str_plain by (intro ascii_wf16) (fastforce simp: ascii_def)

lemma parse_formatted:
  assumes "sig_ok s"
  shows "parseSignature (sig_name s @ js '' <'' @ sig_email s @ js ''> ''
    @ num_str (sig_timestamp s) @ js '' '' @ sig_tz s) = Inr s"
proof -
  obtain t where t: "sig_timestamp s = Num t" using assms by (cases "sig_timestamp s") (auto simp: sig_ok_def)
  let ?post = "32 # int_str t @ 32 # sig_tz s"
  let ?pre = "sig_name s @ [32]"
  have tz: "sig_tz s \<noteq> []" "\<And>c. c \<in> set (sig_tz s) \<Longrightarrow> \<not> js_ws c"
    using assms by (auto simp: sig_ok_def list_all_iff)
  have "62 \<notin> set ?post" "60 \<notin> set (sig_email s @ [62])"
    using assms int_str_plain [of 62 t] by (auto simp: sig_ok_def js_ch_def)
  then have idx: "last_index_of 62 ((?pre @ 60 # sig_email s) @ 62 # ?post) =
      Some (length (?pre @ 60 # sig_email s))"
    "last_index_of 60 (?pre @ 60 # sig_email s @ [62]) = Some (length ?pre)"
    by (intro last_index_of_append; simp)+
  have plain: "\<not> js_ws (hd (int_str t))" "\<not> js_ws (last (sig_tz s))" "SP \<notin> set (int_str t)"
    "SP \<notin> set (sig_tz s)"
    using int_str_plain [of _ t] hd_in_set [OF int_str_neq_Nil, of t] tz last_in_set
    by (auto simp: SP_def js_ws_def)
  then have "js_trim (int_str t @ 32 # sig_tz s) = int_str t @ 32 # sig_tz s"
    using tz by (intro js_trim_id) auto
  then have trim: "js_trim ?post = int_str t @ SP # sig_tz s"
    by (simp add: js_trim_ws_Cons js_ws_def SP_def)
  have raw: "sig_name s @ js '' <'' @ sig_email s @ js ''> '' @ num_str (sig_timestamp s) @ js '' ''
      @ sig_tz s = (?pre @ 60 # sig_email s) @ 62 # ?post" (is "?raw = _")
    by (simp add: js_simps t)
  have "take (length (?pre @ 60 # sig_email s) + 1) ?raw = ?pre @ 60 # sig_email s @ [62]"
    unfolding raw by (subst take_append) simp
  moreover have "drop (length (?pre @ 60 # sig_email s) + 1) ?raw = ?post"
    unfolding raw by (subst drop_append) simp
  moreover have "js_trim ?pre = sig_name s"
    using assms by (simp add: js_trim_ws_snoc js_ws_def sig_ok_def)
  moreover have "js_split SP (js_trim ?post) = [int_str t, sig_tz s]"
    unfolding trim using plain by (simp add: js_split_append js_split_single)
  ultimately show ?thesis using idx tz t
    by (simp add: parseSignature_def js_ch_def Let_def js_slice_def js_simps)
qed

lemma js_join_append:
  "xs \<noteq> [] \<Longrightarrow> ys \<noteq> [] \<Longrightarrow> js_join sep (xs @ ys) = js_join sep xs @ sep @ js_join sep ys"
proof (induction xs)
  case (Cons x xs)
  then show ?case by (cases xs) (simp_all add: js_join_Cons)
qed simp

lemma js_find_skip:
  "c \<notin> set l \<Longrightarrow> js_find (c # p) (l @ s) = map_option (\<lambda>k. length l + k) (js_find (c # p) s)"
proof (induction l)
  case Nil
  then show ?case by (cases "js_find (c # p) s") auto
next
  case (Cons a l)
  then show ?case by (cases "js_find (c # p) s") (auto simp: js_starts_with_def)
qed

lemma js_find_blank_line:
  assumes "ls \<noteq> []" and "\<And>l. l \<in> set ls \<Longrightarrow> l \<noteq> [] \<and> NL \<notin> set l"
  shows "js_find [NL, NL] (js_join [NL] ls @ NL # NL # m) = Some (length (js_join [NL] ls))"
  using assms
proof (induction ls)
  case (Cons l ls)
  show ?case
  proof (cases ls)
    case Nil
    with Cons.prems show ?thesis by (simp add: js_find_skip js_starts_with_def)
  next
    case (Cons k ks)
    then obtain a as where k: "k = a # as" "a \<noteq> NL" using Cons.prems(2) [of k] by (cases k) auto
    have join: "js_join [NL] ls = a # tl (js_join [NL] ls)"
      using Cons k by (cases ks) auto
    then have "js_find [NL, NL] (NL # js_join [NL] ls @ NL # NL # m) =
        map_option Suc (js_find [NL, NL] (js_join [NL] ls @ NL # NL # m))"
    proof -
      have "\<not> js_starts_with (NL # a # t) [NL, NL]" for t
        using k(2) by (simp add: js_starts_with_def)
      then have "\<not> js_starts_with (NL # js_join [NL] ls @ NL # NL # m) [NL, NL]"
        by (metis append_Cons join)
      then show ?thesis by simp
    qed
    also have "\<dots> = Some (Suc (length (js_join [NL] ls)))"
      using Cons.IH Cons.prems Cons by simp
    finally show ?thesis using Cons Cons.prems by (simp add: js_join_Cons js_find_skip)
  qed
qed simp

lemma scan_commit_line_simps [simp]:
  "scan_commit_line (js ''tree '' @ x) s = Inr (s\<lparr>sc_tree := x\<rparr>)"
  "scan_commit_line (js ''parent '' @ x) s = Inr (s\<lparr>sc_parents := sc_parents s @ [x]\<rparr>)"
  "sig_ok sig \<Longrightarrow>
    scan_commit_line (formatSignature (js ''author'') sig) s = Inr (s\<lparr>sc_author := Some sig\<rparr>)"
  "sig_ok sig \<Longrightarrow>
    scan_commit_line (formatSignature (js ''committer'') sig) s = Inr (s\<lparr>sc_committer := Some sig\<rparr>)"
  using parse_formatted [of sig]
  by (simp_all add: scan_commit_line_def js_starts_with_def js_simps formatSignature_def)

lemma scan_parents:
  "fold_res scan_commit_line (map (\<lambda>p. js ''parent '' @ p) ps) s = Inr (s\<lparr>sc_parents := sc_parents s @ ps\<rparr>)"
  by (induction ps arbitrary: s) simp_all

lemma scan_header:
  assumes "commit_ok c"
  shows "fold_res scan_commit_line (commit_header_lines c)
      \<lparr>sc_tree = [], sc_parents = [], sc_author = None, sc_committer = None\<rparr> =
    Inr \<lparr>sc_tree = cm_tree c, sc_parents = cm_parents c, sc_author = Some (cm_author c),
      sc_committer = Some (cm_committer c)\<rparr>"
  using assms by (simp add: commit_header_lines_def fold_res_append scan_parents commit_ok_def)

lemma wf16_literal: "list_all (\<lambda>c. unat (of_char c :: unit16) < 128) s \<Longrightarrow> wf16 (js s)"
  by (intro ascii_wf16) (auto simp: ascii_def js_def list_all_iff)

lemma literal_no_NL: "list_all (\<lambda>c. of_char c \<noteq> NL) s \<Longrightarrow> NL \<notin> set (js s)"
  by (auto simp: js_def list_all_iff)

lemma wf16_join: "wf16 sep \<Longrightarrow> (\<And>x. x \<in> set xs \<Longrightarrow> wf16 x) \<Longrightarrow> wf16 (js_join sep xs)"
  by (induction sep xs rule: js_join.induct) (auto intro: wf16_append)

lemma line_ok_append: "line_ok s \<Longrightarrow> line_ok t \<Longrightarrow> line_ok (s @ t)"
  by (auto simp: line_ok_def wf16_append)

lemma line_ok_literal:
  "list_all (\<lambda>c. unat (of_char c :: unit16) < 128 \<and> of_char c \<noteq> NL) s \<Longrightarrow> line_ok (js s)"
  by (simp add: line_ok_def wf16_literal literal_no_NL list_all_iff)

lemma sig_line_ok:
  assumes "sig_ok s" and "line_ok p"
  shows "line_ok (formatSignature p s)"
proof -
  obtain t where t: "sig_timestamp s = Num t"
    using assms by (cases "sig_timestamp s") (auto simp: sig_ok_def)
  have "NL \<notin> set (sig_tz s)" "NL \<notin> set (int_str t)"
    using int_str_plain [of NL t] assms by (auto simp: NL_def js_ws_def sig_ok_def list_all_iff)
  then have "line_ok (sig_tz s)" "line_ok (num_str (sig_timestamp s))" "line_ok (sig_name s)"
    "line_ok (sig_email s)"
    using assms t by (auto simp: line_ok_def sig_ok_def)
  then show ?thesis using assms(2)
    by (simp add: formatSignature_def line_ok_append line_ok_literal NL_def)
qed

lemma header_line_ok:
  assumes "commit_ok c" and "l \<in> set (commit_header_lines c)"
  shows "line_ok l \<and> l \<noteq> []"
proof -
  have "line_ok (js ''tree '')" "line_ok (js ''parent '')" "line_ok (js ''author'')"
    "line_ok (js ''committer'')"
    by (simp_all add: line_ok_literal NL_def)
  with assms show ?thesis
    by (auto simp: commit_header_lines_def commit_ok_def list_all_iff
        intro!: line_ok_append sig_line_ok) (auto simp: formatSignature_def js_simps)
qed

lemma decode_encode_commit:
  fixes c :: "'a commit_body_scheme"
  assumes "commit_ok c"
  shows "decodeCommit (encodeCommitContent c) =
    Inr \<lparr>cm_tree = cm_tree c, cm_parents = cm_parents c, cm_author = cm_author c,
      cm_committer = cm_committer c, cm_message = cm_message c, cm_sha = []\<rparr>"
proof -
  let ?hs = "commit_header_lines c"
  let ?h = "js_join [NL] ?hs"
  let ?text = "?h @ NL # NL # cm_message c"
  have hs: "?hs \<noteq> []" by (simp add: commit_header_lines_def)
  have joined: "js_join [NL] (commit_lines c) = ?text"
    using hs by (simp add: commit_lines_def js_join_append)
  have wf: "wf16 (js_join [NL] (commit_lines c))"
    using assms header_line_ok [OF assms]
    by (intro wf16_join) (auto simp: commit_lines_def commit_ok_def line_ok_def NL_def hi_surr_def lo_surr_def)
  have "hd ?text \<noteq> 0xFEFF"
    by (simp add: commit_header_lines_def js_join_Cons js_simps)
  with wf have "utf8_decode (encodeCommitContent c) = ?text"
    unfolding encodeCommitContent_def by (metis joined text_ok_def utf8_roundtrip)
  moreover have "js_find [NL, NL] ?text = Some (length ?h)"
    using hs header_line_ok [OF assms] by (intro js_find_blank_line) (auto simp: line_ok_def)
  moreover have "js_split NL ?h = ?hs"
    using hs header_line_ok [OF assms] by (intro js_split_join) (auto simp: line_ok_def)
  moreover have "cm_tree c \<noteq> []" using assms by (simp add: commit_ok_def)
  ultimately show ?thesis by (simp add: decodeCommit_def Let_def scan_header [OF assms])
qed

section \<open>Properties\<close>

lemma bytesToHex_inj: "bytesToHex a = bytesToHex b \<longleftrightarrow> a = b"
  by (metis hexToBytes_bytesToHex)

lemma loose_object_inj:
  "object_type_ok t \<Longrightarrow> object_type_ok t' \<Longrightarrow> loose_object t c = loose_object t' c' \<longleftrightarrow> t = t' \<and> c = c'"
  by (metis decodeObject_loose prod.inject sum.inject(2))

definition readme_entry :: tree_entry where
  "readme_entry = \<lparr>te_mode = js ''100644'', te_name = js ''README'', te_sha = replicate 40 48\<rparr>"

definition lib_entry :: tree_entry where
  "lib_entry = \<lparr>te_mode = js ''040000'', te_name = js ''lib'', te_sha = replicate 40 97\<rparr>"

definition ada :: git_signature where
  "ada = \<lparr>sig_name = js ''Ada'', sig_email = js ''ada@x.org'', sig_timestamp = Num 1700000000,
     sig_tz = js ''+0900''\<rparr>"

definition first_commit :: commit_body where
  "first_commit = \<lparr>cm_tree = replicate 40 97, cm_parents = [replicate 40 98], cm_author = ada,
     cm_committer = ada, cm_message = js ''init''\<rparr>"

lemma entries_ok [simp]: "tree_entry_ok readme_entry" "tree_entry_ok lib_entry"
  by (simp_all add: tree_entry_ok_def readme_entry_def lib_entry_def js_simps pad_start_def
      strip_zeros_def js_ch_def text_ok_def hi_surr_def lo_surr_def isValidSha_def is_lower_hex_def
      SP_def NUL_def ascii_def list_all_iff)

lemma ada_ok [simp]: "sig_ok ada"
  by (simp add: sig_ok_def ada_def js_simps NL_def js_ch_def js_ws_def hi_surr_def lo_surr_def
      js_trim_def)

lemma first_commit_ok [simp]: "commit_ok first_commit"
proof -
  have "wf16 (replicate 40 97)" "wf16 (replicate 40 98)" "wf16 (js ''init'')"
    by (rule ascii_wf16, simp add: ascii_def js_simps)+
  then show ?thesis by (simp add: commit_ok_def first_commit_def line_ok_def NL_def)
qed

text \<open>Reading back an encoded tree, through the object header and the entry loop, gives
  the entries in git's order, with every mode, name and id as it was.\<close>

theorem tree_roundtrip:
  assumes "list_all tree_entry_ok es"
  shows "bind_res (decodeObject (encodeTree es)) (\<lambda>(type, content). Inr (type, decodeTree content)) =
    Inr (js ''tree'', sort_key tree_sort_name es)"
proof -
  have "decodeTree (encodeTreeContent es) = sort_key tree_sort_name es"
    using assms decodeTree_encode_entries [of "sort_key tree_sort_name es"]
    by (simp add: encodeTreeContent_def list_all_iff)
  then show ?thesis by (simp add: encodeTree_loose decodeObject_loose)
qed

theorem tree_roundtrip_witness:
  "bind_res (decodeObject (encodeTree [readme_entry, lib_entry]))
     (\<lambda>(type, content). Inr (type, decodeTree content)) =
   Inr (js ''tree'', sort_key tree_sort_name [readme_entry, lib_entry])"
  using tree_roundtrip [of "[readme_entry, lib_entry]"] by simp

text \<open>The id of a tree does not depend on the order in which its entries are given.\<close>

theorem hashTree_order_free:
  assumes "mset es = mset es'" and "distinct (map tree_sort_name es)"
  shows "hashTree digest es = hashTree digest es' \<and> encodeTree es = encodeTree es'"
  using sort_key_perm [OF assms] by (simp add: hashTree_def encodeTreeContent_def encodeTree_def)

theorem hashTree_order_free_witness:
  "hashTree id [readme_entry, lib_entry] = hashTree id [lib_entry, readme_entry]
    \<and> encodeTree [readme_entry, lib_entry] = encodeTree [lib_entry, readme_entry]"
  by (rule hashTree_order_free)
    (simp_all add: readme_entry_def lib_entry_def tree_sort_name_def js_simps add_mset_commute)

text \<open>Reading back an encoded commit gives the commit: its tree, its parents in order, both
  signatures with their timestamps and zones, and the message with its blank lines.\<close>

theorem commit_roundtrip:
  fixes c :: "'a commit_body_scheme"
  assumes "commit_ok c"
  shows "bind_res (decodeObject (encodeCommit c)) (\<lambda>(type, content). decodeCommit content) =
    Inr \<lparr>cm_tree = cm_tree c, cm_parents = cm_parents c, cm_author = cm_author c,
      cm_committer = cm_committer c, cm_message = cm_message c, cm_sha = []\<rparr>"
  using decode_encode_commit [OF assms] by (simp add: encodeCommit_loose decodeObject_loose)

theorem commit_roundtrip_witness:
  "bind_res (decodeObject (encodeCommit first_commit)) (\<lambda>(type, content). decodeCommit content) =
   Inr \<lparr>cm_tree = cm_tree first_commit, cm_parents = cm_parents first_commit,
     cm_author = ada, cm_committer = ada, cm_message = js ''init'', cm_sha = []\<rparr>"
  using commit_roundtrip [OF first_commit_ok] by (simp add: first_commit_def)

text \<open>The bytes an object id is computed from determine the object's type and content: where
  the digest tells these two byte sequences apart, two objects share an id exactly when they are the
  same object.\<close>

theorem hashObject_collision:
  assumes "object_type_ok t" and "object_type_ok t'"
    and "inj_on digest {utf8_encode (t @ js '' '' @ nat_str (length c) @ [NUL]) @ c,
      utf8_encode (t' @ js '' '' @ nat_str (length c') @ [NUL]) @ c'}"
  shows "hashObject digest t c = hashObject digest t' c' \<longleftrightarrow> t = t' \<and> c = c'"
proof -
  have "inj_on digest {loose_object t c, loose_object t' c'}"
    using assms(3) by (simp only: loose_object_def)
  then have "digest (loose_object t c) = digest (loose_object t' c') \<longleftrightarrow> loose_object t c = loose_object t' c'"
    by (rule inj_on_eq_iff) simp_all
  then show ?thesis
    unfolding hashObject_loose sha1_def bytesToHex_inj loose_object_inj [OF assms(1,2)] .
qed

theorem hashObject_collision_witness:
  "hashObject id (js ''blob'') [1, 2] \<noteq> hashObject id (js ''blob'') [1, 3] \<and>
    hashObject id (js ''blob'') [1] \<noteq> hashObject id (js ''tree'') [1]"
proof -
  have ok: "object_type_ok (js ''blob'')" "object_type_ok (js ''tree'')" by simp_all
  have neq: "js ''blob'' \<noteq> js ''tree''" "([1, 2] :: bytes) \<noteq> [1, 3]" by (simp_all add: js_simps)
  show ?thesis
    using hashObject_collision [OF ok(1) ok(1) inj_on_id, of "[1, 2]" "[1, 3]"]
      hashObject_collision [OF ok inj_on_id, of "[1]" "[1]"] neq by blast
qed

end
