(* ===== verification/GitPackCommon.thy ===== *)
theory GitPackCommon
  imports GitCodec
begin

text \<open>
  The wire primitives of \<open>takos-git/local/core/pack-common.ts\<close>: the numbers of the object
  types, the header of a pack entry and pkt-line framing. Framing and parsing pkt-lines are
  an instance of the codec interface.
\<close>

unbundle bit_operations_syntax

section \<open>Object types\<close>

definition PACK_OBJ_COMMIT :: nat where "PACK_OBJ_COMMIT = 1"
definition PACK_OBJ_TREE :: nat where "PACK_OBJ_TREE = 2"
definition PACK_OBJ_BLOB :: nat where "PACK_OBJ_BLOB = 3"
definition PACK_OBJ_TAG :: nat where "PACK_OBJ_TAG = 4"
definition PACK_OBJ_OFS_DELTA :: nat where "PACK_OBJ_OFS_DELTA = 6"
definition PACK_OBJ_REF_DELTA :: nat where "PACK_OBJ_REF_DELTA = 7"

lemmas pack_obj_defs = PACK_OBJ_COMMIT_def PACK_OBJ_TREE_def PACK_OBJ_BLOB_def PACK_OBJ_TAG_def
  PACK_OBJ_OFS_DELTA_def PACK_OBJ_REF_DELTA_def

definition TYPE_TO_NUMBER :: "(jsstring, nat) js_map" where
  "TYPE_TO_NUMBER =
     [(js ''commit'', PACK_OBJ_COMMIT), (js ''tree'', PACK_OBJ_TREE), (js ''blob'', PACK_OBJ_BLOB),
      (js ''tag'', PACK_OBJ_TAG)]"

definition NUMBER_TO_TYPE :: "(nat, jsstring) js_map" where
  "NUMBER_TO_TYPE =
     [(PACK_OBJ_COMMIT, js ''commit''), (PACK_OBJ_TREE, js ''tree''), (PACK_OBJ_BLOB, js ''blob''),
      (PACK_OBJ_TAG, js ''tag'')]"

definition gitTypeToNumber :: "jsstring \<Rightarrow> nat res" where
  "gitTypeToNumber type =
     (case map_get TYPE_TO_NUMBER type of
        None \<Rightarrow> Inl (Error ''unknown git object type'') | Some n \<Rightarrow> Inr n)"

definition numberToGitType :: "nat \<Rightarrow> jsstring res" where
  "numberToGitType n =
     (case map_get NUMBER_TO_TYPE n of
        None \<Rightarrow> Inl (Error ''not a base git object type'') | Some t \<Rightarrow> Inr t)"

lemma gitTypeToNumber_iff: "gitTypeToNumber t = Inr n \<longleftrightarrow> numberToGitType n = Inr t"
  by (auto simp: gitTypeToNumber_def numberToGitType_def TYPE_TO_NUMBER_def NUMBER_TO_TYPE_def
      map_get_def pack_obj_defs js_simps split: if_splits)

lemma gitTypeToNumber_range: "gitTypeToNumber t = Inr n \<Longrightarrow> n \<in> {1, 2, 3, 4}"
  by (auto simp: gitTypeToNumber_def TYPE_TO_NUMBER_def map_get_def pack_obj_defs split: if_splits)

lemma gitTypeToNumber_ok: "gitTypeToNumber t = Inr n \<Longrightarrow> object_type_ok t"
  by (auto simp: gitTypeToNumber_def TYPE_TO_NUMBER_def map_get_def split: if_splits)

section \<open>Entry headers\<close>

text \<open>The loop over the remaining size; \<open>b\<close> is the pending byte.\<close>

fun header_size_loop :: "nat \<Rightarrow> nat \<Rightarrow> nat list" where
  "header_size_loop b sz =
     (if sz > 0 then (b OR 0x80) # header_size_loop (sz AND 0x7f) (sz div 128) else [b])"

declare header_size_loop.simps [simp del]

definition encodePackObjectHeader :: "nat \<Rightarrow> nat \<Rightarrow> bytes" where
  "encodePackObjectHeader type sz =
     map of_nat (header_size_loop (push_bit 4 type OR (sz AND 0x0f)) (sz div 16))"

section \<open>Pkt-lines\<close>

definition PKT_FLUSH :: bytes where "PKT_FLUSH = utf8_encode (js ''0000'')"

definition toHex4 :: "nat \<Rightarrow> jsstring" where
  "toHex4 n = pad_start 4 (js_ch CHR ''0'') (radix_str 16 n)"

definition pktLine :: "bytes \<Rightarrow> bytes res" where
  "pktLine payload =
     (let len = length payload + 4 in
      if len > 0xffff then Inl (Error ''pkt-line payload too large'')
      else Inr (concatBytes [utf8_encode (toHex4 len), payload]))"

definition pktLineString :: "jsstring \<Rightarrow> bytes res" where
  "pktLineString txt = pktLine (utf8_encode txt)"

text \<open>One round of the loop of \<open>parsePktLines\<close>: the payload, \<open>None\<close> for a flush, and the next offset.\<close>

definition parse_pkt_line :: "bytes \<Rightarrow> nat \<Rightarrow> (bytes option \<times> nat) res" where
  "parse_pkt_line data offset =
     (case parse_int (utf8_decode (js_slice data offset (offset + 4))) 16 of
        NaN \<Rightarrow> Inl (Error ''invalid pkt-line length'')
      | Num len \<Rightarrow>
          if len = 0 \<or> len = 1 \<or> len = 2 then Inr (None, offset + 4)
          else if len < 4 then Inl (Error ''invalid pkt-line length'')
          else (let e = offset + nat len in
                if e > length data then Inl (Error ''truncated pkt-line'')
                else Inr (Some (js_slice data (offset + 4) e), e)))"

lemma parse_pkt_line_next:
  "parse_pkt_line data offset = Inr (p, nxt) \<Longrightarrow> offset + 4 \<le> nxt"
  by (auto simp: parse_pkt_line_def Let_def split: js_num.splits if_splits)

function parse_pkt_loop :: "bytes \<Rightarrow> nat \<Rightarrow> bytes option list res" where
  "parse_pkt_loop data offset =
     (if offset + 4 \<le> length data then
        bind_res (parse_pkt_line data offset) (\<lambda>(p, nxt).
        bind_res (parse_pkt_loop data nxt) (\<lambda>lines. Inr (p # lines)))
      else Inr [])"
  by pat_completeness auto
termination
  by (relation "measure (\<lambda>(data, offset). length data - offset)")
    (auto dest!: parse_pkt_line_next)

declare parse_pkt_loop.simps [simp del]

definition parsePktLines :: "bytes \<Rightarrow> bytes option list res" where
  "parsePktLines data = parse_pkt_loop data 0"

section \<open>Framing is a codec\<close>

text \<open>What a sender writes: a flush, or a payload that fits.\<close>

definition frame_pkt :: "bytes option \<Rightarrow> bytes" where
  "frame_pkt p = (case p of None \<Rightarrow> PKT_FLUSH | Some b \<Rightarrow> utf8_encode (toHex4 (length b + 4)) @ b)"

definition pkt_fits :: "bytes option \<Rightarrow> bool" where
  "pkt_fits p = (case p of None \<Rightarrow> True | Some b \<Rightarrow> length b + 4 \<le> 0xffff)"

lemma pktLine_frame: "pktLine b = Inr x \<longleftrightarrow> pkt_fits (Some b) \<and> x = frame_pkt (Some b)"
  by (auto simp: pktLine_def pkt_fits_def frame_pkt_def Let_def)

lemma radix_str_length: "0 < k \<Longrightarrow> 2 \<le> b \<Longrightarrow> n < b ^ k \<Longrightarrow> length (radix_str b n) \<le> k"
proof (induction k arbitrary: n)
  case (Suc k)
  show ?case
  proof (cases "n < b")
    case False
    then have "0 < k" using Suc.prems by (cases k) auto
    moreover have "n div b < b ^ k"
      using Suc.prems by (simp add: less_mult_imp_div_less mult.commute)
    ultimately show ?thesis using Suc False
      by (simp add: radix_str.simps [of _ n])
  qed (simp add: radix_str.simps [of _ n])
qed simp

lemma toHex4_length: "n < 65536 \<Longrightarrow> length (toHex4 n) = 4"
  using radix_str_length [of 4 16 n] by (simp add: toHex4_def)

lemma ascii_toHex4: "ascii (toHex4 n)"
  using ascii_radix_str [of 16 n] by (auto simp: toHex4_def pad_start_def js_ch_def ascii_def)

lemma digits_val_zeros: "digits_val b (replicate k 48 @ s) = digits_val b s"
  by (induction k) (simp_all add: digits_val_def digit_val_def)

lemma parse_toHex4:
  assumes "n < 65536"
  shows "parse_int (toHex4 n) 16 = Num (int n)"
proof -
  let ?z = "replicate (4 - length (radix_str 16 n)) (48 :: unit16)"
  have dig: "is_digit 16 c" if "c \<in> set (?z @ radix_str 16 n)" for c
    using that radix_str_digits [of 16 c n] by (auto simp: is_digit_def digit_val_def)
  obtain c s where cs: "?z @ radix_str 16 n = c # s" by (cases "?z @ radix_str 16 n") auto
  have "\<not> js_ws c" "c \<noteq> 45 \<and> c \<noteq> 43" "is_digit 16 c"
    using dig [of c] digit_not_ws digit_not_sign cs by auto
  moreover have "strip_0x 16 (c # s) = c # s"
  proof (cases s)
    case (Cons d t)
    then have "is_digit 16 d" using dig [of d] cs by simp
    then have "d \<noteq> 120 \<and> d \<noteq> 88" by (auto simp: is_digit_def digit_val_def)
    with Cons show ?thesis by (simp add: strip_0x_def js_starts_with_def js_simps js_ch_def)
  qed (simp add: strip_0x_def js_starts_with_def js_simps js_ch_def)
  moreover have "takeWhile (is_digit 16) (c # s) = c # s"
    using dig cs by (simp only: takeWhile_eq_all_conv) auto
  moreover have "digits_val 16 (c # s) = n"
    unfolding cs [symmetric] digits_val_zeros by (rule digits_val_radix_str) simp_all
  ultimately show ?thesis
    using cs by (simp add: toHex4_def pad_start_def js_ch_def parse_int_def parse_digits_def Let_def
        del: takeWhile_eq_all_conv)
qed

lemma length_frame_pkt: "pkt_fits p \<Longrightarrow> 4 \<le> length (frame_pkt p)"
  by (auto simp: frame_pkt_def pkt_fits_def PKT_FLUSH_def utf8_encode_ascii ascii_toHex4
      toHex4_length js_simps split: option.splits)

lemma parse_frame_pkt:
  assumes "pkt_fits p"
  shows "parse_pkt_line (pre @ frame_pkt p @ post) (length pre) = Inr (p, length pre + length (frame_pkt p))"
proof (cases p)
  case None
  have flush: "PKT_FLUSH = map ucast (toHex4 0)"
  proof -
    have "toHex4 0 = js ''0000''"
      by (simp add: toHex4_def pad_start_def radix_str.simps js_simps js_ch_def digit_char_def
          numeral_3_eq_3)
    then show ?thesis using ascii_toHex4 [of 0] by (simp add: PKT_FLUSH_def utf8_encode_ascii)
  qed
  have len: "length PKT_FLUSH = 4" by (simp add: flush toHex4_length)
  then have "js_slice (pre @ PKT_FLUSH @ post) (length pre) (length pre + 4) = PKT_FLUSH"
    by (intro js_slice_append) auto
  with None len show ?thesis
    by (simp add: parse_pkt_line_def frame_pkt_def flush utf8_decode_ascii_encode ascii_toHex4
        parse_toHex4)
next
  case (Some b)
  let ?h = "map ucast (toHex4 (length b + 4)) :: bytes"
  have n: "length b + 4 < 65536" using assms Some by (simp add: pkt_fits_def)
  then have len: "length ?h = 4" using toHex4_length by simp
  have enc: "frame_pkt p = ?h @ b" using Some by (simp add: frame_pkt_def utf8_encode_ascii ascii_toHex4)
  have h: "js_slice (pre @ ?h @ b @ post) (length pre) (length pre + 4) = ?h"
    using js_slice_append [of pre "length pre" ?h "length pre + 4" "b @ post"] len by simp
  have b: "js_slice (pre @ ?h @ b @ post) (length pre + 4) (length pre + (length b + 4)) = b"
    using js_slice_append [of "pre @ ?h" "length pre + 4" b "length pre + (length b + 4)" post] len by simp
  show ?thesis
    unfolding enc using Some len n parse_toHex4 [OF n] b
    by (simp add: parse_pkt_line_def h utf8_decode_ascii_encode ascii_toHex4 Let_def
        del: of_nat_add length_map)
qed

lemma parse_pkt_loop_end: "parse_pkt_loop data (length data) = Inr []"
  by (simp add: parse_pkt_loop.simps)

interpretation pkt_lines: stream_codec frame_pkt parse_pkt_line "\<lambda>p. p" pkt_fits parse_pkt_loop
proof
  show "pkt_fits p \<Longrightarrow> frame_pkt p \<noteq> []" for p
    using length_frame_pkt [of p] by auto
next
  fix buf off x nxt
  assume step: "parse_pkt_line buf off = Inr (x, nxt)" "off < length buf" "off < nxt" "nxt \<le> length buf"
  show "parse_pkt_loop buf off = bind_res (parse_pkt_loop buf nxt) (\<lambda>xs. Inr (x # xs))"
    using step parse_pkt_line_next [OF step(1)] by (subst parse_pkt_loop.simps) simp
qed (simp_all add: parse_frame_pkt parse_pkt_loop_end)

lemma parse_frames: "(\<And>p. p \<in> set ps \<Longrightarrow> pkt_fits p) \<Longrightarrow> parsePktLines (concat (map frame_pkt ps)) = Inr ps"
  using pkt_lines.loop_all [of ps] by (simp add: parsePktLines_def)

section \<open>Properties\<close>

definition send_pkt :: "bytes option \<Rightarrow> bytes res" where
  "send_pkt p = (case p of None \<Rightarrow> Inr PKT_FLUSH | Some b \<Rightarrow> pktLine b)"

lemma send_pkt_frame: "send_pkt p = Inr x \<longleftrightarrow> pkt_fits p \<and> x = frame_pkt p"
  by (cases p) (auto simp: send_pkt_def pktLine_frame, auto simp: pkt_fits_def frame_pkt_def)

lemma send_pkts_frames:
  "map_res send_pkt ps = Inr xs \<Longrightarrow> xs = map frame_pkt ps \<and> (\<forall>p \<in> set ps. pkt_fits p)"
  by (induction ps arbitrary: xs) (auto simp: res_elims send_pkt_frame)

text \<open>A sequence of pkt-lines and flushes that \<open>pktLine\<close> accepts parses back to the same
  payloads in the same order, with a null payload for each flush.\<close>

theorem pkt_roundtrip:
  assumes "map_res send_pkt ps = Inr frames"
  shows "parsePktLines (concat frames) = Inr ps"
  using send_pkts_frames [OF assms] parse_frames [of ps] by blast

theorem pkt_roundtrip_witness:
  "\<exists>frames. map_res send_pkt [Some [104, 105], None, Some []] = Inr frames \<and>
     parsePktLines (concat frames) = Inr [Some [104, 105], None, Some []]"
proof -
  obtain frames where "map_res send_pkt [Some [104, 105], None, Some []] = Inr frames"
    by (simp add: send_pkt_def pktLine_def)
  then show ?thesis using pkt_roundtrip by blast
qed

text \<open>How many bytes the lines of a successful parse stand for.\<close>

definition pkt_size :: "bytes option \<Rightarrow> nat" where
  "pkt_size p = (case p of None \<Rightarrow> 4 | Some b \<Rightarrow> length b + 4)"

lemma parse_pkt_line_size:
  "parse_pkt_line data offset = Inr (p, nxt) \<Longrightarrow> offset + 4 \<le> length data \<Longrightarrow>
    nxt = offset + pkt_size p \<and> nxt \<le> length data"
  by (auto simp: parse_pkt_line_def Let_def pkt_size_def split: js_num.splits if_splits)

lemma parse_pkt_loop_size:
  "parse_pkt_loop data offset = Inr ps \<Longrightarrow> offset \<le> length data \<Longrightarrow>
    offset + sum_list (map pkt_size ps) \<le> length data \<and>
    length data < offset + sum_list (map pkt_size ps) + 4"
proof (induction data offset arbitrary: ps rule: parse_pkt_loop.induct)
  case (1 data offset)
  show ?case
  proof (cases "offset + 4 \<le> length data")
    case True
    with 1(2) obtain p nxt qs where step: "parse_pkt_line data offset = Inr (p, nxt)"
      "parse_pkt_loop data nxt = Inr qs" "ps = p # qs"
      by (subst (asm) parse_pkt_loop.simps) (auto simp: res_elims)
    then show ?thesis using 1(1) [OF True step(1) refl step(2)] parse_pkt_line_size [OF step(1) True]
      by simp
  next
    case False
    then show ?thesis using 1(2,3) by (subst (asm) parse_pkt_loop.simps) auto
  qed
qed

text \<open>A successful parse accounts for the whole buffer: the lines and their length prefixes
  add up to its length but for fewer than four trailing bytes, which are ignored.\<close>

theorem parsePktLines_covers:
  assumes "parsePktLines data = Inr ps"
  shows "sum_list (map pkt_size ps) \<le> length data \<and> length data < sum_list (map pkt_size ps) + 4"
  using parse_pkt_loop_size [of data 0 ps] assms by (simp add: parsePktLines_def)

theorem parsePktLines_covers_witness:
  "sum_list (map pkt_size [Some [104, 105], None]) \<le> length (frame_pkt (Some [104, 105]) @ PKT_FLUSH)
    \<and> length (frame_pkt (Some [104, 105]) @ PKT_FLUSH) < sum_list (map pkt_size [Some [104, 105], None]) + 4"
proof (rule parsePktLines_covers)
  show "parsePktLines (frame_pkt (Some [104, 105]) @ PKT_FLUSH) = Inr [Some [104, 105], None]"
  proof -
    have "parse_pkt_loop (concat (map frame_pkt [Some [104, 105], None])) 0 = Inr [Some [104, 105], None]"
      using pkt_lines.loop_all [of "[Some [104, 105], None]"] pkt_fits_def by fastforce
    then show ?thesis by (simp add: parsePktLines_def frame_pkt_def)
  qed
qed

end
