(* ===== verification/InflateBits.thy ===== *)
theory InflateBits
  imports JsText
begin

text \<open>
  The bit reader and the Huffman tables of \<open>takos-git/local/core/inflate-raw.ts\<close>. The 32-bit
  buffer of the reader is shown to implement the stream of bits of the input, least
  significant bit of each byte first; the table that \<open>buildHuffman\<close> fills by counting sort
  is shown to decode the canonical code of its code lengths.
\<close>

unbundle bit_operations_syntax

section \<open>The bit reader\<close>

record bit_reader =
  rd_buf :: bytes
  rd_bitBuf :: "32 word"
  rd_bitCnt :: nat
  rd_pos :: nat

definition new_reader :: "bytes \<Rightarrow> nat \<Rightarrow> bit_reader" where
  "new_reader buf start = \<lparr>rd_buf = buf, rd_bitBuf = 0, rd_bitCnt = 0, rd_pos = start\<rparr>"

function fill_bits :: "bytes \<Rightarrow> nat \<Rightarrow> 32 word \<Rightarrow> nat \<Rightarrow> nat \<Rightarrow> (32 word \<times> nat \<times> nat) res" where
  "fill_bits buf n bitBuf bitCnt pos =
     (if bitCnt < n then
        (if pos \<ge> length buf then Inl (Error ''inflate: unexpected end of input'')
         else fill_bits buf n (bitBuf OR push_bit bitCnt (ucast (buf ! pos))) (bitCnt + 8) (pos + 1))
      else Inr (bitBuf, bitCnt, pos))"
  by pat_completeness auto
termination
  by (relation "measure (\<lambda>(_, n, _, bitCnt, _). n - bitCnt)") auto

declare fill_bits.simps [simp del]

definition rd_bits :: "nat \<Rightarrow> bit_reader \<Rightarrow> (nat \<times> bit_reader) res" where
  "rd_bits n r =
     bind_res (fill_bits (rd_buf r) n (rd_bitBuf r) (rd_bitCnt r) (rd_pos r)) (\<lambda>(bitBuf, bitCnt, pos).
       Inr (unat (bitBuf AND (push_bit n 1 - 1)),
            r\<lparr>rd_bitBuf := drop_bit n bitBuf, rd_bitCnt := bitCnt - n, rd_pos := pos\<rparr>))"

definition alignToByte :: "bit_reader \<Rightarrow> bit_reader" where
  "alignToByte r =
     (let bitCnt = rd_bitCnt r - (rd_bitCnt r AND 7) in
      r\<lparr>rd_pos := rd_pos r - drop_bit 3 bitCnt, rd_bitBuf := 0, rd_bitCnt := 0\<rparr>)"

definition rd_bytesConsumed :: "bit_reader \<Rightarrow> nat \<Rightarrow> nat" where
  "rd_bytesConsumed r start = rd_pos r - drop_bit 3 (rd_bitCnt r) - start"

definition readByteRaw :: "bit_reader \<Rightarrow> (byte \<times> bit_reader) res" where
  "readByteRaw r =
     (if rd_pos r \<ge> length (rd_buf r) then Inl (Error ''inflate: unexpected end of input'')
      else Inr (rd_buf r ! rd_pos r, r\<lparr>rd_pos := rd_pos r + 1\<rparr>))"

section \<open>The reader implements a stream of bits\<close>

definition word_bits :: "nat \<Rightarrow> 'a::len word \<Rightarrow> bool list" where
  "word_bits k w = map (bit w) [0..<k]"

definition bytes_bits :: "bytes \<Rightarrow> bool list" where
  "bytes_bits bs = concat (map (word_bits 8) bs)"

definition bits_val :: "bool list \<Rightarrow> nat" where
  "bits_val bs = horner_sum of_bool 2 bs"

text \<open>What a reader has yet to deliver, and the invariant of its fields.\<close>

definition rd_rest :: "bit_reader \<Rightarrow> bool list" where
  "rd_rest r = word_bits (rd_bitCnt r) (rd_bitBuf r) @ bytes_bits (drop (rd_pos r) (rd_buf r))"

definition rd_ok :: "bit_reader \<Rightarrow> bool" where
  "rd_ok r \<longleftrightarrow> rd_bitCnt r < 8 \<and> take_bit (rd_bitCnt r) (rd_bitBuf r) = rd_bitBuf r \<and>
     rd_pos r \<le> length (rd_buf r)"

lemma length_word_bits [simp]: "length (word_bits k w) = k"
  by (simp add: word_bits_def)

lemma length_bytes_bits [simp]: "length (bytes_bits bs) = 8 * length bs"
  by (induction bs) (simp_all add: bytes_bits_def)

lemma bytes_bits_simps [simp]:
  "bytes_bits [] = []" "bytes_bits (b # bs) = word_bits 8 b @ bytes_bits bs"
  "bytes_bits (bs @ cs) = bytes_bits bs @ bytes_bits cs"
  by (simp_all add: bytes_bits_def)

lemma word_bits_or:
  assumes "take_bit k w = w" and "k + 8 \<le> 32"
  shows "word_bits (k + 8) ((w :: 32 word) OR push_bit k (ucast (b :: byte))) = word_bits k w @ word_bits 8 b"
proof (rule nth_equalityI)
  fix i
  assume i: "i < length (word_bits (k + 8) (w OR push_bit k (ucast b)))"
  have "\<not> bit w i" if "k \<le> i"
    using that assms(1) by (metis bit_take_bit_iff linorder_not_le)
  then show "word_bits (k + 8) (w OR push_bit k (ucast b)) ! i = (word_bits k w @ word_bits 8 b) ! i"
    using i assms(2) by (auto simp: word_bits_def nth_append bit_simps)
qed simp

lemma take_bit_or_byte:
  assumes "take_bit k w = w" and "k + 8 \<le> 32"
  shows "take_bit (k + 8) ((w :: 32 word) OR push_bit k (ucast (b :: byte))) = w OR push_bit k (ucast b)"
proof (rule bit_word_eqI)
  fix i
  assume "i < LENGTH(32)"
  have "\<not> bit w i" if "k \<le> i"
    using that assms(1) by (metis bit_take_bit_iff linorder_not_le)
  moreover have "\<not> bit b (i - k)" if "k + 8 \<le> i"
    using that by (auto dest: bit_imp_le_length)
  ultimately show "bit (take_bit (k + 8) (w OR push_bit k (ucast b))) i \<longleftrightarrow> bit (w OR push_bit k (ucast b)) i"
    by (auto simp: bit_simps not_less)
qed

lemma fill_bits_ok:
  assumes "n \<le> 24" and "take_bit k w = w" and "k < n + 8" and "pos \<le> length buf"
    and "n \<le> k + 8 * (length buf - pos)"
  shows "\<exists>w' k' pos'. fill_bits buf n w k pos = Inr (w', k', pos') \<and> n \<le> k' \<and> k' < n + 8 \<and>
    take_bit k' w' = w' \<and> pos' \<le> length buf \<and>
    word_bits k' w' @ bytes_bits (drop pos' buf) = word_bits k w @ bytes_bits (drop pos buf)"
  using assms
proof (induction buf n w k pos rule: fill_bits.induct)
  case (1 buf n w k pos)
  show ?case
  proof (cases "k < n")
    case True
    with 1 have pos: "pos < length buf" by simp
    let ?w = "w OR push_bit k (ucast (buf ! pos))"
    have k: "k + 8 \<le> 32" using True 1 by simp
    have "fill_bits buf n w k pos = fill_bits buf n ?w (k + 8) (pos + 1)"
      using True pos by (subst fill_bits.simps) simp
    moreover have "word_bits (k + 8) ?w @ bytes_bits (drop (pos + 1) buf) =
        word_bits k w @ bytes_bits (drop pos buf)"
      using word_bits_or [OF 1(3) k] by (simp add: Cons_nth_drop_Suc [OF pos, symmetric])
    ultimately show ?thesis
      using 1(1) [OF True] pos True 1 take_bit_or_byte [OF 1(3) k] by simp
  next
    case False
    with 1 show ?thesis by (subst fill_bits.simps) auto
  qed
qed

lemma fill_bits_end:
  "k + 8 * (length buf - pos) < n \<Longrightarrow> pos \<le> length buf \<Longrightarrow>
    fill_bits buf n w k pos = Inl (Error ''inflate: unexpected end of input'')"
proof (induction buf n w k pos rule: fill_bits.induct)
  case (1 buf n w k pos)
  then show ?case by (subst fill_bits.simps) auto
qed

lemma length_rd_rest: "length (rd_rest r) = rd_bitCnt r + 8 * (length (rd_buf r) - rd_pos r)"
  by (simp add: rd_rest_def)

lemma bits_val_word: "n \<le> 24 \<Longrightarrow> bits_val (word_bits n w) = unat ((w :: 32 word) AND (push_bit n 1 - 1))"
proof -
  assume n: "n \<le> 24"
  have "bits_val (word_bits n w) = unat (take_bit n w)"
  proof -
    have "word_bits n w = map (bit (unat w)) [0..<n]"
      using n by (auto simp: word_bits_def bit_simps)
    then show ?thesis
      by (simp add: bits_val_def horner_sum_bit_eq_take_bit unsigned_take_bit_eq)
  qed
  also have "take_bit n w = w AND (push_bit n 1 - 1)"
    by (simp add: take_bit_eq_mask mask_eq_exp_minus_1 push_bit_eq_mult)
  finally show ?thesis .
qed

lemma word_bits_drop: "n \<le> k \<Longrightarrow> word_bits (k - n) (drop_bit n w) = drop n (word_bits k w)"
  by (rule nth_equalityI) (auto simp: word_bits_def bit_simps)

lemma word_bits_take: "n \<le> k \<Longrightarrow> word_bits n w = take n (word_bits k w)"
  by (simp add: word_bits_def take_map)

text \<open>Reading \<open>n\<close> bits takes the first \<open>n\<close> bits of the stream, or fails when there are fewer.\<close>

lemma rd_bits_ok:
  assumes "rd_ok r" and "n \<le> 24" and "n \<le> length (rd_rest r)"
  shows "\<exists>r'. rd_bits n r = Inr (bits_val (take n (rd_rest r)), r') \<and> rd_ok r' \<and>
    rd_rest r' = drop n (rd_rest r) \<and> rd_buf r' = rd_buf r"
proof -
  obtain w k pos where fill: "fill_bits (rd_buf r) n (rd_bitBuf r) (rd_bitCnt r) (rd_pos r) = Inr (w, k, pos)"
    "n \<le> k" "k < n + 8" "take_bit k w = w" "pos \<le> length (rd_buf r)"
    "word_bits k w @ bytes_bits (drop pos (rd_buf r)) = rd_rest r"
    using fill_bits_ok [of n "rd_bitCnt r" "rd_bitBuf r" "rd_pos r" "rd_buf r"] assms
    by (auto simp: rd_ok_def length_rd_rest rd_rest_def)
  let ?r = "r\<lparr>rd_bitBuf := drop_bit n w, rd_bitCnt := k - n, rd_pos := pos\<rparr>"
  have "take_bit (k - n) (drop_bit n w) = drop_bit n w"
    using fill(2,4) by (metis drop_bit_take_bit)
  then have "rd_ok ?r" using fill by (auto simp: rd_ok_def)
  moreover have "rd_rest ?r = drop n (rd_rest r)"
    using fill(2) by (simp add: rd_rest_def [of ?r] word_bits_drop flip: fill(6))
  moreover have "bits_val (take n (rd_rest r)) = unat (w AND (push_bit n 1 - 1))"
    using bits_val_word [OF assms(2), of w] fill(2) by (simp add: word_bits_take flip: fill(6))
  ultimately show ?thesis using fill(1) by (simp add: rd_bits_def)
qed

lemma rd_bits_end:
  "rd_ok r \<Longrightarrow> length (rd_rest r) < n \<Longrightarrow>
    rd_bits n r = Inl (Error ''inflate: unexpected end of input'')"
  by (simp add: rd_bits_def fill_bits_end length_rd_rest rd_ok_def)

lemma rd_bits_Inr:
  assumes "rd_bits n r = Inr (v, r')" and "rd_ok r" and "n \<le> 24"
  shows "v = bits_val (take n (rd_rest r)) \<and> rd_rest r' = drop n (rd_rest r) \<and> rd_ok r' \<and>
    rd_buf r' = rd_buf r \<and> n \<le> length (rd_rest r)"
proof (cases "n \<le> length (rd_rest r)")
  case True
  then show ?thesis using rd_bits_ok [OF assms(2,3)] assms(1) by auto
next
  case False
  then show ?thesis using rd_bits_end [OF assms(2), of n] assms(1) by simp
qed

lemma rd_bits_append:
  assumes "rd_rest r = bs @ rest" and "length bs = n" and "rd_ok r" and "n \<le> 24"
  shows "\<exists>r'. rd_bits n r = Inr (bits_val bs, r') \<and> rd_ok r' \<and> rd_rest r' = rest \<and> rd_buf r' = rd_buf r"
  using rd_bits_ok [OF assms(3,4)] assms(1,2) by auto

lemma new_reader_ok: "start \<le> length buf \<Longrightarrow> rd_ok (new_reader buf start)"
  by (simp add: rd_ok_def new_reader_def)

lemma new_reader_rest [simp]: "rd_rest (new_reader buf start) = bytes_bits (drop start buf)"
  by (simp add: rd_rest_def new_reader_def word_bits_def)

lemma bits_val_simps [simp]:
  "bits_val [] = 0" "bits_val (b # bs) = of_bool b + 2 * bits_val bs"
  by (simp_all add: bits_val_def)

text \<open>
  Aligning drops the rest of the current byte. The buffer never holds a whole byte, so there
  is nothing to push back.
\<close>

lemma rd_ok_small: "rd_ok r \<Longrightarrow> rd_bitCnt r AND 7 = rd_bitCnt r \<and> drop_bit 3 (rd_bitCnt r) = 0"
proof -
  assume "rd_ok r"
  then have "rd_bitCnt r < 2 ^ 3" by (simp add: rd_ok_def)
  moreover have "rd_bitCnt r AND 7 = take_bit 3 (rd_bitCnt r)"
    by (simp add: take_bit_eq_mask mask_eq_exp_minus_1)
  ultimately show ?thesis by (simp add: take_bit_nat_eq_self drop_bit_eq_div)
qed

lemma alignToByte_ok:
  assumes "rd_ok r"
  shows "rd_ok (alignToByte r)" "rd_rest (alignToByte r) = drop (rd_bitCnt r) (rd_rest r)"
    "alignToByte r = r\<lparr>rd_bitBuf := 0, rd_bitCnt := 0\<rparr>"
  using assms rd_ok_small [OF assms]
  by (simp_all add: alignToByte_def rd_ok_def rd_rest_def Let_def word_bits_def)

lemma rd_bytesConsumed_ok: "rd_ok r \<Longrightarrow> rd_bytesConsumed r start = rd_pos r - start"
  using rd_ok_small [of r] by (simp add: rd_bytesConsumed_def)

section \<open>Huffman tables\<close>

definition MAX_BITS :: nat where "MAX_BITS = 15"

record huffman =
  hf_counts :: "nat list"
  hf_symbols :: "nat list"

definition count_length :: "nat list \<Rightarrow> nat \<Rightarrow> nat list \<Rightarrow> nat list res" where
  "count_length lengths i counts =
     (let len = lengths ! i in
      if len > MAX_BITS then Inl (Error ''inflate: code length exceeds 15'')
      else Inr (counts[len := counts ! len + 1]))"

definition count_lengths :: "nat list \<Rightarrow> nat \<Rightarrow> nat list res" where
  "count_lengths lengths n = fold_res (count_length lengths) [0..<n] (replicate (MAX_BITS + 1) 0)"

definition huff_offsets :: "nat list \<Rightarrow> nat list" where
  "huff_offsets counts =
     fold (\<lambda>len offsets. offsets[len + 1 := offsets ! len + counts ! len])
       [1..<MAX_BITS + 1] (replicate (MAX_BITS + 2) 0)"

definition place_symbol :: "nat list \<Rightarrow> nat \<Rightarrow> nat list \<times> nat list \<Rightarrow> nat list \<times> nat list" where
  "place_symbol lengths i = (\<lambda>(offsets, symbols).
     let len = lengths ! i in
     if len \<noteq> 0 then (offsets[len := offsets ! len + 1], symbols[offsets ! len := i])
     else (offsets, symbols))"

definition buildHuffman :: "nat list \<Rightarrow> nat \<Rightarrow> huffman res" where
  "buildHuffman lengths n =
     bind_res (count_lengths lengths n) (\<lambda>counts.
       Inr \<lparr>hf_counts = counts,
            hf_symbols = snd (fold (place_symbol lengths) [0..<n] (huff_offsets counts, replicate n 0))\<rparr>)"

text \<open>The walk of \<open>decode\<close>, one bit per round, over the code lengths \<open>1\<close> to \<open>MAX_BITS\<close>.\<close>

function decode_walk :: "huffman \<Rightarrow> nat \<Rightarrow> nat \<Rightarrow> nat \<Rightarrow> nat \<Rightarrow> bit_reader \<Rightarrow> (nat \<times> bit_reader) res" where
  "decode_walk h len code first index r =
     (if len \<le> MAX_BITS then
        bind_res (rd_bits 1 r) (\<lambda>(b, r).
          let code = code OR b; cnt = hf_counts h ! len in
          if int code - int cnt < int first
          then Inr (hf_symbols h ! nat (int index + (int code - int first)), r)
          else decode_walk h (len + 1) (push_bit 1 code) (push_bit 1 (first + cnt)) (index + cnt) r)
      else Inl (Error ''inflate: invalid Huffman code''))"
  by pat_completeness auto
termination
  by (relation "measure (\<lambda>(_, len, _). MAX_BITS + 1 - len)") auto

declare decode_walk.simps [simp del]

definition rd_decode :: "huffman \<Rightarrow> bit_reader \<Rightarrow> (nat \<times> bit_reader) res" where
  "rd_decode h r = decode_walk h 1 0 0 0 r"

section \<open>The counting sort builds the canonical table\<close>

text \<open>How many of the first \<open>m\<close> symbols have a code of length \<open>l\<close>, and where those of length \<open>l\<close> start.\<close>

definition len_count :: "nat list \<Rightarrow> nat \<Rightarrow> nat \<Rightarrow> nat" where
  "len_count lengths m l = length (filter (\<lambda>i. lengths ! i = l) [0..<m])"

definition len_start :: "nat list \<Rightarrow> nat \<Rightarrow> nat \<Rightarrow> nat" where
  "len_start lengths n l = sum_list (map (len_count lengths n) [1..<l])"

lemma len_count_simps [simp]:
  "len_count L 0 l = 0"
  "len_count L (Suc m) l = len_count L m l + (if L ! m = l then 1 else 0)"
  by (simp_all add: len_count_def)

lemma len_count_mono: "m \<le> n \<Longrightarrow> len_count L m l \<le> len_count L n l"
  by (induction n) (auto simp: le_Suc_eq)

lemma len_count_less: "i < n \<Longrightarrow> L ! i = l \<Longrightarrow> len_count L i l < len_count L n l"
  using len_count_mono [of "Suc i" n L l] by simp

lemma len_start_Suc: "0 < l \<Longrightarrow> len_start L n (Suc l) = len_start L n l + len_count L n l"
  by (simp add: len_start_def)

lemma len_start_le: "0 < l \<Longrightarrow> l < l' \<Longrightarrow> len_start L n l + len_count L n l \<le> len_start L n l'"
proof (induction l')
  case (Suc l')
  then show ?case by (cases "l = l'") (auto simp: len_start_Suc)
qed simp

lemma sum_len_count: "sum_list (map (len_count L m) [1..<k]) \<le> m"
proof (induction m)
  case (Suc m)
  have "sum_list (map (\<lambda>l. if L ! m = l then 1 else 0) [1..<k]) \<le> (1 :: nat)"
    by (induction k) auto
  with Suc show ?case
    by (simp add: sum_list_addf)
qed simp

lemma len_start_bound: "len_start L n l + len_count L n l \<le> n \<or> l = 0"
  using sum_len_count [of L n "Suc l"] by (cases "l = 0") (auto simp: len_start_def)

lemma nth_map_upt_0 [simp]: "i < k \<Longrightarrow> map f [0..<k] ! i = f i"
  by simp

lemma count_lengths_ok:
  assumes "\<And>i. i < n \<Longrightarrow> L ! i \<le> MAX_BITS"
  shows "count_lengths L n = Inr (map (len_count L n) [0..<MAX_BITS + 1])"
  using assms unfolding count_lengths_def
proof (induction n)
  case 0
  have "replicate (MAX_BITS + 1) 0 = map (len_count L 0) [0..<MAX_BITS + 1]"
    by (rule nth_equalityI) (simp_all del: upt_Suc replicate_Suc)
  then show ?case by (simp del: upt_Suc replicate_Suc)
next
  case (Suc n)
  let ?c = "map (len_count L n) [0..<MAX_BITS + 1]"
  have len: "L ! n < MAX_BITS + 1" using Suc.prems [of n] by simp
  have "?c[L ! n := ?c ! (L ! n) + 1] = map (len_count L (Suc n)) [0..<MAX_BITS + 1]"
    using len by (intro nth_equalityI) (auto simp: nth_list_update simp del: upt_Suc)
  then have "count_length L n ?c = Inr (map (len_count L (Suc n)) [0..<MAX_BITS + 1])"
    using len by (simp add: count_length_def Let_def del: upt_Suc)
  then show ?case using Suc by (simp add: fold_res_append del: replicate_Suc upt_Suc) (simp add: fold_res_append)
qed

lemma count_lengths_error:
  "i \<in> set xs \<Longrightarrow> MAX_BITS < L ! i \<Longrightarrow>
    fold_res (count_length L) xs c = Inl (Error ''inflate: code length exceeds 15'')"
proof (induction xs arbitrary: c)
  case (Cons x xs)
  then show ?case by (cases "MAX_BITS < L ! x") (auto simp: count_length_def Let_def)
qed simp

lemma buildHuffman_error:
  "i < n \<Longrightarrow> MAX_BITS < L ! i \<Longrightarrow>
    buildHuffman L n = Inl (Error ''inflate: code length exceeds 15'')"
  using count_lengths_error [of i "[0..<n]" L "replicate (MAX_BITS + 1) (0 :: nat)"]
  by (simp add: buildHuffman_def count_lengths_def del: replicate_Suc)

lemma huff_offsets_ok:
  assumes c: "\<And>k. k \<le> MAX_BITS \<Longrightarrow> c ! k = len_count L n k"
    and "l \<le> MAX_BITS + 1" and "0 < l"
  shows "huff_offsets c ! l = len_start L n l"
proof -
  let ?f = "\<lambda>len offsets. offsets[len + 1 := offsets ! len + c ! len]"
  let ?z = "replicate (MAX_BITS + 2) 0"
  have "0 < k \<Longrightarrow> k \<le> MAX_BITS + 1 \<Longrightarrow> length (fold ?f [1..<k] ?z) = MAX_BITS + 2 \<and>
      (\<forall>l. 0 < l \<and> l \<le> k \<longrightarrow> fold ?f [1..<k] ?z ! l = len_start L n l)" for k
  proof (induction k)
    case (Suc k)
    show ?case
    proof (cases "k = 0")
      case True
      then show ?thesis by (auto simp: len_start_def le_Suc_eq)
    next
      case False
      then show ?thesis using Suc c
        by (auto simp: nth_list_update le_Suc_eq len_start_Suc simp del: replicate_Suc)
    qed
  qed simp
  from this [of "MAX_BITS + 1"] assms(2,3) show ?thesis by (simp add: huff_offsets_def del: replicate_Suc)
qed

text \<open>
  Placing the first \<open>m\<close> symbols: every offset has moved by the symbols of its length, and
  each symbol is at the start of its length plus its rank.
\<close>

lemma place_symbols:
  assumes off: "length offs = MAX_BITS + 2" "\<And>l. 0 < l \<Longrightarrow> l \<le> MAX_BITS \<Longrightarrow> offs ! l = len_start L n l"
    and le: "\<And>i. i < n \<Longrightarrow> L ! i \<le> MAX_BITS"
    and "m \<le> n"
  shows "\<exists>offs' syms. fold (place_symbol L) [0..<m] (offs, replicate n 0) = (offs', syms) \<and>
    length offs' = MAX_BITS + 2 \<and> length syms = n \<and>
    (\<forall>l. 0 < l \<and> l \<le> MAX_BITS \<longrightarrow> offs' ! l = len_start L n l + len_count L m l) \<and>
    (\<forall>i < m. L ! i \<noteq> 0 \<longrightarrow> syms ! (len_start L n (L ! i) + len_count L i (L ! i)) = i)"
  using \<open>m \<le> n\<close>
proof (induction m)
  case (Suc m)
  then obtain offs' syms where IH: "fold (place_symbol L) [0..<m] (offs, replicate n 0) = (offs', syms)"
    "length offs' = MAX_BITS + 2" "length syms = n"
    "\<And>l. 0 < l \<Longrightarrow> l \<le> MAX_BITS \<Longrightarrow> offs' ! l = len_start L n l + len_count L m l"
    "\<And>i. i < m \<Longrightarrow> L ! i \<noteq> 0 \<Longrightarrow> syms ! (len_start L n (L ! i) + len_count L i (L ! i)) = i"
    by auto
  show ?case
  proof (cases "L ! m = 0")
    case True
    then have "fold (place_symbol L) [0..<Suc m] (offs, replicate n 0) = (offs', syms)"
      using IH(1) by (simp add: place_symbol_def)
    then show ?thesis using IH True by (auto simp: less_Suc_eq)
  next
    case False
    let ?l = "L ! m"
    let ?p = "len_start L n ?l + len_count L m ?l"
    have l: "0 < ?l" "?l \<le> MAX_BITS" using False le [of m] Suc.prems by auto
    have cnt: "len_count L m ?l < len_count L n ?l" using len_count_less Suc.prems by simp
    then have p: "?p < n" using len_start_bound [of L n ?l] l by auto
    have other: "len_start L n (L ! i) + len_count L i (L ! i) \<noteq> ?p" if "i < m" "L ! i \<noteq> 0" for i
    proof (cases "L ! i = ?l")
      case True
      then show ?thesis using len_count_less [OF that(1) refl, of L] by simp
    next
      case False
      have "len_count L i (L ! i) < len_count L n (L ! i)" using len_count_less that(1) Suc.prems by simp
      then show ?thesis
        using len_start_le [of "L ! i" ?l L n] len_start_le [of ?l "L ! i" L n] cnt that l False by linarith
    qed
    have "fold (place_symbol L) [0..<Suc m] (offs, replicate n 0) = (offs'[?l := ?p + 1], syms[?p := m])"
      using IH False l by (simp add: place_symbol_def Let_def)
    moreover have "offs'[?l := ?p + 1] ! k = len_start L n k + len_count L (Suc m) k" if "0 < k" "k \<le> MAX_BITS" for k
      using that IH(2,4) l by (auto simp: nth_list_update)
    moreover have "syms[?p := m] ! (len_start L n (L ! i) + len_count L i (L ! i)) = i"
      if "i < Suc m" "L ! i \<noteq> 0" for i
      using that IH(3,5) p other [of i] by (cases "i = m") (auto simp: nth_list_update)
    ultimately show ?thesis using IH(2,3) by auto
  qed
qed (use off in simp)

text \<open>What a table built from \<open>L\<close> holds.\<close>

definition huff_table :: "nat list \<Rightarrow> nat \<Rightarrow> huffman \<Rightarrow> bool" where
  "huff_table L n h \<longleftrightarrow>
     (\<forall>l \<le> MAX_BITS. hf_counts h ! l = len_count L n l) \<and>
     (\<forall>i < n. L ! i \<le> MAX_BITS \<and>
       (L ! i \<noteq> 0 \<longrightarrow> hf_symbols h ! (len_start L n (L ! i) + len_count L i (L ! i)) = i))"

lemma length_huff_offsets: "length (huff_offsets c) = MAX_BITS + 2"
proof -
  have "length (fold (\<lambda>len offsets. offsets[len + 1 := offsets ! len + c ! len]) xs z) = length z" for xs z
    by (induction xs arbitrary: z) auto
  then show ?thesis by (simp add: huff_offsets_def)
qed

lemma buildHuffman_ok:
  assumes "\<And>i. i < n \<Longrightarrow> L ! i \<le> MAX_BITS"
  shows "\<exists>h. buildHuffman L n = Inr h \<and> huff_table L n h"
proof -
  let ?c = "map (len_count L n) [0..<MAX_BITS + 1]"
  have c: "?c ! k = len_count L n k" if "k \<le> MAX_BITS" for k
    using that by (intro nth_map_upt_0) simp
  obtain offs syms where "fold (place_symbol L) [0..<n] (huff_offsets ?c, replicate n 0) = (offs, syms)"
    "\<And>i. i < n \<Longrightarrow> L ! i \<noteq> 0 \<Longrightarrow> syms ! (len_start L n (L ! i) + len_count L i (L ! i)) = i"
    using place_symbols [of "huff_offsets ?c" L n n] length_huff_offsets huff_offsets_ok [OF c] assms
    by auto
  then have "buildHuffman L n = Inr \<lparr>hf_counts = ?c, hf_symbols = syms\<rparr> \<and>
      huff_table L n \<lparr>hf_counts = ?c, hf_symbols = syms\<rparr>"
    using assms c by (simp add: buildHuffman_def count_lengths_ok huff_table_def del: upt_Suc)
  then show ?thesis by blast
qed

lemma buildHuffman_Inr:
  assumes "buildHuffman L n = Inr h"
  shows "huff_table L n h"
proof (cases "\<forall>i < n. L ! i \<le> MAX_BITS")
  case True
  then show ?thesis using buildHuffman_ok [of n L] assms by auto
next
  case False
  then obtain i where "i < n" "MAX_BITS < L ! i" by (auto simp: not_le)
  then show ?thesis using buildHuffman_error assms by simp
qed

section \<open>Decoding\<close>

text \<open>Every entry that the walk can index is the place of some symbol.\<close>

lemma len_count_hit: "k < len_count L n l \<Longrightarrow> \<exists>i < n. L ! i = l \<and> len_count L i l = k"
proof (induction n)
  case (Suc n)
  show ?case
  proof (cases "k < len_count L n l")
    case True
    then show ?thesis using Suc.IH by (auto intro: less_SucI)
  next
    case False
    with Suc.prems have "L ! n = l" "len_count L n l = k" by (auto split: if_splits)
    then show ?thesis by blast
  qed
qed simp

lemma huff_symbol:
  assumes "huff_table L n h" and "0 < l" and "l \<le> MAX_BITS" and "k < len_count L n l"
  shows "\<exists>i < n. L ! i = l \<and> hf_symbols h ! (len_start L n l + k) = i"
proof -
  obtain i where "i < n" "L ! i = l" "len_count L i l = k" using len_count_hit assms(4) by blast
  then show ?thesis using assms(1,2) by (auto simp: huff_table_def)
qed

lemma or_bit: "even (c :: nat) \<Longrightarrow> c OR of_bool b = c + of_bool b"
  by (cases b) (simp_all add: or_Suc_0_eq)

text \<open>
  The walk never indexes outside the table, whatever the code lengths: the code read so far
  is at least the first one of the length. So decoding yields a symbol of the alphabet or
  fails, and consumes at least one bit.
\<close>

lemma decode_walk_range:
  assumes "decode_walk h len code first index r = Inr (sy, r')"
    and "huff_table L n h" and "rd_ok r" and "0 < len"
    and "even code" and "first \<le> code" and "index = len_start L n len"
  shows "sy < n \<and> 0 < L ! sy \<and> rd_ok r' \<and> rd_buf r' = rd_buf r \<and>
    length (rd_rest r') < length (rd_rest r)"
  using assms
proof (induction h len code first index r rule: decode_walk.induct)
  case (1 h len code first index r)
  have len: "len \<le> MAX_BITS" using 1(2) by (subst (asm) decode_walk.simps) (auto split: if_splits)
  obtain b r1 where b: "rd_bits 1 r = Inr (b, r1)"
    using 1(2) len by (subst (asm) decode_walk.simps) (auto simp: res_elims)
  have r1: "b = bits_val (take 1 (rd_rest r))" "rd_ok r1" "rd_buf r1 = rd_buf r"
    "length (rd_rest r1) < length (rd_rest r)"
    using rd_bits_Inr [OF b \<open>rd_ok r\<close>] by auto
  let ?code = "code OR b" and ?cnt = "hf_counts h ! len"
  obtain bb where "b = of_bool bb"
    using r1(1) by (cases "rd_rest r") auto
  then have code: "?code = code + b" using or_bit [OF \<open>even code\<close>] by simp
  have cnt: "?cnt = len_count L n len" using \<open>huff_table L n h\<close> len by (simp add: huff_table_def)
  show ?case
  proof (cases "int ?code - int ?cnt < int first")
    case True
    moreover have "nat (int index + (int ?code - int first)) = index + (?code - first)"
      using 1(7) code by linarith
    ultimately have "sy = hf_symbols h ! (index + (?code - first))" "r' = r1"
      using 1(2) len b by (subst (asm) decode_walk.simps, simp add: Let_def)+
    moreover have "?code - first < len_count L n len" using True cnt 1(7) code by linarith
    ultimately show ?thesis using huff_symbol [OF \<open>huff_table L n h\<close>, of len "?code - first"] 1(5,8) len r1
      by auto
  next
    case False
    then have next': "decode_walk h (len + 1) (push_bit 1 ?code) (push_bit 1 (first + ?cnt)) (index + ?cnt) r1
        = Inr (sy, r')"
      using 1(2) len b by (subst (asm) decode_walk.simps) (simp add: Let_def)
    have "sy < n \<and> 0 < L ! sy \<and> rd_ok r' \<and> rd_buf r' = rd_buf r1 \<and>
        length (rd_rest r') < length (rd_rest r1)"
    proof (rule 1(1) [OF len b refl refl refl False next' \<open>huff_table L n h\<close> r1(2)])
      show "push_bit 1 (first + ?cnt) \<le> push_bit 1 ?code"
        using False by (simp add: push_bit_eq_mult) 
      show "index + ?cnt = len_start L n (len + 1)"
        using cnt 1(5,8) by (simp add: len_start_Suc)
    qed (simp_all add: push_bit_eq_mult)
    then show ?thesis using r1 by auto
  qed
qed

lemma rd_decode_range:
  assumes "rd_decode h r = Inr (sy, r')" and "huff_table L n h" and "rd_ok r"
  shows "sy < n \<and> 0 < L ! sy \<and> rd_ok r' \<and> rd_buf r' = rd_buf r \<and>
    length (rd_rest r') < length (rd_rest r)"
  using decode_walk_range [OF assms(1) [unfolded rd_decode_def] assms(2,3)] by (simp add: len_start_def)

section \<open>Decoding inverts the canonical code\<close>

text \<open>
  RFC 1951, 3.2.2: the codes of a length are consecutive, in the order of the symbols, and
  the first one follows from the number of shorter codes. Codes are sent from the most
  significant bit.
\<close>

primrec first_code :: "nat list \<Rightarrow> nat \<Rightarrow> nat \<Rightarrow> nat" where
  "first_code L n 0 = 0"
| "first_code L n (Suc l) = 2 * (first_code L n l + (if l = 0 then 0 else len_count L n l))"

definition huff_code :: "nat list \<Rightarrow> nat \<Rightarrow> nat \<Rightarrow> nat" where
  "huff_code L n s = first_code L n (L ! s) + len_count L s (L ! s)"

definition code_bits :: "nat \<Rightarrow> nat \<Rightarrow> bool list" where
  "code_bits l c = map (\<lambda>k. bit c (l - 1 - k)) [0..<l]"

definition has_code :: "nat list \<Rightarrow> nat \<Rightarrow> nat \<Rightarrow> bool" where
  "has_code L n s \<longleftrightarrow> s < n \<and> 0 < L ! s \<and> L ! s \<le> MAX_BITS \<and> huff_code L n s < 2 ^ (L ! s)"

definition huff_bits :: "nat list \<Rightarrow> nat \<Rightarrow> nat \<Rightarrow> bool list" where
  "huff_bits L n s = code_bits (L ! s) (huff_code L n s)"

lemma first_code_le:
  "0 < l \<Longrightarrow> l < l' \<Longrightarrow> (first_code L n l + len_count L n l) * 2 ^ (l' - l) \<le> first_code L n l'"
proof (induction l')
  case (Suc l')
  show ?case
  proof (cases "l = l'")
    case False
    with Suc have "(first_code L n l + len_count L n l) * 2 ^ (l' - l) \<le> first_code L n l'" by simp
    moreover have "Suc l' - l = Suc (l' - l)" using Suc.prems by simp
    ultimately show ?thesis using Suc.prems by simp
  qed (use Suc.prems in simp)
qed simp

lemma drop_code_bits: "len < l \<Longrightarrow> drop len (code_bits l c) = bit c (l - Suc len) # drop (Suc len) (code_bits l c)"
  by (simp add: code_bits_def drop_map upt_conv_Cons [of len])

lemma code_prefix_step: "2 * (c div 2 ^ Suc k) + of_bool (bit c k) = c div 2 ^ k" for c :: nat
proof -
  have "c div 2 ^ Suc k = c div 2 ^ k div 2" by (metis div_mult2_eq mult.commute power_Suc)
  then show ?thesis by (simp add: bit_iff_odd)
qed

lemma decode_walk_step:
  "len \<le> MAX_BITS \<Longrightarrow> rd_bits 1 r = Inr (b, r1) \<Longrightarrow> code OR b = cd \<Longrightarrow> hf_counts h ! len = cnt \<Longrightarrow>
    decode_walk h len code first index r =
      (if int cd - int cnt < int first then Inr (hf_symbols h ! nat (int index + (int cd - int first)), r1)
       else decode_walk h (Suc len) (2 * cd) (2 * (first + cnt)) (index + cnt) r1)"
  by (subst decode_walk.simps) (simp add: Let_def push_bit_eq_mult mult.commute)

lemma decode_walk_code:
  assumes "huff_table L n h" and s: "has_code L n s" and "l = L ! s" and "c = huff_code L n s"
  shows "0 < len \<Longrightarrow> len \<le> l \<Longrightarrow> rd_ok r \<Longrightarrow> rd_rest r = drop (len - 1) (code_bits l c) @ rest \<Longrightarrow>
    \<exists>r'. decode_walk h len (2 * (c div 2 ^ Suc (l - len))) (first_code L n len) (len_start L n len) r =
      Inr (s, r') \<and> rd_ok r' \<and> rd_rest r' = rest \<and> rd_buf r' = rd_buf r"
proof (induction "l - len" arbitrary: len r)
  case (0 len)
  then have len: "len = l" by simp
  have "rd_rest r = [bit c (l - len)] @ rest"
    using 0 len drop_code_bits [of "l - 1" l c] by (simp add: code_bits_def)
  then obtain r1 where r1: "rd_bits 1 r = Inr (bits_val [bit c (l - len)], r1)" "rd_ok r1" "rd_rest r1 = rest"
    "rd_buf r1 = rd_buf r"
    using rd_bits_append [OF _ _ 0(4), of _ rest 1] by auto
  have code: "2 * (c div 2 ^ Suc (l - len)) OR bits_val [bit c (l - len)] = c"
    using or_bit [of "2 * (c div 2 ^ Suc (l - len))" "bit c (l - len)"] code_prefix_step [of c "l - len"] len
    by simp
  have s': "len \<le> MAX_BITS" "s < n" "0 < l" "hf_counts h ! len = len_count L n l"
    "hf_symbols h ! (len_start L n l + len_count L s l) = s"
    using assms len by (auto simp: has_code_def huff_table_def)
  have c: "c = first_code L n l + len_count L s l" "len_count L s l < len_count L n l"
    using assms s' by (auto simp: huff_code_def len_count_less)
  have "nat (int (len_start L n len) + (int c - int (first_code L n len))) = len_start L n l + len_count L s l"
    using c len by simp
  moreover have "int c - int (len_count L n l) < int (first_code L n len)" using c len by simp
  ultimately show ?case
    unfolding decode_walk_step [OF s'(1) r1(1) code s'(4)] using s'(5) r1 by simp
next
  case (Suc d len)
  have lt: "len < l" using Suc(2) by simp
  have "rd_rest r = [bit c (l - len)] @ drop len (code_bits l c) @ rest"
    using Suc drop_code_bits [of "len - 1" l c] lt by simp
  then obtain r1 where r1: "rd_bits 1 r = Inr (bits_val [bit c (l - len)], r1)" "rd_ok r1"
    "rd_rest r1 = drop len (code_bits l c) @ rest" "rd_buf r1 = rd_buf r"
    using rd_bits_append [OF _ _ Suc.prems(3), of _ "drop len (code_bits l c) @ rest" 1] by auto
  have code: "2 * (c div 2 ^ Suc (l - len)) OR bits_val [bit c (l - len)] = c div 2 ^ (l - len)"
    using or_bit [of "2 * (c div 2 ^ Suc (l - len))" "bit c (l - len)"] code_prefix_step [of c "l - len"]
    by simp
  have len: "len \<le> MAX_BITS" "hf_counts h ! len = len_count L n len"
    using assms lt by (auto simp: has_code_def huff_table_def)
  have "(first_code L n len + len_count L n len) * 2 ^ (l - len) \<le> c"
    using first_code_le [OF Suc.prems(1) lt, of L n] assms by (simp add: huff_code_def)
  then have le: "first_code L n len + len_count L n len \<le> c div 2 ^ (l - len)"
    by (simp add: less_eq_div_iff_mult_less_eq)
  have step: "l - len = Suc (l - Suc len)" "first_code L n (Suc len) = 2 * (first_code L n len + len_count L n len)"
    "len_start L n (Suc len) = len_start L n len + len_count L n len"
    using lt Suc.prems(1) by (auto simp: len_start_Suc)
  have "decode_walk h len (2 * (c div 2 ^ Suc (l - len))) (first_code L n len) (len_start L n len) r =
      decode_walk h (Suc len) (2 * (c div 2 ^ Suc (l - Suc len))) (first_code L n (Suc len))
        (len_start L n (Suc len)) r1"
  proof -
    have "\<not> int (c div 2 ^ (l - len)) - int (len_count L n len) < int (first_code L n len)"
      using le by linarith
    then show ?thesis
      unfolding decode_walk_step [OF len(1) r1(1) code len(2)] step(2,3) by (simp only: step(1) if_False)
  qed
  with Suc(1) [of "Suc len" r1] Suc(2) r1 lt show ?case by simp
qed

text \<open>Decoding the code of a symbol gives the symbol and leaves the bits that follow.\<close>

lemma rd_decode_code:
  assumes "huff_table L n h" and "has_code L n s" and "rd_ok r" and "rd_rest r = huff_bits L n s @ rest"
  shows "\<exists>r'. rd_decode h r = Inr (s, r') \<and> rd_ok r' \<and> rd_rest r' = rest \<and> rd_buf r' = rd_buf r"
proof -
  have "huff_code L n s div 2 ^ Suc (L ! s - 1) = 0" and "0 < L ! s"
    using assms(2) by (auto simp: has_code_def)
  then show ?thesis
    using decode_walk_code [OF assms(1,2) refl refl, of 1 r rest] assms(3,4)
    by (simp add: rd_decode_def huff_bits_def len_start_def)
qed

section \<open>Progress\<close>

text \<open>
  Whatever the state of the reader and the table, reading \<open>n\<close> bits uses up \<open>n\<close> of those that
  are left and decoding uses up at least one: what makes the loops over the input end.
\<close>

lemma fill_bits_left:
  "fill_bits buf n w k pos = Inr (w', k', pos') \<Longrightarrow> n \<le> k' \<and>
    k' + 8 * (length buf - pos') = k + 8 * (length buf - pos)"
proof (induction buf n w k pos rule: fill_bits.induct)
  case (1 buf n w k pos)
  show ?case
  proof (cases "k < n")
    case True
    with 1(2) have pos: "pos < length buf"
      by (subst (asm) fill_bits.simps) (auto split: if_splits)
    have "fill_bits buf n (w OR push_bit k (ucast (buf ! pos))) (k + 8) (pos + 1) = Inr (w', k', pos')"
      using 1(2) True pos by (subst (asm) fill_bits.simps) simp
    then show ?thesis using 1(1) [OF True] pos by simp
  next
    case False
    then show ?thesis using 1(2) by (subst (asm) fill_bits.simps) auto
  qed
qed

lemma rd_bits_left:
  "rd_bits n r = Inr (v, r') \<Longrightarrow>
    length (rd_rest r') + n = length (rd_rest r) \<and> rd_buf r' = rd_buf r"
  by (auto simp: rd_bits_def length_rd_rest res_elims dest!: fill_bits_left)

lemma decode_walk_left:
  "decode_walk h len code first index r = Inr (v, r') \<Longrightarrow>
    length (rd_rest r') < length (rd_rest r) \<and> rd_buf r' = rd_buf r"
proof (induction h len code first index r rule: decode_walk.induct)
  case (1 h len code first index r)
  then obtain b r1 where b: "len \<le> MAX_BITS" "rd_bits 1 r = Inr (b, r1)"
    by (subst (asm) decode_walk.simps) (auto simp: res_elims split: if_splits)
  note step = decode_walk_step [OF b refl refl]
  show ?case
  proof (cases "int (code OR b) - int (hf_counts h ! len) < int first")
    case True
    then show ?thesis using 1(2) rd_bits_left [OF b(2)] by (simp add: step)
  next
    case False
    then have "decode_walk h (len + 1) (push_bit 1 (code OR b)) (push_bit 1 (first + hf_counts h ! len))
        (index + hf_counts h ! len) r1 = Inr (v, r')"
      using 1(2) by (simp add: step push_bit_eq_mult mult.commute)
    then show ?thesis using 1(1) [OF b refl refl refl False] rd_bits_left [OF b(2)] by auto
  qed
qed

lemma rd_decode_left:
  "rd_decode h r = Inr (v, r') \<Longrightarrow> length (rd_rest r') < length (rd_rest r) \<and> rd_buf r' = rd_buf r"
  unfolding rd_decode_def by (rule decode_walk_left)

lemma readByteRaw_left:
  "readByteRaw r = Inr (b, r') \<Longrightarrow> length (rd_rest r') < length (rd_rest r) \<and> rd_buf r' = rd_buf r"
  by (auto simp: readByteRaw_def length_rd_rest split: if_splits)

lemma alignToByte_left:
  "length (rd_rest (alignToByte r)) \<le> length (rd_rest r) \<and> rd_buf (alignToByte r) = rd_buf r"
proof -
  define c where "c = rd_bitCnt r - (rd_bitCnt r AND 7)"
  have "8 * (length (rd_buf r) - (rd_pos r - c div 8)) \<le> c + 8 * (length (rd_buf r) - rd_pos r)"
    by linarith
  also have "c \<le> rd_bitCnt r" by (simp add: c_def)
  finally show ?thesis
    by (simp add: length_rd_rest alignToByte_def Let_def drop_bit_eq_div flip: c_def)
qed

end
