(* ===== verification/GitInflate.thy ===== *)
theory GitInflate
  imports InflateBits GitObjects
begin

text \<open>
  The inflater of \<open>takos-git/local/core/inflate-raw.ts\<close>: the output buffer with its LZ77
  copies, the three kinds of DEFLATE block and the zlib wrapper. A relation states what a
  DEFLATE stream stands for, and the inflater is shown to compute it and to report where
  the stream ends.
\<close>

section \<open>Tables\<close>

definition LENGTH_BASE :: "nat list" where
  "LENGTH_BASE =
     [3, 4, 5, 6, 7, 8, 9, 10, 11, 13, 15, 17, 19, 23, 27, 31, 35, 43, 51, 59, 67,
      83, 99, 115, 131, 163, 195, 227, 258]"

definition LENGTH_EXTRA :: "nat list" where
  "LENGTH_EXTRA =
     [0, 0, 0, 0, 0, 0, 0, 0, 1, 1, 1, 1, 2, 2, 2, 2, 3, 3, 3, 3, 4, 4, 4, 4, 5, 5,
      5, 5, 0]"

definition DIST_BASE :: "nat list" where
  "DIST_BASE =
     [1, 2, 3, 4, 5, 7, 9, 13, 17, 25, 33, 49, 65, 97, 129, 193, 257, 385, 513, 769,
      1025, 1537, 2049, 3073, 4097, 6145, 8193, 12289, 16385, 24577]"

definition DIST_EXTRA :: "nat list" where
  "DIST_EXTRA =
     [0, 0, 0, 0, 1, 1, 2, 2, 3, 3, 4, 4, 5, 5, 6, 6, 7, 7, 8, 8, 9, 9, 10, 10, 11,
      11, 12, 12, 13, 13]"

definition CLEN_ORDER :: "nat list" where
  "CLEN_ORDER = [16, 17, 18, 0, 8, 7, 9, 6, 10, 5, 11, 4, 12, 3, 13, 2, 14, 1, 15]"

section \<open>The output buffer\<close>

record out_buffer =
  ob_data :: bytes
  ob_length :: nat

definition new_out :: "nat \<Rightarrow> out_buffer" where
  "new_out initialCapacity = \<lparr>ob_data = replicate (max 64 initialCapacity) 0, ob_length = 0\<rparr>"

text \<open>
  The doubling loop. The capacity is never 0 (the constructor makes it at least 64 and only
  this loop changes it), which the guard states for the termination.
\<close>

function grow_cap :: "nat \<Rightarrow> nat \<Rightarrow> nat" where
  "grow_cap cap needed = (if 0 < cap \<and> cap < needed then grow_cap (cap * 2) needed else cap)"
  by pat_completeness auto
termination
  by (relation "measure (\<lambda>(cap, needed). needed - cap)") auto

declare grow_cap.simps [simp del]

definition ob_ensure :: "nat \<Rightarrow> out_buffer \<Rightarrow> out_buffer" where
  "ob_ensure extra ob =
     (let needed = ob_length ob + extra in
      if needed \<le> length (ob_data ob) then ob
      else ob\<lparr>ob_data := set_at (replicate (grow_cap (length (ob_data ob) * 2) needed) 0) 0
                 (take (ob_length ob) (ob_data ob))\<rparr>)"

definition ob_push :: "byte \<Rightarrow> out_buffer \<Rightarrow> out_buffer" where
  "ob_push b ob =
     (let ob = ob_ensure 1 ob in
      \<lparr>ob_data = (ob_data ob)[ob_length ob := b], ob_length = ob_length ob + 1\<rparr>)"

definition ob_append :: "bytes \<Rightarrow> out_buffer \<Rightarrow> out_buffer" where
  "ob_append src ob =
     (let ob = ob_ensure (length src) ob in
      \<lparr>ob_data = set_at (ob_data ob) (ob_length ob) src, ob_length = ob_length ob + length src\<rparr>)"

primrec copy_loop :: "nat \<Rightarrow> nat \<Rightarrow> nat \<Rightarrow> bytes \<Rightarrow> bytes" where
  "copy_loop 0 src dst data = data"
| "copy_loop (Suc n) src dst data = copy_loop n (src + 1) (dst + 1) (data[dst := data ! src])"

definition ob_copyBack :: "nat \<Rightarrow> nat \<Rightarrow> out_buffer \<Rightarrow> out_buffer res" where
  "ob_copyBack dist len ob =
     (if dist \<le> 0 \<or> dist > ob_length ob then Inl (Error ''inflate: invalid back-reference distance'')
      else let ob = ob_ensure len ob in
        Inr \<lparr>ob_data = copy_loop len (ob_length ob - dist) (ob_length ob) (ob_data ob),
             ob_length = ob_length ob + len\<rparr>)"

definition ob_toUint8Array :: "out_buffer \<Rightarrow> bytes" where
  "ob_toUint8Array ob = take (ob_length ob) (ob_data ob)"

section \<open>Blocks\<close>

definition fixed_lit_lengths :: "nat list" where
  "fixed_lit_lengths = replicate 144 8 @ replicate 112 9 @ replicate 24 7 @ replicate 8 8"

definition FIXED_LIT :: "huffman res" where
  "FIXED_LIT = buildHuffman fixed_lit_lengths 288"

definition FIXED_DIST :: "huffman res" where
  "FIXED_DIST = buildHuffman (replicate 30 5) 30"

function inflateBlockData ::
  "huffman \<Rightarrow> huffman \<Rightarrow> bit_reader \<Rightarrow> out_buffer \<Rightarrow> (bit_reader \<times> out_buffer) res" where
  "inflateBlockData litHuff distHuff r ob =
     bind_res (rd_decode litHuff r) (\<lambda>(sy, r1).
       if sy < 256 then inflateBlockData litHuff distHuff r1 (ob_push (of_nat sy) ob)
       else if sy = 256 then Inr (r1, ob)
       else let li = sy - 257 in
         if li \<ge> length LENGTH_BASE then Inl (Error ''inflate: invalid length symbol'')
         else bind_res (rd_bits (LENGTH_EXTRA ! li) r1) (\<lambda>(lx, r2).
           let len = LENGTH_BASE ! li + lx in
           bind_res (rd_decode distHuff r2) (\<lambda>(dsym, r3).
             if dsym \<ge> length DIST_BASE then Inl (Error ''inflate: invalid distance symbol'')
             else bind_res (rd_bits (DIST_EXTRA ! dsym) r3) (\<lambda>(dx, r4).
               let dist = DIST_BASE ! dsym + dx in
               bind_res (ob_copyBack dist len ob) (\<lambda>ob.
                 inflateBlockData litHuff distHuff r4 ob)))))"
  by pat_completeness auto
termination
  by (relation "measure (\<lambda>(_, _, r, _). length (rd_rest r))")
    (auto dest!: rd_decode_left rd_bits_left)

declare inflateBlockData.simps [simp del]

primrec read_clens :: "nat list \<Rightarrow> nat list \<Rightarrow> bit_reader \<Rightarrow> (nat list \<times> bit_reader) res" where
  "read_clens [] clen r = Inr (clen, r)"
| "read_clens (i # ks) clen r =
     bind_res (rd_bits 3 r) (\<lambda>(v, r). read_clens ks (clen[CLEN_ORDER ! i := v]) r)"

text \<open>\<open>while (repeat-- > 0 && i < tot) lengths[i++] = v\<close>\<close>

primrec fill_lengths :: "nat \<Rightarrow> nat \<Rightarrow> nat \<Rightarrow> nat list \<times> nat \<Rightarrow> nat list \<times> nat" where
  "fill_lengths 0 tot v st = st"
| "fill_lengths (Suc k) tot v st =
     (case st of (lengths, i) \<Rightarrow>
        if i < tot then fill_lengths k tot v (lengths[i := v], i + 1) else (lengths, i))"

function read_lengths ::
  "huffman \<Rightarrow> nat \<Rightarrow> nat list \<Rightarrow> nat \<Rightarrow> bit_reader \<Rightarrow> (nat list \<times> bit_reader) res" where
  "read_lengths clenHuff tot lengths i r =
     (if i < tot then
        bind_res (rd_decode clenHuff r) (\<lambda>(sy, r1).
          if sy < 16 then read_lengths clenHuff tot (lengths[i := sy]) (i + 1) r1
          else if sy = 16 then
            if i = 0 then Inl (Error ''inflate: repeat with no previous length'')
            else bind_res (rd_bits 2 r1) (\<lambda>(x, r2).
              case fill_lengths (x + 3) tot (lengths ! (i - 1)) (lengths, i) of
                (lengths, i) \<Rightarrow> read_lengths clenHuff tot lengths i r2)
          else if sy = 17 then
            bind_res (rd_bits 3 r1) (\<lambda>(x, r2).
              case fill_lengths (x + 3) tot 0 (lengths, i) of
                (lengths, i) \<Rightarrow> read_lengths clenHuff tot lengths i r2)
          else
            bind_res (rd_bits 7 r1) (\<lambda>(x, r2).
              case fill_lengths (x + 11) tot 0 (lengths, i) of
                (lengths, i) \<Rightarrow> read_lengths clenHuff tot lengths i r2))
      else Inr (lengths, r))"
  by pat_completeness auto
termination
  by (relation "measure (\<lambda>(_, _, _, _, r). length (rd_rest r))")
    (auto dest!: rd_decode_left rd_bits_left)

declare read_lengths.simps [simp del]

definition inflateDynamicTables :: "bit_reader \<Rightarrow> ((huffman \<times> huffman) \<times> bit_reader) res" where
  "inflateDynamicTables r =
     bind_res (rd_bits 5 r) (\<lambda>(a, r).
     bind_res (rd_bits 5 r) (\<lambda>(b, r).
     bind_res (rd_bits 4 r) (\<lambda>(c, r).
       let hlit = a + 257; hdist = b + 1; hclen = c + 4 in
       if hlit > 286 \<or> hdist > 30 then Inl (Error ''inflate: dynamic block header out of range'')
       else
         bind_res (read_clens [0..<hclen] (replicate 19 0) r) (\<lambda>(clenLengths, r).
         bind_res (buildHuffman clenLengths 19) (\<lambda>clenHuff.
         let tot = hlit + hdist in
         bind_res (read_lengths clenHuff tot (replicate tot 0) 0 r) (\<lambda>(lengths, r).
         bind_res (buildHuffman (js_slice lengths 0 hlit) hlit) (\<lambda>litHuff.
         bind_res (buildHuffman (js_slice lengths hlit tot) hdist) (\<lambda>distHuff.
           Inr ((litHuff, distHuff), r)))))))))"

primrec copy_stored :: "nat \<Rightarrow> bit_reader \<Rightarrow> out_buffer \<Rightarrow> (bit_reader \<times> out_buffer) res" where
  "copy_stored 0 r ob = Inr (r, ob)"
| "copy_stored (Suc n) r ob = bind_res (readByteRaw r) (\<lambda>(b, r). copy_stored n r (ob_push b ob))"

definition read_le16 :: "bit_reader \<Rightarrow> (nat \<times> bit_reader) res" where
  "read_le16 r =
     bind_res (readByteRaw r) (\<lambda>(lo, r).
     bind_res (readByteRaw r) (\<lambda>(hi, r).
       Inr (unat lo OR push_bit 8 (unat hi), r)))"

text \<open>The body of the loop over the blocks: the block's type is read, the final bit has been.\<close>

definition inflate_block :: "bit_reader \<Rightarrow> out_buffer \<Rightarrow> (bit_reader \<times> out_buffer) res" where
  "inflate_block r ob =
     bind_res (rd_bits 2 r) (\<lambda>(type, r).
       if type = 0 then
         bind_res (read_le16 (alignToByte r)) (\<lambda>(len, r).
         bind_res (read_le16 r) (\<lambda>(nlen, r).
           if (len XOR 0xffff) \<noteq> nlen then Inl (Error ''inflate: stored block length check failed'')
           else copy_stored len r ob))
       else if type = 1 then
         bind_res FIXED_LIT (\<lambda>lit. bind_res FIXED_DIST (\<lambda>dist. inflateBlockData lit dist r ob))
       else if type = 2 then
         bind_res (inflateDynamicTables r) (\<lambda>((litHuff, distHuff), r).
           inflateBlockData litHuff distHuff r ob)
       else Inl (Error ''inflate: reserved block type 3''))"

text \<open>Every part of a block only moves forward in the input.\<close>

definition rd_within :: "bit_reader \<Rightarrow> bit_reader \<Rightarrow> bool" where
  "rd_within r' r \<longleftrightarrow> length (rd_rest r') \<le> length (rd_rest r) \<and> rd_buf r' = rd_buf r"

lemma rd_within_trans [trans]: "rd_within r3 r2 \<Longrightarrow> rd_within r2 r1 \<Longrightarrow> rd_within r3 r1"
  by (auto simp: rd_within_def)

lemma rd_within_steps:
  "rd_bits n r = Inr (v, r') \<Longrightarrow> rd_within r' r"
  "rd_decode h r = Inr (v, r') \<Longrightarrow> rd_within r' r"
  "readByteRaw r = Inr (b, r') \<Longrightarrow> rd_within r' r"
  "rd_within (alignToByte r) r"
  using rd_bits_left [of n r v r'] rd_decode_left [of h r v r'] readByteRaw_left [of r b r']
    alignToByte_left [of r] by (auto simp: rd_within_def)

lemma inflateBlockData_left:
  "inflateBlockData lit dist r ob = Inr (r', ob') \<Longrightarrow> rd_within r' r"
proof (induction lit dist r ob arbitrary: rule: inflateBlockData.induct)
  case (1 lit dist r ob)
  from 1(3) obtain sy r1 where d: "rd_decode lit r = Inr (sy, r1)"
    by (subst (asm) inflateBlockData.simps) (auto simp: res_elims)
  show ?case
  proof (cases "sy \<le> 256")
    case True
    then show ?thesis
      using 1(3) d 1(1) [OF d refl] rd_within_steps(2) [OF d]
      by (subst (asm) inflateBlockData.simps) (auto split: if_splits intro: rd_within_trans)
  next
    case False
    with 1(3) d obtain lx r2 dsym r3 dx r4 ob2 where
      s: "\<not> length LENGTH_BASE \<le> sy - 257" "rd_bits (LENGTH_EXTRA ! (sy - 257)) r1 = Inr (lx, r2)"
        "rd_decode dist r2 = Inr (dsym, r3)" "\<not> length DIST_BASE \<le> dsym"
        "rd_bits (DIST_EXTRA ! dsym) r3 = Inr (dx, r4)"
        "ob_copyBack (DIST_BASE ! dsym + dx) (LENGTH_BASE ! (sy - 257) + lx) ob = Inr ob2"
        "inflateBlockData lit dist r4 ob2 = Inr (r', ob')"
      by (subst (asm) inflateBlockData.simps) (auto simp: res_elims Let_def split: if_splits)
    have "rd_within r' r4"
      by (rule 1(2) [OF d refl _ _ refl s(1,2) refl refl s(3) refl s(4,5) refl refl s(6,7)])
        (use False in auto)
    with d s show ?thesis by (meson rd_within_steps rd_within_trans)
  qed
qed

lemma read_clens_left: "read_clens ks cl r = Inr (cl', r') \<Longrightarrow> rd_within r' r"
proof (induction ks arbitrary: cl r)
  case (Cons k ks)
  then show ?case by (auto simp: res_elims) (meson rd_within_steps rd_within_trans)
qed (simp add: rd_within_def)

lemma read_lengths_step:
  "i < tot \<Longrightarrow> rd_decode clenHuff r = Inr (sy, r1) \<Longrightarrow>
    read_lengths clenHuff tot lengths i r =
      (if sy < 16 then read_lengths clenHuff tot (lengths[i := sy]) (i + 1) r1
       else if sy = 16 then
         if i = 0 then Inl (Error ''inflate: repeat with no previous length'')
         else bind_res (rd_bits 2 r1) (\<lambda>(x, r2).
           case fill_lengths (x + 3) tot (lengths ! (i - 1)) (lengths, i) of
             (lengths, i) \<Rightarrow> read_lengths clenHuff tot lengths i r2)
       else if sy = 17 then
         bind_res (rd_bits 3 r1) (\<lambda>(x, r2).
           case fill_lengths (x + 3) tot 0 (lengths, i) of
             (lengths, i) \<Rightarrow> read_lengths clenHuff tot lengths i r2)
       else
         bind_res (rd_bits 7 r1) (\<lambda>(x, r2).
           case fill_lengths (x + 11) tot 0 (lengths, i) of
             (lengths, i) \<Rightarrow> read_lengths clenHuff tot lengths i r2))"
  by (subst read_lengths.simps) simp

lemma read_lengths_left: "read_lengths h tot L i r = Inr (L', r') \<Longrightarrow> rd_within r' r"
proof (induction h tot L i r rule: read_lengths.induct)
  case (1 h tot L i r)
  show ?case
  proof (cases "i < tot")
    case True
    with 1(5) obtain sy r1 where d: "rd_decode h r = Inr (sy, r1)"
      by (subst (asm) read_lengths.simps) (auto simp: res_elims)
    note w = rd_within_steps(2) [OF d]
    consider (a) "sy < 16" | (b) "sy = 16" | (c) "sy = 17" | (d) "17 < sy" by linarith
    then show ?thesis
    proof cases
      case a
      then show ?thesis using 1(1) [OF True d refl] 1(5) True d w
        by (auto simp: read_lengths_step intro: rd_within_trans)
    next
      case b
      with 1(5) True d obtain x r2 where x0: "i \<noteq> 0" "rd_bits 2 r1 = Inr (x, r2)"
        "(case fill_lengths (x + 3) tot (L ! (i - 1)) (L, i) of (L2, i2) \<Rightarrow> read_lengths h tot L2 i2 r2) = Inr (L', r')"
        by (auto simp: read_lengths_step res_elims split: if_splits)
      obtain L2 i2 where "fill_lengths (x + 3) tot (L ! (i - 1)) (L, i) = (L2, i2)" by fastforce
      with x0 have x: "i \<noteq> 0" "rd_bits 2 r1 = Inr (x, r2)"
        "fill_lengths (x + 3) tot (L ! (i - 1)) (L, i) = (L2, i2)" "read_lengths h tot L2 i2 r2 = Inr (L', r')"
        by simp_all
      from 1(2) [OF True d refl _ _ x(1,2) refl x(3) [symmetric] x(4)] b
      show ?thesis using w x(2) by simp (meson rd_within_steps rd_within_trans)
    next
      case c
      with 1(5) True d obtain x r2 where x0: "rd_bits 3 r1 = Inr (x, r2)"
        "(case fill_lengths (x + 3) tot 0 (L, i) of (L2, i2) \<Rightarrow> read_lengths h tot L2 i2 r2) = Inr (L', r')"
        by (auto simp: read_lengths_step res_elims split: if_splits)
      obtain L2 i2 where "fill_lengths (x + 3) tot 0 (L, i) = (L2, i2)" by fastforce
      with x0 have x: "rd_bits 3 r1 = Inr (x, r2)"
        "fill_lengths (x + 3) tot 0 (L, i) = (L2, i2)" "read_lengths h tot L2 i2 r2 = Inr (L', r')"
        by simp_all
      from 1(3) [OF True d refl _ _ c x(1) refl x(2) [symmetric] x(3)] c
      show ?thesis using w x(1) by simp (meson rd_within_steps rd_within_trans)
    next
      case d': d
      with 1(5) True d obtain x r2 where x0: "rd_bits 7 r1 = Inr (x, r2)"
        "(case fill_lengths (x + 11) tot 0 (L, i) of (L2, i2) \<Rightarrow> read_lengths h tot L2 i2 r2) = Inr (L', r')"
        by (auto simp: read_lengths_step res_elims split: if_splits)
      obtain L2 i2 where "fill_lengths (x + 11) tot 0 (L, i) = (L2, i2)" by fastforce
      with x0 have x: "rd_bits 7 r1 = Inr (x, r2)"
        "fill_lengths (x + 11) tot 0 (L, i) = (L2, i2)" "read_lengths h tot L2 i2 r2 = Inr (L', r')"
        by simp_all
      from 1(4) [OF True d refl _ _ _ x(1) refl x(2) [symmetric] x(3)] d'
      show ?thesis using w x(1) by simp (meson rd_within_steps rd_within_trans)
    qed
  next
    case False
    then show ?thesis using 1(5) by (subst (asm) read_lengths.simps) (simp add: rd_within_def)
  qed
qed

lemma inflateDynamicTables_left: "inflateDynamicTables r = Inr (t, r') \<Longrightarrow> rd_within r' r"
  by (auto simp: inflateDynamicTables_def res_elims Let_def split: if_splits
      dest!: rd_within_steps(1) read_clens_left read_lengths_left) (simp add: rd_within_def)

lemma read_le16_left: "read_le16 r = Inr (v, r') \<Longrightarrow> rd_within r' r"
  by (auto simp: read_le16_def res_elims dest!: rd_within_steps(3) intro: rd_within_trans)

lemma copy_stored_left: "copy_stored n r ob = Inr (r', ob') \<Longrightarrow> rd_within r' r"
proof (induction n arbitrary: r ob)
  case (Suc n)
  then show ?case by (auto simp: res_elims) (meson rd_within_steps rd_within_trans)
qed (simp add: rd_within_def)

lemma rd_within_align: "rd_within r' (alignToByte r) \<Longrightarrow> rd_within r' r"
  using rd_within_steps(4) rd_within_trans by blast

lemma inflate_block_left: "inflate_block r ob = Inr (r', ob') \<Longrightarrow> rd_within r' r"
  by (auto simp: inflate_block_def res_elims split: if_splits
      dest!: rd_within_steps(1) read_le16_left copy_stored_left inflateBlockData_left
        inflateDynamicTables_left rd_within_align) (auto simp: rd_within_def)

function inflate_loop :: "bit_reader \<Rightarrow> out_buffer \<Rightarrow> (bit_reader \<times> out_buffer) res" where
  "inflate_loop r ob =
     bind_res (rd_bits 1 r) (\<lambda>(final, r1).
     bind_res (inflate_block r1 ob) (\<lambda>(r2, ob).
       if final = 0 then inflate_loop r2 ob else Inr (r2, ob)))"
  by pat_completeness auto
termination
  by (relation "measure (\<lambda>(r, _). length (rd_rest r))")
    (auto dest!: rd_bits_left inflate_block_left simp: rd_within_def)

declare inflate_loop.simps [simp del]

definition inflateRawAt :: "bytes \<Rightarrow> nat \<Rightarrow> (bytes \<times> nat) res" where
  "inflateRawAt buf offset =
     (if offset > length buf then Inl (Error ''inflate: offset out of range'')
      else
        bind_res (inflate_loop (new_reader buf offset) (new_out (max 64 ((length buf - offset) * 3))))
          (\<lambda>(r, ob). Inr (ob_toUint8Array ob, rd_bytesConsumed r offset)))"

definition inflateZlibAt :: "bytes \<Rightarrow> nat \<Rightarrow> (bytes \<times> nat) res" where
  "inflateZlibAt buf offset =
     (if offset + 2 > length buf then Inl (Error ''inflate: zlib header out of range'')
      else
        let cmf = unat (buf ! offset); flg = unat (buf ! (offset + 1)) in
        if cmf AND 0x0f \<noteq> 8 then Inl (Error ''inflate: unsupported zlib compression method'')
        else if (push_bit 8 cmf OR flg) mod 31 \<noteq> 0 then Inl (Error ''inflate: zlib header checksum failed'')
        else if flg AND 0x20 \<noteq> 0 \<and> offset + 2 + 4 > length buf then
          Inl (Error ''inflate: truncated zlib preset dictionary id'')
        else
          let deflateStart = (if flg AND 0x20 \<noteq> 0 then offset + 2 + 4 else offset + 2) in
          bind_res (inflateRawAt buf deflateStart) (\<lambda>(output, bytesConsumed).
            let consumed = (deflateStart - offset) + bytesConsumed + 4 in
            if offset + consumed > length buf then Inl (Error ''inflate: truncated zlib adler32 trailer'')
            else Inr (output, consumed)))"

section \<open>The output buffer holds a sequence of bytes\<close>

definition ob_ok :: "out_buffer \<Rightarrow> bool" where
  "ob_ok ob \<longleftrightarrow> ob_length ob \<le> length (ob_data ob) \<and> 0 < length (ob_data ob)"

text \<open>An LZ77 copy, byte by byte, so that it may overlap what it writes.\<close>

primrec lz_copy :: "nat \<Rightarrow> nat \<Rightarrow> bytes \<Rightarrow> bytes" where
  "lz_copy dist 0 xs = xs"
| "lz_copy dist (Suc n) xs = lz_copy dist n (xs @ [xs ! (length xs - dist)])"

lemma grow_cap_ge: "0 < cap \<Longrightarrow> needed \<le> grow_cap cap needed"
proof (induction cap needed rule: grow_cap.induct)
  case (1 cap needed)
  then show ?case by (subst grow_cap.simps) auto
qed

lemma ob_ensure_ok:
  assumes "ob_ok ob"
  shows "ob_ok (ob_ensure extra ob)" "ob_length (ob_ensure extra ob) = ob_length ob"
    "ob_toUint8Array (ob_ensure extra ob) = ob_toUint8Array ob"
    "ob_length ob + extra \<le> length (ob_data (ob_ensure extra ob))"
  using assms grow_cap_ge [of "length (ob_data ob) * 2" "ob_length ob + extra"]
  by (auto simp: ob_ensure_def ob_ok_def ob_toUint8Array_def Let_def set_at_def)

lemma length_ob_view: "ob_ok ob \<Longrightarrow> length (ob_toUint8Array ob) = ob_length ob"
  by (simp add: ob_ok_def ob_toUint8Array_def)

lemma ob_push_ok:
  assumes "ob_ok ob"
  shows "ob_ok (ob_push b ob)" "ob_toUint8Array (ob_push b ob) = ob_toUint8Array ob @ [b]"
proof -
  let ?ob = "ob_ensure 1 ob"
  have "ob_length ?ob < length (ob_data ?ob)" using ob_ensure_ok [OF assms, of 1] by simp
  then show "ob_ok (ob_push b ob)" "ob_toUint8Array (ob_push b ob) = ob_toUint8Array ob @ [b]"
    using ob_ensure_ok(3) [OF assms, of 1]
    by (auto simp: ob_ok_def ob_push_def Let_def ob_toUint8Array_def take_Suc_conv_app_nth)
qed

lemma ob_append_ok:
  assumes "ob_ok ob"
  shows "ob_ok (ob_append src ob)" "ob_toUint8Array (ob_append src ob) = ob_toUint8Array ob @ src"
  using ob_ensure_ok [OF assms, of "length src"] assms
  by (auto simp: ob_ok_def ob_append_def Let_def ob_toUint8Array_def set_at_def)

lemma copy_loop_lz:
  "dst + n \<le> length d \<Longrightarrow> 0 < dist \<Longrightarrow> dist \<le> dst \<Longrightarrow>
    take (dst + n) (copy_loop n (dst - dist) dst d) = lz_copy dist n (take dst d) \<and>
    length (copy_loop n (dst - dist) dst d) = length d"
proof (induction n arbitrary: dst d)
  case (Suc n)
  let ?d = "d[dst := d ! (dst - dist)]"
  have "take (Suc dst) ?d = take dst d @ [take dst d ! (length (take dst d) - dist)]"
    using Suc.prems by (simp add: take_Suc_conv_app_nth min_absorb2)
  moreover have "Suc dst - dist = Suc (dst - dist)" using Suc.prems by simp
  ultimately show ?case using Suc.IH [of "Suc dst" ?d] Suc.prems by simp
qed simp

lemma ob_copyBack_ok:
  assumes "ob_ok ob" and "0 < dist" and "dist \<le> ob_length ob"
  shows "\<exists>ob'. ob_copyBack dist len ob = Inr ob' \<and> ob_ok ob' \<and>
    ob_toUint8Array ob' = lz_copy dist len (ob_toUint8Array ob)"
proof -
  let ?ob = "ob_ensure len ob"
  have e: "ob_length ?ob = ob_length ob" "ob_length ob + len \<le> length (ob_data ?ob)"
    "take (ob_length ob) (ob_data ?ob) = ob_toUint8Array ob"
    using ob_ensure_ok [OF assms(1), of len] by (simp_all add: ob_toUint8Array_def)
  moreover have "0 < length (ob_data ?ob)" using e assms by linarith
  ultimately show ?thesis using copy_loop_lz [OF e(2) assms(2,3)] assms
    by (simp add: ob_copyBack_def Let_def ob_ok_def ob_toUint8Array_def del: length_greater_0_conv)
qed

lemma ob_copyBack_error:
  "dist = 0 \<or> ob_length ob < dist \<Longrightarrow>
    ob_copyBack dist len ob = Inl (Error ''inflate: invalid back-reference distance'')"
  by (auto simp: ob_copyBack_def)

lemma length_lz_copy [simp]: "length (lz_copy dist n xs) = length xs + n"
  by (induction n arbitrary: xs) auto

lemma new_out_ok: "ob_ok (new_out n)" "ob_toUint8Array (new_out n) = []"
  by (simp_all add: ob_ok_def new_out_def ob_toUint8Array_def)

end
