(* ===== verification/DeflateSpec.thy ===== *)
theory DeflateSpec
  imports GitInflate ByteCodec
begin

text \<open>
  What a DEFLATE stream stands for (RFC 1951), written from the side of the sender: a list
  of blocks, each with the bits it is sent as and what it adds to the output. The inflater of
  \<open>GitInflate\<close> is shown to compute that output from those bits and to stop at the byte in
  which they end, for stored, fixed and dynamic blocks.
\<close>

section \<open>Numbers and tokens\<close>

definition nbits :: "nat \<Rightarrow> nat \<Rightarrow> bool list" where
  "nbits n v = map (bit v) [0..<n]"

lemma length_nbits [simp]: "length (nbits n v) = n"
  by (simp add: nbits_def)

lemma bits_val_nbits: "v < 2 ^ n \<Longrightarrow> bits_val (nbits n v) = v"
  by (simp add: bits_val_def nbits_def horner_sum_bit_eq_take_bit take_bit_nat_eq_self)

lemma rd_bits_nbits:
  "rd_rest r = nbits n v @ rest \<Longrightarrow> v < 2 ^ n \<Longrightarrow> rd_ok r \<Longrightarrow> n \<le> 24 \<Longrightarrow>
    \<exists>r'. rd_bits n r = Inr (v, r') \<and> rd_ok r' \<and> rd_rest r' = rest \<and> rd_buf r' = rd_buf r"
  using rd_bits_append [of r "nbits n v" rest n] by (simp add: bits_val_nbits)

text \<open>A literal byte, or a copy given by its two symbols and their extra bits.\<close>

datatype lz_token = Lit byte | Ref nat nat nat nat

fun token_bits :: "nat list \<Rightarrow> nat \<Rightarrow> nat list \<Rightarrow> nat \<Rightarrow> lz_token \<Rightarrow> bool list" where
  "token_bits L n D m (Lit b) = huff_bits L n (unat b)"
| "token_bits L n D m (Ref li lx di dx) =
     huff_bits L n (257 + li) @ nbits (LENGTH_EXTRA ! li) lx @
     huff_bits D m di @ nbits (DIST_EXTRA ! di) dx"

fun apply_token :: "bytes \<Rightarrow> lz_token \<Rightarrow> bytes" where
  "apply_token out (Lit b) = out @ [b]"
| "apply_token out (Ref li lx di dx) = lz_copy (DIST_BASE ! di + dx) (LENGTH_BASE ! li + lx) out"

fun token_ok :: "nat list \<Rightarrow> nat \<Rightarrow> nat list \<Rightarrow> nat \<Rightarrow> bytes \<Rightarrow> lz_token \<Rightarrow> bool" where
  "token_ok L n D m out (Lit b) \<longleftrightarrow> has_code L n (unat b)"
| "token_ok L n D m out (Ref li lx di dx) \<longleftrightarrow>
     li < 29 \<and> di < 30 \<and> has_code L n (257 + li) \<and> has_code D m di \<and>
     lx < 2 ^ (LENGTH_EXTRA ! li) \<and> dx < 2 ^ (DIST_EXTRA ! di) \<and>
     DIST_BASE ! di + dx \<le> length out"

fun tokens_ok :: "nat list \<Rightarrow> nat \<Rightarrow> nat list \<Rightarrow> nat \<Rightarrow> bytes \<Rightarrow> lz_token list \<Rightarrow> bool" where
  "tokens_ok L n D m out [] \<longleftrightarrow> has_code L n 256"
| "tokens_ok L n D m out (t # ts) \<longleftrightarrow>
     token_ok L n D m out t \<and> tokens_ok L n D m (apply_token out t) ts"

definition tokens_bits :: "nat list \<Rightarrow> nat \<Rightarrow> nat list \<Rightarrow> nat \<Rightarrow> lz_token list \<Rightarrow> bool list" where
  "tokens_bits L n D m ts = concat (map (token_bits L n D m) ts) @ huff_bits L n 256"

lemma table_lengths [simp]:
  "length LENGTH_BASE = 29" "length LENGTH_EXTRA = 29" "length DIST_BASE = 30" "length DIST_EXTRA = 30"
  "length CLEN_ORDER = 19"
  by (simp_all add: LENGTH_BASE_def LENGTH_EXTRA_def DIST_BASE_def DIST_EXTRA_def CLEN_ORDER_def)

lemma extra_bits_le: "li < 29 \<Longrightarrow> LENGTH_EXTRA ! li \<le> 24" "di < 30 \<Longrightarrow> DIST_EXTRA ! di \<le> 24"
proof -
  have "\<forall>x \<in> set LENGTH_EXTRA. x \<le> 24" "\<forall>x \<in> set DIST_EXTRA. x \<le> 24"
    by (simp_all add: LENGTH_EXTRA_def DIST_EXTRA_def)
  then show "li < 29 \<Longrightarrow> LENGTH_EXTRA ! li \<le> 24" "di < 30 \<Longrightarrow> DIST_EXTRA ! di \<le> 24"
    by (metis nth_mem table_lengths(2), metis nth_mem table_lengths(4))
qed

lemma dist_base_pos: "di < 30 \<Longrightarrow> 0 < DIST_BASE ! di"
proof -
  have "\<forall>x \<in> set DIST_BASE. 0 < x" by (simp add: DIST_BASE_def)
  then show "di < 30 \<Longrightarrow> 0 < DIST_BASE ! di" by (metis nth_mem table_lengths(3))
qed

section \<open>The tokens of a block\<close>

lemma inflate_literal:
  assumes "rd_decode lit r = Inr (unat b, r1)"
  shows "inflateBlockData lit dist r ob = inflateBlockData lit dist r1 (ob_push b ob)"
  using assms unat_byte_less [of b] by (subst inflateBlockData.simps) (simp del: unat_byte_less)

lemma inflate_end:
  "rd_decode lit r = Inr (256, r1) \<Longrightarrow> inflateBlockData lit dist r ob = Inr (r1, ob)"
  by (subst inflateBlockData.simps) simp

lemma inflate_ref:
  assumes "rd_decode lit r = Inr (257 + li, r1)" and "li < 29"
    and "rd_bits (LENGTH_EXTRA ! li) r1 = Inr (lx, r2)" and "rd_decode dist r2 = Inr (di, r3)"
    and "di < 30" and "rd_bits (DIST_EXTRA ! di) r3 = Inr (dx, r4)"
    and "ob_copyBack (DIST_BASE ! di + dx) (LENGTH_BASE ! li + lx) ob = Inr ob'"
  shows "inflateBlockData lit dist r ob = inflateBlockData lit dist r4 ob'"
  using assms by (subst inflateBlockData.simps) simp

lemma inflate_tokens:
  assumes lit: "huff_table L n lit" and dist: "huff_table D m dist"
  shows "rd_ok r \<Longrightarrow> ob_ok ob \<Longrightarrow> tokens_ok L n D m (ob_toUint8Array ob) ts \<Longrightarrow>
    rd_rest r = tokens_bits L n D m ts @ rest \<Longrightarrow>
    \<exists>r' ob'. inflateBlockData lit dist r ob = Inr (r', ob') \<and> rd_ok r' \<and> rd_rest r' = rest \<and>
      rd_buf r' = rd_buf r \<and> ob_ok ob' \<and>
      ob_toUint8Array ob' = foldl apply_token (ob_toUint8Array ob) ts"
proof (induction ts arbitrary: r ob)
  case Nil
  then obtain r1 where "rd_decode lit r = Inr (256, r1)" "rd_ok r1" "rd_rest r1 = rest"
    "rd_buf r1 = rd_buf r"
    using rd_decode_code [OF lit, of 256 r rest] by (auto simp: tokens_bits_def)
  then show ?case using Nil by (simp add: inflate_end)
next
  case (Cons t ts)
  show ?case
  proof (cases t)
    case (Lit b)
    with Cons.prems obtain r1 where r1: "rd_decode lit r = Inr (unat b, r1)" "rd_ok r1"
      "rd_rest r1 = tokens_bits L n D m ts @ rest" "rd_buf r1 = rd_buf r"
      using rd_decode_code [OF lit, of "unat b" r "tokens_bits L n D m ts @ rest"]
      by (auto simp: tokens_bits_def)
    show ?thesis
      using Cons.IH [of r1 "ob_push b ob"] Cons.prems Lit r1 ob_push_ok [OF Cons.prems(2), of b]
      by (simp add: inflate_literal [OF r1(1)])
  next
    case (Ref li lx di dx)
    let ?rest = "tokens_bits L n D m ts @ rest"
    have ok: "li < 29" "di < 30" "has_code L n (257 + li)" "has_code D m di" "lx < 2 ^ (LENGTH_EXTRA ! li)"
      "dx < 2 ^ (DIST_EXTRA ! di)" "DIST_BASE ! di + dx \<le> ob_length ob"
      using Cons.prems Ref by (auto simp: length_ob_view)
    have rest: "rd_rest r = huff_bits L n (257 + li) @ nbits (LENGTH_EXTRA ! li) lx @
        huff_bits D m di @ nbits (DIST_EXTRA ! di) dx @ ?rest"
      using Cons.prems Ref by (simp add: tokens_bits_def)
    obtain r1 where r1: "rd_decode lit r = Inr (257 + li, r1)" "rd_ok r1" "rd_buf r1 = rd_buf r"
      "rd_rest r1 = nbits (LENGTH_EXTRA ! li) lx @ huff_bits D m di @ nbits (DIST_EXTRA ! di) dx @ ?rest"
      using rd_decode_code [OF lit ok(3) Cons.prems(1) rest] by auto
    obtain r2 where r2: "rd_bits (LENGTH_EXTRA ! li) r1 = Inr (lx, r2)" "rd_ok r2" "rd_buf r2 = rd_buf r1"
      "rd_rest r2 = huff_bits D m di @ nbits (DIST_EXTRA ! di) dx @ ?rest"
      using rd_bits_nbits [OF r1(4) ok(5) r1(2)] extra_bits_le ok by auto
    obtain r3 where r3: "rd_decode dist r2 = Inr (di, r3)" "rd_ok r3" "rd_buf r3 = rd_buf r2"
      "rd_rest r3 = nbits (DIST_EXTRA ! di) dx @ ?rest"
      using rd_decode_code [OF dist ok(4) r2(2,4)] by auto
    obtain r4 where r4: "rd_bits (DIST_EXTRA ! di) r3 = Inr (dx, r4)" "rd_ok r4" "rd_buf r4 = rd_buf r3"
      "rd_rest r4 = ?rest"
      using rd_bits_nbits [OF r3(4) ok(6) r3(2)] extra_bits_le ok by auto
    obtain ob1 where ob1: "ob_copyBack (DIST_BASE ! di + dx) (LENGTH_BASE ! li + lx) ob = Inr ob1" "ob_ok ob1"
      "ob_toUint8Array ob1 = lz_copy (DIST_BASE ! di + dx) (LENGTH_BASE ! li + lx) (ob_toUint8Array ob)"
      using ob_copyBack_ok [OF Cons.prems(2), of "DIST_BASE ! di + dx" "LENGTH_BASE ! li + lx"] ok
        dist_base_pos [OF ok(2)] by auto
    show ?thesis
      using Cons.IH [OF r4(2) ob1(2) _ r4(4)] Cons.prems(3) Ref ob1(3) r1(3) r2(3) r3(3) r4(3)
      by (simp add: inflate_ref [OF r1(1) ok(1) r2(1) r3(1) ok(2) r4(1) ob1(1)])
  qed
qed

section \<open>The tables of a dynamic block\<close>

text \<open>The run-length code of the code lengths.\<close>

datatype cl_item = ClLen nat | ClPrev nat | ClZero3 nat | ClZero11 nat

fun cl_bits :: "nat list \<Rightarrow> cl_item \<Rightarrow> bool list" where
  "cl_bits C (ClLen l) = huff_bits C 19 l"
| "cl_bits C (ClPrev x) = huff_bits C 19 16 @ nbits 2 x"
| "cl_bits C (ClZero3 x) = huff_bits C 19 17 @ nbits 3 x"
| "cl_bits C (ClZero11 x) = huff_bits C 19 18 @ nbits 7 x"

fun cl_apply :: "nat list \<Rightarrow> cl_item \<Rightarrow> nat list" where
  "cl_apply ls (ClLen l) = ls @ [l]"
| "cl_apply ls (ClPrev x) = ls @ replicate (x + 3) (last ls)"
| "cl_apply ls (ClZero3 x) = ls @ replicate (x + 3) 0"
| "cl_apply ls (ClZero11 x) = ls @ replicate (x + 11) 0"

fun cl_ok :: "nat list \<Rightarrow> nat list \<Rightarrow> cl_item \<Rightarrow> bool" where
  "cl_ok C ls (ClLen l) \<longleftrightarrow> l < 16 \<and> has_code C 19 l"
| "cl_ok C ls (ClPrev x) \<longleftrightarrow> ls \<noteq> [] \<and> x < 4 \<and> has_code C 19 16"
| "cl_ok C ls (ClZero3 x) \<longleftrightarrow> x < 8 \<and> has_code C 19 17"
| "cl_ok C ls (ClZero11 x) \<longleftrightarrow> x < 128 \<and> has_code C 19 18"

fun cls_ok :: "nat list \<Rightarrow> nat list \<Rightarrow> cl_item list \<Rightarrow> bool" where
  "cls_ok C ls [] \<longleftrightarrow> True"
| "cls_ok C ls (c # cs) \<longleftrightarrow> cl_ok C ls c \<and> cls_ok C (cl_apply ls c) cs"

lemma fill_lengths_ok:
  "i + k \<le> tot \<Longrightarrow> length L = tot \<Longrightarrow>
    \<exists>L'. fill_lengths k tot v (L, i) = (L', i + k) \<and> length L' = tot \<and>
      take (i + k) L' = take i L @ replicate k v"
proof (induction k arbitrary: L i)
  case (Suc k)
  have "take (Suc i) (L[i := v]) = take i L @ [v]"
    using Suc.prems by (simp add: take_Suc_conv_app_nth)
  with Suc.IH [of "Suc i" "L[i := v]"] Suc.prems show ?case by auto
qed simp

lemma length_cl_apply: "length ls < length (cl_apply ls c)"
  by (cases c) auto

lemma foldl_cl_apply_le: "length ls \<le> length (foldl cl_apply ls cs)"
proof (induction cs arbitrary: ls)
  case (Cons c cs)
  have "length ls \<le> length (cl_apply ls c)" using length_cl_apply [of ls c] by simp
  also have "\<dots> \<le> length (foldl cl_apply (cl_apply ls c) cs)" by (rule Cons.IH)
  finally show ?case by simp
qed simp

lemma read_lengths_item:
  assumes C: "huff_table C 19 h" and r: "rd_ok r" "rd_rest r = cl_bits C c @ rest"
    and c: "cl_ok C (take i L) c" and L: "length L = tot" "length (cl_apply (take i L) c) \<le> tot" "i < tot"
  shows "\<exists>r' L'. read_lengths h tot L i r = read_lengths h tot L' (length (cl_apply (take i L) c)) r' \<and>
    rd_ok r' \<and> rd_rest r' = rest \<and> rd_buf r' = rd_buf r \<and> length L' = tot \<and>
    take (length (cl_apply (take i L) c)) L' = cl_apply (take i L) c"
proof (cases c)
  case (ClLen l)
  then obtain r1 where r1: "rd_decode h r = Inr (l, r1)" "rd_ok r1" "rd_rest r1 = rest" "rd_buf r1 = rd_buf r"
    using rd_decode_code [OF C, of l r rest] c r by auto
  have "take (Suc i) (L[i := l]) = take i L @ [l]" using L by (simp add: take_Suc_conv_app_nth)
  then show ?thesis using ClLen r1 c L
    by (intro exI [of _ r1] exI [of _ "L[i := l]"]) (simp add: read_lengths_step [OF L(3) r1(1)])
next
  case (ClPrev x)
  then obtain r1 where r1: "rd_decode h r = Inr (16, r1)" "rd_ok r1" "rd_rest r1 = nbits 2 x @ rest"
    "rd_buf r1 = rd_buf r"
    using rd_decode_code [OF C, of 16 r "nbits 2 x @ rest"] c r by auto
  obtain r2 where r2: "rd_bits 2 r1 = Inr (x, r2)" "rd_ok r2" "rd_rest r2 = rest" "rd_buf r2 = rd_buf r1"
    using rd_bits_nbits [OF r1(3) _ r1(2)] ClPrev c by auto
  have last: "last (take i L) = L ! (i - 1)" "i \<noteq> 0"
    using ClPrev c L by (auto simp: last_conv_nth)
  obtain L' where L': "fill_lengths (x + 3) tot (L ! (i - 1)) (L, i) = (L', i + (x + 3))" "length L' = tot"
    "take (i + (x + 3)) L' = take i L @ replicate (x + 3) (L ! (i - 1))"
    using fill_lengths_ok [of i "x + 3" tot L "L ! (i - 1)"] L ClPrev by auto
  have len: "length (cl_apply (take i L) c) = i + (x + 3)" using ClPrev L by simp
  show ?thesis using L' last r2 r1(4) ClPrev
    unfolding len read_lengths_step [OF L(3) r1(1)]
    by (intro exI [of _ r2] exI [of _ L']) (simp del: replicate.simps)
next
  case (ClZero3 x)
  then obtain r1 where r1: "rd_decode h r = Inr (17, r1)" "rd_ok r1" "rd_rest r1 = nbits 3 x @ rest"
    "rd_buf r1 = rd_buf r"
    using rd_decode_code [OF C, of 17 r "nbits 3 x @ rest"] c r by auto
  obtain r2 where r2: "rd_bits 3 r1 = Inr (x, r2)" "rd_ok r2" "rd_rest r2 = rest" "rd_buf r2 = rd_buf r1"
    using rd_bits_nbits [OF r1(3) _ r1(2)] ClZero3 c by auto
  obtain L' where L': "fill_lengths (x + 3) tot 0 (L, i) = (L', i + (x + 3))" "length L' = tot"
    "take (i + (x + 3)) L' = take i L @ replicate (x + 3) 0"
    using fill_lengths_ok [of i "x + 3" tot L 0] L ClZero3 by auto
  have len: "length (cl_apply (take i L) c) = i + (x + 3)" using ClZero3 L by simp
  show ?thesis using L' r2 r1(4) ClZero3
    unfolding len read_lengths_step [OF L(3) r1(1)]
    by (intro exI [of _ r2] exI [of _ L']) (simp del: replicate.simps)
next
  case (ClZero11 x)
  then obtain r1 where r1: "rd_decode h r = Inr (18, r1)" "rd_ok r1" "rd_rest r1 = nbits 7 x @ rest"
    "rd_buf r1 = rd_buf r"
    using rd_decode_code [OF C, of 18 r "nbits 7 x @ rest"] c r by auto
  obtain r2 where r2: "rd_bits 7 r1 = Inr (x, r2)" "rd_ok r2" "rd_rest r2 = rest" "rd_buf r2 = rd_buf r1"
    using rd_bits_nbits [OF r1(3) _ r1(2)] ClZero11 c by auto
  obtain L' where L': "fill_lengths (x + 11) tot 0 (L, i) = (L', i + (x + 11))" "length L' = tot"
    "take (i + (x + 11)) L' = take i L @ replicate (x + 11) 0"
    using fill_lengths_ok [of i "x + 11" tot L 0] L ClZero11 by auto
  have len: "length (cl_apply (take i L) c) = i + (x + 11)" using ClZero11 L by simp
  show ?thesis using L' r2 r1(4) ClZero11
    unfolding len read_lengths_step [OF L(3) r1(1)]
    by (intro exI [of _ r2] exI [of _ L']) (simp del: replicate.simps)
qed

lemma read_lengths_items:
  assumes C: "huff_table C 19 h"
  shows "rd_ok r \<Longrightarrow> rd_rest r = concat (map (cl_bits C) cs) @ rest \<Longrightarrow> cls_ok C (take i L) cs \<Longrightarrow>
    length L = tot \<Longrightarrow> i \<le> tot \<Longrightarrow> length (foldl cl_apply (take i L) cs) = tot \<Longrightarrow>
    \<exists>r'. read_lengths h tot L i r = Inr (foldl cl_apply (take i L) cs, r') \<and> rd_ok r' \<and>
      rd_rest r' = rest \<and> rd_buf r' = rd_buf r"
proof (induction cs arbitrary: r i L)
  case Nil
  then show ?case by (subst read_lengths.simps) simp
next
  case (Cons c cs)
  let ?i = "length (cl_apply (take i L) c)"
  have i: "?i \<le> tot" using foldl_cl_apply_le [of "cl_apply (take i L) c" cs] Cons.prems by simp
  then have "i < tot" using length_cl_apply [of "take i L" c] Cons.prems by simp
  then obtain r1 L1 where r1: "read_lengths h tot L i r = read_lengths h tot L1 ?i r1" "rd_ok r1"
    "rd_rest r1 = concat (map (cl_bits C) cs) @ rest" "rd_buf r1 = rd_buf r" "length L1 = tot"
    "take ?i L1 = cl_apply (take i L) c"
    using read_lengths_item [OF C Cons.prems(1), of c "concat (map (cl_bits C) cs) @ rest" i L tot] Cons.prems i
    by auto
  show ?case using Cons.IH [of r1 ?i L1] r1 Cons.prems i by simp
qed

text \<open>The header: three counts, the lengths of the code-length code in their odd order, the items.\<close>

definition clens_bits :: "nat list \<Rightarrow> nat list \<Rightarrow> bool list" where
  "clens_bits ks C = concat (map (\<lambda>i. nbits 3 (C ! (CLEN_ORDER ! i))) ks)"

lemma read_clens_ok:
  "rd_ok r \<Longrightarrow> rd_rest r = clens_bits ks C @ rest \<Longrightarrow> (\<forall>i \<in> set ks. C ! (CLEN_ORDER ! i) < 8) \<Longrightarrow>
    \<exists>r'. read_clens ks cl r =
        Inr (fold (\<lambda>i cl. cl[CLEN_ORDER ! i := C ! (CLEN_ORDER ! i)]) ks cl, r') \<and>
      rd_ok r' \<and> rd_rest r' = rest \<and> rd_buf r' = rd_buf r"
proof (induction ks arbitrary: r cl)
  case (Cons k ks)
  then obtain r1 where r1: "rd_bits 3 r = Inr (C ! (CLEN_ORDER ! k), r1)" "rd_ok r1"
    "rd_rest r1 = clens_bits ks C @ rest" "rd_buf r1 = rd_buf r"
    using rd_bits_nbits [of r 3 "C ! (CLEN_ORDER ! k)" "clens_bits ks C @ rest"]
    by (auto simp: clens_bits_def)
  with Cons.IH [of r1] Cons.prems show ?case by (auto simp: clens_bits_def)
qed (simp add: clens_bits_def)

lemma fold_update_nth:
  "j < length cl \<Longrightarrow> fold (\<lambda>i cl. cl[g i := C ! (g i)]) ks cl ! j =
    (if j \<in> g ` set ks then C ! j else cl ! j)"
  by (induction ks arbitrary: cl) (auto simp: nth_list_update)

lemma length_fold_update: "length (fold (\<lambda>i cl. cl[g i := C ! (g i)]) ks cl) = length cl"
  by (induction ks arbitrary: cl) auto

definition clens_ok :: "nat \<Rightarrow> nat list \<Rightarrow> bool" where
  "clens_ok hclen C \<longleftrightarrow> 4 \<le> hclen \<and> hclen \<le> 19 \<and> length C = 19 \<and>
     (\<forall>j < 19. C ! j < 8 \<and> (j \<notin> (\<lambda>i. CLEN_ORDER ! i) ` {0..<hclen} \<longrightarrow> C ! j = 0))"

lemma CLEN_ORDER_less: "i < 19 \<Longrightarrow> CLEN_ORDER ! i < 19"
proof -
  have "\<forall>x \<in> set CLEN_ORDER. x < 19" by (simp add: CLEN_ORDER_def)
  then show "i < 19 \<Longrightarrow> CLEN_ORDER ! i < 19" by (metis nth_mem table_lengths(5))
qed

lemma read_clens_all:
  assumes "clens_ok hclen C" and "rd_ok r" and "rd_rest r = clens_bits [0..<hclen] C @ rest"
  shows "\<exists>r'. read_clens [0..<hclen] (replicate 19 0) r = Inr (C, r') \<and> rd_ok r' \<and> rd_rest r' = rest \<and>
    rd_buf r' = rd_buf r"
proof -
  have "fold (\<lambda>i cl. cl[CLEN_ORDER ! i := C ! (CLEN_ORDER ! i)]) [0..<hclen] (replicate 19 0) = C"
    using assms(1)
    by (intro nth_equalityI)
      (auto simp: fold_update_nth length_fold_update clens_ok_def simp del: replicate.simps)
  moreover have "\<forall>i \<in> set [0..<hclen]. C ! (CLEN_ORDER ! i) < 8"
    using assms(1) CLEN_ORDER_less by (auto simp: clens_ok_def)
  ultimately show ?thesis using read_clens_ok [OF assms(2,3), of "replicate 19 0"] by simp
qed

record dyn_header =
  dh_lit :: nat
  dh_dist :: nat
  dh_clen :: nat
  dh_codes :: "nat list"
  dh_items :: "cl_item list"

definition dh_lengths :: "dyn_header \<Rightarrow> nat list" where
  "dh_lengths h = foldl cl_apply [] (dh_items h)"

definition dh_bits :: "dyn_header \<Rightarrow> bool list" where
  "dh_bits h =
     nbits 5 (dh_lit h - 257) @ nbits 5 (dh_dist h - 1) @ nbits 4 (dh_clen h - 4) @
     clens_bits [0..<dh_clen h] (dh_codes h) @ concat (map (cl_bits (dh_codes h)) (dh_items h))"

definition dh_ok :: "dyn_header \<Rightarrow> bool" where
  "dh_ok h \<longleftrightarrow>
     257 \<le> dh_lit h \<and> dh_lit h \<le> 286 \<and> 1 \<le> dh_dist h \<and> dh_dist h \<le> 30 \<and>
     clens_ok (dh_clen h) (dh_codes h) \<and> cls_ok (dh_codes h) [] (dh_items h) \<and>
     length (dh_lengths h) = dh_lit h + dh_dist h"

lemma cls_lengths_le:
  "cls_ok C ls cs \<Longrightarrow> (\<forall>x \<in> set ls. x \<le> 15) \<Longrightarrow> \<forall>x \<in> set (foldl cl_apply ls cs). x \<le> 15"
proof (induction cs arbitrary: ls)
  case (Cons c cs)
  have "\<forall>x \<in> set (cl_apply ls c). x \<le> 15" using Cons.prems by (cases c) auto
  then show ?case using Cons.IH [of "cl_apply ls c"] Cons.prems(1) by simp
qed simp

lemma inflateDynamicTables_ok:
  assumes h: "dh_ok h" and r: "rd_ok r" "rd_rest r = dh_bits h @ rest"
  shows "\<exists>lit dist r'. inflateDynamicTables r = Inr ((lit, dist), r') \<and>
    huff_table (take (dh_lit h) (dh_lengths h)) (dh_lit h) lit \<and>
    huff_table (drop (dh_lit h) (dh_lengths h)) (dh_dist h) dist \<and>
    rd_ok r' \<and> rd_rest r' = rest \<and> rd_buf r' = rd_buf r"
proof -
  let ?C = "dh_codes h" and ?n = "dh_lit h + dh_dist h"
  let ?items = "concat (map (cl_bits ?C) (dh_items h)) @ rest"
  let ?cl = "clens_bits [0..<dh_clen h] ?C @ ?items"
  have ok: "257 \<le> dh_lit h" "dh_lit h \<le> 286" "1 \<le> dh_dist h" "dh_dist h \<le> 30"
    "clens_ok (dh_clen h) ?C" "4 \<le> dh_clen h" "dh_clen h \<le> 19" "cls_ok ?C [] (dh_items h)"
    and len: "length (dh_lengths h) = ?n"
    using h by (auto simp: dh_ok_def clens_ok_def)
  then have small: "dh_lit h - 257 < 2 ^ 5" "dh_dist h - 1 < 2 ^ 5" "dh_clen h - 4 < 2 ^ 4"
    by simp_all
  have rest: "rd_rest r = nbits 5 (dh_lit h - 257) @ nbits 5 (dh_dist h - 1) @ nbits 4 (dh_clen h - 4) @ ?cl"
    using r(2) by (simp add: dh_bits_def)
  obtain r1 where r1: "rd_bits 5 r = Inr (dh_lit h - 257, r1)" "rd_ok r1" "rd_buf r1 = rd_buf r"
    "rd_rest r1 = nbits 5 (dh_dist h - 1) @ nbits 4 (dh_clen h - 4) @ ?cl"
    using rd_bits_nbits [OF rest small(1) r(1)] by auto
  obtain r2 where r2: "rd_bits 5 r1 = Inr (dh_dist h - 1, r2)" "rd_ok r2" "rd_buf r2 = rd_buf r1"
    "rd_rest r2 = nbits 4 (dh_clen h - 4) @ ?cl"
    using rd_bits_nbits [OF r1(4) small(2) r1(2)] by auto
  obtain r3 where r3: "rd_bits 4 r2 = Inr (dh_clen h - 4, r3)" "rd_ok r3" "rd_buf r3 = rd_buf r2"
    "rd_rest r3 = ?cl"
    using rd_bits_nbits [OF r2(4) small(3) r2(2)] by auto
  obtain r4 where r4: "read_clens [0..<dh_clen h] (replicate 19 0) r3 = Inr (?C, r4)" "rd_ok r4"
    "rd_rest r4 = ?items" "rd_buf r4 = rd_buf r3"
    using read_clens_all [OF ok(5) r3(2,4)] by blast
  obtain ch where ch: "buildHuffman ?C 19 = Inr ch" "huff_table ?C 19 ch"
    using buildHuffman_ok [of 19 ?C] ok(5) by (fastforce simp: clens_ok_def MAX_BITS_def)
  obtain r5 where r5: "read_lengths ch ?n (replicate ?n 0) 0 r4 = Inr (dh_lengths h, r5)" "rd_ok r5"
    "rd_rest r5 = rest" "rd_buf r5 = rd_buf r4"
    using read_lengths_items [OF ch(2) r4(2,3), of 0 "replicate ?n 0" ?n] ok len by (auto simp: dh_lengths_def)
  have le: "\<And>i. i < ?n \<Longrightarrow> dh_lengths h ! i \<le> MAX_BITS"
    using cls_lengths_le [OF ok(8)] len by (simp add: dh_lengths_def MAX_BITS_def)
  obtain lit where lit: "buildHuffman (take (dh_lit h) (dh_lengths h)) (dh_lit h) = Inr lit"
    "huff_table (take (dh_lit h) (dh_lengths h)) (dh_lit h) lit"
    using buildHuffman_ok [of "dh_lit h" "take (dh_lit h) (dh_lengths h)"] le by auto
  obtain dist where dist: "buildHuffman (drop (dh_lit h) (dh_lengths h)) (dh_dist h) = Inr dist"
    "huff_table (drop (dh_lit h) (dh_lengths h)) (dh_dist h) dist"
    using buildHuffman_ok [of "dh_dist h" "drop (dh_lit h) (dh_lengths h)"] le len by auto
  have "dh_lit h - 257 + 257 = dh_lit h" "dh_dist h - 1 + 1 = dh_dist h" "dh_clen h - 4 + 4 = dh_clen h"
    "\<not> 286 < dh_lit h" "\<not> 30 < dh_dist h"
    using ok by linarith+
  then have "inflateDynamicTables r = Inr ((lit, dist), r5)"
    using len lit(1) dist(1)
    by (simp add: inflateDynamicTables_def r1(1) r2(1) r3(1) r4(1) ch(1) r5(1) Let_def js_slice_def
        del: replicate.simps Nat.add_diff_assoc2 One_nat_def add_Suc_right)
  then show ?thesis using lit(2) dist(2) r5 r4(4) r3(3) r2(3) r1(3) by auto
qed

section \<open>Blocks and streams\<close>

text \<open>
  A stored block carries the padding up to the byte boundary; where the boundary is depends
  on the number \<open>pos\<close> of bits sent before the block.
\<close>

datatype deflate_block =
    Stored "bool list" bytes
  | Fixed "lz_token list"
  | Dynamic dyn_header "lz_token list"

abbreviation "fixed_dist_lengths \<equiv> replicate 30 (5 :: nat)"

fun block_bits :: "deflate_block \<Rightarrow> bool list" where
  "block_bits (Stored pad c) =
     nbits 2 0 @ pad @ nbits 16 (length c) @ nbits 16 (65535 - length c) @ bytes_bits c"
| "block_bits (Fixed ts) = nbits 2 1 @ tokens_bits fixed_lit_lengths 288 fixed_dist_lengths 30 ts"
| "block_bits (Dynamic h ts) =
     nbits 2 2 @ dh_bits h @
     tokens_bits (take (dh_lit h) (dh_lengths h)) (dh_lit h) (drop (dh_lit h) (dh_lengths h)) (dh_dist h) ts"

fun block_out :: "bytes \<Rightarrow> deflate_block \<Rightarrow> bytes" where
  "block_out out (Stored pad c) = out @ c"
| "block_out out (Fixed ts) = foldl apply_token out ts"
| "block_out out (Dynamic h ts) = foldl apply_token out ts"

fun block_ok :: "nat \<Rightarrow> bytes \<Rightarrow> deflate_block \<Rightarrow> bool" where
  "block_ok pos out (Stored pad c) \<longleftrightarrow>
     length c < 65536 \<and> length pad < 8 \<and> (pos + 2 + length pad) mod 8 = 0"
| "block_ok pos out (Fixed ts) \<longleftrightarrow> tokens_ok fixed_lit_lengths 288 fixed_dist_lengths 30 out ts"
| "block_ok pos out (Dynamic h ts) \<longleftrightarrow>
     dh_ok h \<and>
     tokens_ok (take (dh_lit h) (dh_lengths h)) (dh_lit h) (drop (dh_lit h) (dh_lengths h)) (dh_dist h) out ts"

fun stream_bits :: "deflate_block list \<Rightarrow> bool list" where
  "stream_bits [] = []"
| "stream_bits [b] = True # block_bits b"
| "stream_bits (b # bs) = False # block_bits b @ stream_bits bs"

fun stream_ok :: "nat \<Rightarrow> bytes \<Rightarrow> deflate_block list \<Rightarrow> bool" where
  "stream_ok pos out [] \<longleftrightarrow> True"
| "stream_ok pos out (b # bs) \<longleftrightarrow>
     block_ok (pos + 1) out b \<and> stream_ok (pos + 1 + length (block_bits b)) (block_out out b) bs"

text \<open>Whole bytes are read from an aligned reader.\<close>

lemma bytes_bits_val: "bits_val (word_bits 8 (b :: byte)) = unat b"
proof -
  have "word_bits 8 b = map (bit (unat b)) [0..<8]"
    by (auto simp: word_bits_def bit_simps)
  then show ?thesis using unat_byte_less [of b]
    by (simp add: bits_val_def horner_sum_bit_eq_take_bit take_bit_nat_eq_self del: unat_byte_less)
qed

lemma bytes_bits_inj: "bytes_bits xs = bytes_bits ys \<Longrightarrow> xs = ys"
proof (induction xs arbitrary: ys)
  case Nil
  then have "length (bytes_bits ys) = 0" by (metis bytes_bits_simps(1) list.size(3))
  then show ?case by simp
next
  case (Cons x xs)
  then have "length (bytes_bits ys) = 8 * Suc (length xs)" by (metis length_Cons length_bytes_bits)
  then obtain y zs where ys: "ys = y # zs" by (cases ys) auto
  then have "word_bits 8 x = word_bits 8 y" "bytes_bits xs = bytes_bits zs"
    using Cons.prems by (simp_all add: append_eq_append_conv)
  then show ?case using Cons.IH ys bytes_bits_val by (metis word_unat_eq_iff)
qed

lemma aligned_rest: "rd_bitCnt r = 0 \<Longrightarrow> rd_rest r = bytes_bits (drop (rd_pos r) (rd_buf r))"
  by (simp add: rd_rest_def word_bits_def)

lemma readByteRaw_ok:
  assumes "rd_ok r" and "rd_bitCnt r = 0" and "drop (rd_pos r) (rd_buf r) = b # bs"
  shows "\<exists>r'. readByteRaw r = Inr (b, r') \<and> rd_ok r' \<and> rd_bitCnt r' = 0 \<and> rd_buf r' = rd_buf r \<and>
    drop (rd_pos r') (rd_buf r') = bs"
proof -
  have "rd_pos r < length (rd_buf r)" using assms(3) by (metis drop_all linorder_not_le list.distinct(1))
  moreover have "rd_buf r ! rd_pos r = b" "drop (Suc (rd_pos r)) (rd_buf r) = bs"
    using assms(3) by (metis nth_via_drop, metis drop_Suc_Cons drop_drop drop0 plus_1_eq_Suc)
  ultimately show ?thesis using assms(1,2) by (simp add: readByteRaw_def rd_ok_def)
qed

definition le16 :: "nat \<Rightarrow> bytes" where
  "le16 n = [of_nat n, of_nat (n div 256)]"

lemma le16_val:
  assumes "n < 65536"
  shows "unat (of_nat n :: byte) OR push_bit 8 (unat (of_nat (n div 256) :: byte)) = n"
proof -
  have "unat (of_nat n :: byte) = take_bit 8 n" "unat (of_nat (n div 256) :: byte) = drop_bit 8 n"
    using assms by (simp_all add: unat_of_nat drop_bit_eq_div take_bit_eq_mod less_mult_imp_div_less)
  moreover have "take_bit 8 n OR push_bit 8 (drop_bit 8 n) = n"
  proof (rule bit_eqI)
    fix k
    show "bit (take_bit 8 n OR push_bit 8 (drop_bit 8 n)) k \<longleftrightarrow> bit n k"
      by (cases "k < 8") (auto simp: bit_simps)
  qed
  ultimately show ?thesis by simp
qed

lemma read_le16_ok:
  assumes "rd_ok r" and "rd_bitCnt r = 0" and "drop (rd_pos r) (rd_buf r) = le16 n @ bs" and "n < 65536"
  shows "\<exists>r'. read_le16 r = Inr (n, r') \<and> rd_ok r' \<and> rd_bitCnt r' = 0 \<and> rd_buf r' = rd_buf r \<and>
    drop (rd_pos r') (rd_buf r') = bs"
proof -
  obtain r1 where r1: "readByteRaw r = Inr (of_nat n, r1)" "rd_ok r1" "rd_bitCnt r1 = 0" "rd_buf r1 = rd_buf r"
    "drop (rd_pos r1) (rd_buf r1) = of_nat (n div 256) # bs"
    using readByteRaw_ok [OF assms(1,2)] assms(3) by (auto simp: le16_def)
  obtain r2 where "readByteRaw r1 = Inr (of_nat (n div 256), r2)" "rd_ok r2" "rd_bitCnt r2 = 0"
    "rd_buf r2 = rd_buf r1" "drop (rd_pos r2) (rd_buf r2) = bs"
    using readByteRaw_ok [OF r1(2,3,5)] by blast
  with r1 show ?thesis by (simp add: read_le16_def le16_val [OF assms(4)])
qed

lemma copy_stored_ok:
  "rd_ok r \<Longrightarrow> rd_bitCnt r = 0 \<Longrightarrow> drop (rd_pos r) (rd_buf r) = c @ bs \<Longrightarrow> ob_ok ob \<Longrightarrow>
    \<exists>r' ob'. copy_stored (length c) r ob = Inr (r', ob') \<and> rd_ok r' \<and> rd_bitCnt r' = 0 \<and>
      rd_buf r' = rd_buf r \<and> drop (rd_pos r') (rd_buf r') = bs \<and> ob_ok ob' \<and>
      ob_toUint8Array ob' = ob_toUint8Array ob @ c"
proof (induction c arbitrary: r ob)
  case (Cons b c)
  then obtain r1 where r1: "readByteRaw r = Inr (b, r1)" "rd_ok r1" "rd_bitCnt r1 = 0" "rd_buf r1 = rd_buf r"
    "drop (rd_pos r1) (rd_buf r1) = c @ bs"
    using readByteRaw_ok [of r b "c @ bs"] by auto
  with Cons.IH [OF r1(2,3,5) ob_push_ok(1) [OF Cons.prems(4), of b]] ob_push_ok [OF Cons.prems(4), of b]
  show ?case by auto
qed auto

lemma nbits_16: "nbits 16 n = bytes_bits (le16 n)"
proof -
  have "word_bits 8 (of_nat m :: byte) = map (bit m) [0..<8]" for m
    by (auto simp: word_bits_def bit_simps)
  moreover have "bit (n div 256) k = bit n (8 + k)" for k
    using bit_drop_bit_eq [of 8 n] by (simp add: drop_bit_eq_div fun_eq_iff)
  moreover have "[0..<16] = [0..<8] @ map (\<lambda>k. k + 8) [0..<8]"
    using upt_add_eq_append [of 0 8 8] by (simp add: map_add_upt)
  ultimately show ?thesis by (simp add: nbits_def le16_def add.commute)
qed

lemma xor_ffff: "n < 65536 \<Longrightarrow> n XOR 0xffff = 65535 - (n :: nat)"
proof -
  assume n: "n < 65536"
  then have t: "take_bit 16 (int n) = int n" by (simp add: take_bit_int_eq_self)
  have "int n XOR mask 16 = take_bit 16 (NOT (int n))"
  proof (rule bit_eqI)
    fix k
    have "bit (int n) k \<longrightarrow> k < 16" by (metis bit_take_bit_iff t)
    then show "bit (int n XOR mask 16) k \<longleftrightarrow> bit (take_bit 16 (NOT (int n))) k"
      by (auto simp: bit_simps)
  qed
  also have "\<dots> = mask 16 - int n" using t by (simp add: take_bit_not_eq_mask_diff)
  finally have "int n XOR 65535 = 65535 - int n" by (simp add: mask_eq_exp_minus_1)
  then have "int (n XOR 65535) = int (65535 - n)" using n by (simp add: of_nat_xor_eq of_nat_diff)
  then show ?thesis by (simp only: of_nat_eq_iff)
qed

lemma bytes_bits_prefix:
  assumes "bytes_bits xs = bytes_bits ys @ rest"
  shows "\<exists>bs. xs = ys @ bs \<and> rest = bytes_bits bs"
proof -
  have len: "length (bytes_bits xs) = 8 * length ys + length rest" using assms by simp
  then have "length ys \<le> length xs" by simp
  moreover have "bytes_bits xs = bytes_bits (take (length ys) xs) @ bytes_bits (drop (length ys) xs)"
    by (metis append_take_drop_id bytes_bits_simps(3))
  ultimately have "bytes_bits (take (length ys) xs) = bytes_bits ys"
    "bytes_bits (drop (length ys) xs) = rest"
    using assms by (auto simp: append_eq_append_conv)
  then show ?thesis using bytes_bits_inj by (metis append_take_drop_id)
qed

section \<open>The inflater decodes every stream\<close>

lemma fixed_tables:
  "\<exists>lit. FIXED_LIT = Inr lit \<and> huff_table fixed_lit_lengths 288 lit"
  "\<exists>dist. FIXED_DIST = Inr dist \<and> huff_table fixed_dist_lengths 30 dist"
proof -
  have "x \<in> set fixed_lit_lengths \<Longrightarrow> x \<le> MAX_BITS" for x
    by (auto simp: fixed_lit_lengths_def MAX_BITS_def)
  moreover have "length fixed_lit_lengths = 288" by (simp add: fixed_lit_lengths_def)
  ultimately show "\<exists>lit. FIXED_LIT = Inr lit \<and> huff_table fixed_lit_lengths 288 lit"
    unfolding FIXED_LIT_def by (intro buildHuffman_ok) (metis nth_mem)
  show "\<exists>dist. FIXED_DIST = Inr dist \<and> huff_table fixed_dist_lengths 30 dist"
    unfolding FIXED_DIST_def by (intro buildHuffman_ok) (simp add: MAX_BITS_def)
qed

lemma inflate_stored:
  assumes r: "rd_ok r" "rd_rest r = pad @ nbits 16 (length c) @ nbits 16 (65535 - length c) @ bytes_bits c @ rest"
    and ok: "length c < 65536" "rd_bitCnt r = length pad" and ob: "ob_ok ob"
  shows "\<exists>r1 len r2 nlen r' ob'. read_le16 (alignToByte r) = Inr (len, r1) \<and> read_le16 r1 = Inr (nlen, r2) \<and>
    len XOR 0xffff = nlen \<and> copy_stored len r2 ob = Inr (r', ob') \<and> rd_ok r' \<and> rd_rest r' = rest \<and>
    rd_buf r' = rd_buf r \<and> ob_ok ob' \<and> ob_toUint8Array ob' = ob_toUint8Array ob @ c"
proof -
  let ?r = "alignToByte r"
  have a: "rd_ok ?r" "rd_bitCnt ?r = 0" "rd_buf ?r = rd_buf r"
    using alignToByte_ok [OF r(1)] by (simp_all add: rd_ok_def)
  have "bytes_bits (drop (rd_pos ?r) (rd_buf ?r)) =
      bytes_bits (le16 (length c) @ le16 (65535 - length c) @ c) @ rest"
    using alignToByte_ok(2) [OF r(1)] aligned_rest [OF a(2)] r(2) ok(2) by (simp add: nbits_16)
  note bytes = this
  have nlen: "65535 - length c < 65536" by simp
  obtain bs where bs: "drop (rd_pos ?r) (rd_buf ?r) = le16 (length c) @ le16 (65535 - length c) @ c @ bs"
    "rest = bytes_bits bs"
    using bytes_bits_prefix [OF bytes] by auto
  obtain r1 where r1: "read_le16 ?r = Inr (length c, r1)" "rd_ok r1" "rd_bitCnt r1 = 0" "rd_buf r1 = rd_buf ?r"
    "drop (rd_pos r1) (rd_buf r1) = le16 (65535 - length c) @ c @ bs"
    using read_le16_ok [OF a(1,2) bs(1) ok(1)] by blast
  obtain r2 where r2: "read_le16 r1 = Inr (65535 - length c, r2)" "rd_ok r2" "rd_bitCnt r2 = 0"
    "rd_buf r2 = rd_buf r1" "drop (rd_pos r2) (rd_buf r2) = c @ bs"
    using read_le16_ok [OF r1(2,3,5) nlen] by blast
  obtain r3 ob3 where "copy_stored (length c) r2 ob = Inr (r3, ob3)" "rd_ok r3" "rd_bitCnt r3 = 0"
    "rd_buf r3 = rd_buf r2" "drop (rd_pos r3) (rd_buf r3) = bs" "ob_ok ob3"
    "ob_toUint8Array ob3 = ob_toUint8Array ob @ c"
    using copy_stored_ok [OF r2(2,3,5) ob] by blast
  moreover from this have "rd_rest r3 = rest" using bs(2) by (simp add: aligned_rest)
  moreover have "rd_buf r3 = rd_buf r" using calculation r1(4) r2(4) a(3) by simp
  ultimately show ?thesis using r1(1) r2(1) xor_ffff [OF ok(1)] by blast
qed

lemma same_residue: "(a + q) mod 8 = 0 \<Longrightarrow> (b + q) mod 8 = 0 \<Longrightarrow> a < 8 \<Longrightarrow> b < 8 \<Longrightarrow> a = b" for a b q :: nat
proof -
  assume "(a + q) mod 8 = 0" "(b + q) mod 8 = 0" and less: "a < 8" "b < 8"
  then obtain k m where "a + q = 8 * k" "b + q = 8 * m" by (metis dvdE mod_eq_0_iff_dvd)
  with less show "a = b" by (cases k m rule: linorder_cases) linarith+
qed

lemma inflate_block_ok:
  assumes r: "rd_ok r" "rd_rest r = block_bits b @ rest" and pos: "(length (rd_rest r) + pos) mod 8 = 0"
    and b: "block_ok pos (ob_toUint8Array ob) b" and ob: "ob_ok ob"
  shows "\<exists>r' ob'. inflate_block r ob = Inr (r', ob') \<and> rd_ok r' \<and> rd_rest r' = rest \<and>
    rd_buf r' = rd_buf r \<and> ob_ok ob' \<and> ob_toUint8Array ob' = block_out (ob_toUint8Array ob) b"
proof (cases b)
  case (Stored pad c)
  then obtain r1 where r1: "rd_bits 2 r = Inr (0, r1)" "rd_ok r1" "rd_buf r1 = rd_buf r"
    "rd_rest r1 = pad @ nbits 16 (length c) @ nbits 16 (65535 - length c) @ bytes_bits c @ rest"
    using rd_bits_nbits [of r 2 0] r by auto
  have ok: "length c < 65536" "rd_bitCnt r1 < 8" "length pad < 8" "(length pad + (pos + 2)) mod 8 = 0"
    using r1(2) b Stored by (simp_all add: rd_ok_def add.commute)
  have "length (rd_rest r) + pos = rd_bitCnt r1 + (pos + 2) + 8 * (length (rd_buf r1) - rd_pos r1)"
    using conjunct1 [OF rd_bits_left [OF r1(1)]] length_rd_rest [of r1] by linarith
  then have "(rd_bitCnt r1 + (pos + 2)) mod 8 = 0" using pos by (metis mod_mult_self2)
  then have cnt: "rd_bitCnt r1 = length pad" by (rule same_residue [OF _ ok(4) ok(2) ok(3)])
  obtain r2 len r3 nlen r4 ob4 where s: "read_le16 (alignToByte r1) = Inr (len, r2)"
    "read_le16 r2 = Inr (nlen, r3)" "len XOR 0xffff = nlen" "copy_stored len r3 ob = Inr (r4, ob4)"
    "rd_ok r4" "rd_rest r4 = rest" "rd_buf r4 = rd_buf r1" "ob_ok ob4"
    "ob_toUint8Array ob4 = ob_toUint8Array ob @ c"
    using inflate_stored [OF r1(2,4) ok(1) cnt ob] by blast
  have "inflate_block r ob = Inr (r4, ob4)" using r1(1) s(1-4) by (simp add: inflate_block_def)
  with s r1(3) Stored show ?thesis by simp
next
  case (Fixed ts)
  obtain lit dist where t: "FIXED_LIT = Inr lit" "huff_table fixed_lit_lengths 288 lit"
    "FIXED_DIST = Inr dist" "huff_table fixed_dist_lengths 30 dist"
    using fixed_tables by blast
  obtain r1 where r1: "rd_bits 2 r = Inr (1, r1)" "rd_ok r1" "rd_buf r1 = rd_buf r"
    "rd_rest r1 = tokens_bits fixed_lit_lengths 288 fixed_dist_lengths 30 ts @ rest"
    using rd_bits_nbits [of r 2 1] r Fixed by auto
  have "inflate_block r ob = inflateBlockData lit dist r1 ob"
    by (simp add: inflate_block_def r1(1) t(1,3) del: One_nat_def)
  with inflate_tokens [OF t(2,4) r1(2) ob _ r1(4)] b Fixed r1(3) show ?thesis by auto
next
  case (Dynamic h ts)
  let ?L = "take (dh_lit h) (dh_lengths h)" and ?D = "drop (dh_lit h) (dh_lengths h)"
  obtain r1 where r1: "rd_bits 2 r = Inr (2, r1)" "rd_ok r1" "rd_buf r1 = rd_buf r"
    "rd_rest r1 = dh_bits h @ tokens_bits ?L (dh_lit h) ?D (dh_dist h) ts @ rest"
    using rd_bits_nbits [of r 2 2] r Dynamic by auto
  obtain lit dist r2 where t: "inflateDynamicTables r1 = Inr ((lit, dist), r2)"
    "huff_table ?L (dh_lit h) lit" "huff_table ?D (dh_dist h) dist" "rd_ok r2"
    "rd_rest r2 = tokens_bits ?L (dh_lit h) ?D (dh_dist h) ts @ rest" "rd_buf r2 = rd_buf r1"
    using inflateDynamicTables_ok [OF _ r1(2,4)] b Dynamic by auto
  show ?thesis
    using inflate_tokens [OF t(2,3,4) ob _ t(5)] b Dynamic t(1,6) r1(1,3) by (auto simp: inflate_block_def)
qed

lemma inflate_loop_ok:
  "bs \<noteq> [] \<Longrightarrow> rd_ok r \<Longrightarrow> rd_rest r = stream_bits bs @ rest \<Longrightarrow> (length (rd_rest r) + pos) mod 8 = 0 \<Longrightarrow>
    stream_ok pos (ob_toUint8Array ob) bs \<Longrightarrow> ob_ok ob \<Longrightarrow>
    \<exists>r' ob'. inflate_loop r ob = Inr (r', ob') \<and> rd_ok r' \<and> rd_rest r' = rest \<and> rd_buf r' = rd_buf r \<and>
      ob_toUint8Array ob' = foldl block_out (ob_toUint8Array ob) bs"
proof (induction bs arbitrary: r pos ob)
  case (Cons b bs)
  let ?rest = "stream_bits bs @ rest"
  have "rd_rest r = [bs = []] @ block_bits b @ ?rest" using Cons.prems(3) by (cases bs) auto
  then obtain r1 where r1: "rd_bits 1 r = Inr (of_bool (bs = []), r1)" "rd_ok r1"
    "rd_rest r1 = block_bits b @ ?rest" "rd_buf r1 = rd_buf r"
    using rd_bits_append [OF _ _ Cons.prems(2), of _ "block_bits b @ ?rest" 1] by auto
  have left: "length (rd_rest r) = length (rd_rest r1) + 1" using rd_bits_left [OF r1(1)] by simp
  then have pos1: "(length (rd_rest r1) + (pos + 1)) mod 8 = 0"
    using Cons.prems(4) by (simp add: add.assoc add.commute)
  obtain r2 ob2 where r2: "inflate_block r1 ob = Inr (r2, ob2)" "rd_ok r2" "rd_rest r2 = ?rest"
    "rd_buf r2 = rd_buf r1" "ob_ok ob2" "ob_toUint8Array ob2 = block_out (ob_toUint8Array ob) b"
    using inflate_block_ok [OF r1(2,3) pos1 _ Cons.prems(6)] Cons.prems(5) by auto
  show ?case
  proof (cases "bs = []")
    case True
    then show ?thesis using r1 r2 by (subst inflate_loop.simps) simp
  next
    case False
    have "length (rd_rest r) = length (rd_rest r2) + length (block_bits b) + 1"
      using left r1(3) r2(3) by simp
    then have pos2: "(length (rd_rest r2) + (pos + 1 + length (block_bits b))) mod 8 = 0"
      using Cons.prems(4) by (simp add: algebra_simps)
    obtain r' ob' where "inflate_loop r2 ob2 = Inr (r', ob')" "rd_ok r'" "rd_rest r' = rest"
      "rd_buf r' = rd_buf r2"
      "ob_toUint8Array ob' = foldl block_out (block_out (ob_toUint8Array ob) b) bs"
      using Cons.IH [OF False r2(2,3) pos2 _ r2(5)] Cons.prems(5) r2(6) by auto
    with False r1 r2 show ?thesis by (subst inflate_loop.simps) simp
  qed
qed simp

section \<open>Raw streams and the zlib wrapper\<close>

text \<open>The bytes of a raw stream: its bits, and padding up to the last byte.\<close>

definition raw_stream :: "bytes \<Rightarrow> deflate_block list \<Rightarrow> bool" where
  "raw_stream data bs \<longleftrightarrow> bs \<noteq> [] \<and> stream_ok 0 [] bs \<and>
     (\<exists>pad. length pad < 8 \<and> bytes_bits data = stream_bits bs @ pad)"

definition stream_out :: "deflate_block list \<Rightarrow> bytes" where
  "stream_out bs = foldl block_out [] bs"

lemma inflateRawAt_ok:
  assumes "raw_stream data bs"
  shows "inflateRawAt (pre @ data @ post) (length pre) = Inr (stream_out bs, length data)"
proof -
  let ?buf = "pre @ data @ post"
  let ?r = "new_reader ?buf (length pre)"
  let ?ob = "new_out (max 64 ((length ?buf - length pre) * 3))"
  obtain pad where bs: "bs \<noteq> []" "stream_ok 0 [] bs" "length pad < 8" "bytes_bits data = stream_bits bs @ pad"
    using assms by (auto simp: raw_stream_def)
  have rest: "rd_rest ?r = stream_bits bs @ pad @ bytes_bits post" using bs(4) by simp
  have len: "(length (rd_rest ?r) + 0) mod 8 = 0" by simp
  have ok: "rd_ok ?r" by (simp add: new_reader_ok)
  obtain r' ob' where r': "inflate_loop ?r ?ob = Inr (r', ob')" "rd_ok r'" "rd_rest r' = pad @ bytes_bits post"
    "rd_buf r' = ?buf" "ob_toUint8Array ob' = stream_out bs"
  proof -
    have "stream_ok 0 (ob_toUint8Array ?ob) bs" "rd_buf ?r = ?buf"
      using bs(2) by (simp_all add: new_out_ok(2) new_reader_def)
    then show thesis using inflate_loop_ok [OF bs(1) ok rest len _ new_out_ok(1)] that
      unfolding stream_out_def new_out_ok(2) by metis
  qed
  have "rd_bitCnt r' + 8 * (length ?buf - rd_pos r') = length pad + 8 * length post"
    using length_rd_rest [of r'] r'(3,4) by simp
  moreover have "rd_bitCnt r' < 8" "rd_pos r' \<le> length ?buf" using r'(2,4) by (auto simp: rd_ok_def)
  ultimately have "length ?buf - rd_pos r' = length post" "rd_pos r' \<le> length ?buf"
    using bs(3) by linarith+
  then have "rd_pos r' - length pre = length data" by simp
  with r' show ?thesis
    by (simp add: inflateRawAt_def rd_bytesConsumed_ok [OF r'(2)])
qed

text \<open>A zlib stream without a preset dictionary; the inflater skips the checksum without reading it.\<close>

record zlib_stream =
  zs_cmf :: byte
  zs_flg :: byte
  zs_raw :: bytes
  zs_blocks :: "deflate_block list"
  zs_adler :: bytes

definition zlib_ok :: "zlib_stream \<Rightarrow> bool" where
  "zlib_ok z \<longleftrightarrow>
     unat (zs_cmf z) AND 15 = 8 \<and> (push_bit 8 (unat (zs_cmf z)) OR unat (zs_flg z)) mod 31 = 0 \<and>
     unat (zs_flg z) AND 32 = 0 \<and> raw_stream (zs_raw z) (zs_blocks z) \<and> length (zs_adler z) = 4"

definition zlib_bytes :: "zlib_stream \<Rightarrow> bytes" where
  "zlib_bytes z = [zs_cmf z, zs_flg z] @ zs_raw z @ zs_adler z"

lemma inflateZlibAt_ok:
  assumes "zlib_ok z"
  shows "inflateZlibAt (pre @ zlib_bytes z @ post) (length pre) =
    Inr (stream_out (zs_blocks z), length (zlib_bytes z))"
proof -
  let ?pre = "pre @ [zs_cmf z, zs_flg z]"
  let ?buf = "?pre @ zs_raw z @ zs_adler z @ post"
  have buf: "pre @ zlib_bytes z @ post = ?buf" by (simp add: zlib_bytes_def)
  have "inflateRawAt ?buf (length ?pre) = Inr (stream_out (zs_blocks z), length (zs_raw z))"
    using assms by (intro inflateRawAt_ok) (simp add: zlib_ok_def)
  then have raw: "inflateRawAt ?buf (length pre + 2) = Inr (stream_out (zs_blocks z), length (zs_raw z))"
    by simp
  have "?buf ! length pre = zs_cmf z" "?buf ! (length pre + 1) = zs_flg z"
    by (simp_all add: nth_append)
  with raw assms show ?thesis
    unfolding buf by (simp add: inflateZlibAt_def Let_def zlib_ok_def zlib_bytes_def del: append_assoc)
qed

text \<open>As a codec: what precedes and follows a stream in the buffer does not matter.\<close>

definition read_zlib :: "bytes \<Rightarrow> nat \<Rightarrow> (bytes \<times> nat) res" where
  "read_zlib buf offset =
     bind_res (inflateZlibAt buf offset) (\<lambda>(output, bytesConsumed). Inr (output, offset + bytesConsumed))"

interpretation zlib: byte_codec zlib_bytes read_zlib "\<lambda>z. stream_out (zs_blocks z)" zlib_ok
  by unfold_locales (simp only: read_zlib_def inflateZlibAt_ok bind_res.simps prod.case)

text \<open>The simplest sender: one stored block.\<close>

definition zlib_store :: "bytes \<Rightarrow> zlib_stream" where
  "zlib_store c =
     \<lparr>zs_cmf = 0x78, zs_flg = 0x01,
      zs_raw = 1 # le16 (length c) @ le16 (65535 - length c) @ c,
      zs_blocks = [Stored (replicate 5 False) c], zs_adler = [0, 0, 0, 0]\<rparr>"

lemma word_bits_1: "word_bits 8 (1 :: byte) = True # replicate 7 False"
  by (rule nth_equalityI) (auto simp: word_bits_def nth_Cons bit_1_iff split: nat.split)

lemma stored_bits: "word_bits 8 (1 :: byte) = True # nbits 2 0 @ replicate 5 False"
proof -
  have "nbits 2 0 = replicate 2 False" by (rule nth_equalityI) (simp_all add: nbits_def)
  then show ?thesis using replicate_add [of 2 5 False] by (simp add: word_bits_1 del: replicate.simps)
qed

lemma stored_stream_bits:
  "bytes_bits (1 # le16 (length c) @ le16 (65535 - length c) @ c) = stream_bits [Stored (replicate 5 False) c]"
  by (simp only: bytes_bits_simps stream_bits.simps block_bits.simps nbits_16 append.simps append_assoc
      stored_bits)

lemma stored_raw_stream:
  "length c < 65536 \<Longrightarrow>
    raw_stream (1 # le16 (length c) @ le16 (65535 - length c) @ c) [Stored (replicate 5 False) c]"
  unfolding raw_stream_def stored_stream_bits by (intro conjI exI [of _ "[]"]) simp_all

lemma zlib_store_ok: "length c < 65536 \<Longrightarrow> zlib_ok (zlib_store c)"
  unfolding zlib_ok_def zlib_store_def zlib_stream.simps using stored_raw_stream [of c]
  by (intro conjI) (assumption | simp add: push_bit_eq_mult)+

lemma zlib_store_out: "stream_out (zs_blocks (zlib_store c)) = c"
  by (simp add: zlib_store_def stream_out_def)

section \<open>Properties\<close>

text \<open>Codes on concrete tables.\<close>

lemma len_count_take: "m \<le> length L \<Longrightarrow> len_count L m l = length (filter (\<lambda>x. x = l) (take m L))"
  by (induction m) (simp_all add: take_Suc_conv_app_nth)

lemma first_code_numeral:
  "first_code L n (numeral k) =
     2 * (first_code L n (pred_numeral k) + (if pred_numeral k = 0 then 0 else len_count L n (pred_numeral k)))"
  by (simp add: numeral_eq_Suc)

lemma upt_numeral:
  "[0..<numeral n] = 0 # [1..<numeral n]"
  "[Suc 0..<numeral n] = (if Suc 0 < numeral n then Suc 0 # [2..<numeral n] else [])"
  by (simp_all add: upt_rec numeral_2_eq_2)

lemma bit_Suc_0_nat: "bit (Suc 0) n \<longleftrightarrow> n = 0"
  by (simp add: bit_Suc_0_iff)

lemma fixed_lit_length [simp]: "length fixed_lit_lengths = 288"
  by (simp add: fixed_lit_lengths_def)

lemma fixed_codes:
  "first_code fixed_lit_lengths 288 7 = 0" "first_code fixed_lit_lengths 288 8 = 48"
  "first_code fixed_dist_lengths 30 5 = 0"
  by (simp_all add: first_code_numeral len_count_take, simp_all add: fixed_lit_lengths_def)

lemma fixed_lit_nth:
  "fixed_lit_lengths ! 97 = 8" "fixed_lit_lengths ! 98 = 8" "fixed_lit_lengths ! 256 = 7"
  "fixed_lit_lengths ! 261 = 7"
  by (simp_all add: fixed_lit_lengths_def nth_append)

lemma fixed_lit_rank:
  "len_count fixed_lit_lengths 97 8 = 97" "len_count fixed_lit_lengths 98 8 = 98"
  "len_count fixed_lit_lengths 256 7 = 0" "len_count fixed_lit_lengths 261 7 = 5"
  by (simp_all add: len_count_take, simp_all add: fixed_lit_lengths_def)

lemmas concrete_codes = has_code_def huff_bits_def code_bits_def huff_code_def fixed_codes fixed_lit_nth
  fixed_lit_rank MAX_BITS_def nbits_def word_bits_def upt_numeral bit_Suc_0_nat

text \<open>A fixed block for \<open>ababababab\<close>: three literals and a copy of seven bytes from two back.\<close>

definition abab :: "lz_token list" where
  "abab = [Lit 97, Lit 98, Lit 97, Ref 4 0 1 0]"

definition abab_data :: bytes where
  "abab_data = [0x4b, 0x4c, 0x4a, 0x84, 0x42, 0x00]"

lemma abab_ok: "tokens_ok fixed_lit_lengths 288 fixed_dist_lengths 30 [] abab"
  by (simp add: abab_def concrete_codes len_count_take LENGTH_EXTRA_def DIST_EXTRA_def DIST_BASE_def)

lemma abab_bits: "bytes_bits abab_data = stream_bits [Fixed abab] @ [False, False]"
  by (simp add: abab_def abab_data_def tokens_bits_def concrete_codes len_count_take LENGTH_EXTRA_def
      DIST_EXTRA_def)

lemma abab_raw: "raw_stream abab_data [Fixed abab]"
  unfolding raw_stream_def abab_bits using abab_ok by (intro conjI exI [of _ "[False, False]"]) simp_all

lemma abab_out: "stream_out [Fixed abab] = concat (replicate 5 [97, 98])"
  by (simp add: abab_def stream_out_def DIST_BASE_def LENGTH_BASE_def eval_nat_numeral)

lemma small_code: "has_code [1, 2, 2] 3 2" "bytes_bits [3] = huff_bits [1, 2, 2] 3 2 @ replicate 6 False"
  by (simp_all add: concrete_codes len_count_take first_code_numeral, simp_all add: eval_nat_numeral)

lemma small_table: "\<exists>h. buildHuffman [1, 2, 2] 3 = Inr h \<and> huff_table [1, 2, 2] 3 h"
  by (rule buildHuffman_ok) (auto simp: MAX_BITS_def nth_Cons split: nat.splits)

text \<open>C26: Whatever code lengths \<open>buildHuffman\<close> accepts, decoding a buffer that starts with the
  canonical code of a symbol yields that symbol and leaves the reader at the next bit.\<close>

theorem huffman_decodes:
  assumes "buildHuffman L n = Inr h" and "has_code L n s" and "start \<le> length buf"
    and "bytes_bits (drop start buf) = huff_bits L n s @ rest"
  shows "\<exists>r'. rd_decode h (new_reader buf start) = Inr (s, r') \<and> rd_rest r' = rest"
  using rd_decode_code [OF buildHuffman_Inr [OF assms(1)] assms(2) new_reader_ok [OF assms(3)], of rest] assms(4)
  by auto

theorem huffman_decodes_witness:
  "\<exists>h r'. buildHuffman [1, 2, 2] 3 = Inr h \<and> rd_decode h (new_reader [0, 3] 1) = Inr (2, r') \<and>
    rd_rest r' = replicate 6 False"
proof -
  obtain h where h: "buildHuffman [1, 2, 2] 3 = Inr h" using small_table by blast
  have "\<exists>r'. rd_decode h (new_reader [0, 3] 1) = Inr (2, r') \<and> rd_rest r' = replicate 6 False"
    by (rule huffman_decodes [OF h small_code(1)]) (simp, simp only: drop_Suc_Cons drop_0 One_nat_def small_code(2))
  with h show ?thesis by blast
qed

text \<open>Decoding is safe for any accepted code lengths, over-subscribed and incomplete codes
  included, and any input: the symbol it returns is one of the alphabet that has a code, so the
  table is never indexed outside, and at least one bit has been consumed.\<close>

theorem decode_in_table:
  assumes "buildHuffman L n = Inr h" and "rd_ok r" and "rd_decode h r = Inr (s, r')"
  shows "s < n \<and> 0 < L ! s \<and> L ! s \<le> MAX_BITS \<and> rd_ok r' \<and> length (rd_rest r') < length (rd_rest r)"
  using rd_decode_range [OF assms(3) buildHuffman_Inr [OF assms(1)] assms(2)] buildHuffman_Inr [OF assms(1)]
  by (auto simp: huff_table_def)

theorem decode_in_table_witness:
  "\<exists>h s r'. buildHuffman [1, 2, 2] 3 = Inr h \<and> rd_decode h (new_reader [3] 0) = Inr (s, r') \<and>
    s < 3 \<and> 0 < [1, 2, 2 :: nat] ! s"
proof -
  obtain h where h: "buildHuffman [1, 2, 2] 3 = Inr h" "huff_table [1, 2, 2] 3 h"
    using small_table by blast
  have r: "rd_ok (new_reader [3] 0)" "rd_rest (new_reader [3] 0) = huff_bits [1, 2, 2] 3 2 @ replicate 6 False"
    using small_code(2) by (simp_all add: new_reader_ok)
  then obtain r' where "rd_decode h (new_reader [3] 0) = Inr (2, r')"
    using rd_decode_code [OF h(2) small_code(1)] by blast
  with h(1) decode_in_table [OF h(1) r(1) this] show ?thesis by blast
qed

text \<open>C9: On a raw DEFLATE stream of stored, fixed and dynamic blocks, wherever it lies in the
  buffer, the inflater returns what the blocks stand for and the number of bytes of the stream.\<close>

theorem inflateRawAt_decodes:
  assumes "raw_stream data bs"
  shows "inflateRawAt (pre @ data @ post) (length pre) = Inr (stream_out bs, length data)"
  using assms by (rule inflateRawAt_ok)

theorem inflateRawAt_decodes_witness:
  "inflateRawAt ([1, 2] @ abab_data @ [7]) 2 = Inr (concat (replicate 5 [97, 98]), 6)"
  using inflateRawAt_decodes [OF abab_raw, of "[1, 2]" "[7]"] unfolding abab_out by (simp add: abab_data_def eval_nat_numeral)

text \<open>Zlib streams packed back to back are told apart: the inflater returns the output of the
  first one with its exact length, and no stream is a proper prefix of one with other output.\<close>

theorem zlib_streams_delimited:
  assumes "zlib_ok z" and "zlib_ok z'"
  shows "inflateZlibAt (pre @ zlib_bytes z @ zlib_bytes z' @ post) (length pre) =
      Inr (stream_out (zs_blocks z), length (zlib_bytes z)) \<and>
    (zlib_bytes z @ s = zlib_bytes z' @ t \<longrightarrow>
      stream_out (zs_blocks z) = stream_out (zs_blocks z') \<and> zlib_bytes z = zlib_bytes z')"
  using inflateZlibAt_ok [OF assms(1)] zlib.enc_prefix_free [OF assms] by simp

theorem zlib_streams_delimited_witness:
  "inflateZlibAt ([9] @ zlib_bytes (zlib_store [1, 2]) @ zlib_bytes (zlib_store [3]) @ []) 1 =
    Inr ([1, 2], 13)"
  using zlib_streams_delimited [OF zlib_store_ok [of "[1, 2]"] zlib_store_ok [of "[3]"], of "[9]" "[]"]
  by (simp add: zlib_store_out) (simp add: zlib_store_def zlib_bytes_def le16_def)

text \<open>Whatever the buffer, a result never claims bytes beyond its end: the header, the
  DEFLATE data and the checksum that the inflater reports lie within the buffer.\<close>

theorem inflateZlibAt_within:
  assumes "inflateZlibAt buf offset = Inr (output, consumed)"
  shows "offset + consumed \<le> length buf \<and> 6 \<le> consumed"
  using assms by (auto simp: inflateZlibAt_def Let_def res_elims split: if_splits)

theorem inflateZlibAt_within_witness:
  "1 + 13 \<le> length ([9] @ zlib_bytes (zlib_store [1, 2])) \<and> 6 \<le> (13 :: nat)"
proof (rule inflateZlibAt_within)
  show "inflateZlibAt ([9] @ zlib_bytes (zlib_store [1, 2])) 1 = Inr ([1, 2], 13)"
    using inflateZlibAt_ok [OF zlib_store_ok [of "[1, 2]"], of "[9]" "[]"]
    by (simp add: zlib_store_out) (simp add: zlib_store_def zlib_bytes_def le16_def)
qed

end
