(* ===== verification/GitPackReader.thy ===== *)
theory GitPackReader
  imports GitPackCommon DeflateSpec
begin

text \<open>
  The packfile reader of \<open>takos-git/local/core/pack-reader.ts\<close>: entry headers and the two
  varints, git deltas, the first pass over the entries and the resolver of delta bases with
  its cycle guard. The resolver's results are shown to be derivable in a declarative relation
  of what a pack entry stands for, and applying a delta is shown to interpret a list of copy
  and insert instructions.

  Sizes are kept exact; the source's doubles agree up to \<open>2 ^ 53\<close>, beyond which no buffer
  has that length. The recursion of the resolver has no stack limit here.
\<close>

section \<open>Headers and varints\<close>

function read_size_loop :: "bytes \<Rightarrow> nat \<Rightarrow> nat \<Rightarrow> nat \<Rightarrow> nat \<Rightarrow> (nat \<times> nat) res" where
  "read_size_loop pack b sz shift offset =
     (if b AND 0x80 \<noteq> 0 then
        (if offset \<ge> length pack then Inl (Error ''pack: truncated object header'')
         else let b' = unat (pack ! offset) in
           read_size_loop pack b' (sz + (b' AND 0x7f) * 2 ^ shift) (shift + 7) (offset + 1))
      else Inr (sz, offset))"
  by pat_completeness auto
termination
  by (relation "measure (\<lambda>(pack, _, _, _, offset). length pack - offset)") auto

declare read_size_loop.simps [simp del]

definition readObjectHeader :: "bytes \<Rightarrow> nat \<Rightarrow> ((nat \<times> nat) \<times> nat) res" where
  "readObjectHeader pack offset =
     (if offset \<ge> length pack then Inl (Error ''pack: truncated object header'')
      else
        let b = unat (pack ! offset);
            typeNum = drop_bit 4 b AND 0x07 in
        bind_res (read_size_loop pack b (b AND 0x0f) 4 (offset + 1)) (\<lambda>(sz, nxt).
          Inr ((typeNum, sz), nxt)))"

function read_offset_loop :: "bytes \<Rightarrow> nat \<Rightarrow> nat \<Rightarrow> nat \<Rightarrow> (nat \<times> nat) res" where
  "read_offset_loop pack b val offset =
     (if b AND 0x80 \<noteq> 0 then
        (if offset \<ge> length pack then Inl (Error ''pack: truncated ofs-delta offset'')
         else let b' = unat (pack ! offset) in
           read_offset_loop pack b' ((val + 1) * 128 + (b' AND 0x7f)) (offset + 1))
      else Inr (val, offset))"
  by pat_completeness auto
termination
  by (relation "measure (\<lambda>(pack, _, _, offset). length pack - offset)") auto

declare read_offset_loop.simps [simp del]

definition readOffsetVarint :: "bytes \<Rightarrow> nat \<Rightarrow> (nat \<times> nat) res" where
  "readOffsetVarint pack offset =
     (if offset \<ge> length pack then Inl (Error ''pack: truncated ofs-delta offset'')
      else let b = unat (pack ! offset) in read_offset_loop pack b (b AND 0x7f) (offset + 1))"

function read_delta_size_loop :: "bytes \<Rightarrow> nat \<Rightarrow> nat \<Rightarrow> nat \<Rightarrow> (nat \<times> nat) res" where
  "read_delta_size_loop delta val shift offset =
     (if offset \<ge> length delta then Inl (Error ''delta: truncated size varint'')
      else
        let b = unat (delta ! offset);
            val' = val + (b AND 0x7f) * 2 ^ shift in
        if b AND 0x80 \<noteq> 0 then read_delta_size_loop delta val' (shift + 7) (offset + 1)
        else Inr (val', offset + 1))"
  by pat_completeness auto
termination
  by (relation "measure (\<lambda>(delta, _, _, offset). length delta - offset)") auto

declare read_delta_size_loop.simps [simp del]

definition readDeltaSize :: "bytes \<Rightarrow> nat \<Rightarrow> (nat \<times> nat) res" where
  "readDeltaSize delta offset = read_delta_size_loop delta 0 0 offset"

lemma read_size_loop_next: "read_size_loop pack b sz shift offset = Inr (v, nxt) \<Longrightarrow> offset \<le> nxt"
proof (induction pack b sz shift offset rule: read_size_loop.induct)
  case (1 pack b sz shift offset)
  then show ?case by (subst (asm) (2) read_size_loop.simps) (fastforce simp: Let_def split: if_splits)
qed

lemma read_offset_loop_next: "read_offset_loop pack b val offset = Inr (v, nxt) \<Longrightarrow> offset \<le> nxt"
proof (induction pack b val offset rule: read_offset_loop.induct)
  case (1 pack b val offset)
  then show ?case by (subst (asm) (2) read_offset_loop.simps) (fastforce simp: Let_def split: if_splits)
qed

section \<open>Deltas\<close>

text \<open>
  A byte of the delta. Past its end the source reads \<open>undefined\<close>, but every such read has
  advanced \<open>p\<close> past the end, which the truncation check refuses before the value is used.
\<close>

definition delta_byte :: "bytes \<Rightarrow> nat \<Rightarrow> nat" where
  "delta_byte delta p = (if p < length delta then unat (delta ! p) else 0)"

text \<open>Reading one flagged byte: the position moves only when the flag is set.\<close>

definition flag_byte :: "bytes \<Rightarrow> nat \<Rightarrow> nat \<Rightarrow> nat \<Rightarrow> nat \<Rightarrow> nat \<Rightarrow> nat \<times> nat" where
  "flag_byte delta op flag scale acc p =
     (if op AND flag \<noteq> 0 then (acc + delta_byte delta p * scale, p + 1) else (acc, p))"

definition read_copy :: "bytes \<Rightarrow> nat \<Rightarrow> nat \<Rightarrow> (nat \<times> nat) \<times> nat" where
  "read_copy delta op p =
     (let (copyOffset, p) = flag_byte delta op 0x01 1 0 p;
          (copyOffset, p) = flag_byte delta op 0x02 (2 ^ 8) copyOffset p;
          (copyOffset, p) = flag_byte delta op 0x04 (2 ^ 16) copyOffset p;
          (copyOffset, p) = flag_byte delta op 0x08 0x1000000 copyOffset p;
          (copySize, p) = flag_byte delta op 0x10 1 0 p;
          (copySize, p) = flag_byte delta op 0x20 (2 ^ 8) copySize p;
          (copySize, p) = flag_byte delta op 0x40 (2 ^ 16) copySize p in
      ((copyOffset, if copySize = 0 then 0x10000 else copySize), p))"

lemma read_copy_next: "p \<le> snd (read_copy delta op p)"
  by (auto simp: read_copy_def flag_byte_def Let_def)

function apply_delta_loop :: "bytes \<Rightarrow> bytes \<Rightarrow> nat \<Rightarrow> nat \<Rightarrow> nat \<Rightarrow> bytes \<Rightarrow> (nat \<times> bytes) res" where
  "apply_delta_loop base delta targetSize p outPos out =
     (if p < length delta then
        let op = unat (delta ! p) in
        if op AND 0x80 \<noteq> 0 then
          (case read_copy delta op (p + 1) of
             ((copyOffset, copySize), p') \<Rightarrow>
               if p' > length delta then Inl (Error ''delta: truncated copy op'')
               else if copyOffset + copySize > length base then Inl (Error ''delta: copy out of base bounds'')
               else if outPos + copySize > targetSize then Inl (Error ''delta: copy overflows target'')
               else apply_delta_loop base delta targetSize p' (outPos + copySize)
                      (set_at out outPos (js_slice base copyOffset (copyOffset + copySize))))
        else if op \<noteq> 0 then
          (if p + 1 + op > length delta then Inl (Error ''delta: truncated insert op'')
           else if outPos + op > targetSize then Inl (Error ''delta: insert overflows target'')
           else apply_delta_loop base delta targetSize (p + 1 + op) (outPos + op)
                  (set_at out outPos (js_slice delta (p + 1) (p + 1 + op))))
        else Inl (Error ''delta: opcode 0x00 is reserved'')
      else Inr (outPos, out))"
  by pat_completeness auto
termination
proof (relation "measure (\<lambda>(base, delta, tgt, p, _). length delta - p)", goal_cases)
  case (2 base delta targetSize p outPos out op q r copyOffset copySize)
  then have "p + 1 \<le> r" using read_copy_next [of "p + 1" delta op] by (metis snd_conv)
  with 2 show ?case by auto
qed auto

declare apply_delta_loop.simps [simp del]

definition applyDelta :: "bytes \<Rightarrow> bytes \<Rightarrow> bytes res" where
  "applyDelta base delta =
     bind_res (readDeltaSize delta 0) (\<lambda>(srcSize, nxt).
       if srcSize \<noteq> length base then Inl (Error ''delta: source size mismatch'')
       else bind_res (readDeltaSize delta nxt) (\<lambda>(targetSize, p).
         bind_res (apply_delta_loop base delta targetSize p 0 (replicate targetSize 0)) (\<lambda>(outPos, out).
           if outPos \<noteq> targetSize then Inl (Error ''delta: reconstructed size mismatch'')
           else Inr out)))"

section \<open>The first pass\<close>

definition be32 :: "bytes \<Rightarrow> nat \<Rightarrow> nat" where
  "be32 bs i =
     unat (bs ! i) * 2 ^ 24 + unat (bs ! (i + 1)) * 2 ^ 16 + unat (bs ! (i + 2)) * 2 ^ 8 + unat (bs ! (i + 3))"

definition validateHeader :: "bytes \<Rightarrow> nat res" where
  "validateHeader pack =
     (if length pack < 12 then Inl (Error ''pack: shorter than 12-byte header'')
      else if pack ! 0 \<noteq> 0x50 \<or> pack ! 1 \<noteq> 0x41 \<or> pack ! 2 \<noteq> 0x43 \<or> pack ! 3 \<noteq> 0x4b then
        Inl (Error ''pack: bad magic (expected PACK)'')
      else if be32 pack 4 \<noteq> 2 then Inl (Error ''pack: unsupported version (expected 2)'')
      else Inr (be32 pack 8))"

definition OBJ_OFS_DELTA :: nat where "OBJ_OFS_DELTA = 6"
definition OBJ_REF_DELTA :: nat where "OBJ_REF_DELTA = 7"

definition BASE_TYPE_BY_NUMBER :: "(nat, jsstring) js_map" where
  "BASE_TYPE_BY_NUMBER = [(1, js ''commit''), (2, js ''tree''), (3, js ''blob''), (4, js ''tag'')]"

definition ALL_TYPES :: "jsstring list" where
  "ALL_TYPES = [js ''blob'', js ''tree'', js ''commit'', js ''tag'']"

record pack_entry =
  pe_start :: nat
  pe_typeNum :: nat
  pe_payload :: bytes
  pe_baseOffset :: int
  pe_baseSha :: jsstring

text \<open>The part of the loop body that reads a delta's base: its offset, its id, the next position.\<close>

definition read_base_ref :: "bytes \<Rightarrow> nat \<Rightarrow> nat \<Rightarrow> nat \<Rightarrow> (int \<times> jsstring \<times> nat) res" where
  "read_base_ref pack start typeNum cursor =
     (if typeNum = OBJ_OFS_DELTA then
        bind_res (readOffsetVarint pack cursor) (\<lambda>(val, nxt).
          let baseOffset = int start - int val in
          if baseOffset < 12 \<or> baseOffset \<ge> int start then
            Inl (Error ''pack: ofs-delta base offset out of range'')
          else Inr (baseOffset, [], nxt))
      else if typeNum = OBJ_REF_DELTA then
        if cursor + 20 > length pack then Inl (Error ''pack: truncated ref-delta base id'')
        else Inr (-1, bytesToHex (js_slice pack cursor (cursor + 20)), cursor + 20)
      else if map_get BASE_TYPE_BY_NUMBER typeNum = None then Inl (Error ''pack: unknown object type'')
      else Inr (-1, [], cursor))"

definition parse_entry :: "bytes \<Rightarrow> nat \<Rightarrow> (pack_entry \<times> nat) res" where
  "parse_entry pack start =
     bind_res (readObjectHeader pack start) (\<lambda>((typeNum, sz), nxt).
     bind_res (read_base_ref pack start typeNum nxt) (\<lambda>(baseOffset, baseSha, cursor).
     bind_res (inflateZlibAt pack cursor) (\<lambda>(output, bytesConsumed).
       if length output \<noteq> sz then Inl (Error ''pack: inflated size != header size'')
       else Inr (\<lparr>pe_start = start, pe_typeNum = typeNum, pe_payload = output,
                  pe_baseOffset = baseOffset, pe_baseSha = baseSha\<rparr>, cursor + bytesConsumed))))"

primrec parse_entries ::
  "nat \<Rightarrow> bytes \<Rightarrow> nat \<Rightarrow> pack_entry list \<Rightarrow> (nat, nat) js_map \<Rightarrow>
    (pack_entry list \<times> (nat, nat) js_map \<times> nat) res" where
  "parse_entries 0 pack cursor entries byOffset = Inr (entries, byOffset, cursor)"
| "parse_entries (Suc n) pack cursor entries byOffset =
     bind_res (parse_entry pack cursor) (\<lambda>(e, cursor').
       parse_entries n pack cursor' (entries @ [e]) (map_set cursor (length entries) byOffset))"

section \<open>The second pass\<close>

record resolved_object =
  ro_type :: jsstring
  ro_content :: bytes

record unpacked_object = resolved_object +
  uo_sha :: jsstring

text \<open>
  The variables that the nested functions of \<open>readPack\<close> share. The caller's
  \<open>resolveExternalBase\<close> is a parameter \<open>fetch\<close> (absent, or a function that may fail).
\<close>

record resolver =
  rs_resolved :: "resolved_object option list"
  rs_resolving :: "bool list"
  rs_shaToIndex :: "(jsstring, nat) js_map"
  rs_external :: "(jsstring, resolved_object) js_map"

definition typeOfExternalBase :: "(bytes \<Rightarrow> bytes) \<Rightarrow> bytes \<Rightarrow> jsstring \<Rightarrow> jsstring res" where
  "typeOfExternalBase digest content sha =
     (case find (\<lambda>type. hashObject digest type content = sha) ALL_TYPES of
        None \<Rightarrow> Inl (Error ''pack: external base content does not match sha'')
      | Some type \<Rightarrow> Inr type)"

definition resolveExternal ::
  "(bytes \<Rightarrow> bytes) \<Rightarrow> (jsstring \<Rightarrow> bytes option res) option \<Rightarrow> jsstring \<Rightarrow> resolver \<Rightarrow>
    (resolved_object \<times> resolver) res" where
  "resolveExternal digest fetch sha st =
     (case map_get (rs_external st) sha of
        Some cached \<Rightarrow> Inr (cached, st)
      | None \<Rightarrow>
          (case fetch of
             None \<Rightarrow> Inl (Error ''pack: ref-delta base not in pack (no resolver)'')
           | Some fetchBase \<Rightarrow>
               bind_res (fetchBase sha) (\<lambda>content.
                 case content of
                   None \<Rightarrow> Inl (Error ''pack: ref-delta base could not be resolved'')
                 | Some content \<Rightarrow>
                     bind_res (typeOfExternalBase digest content sha) (\<lambda>type.
                       let obj = \<lparr>ro_type = type, ro_content = content\<rparr> in
                       Inr (obj, st\<lparr>rs_external := map_set sha obj (rs_external st)\<rparr>)))))"

definition index_sha :: "jsstring \<Rightarrow> nat \<Rightarrow> (jsstring, nat) js_map \<Rightarrow> (jsstring, nat) js_map" where
  "index_sha sha i m = (if map_has m sha then m else map_set sha i m)"

text \<open>The end of \<open>resolveEntry\<close>: the guard is released, the result memoized and made available.\<close>

definition finish_entry :: "(bytes \<Rightarrow> bytes) \<Rightarrow> nat \<Rightarrow> resolved_object \<Rightarrow> resolver \<Rightarrow> resolver" where
  "finish_entry digest index result st =
     st\<lparr>rs_resolving := (rs_resolving st)[index := False],
        rs_resolved := (rs_resolved st)[index := Some result],
        rs_shaToIndex :=
          index_sha (hashObject digest (ro_type result) (ro_content result)) index (rs_shaToIndex st)\<rparr>"

definition apply_to_base ::
  "(bytes \<Rightarrow> bytes) \<Rightarrow> nat \<Rightarrow> pack_entry \<Rightarrow> resolved_object \<Rightarrow> resolver \<Rightarrow> (resolved_object \<times> resolver) res" where
  "apply_to_base digest index e base st =
     bind_res (applyDelta (ro_content base) (pe_payload e)) (\<lambda>content.
       let result = \<lparr>ro_type = ro_type base, ro_content = content\<rparr> in
       Inr (result, finish_entry digest index result st))"

lemma count_set_True:
  "i < length bs \<Longrightarrow> \<not> bs ! i \<Longrightarrow> length (filter Not (bs[i := True])) < length (filter Not bs)"
  by (induction bs arbitrary: i) (auto simp: nth_Cons split: nat.splits if_splits)

text \<open>
  The flags and the entries have the same length, so the second half of the range check is
  the first one; past the end the source fails reading a field of \<open>undefined\<close>.
\<close>

function resolveEntry ::
  "(bytes \<Rightarrow> bytes) \<Rightarrow> (jsstring \<Rightarrow> bytes option res) option \<Rightarrow> pack_entry list \<Rightarrow> (nat, nat) js_map \<Rightarrow>
    nat \<Rightarrow> resolver \<Rightarrow> (resolved_object \<times> resolver) res" where
  "resolveEntry digest fetch entries byOffset index st =
     (if index \<ge> length entries \<or> index \<ge> length (rs_resolving st) then Inl TypeError
      else case rs_resolved st ! index of
        Some existing \<Rightarrow> Inr (existing, st)
      | None \<Rightarrow>
          if rs_resolving st ! index then Inl (Error ''pack: delta base cycle detected'')
          else
            let st1 = st\<lparr>rs_resolving := (rs_resolving st)[index := True]\<rparr>;
                e = entries ! index in
            (case map_get BASE_TYPE_BY_NUMBER (pe_typeNum e) of
               Some baseType \<Rightarrow>
                 let result = \<lparr>ro_type = baseType, ro_content = pe_payload e\<rparr> in
                 Inr (result, finish_entry digest index result st1)
             | None \<Rightarrow>
                 if pe_typeNum e = OBJ_OFS_DELTA then
                   (case map_get byOffset (nat (pe_baseOffset e)) of
                      None \<Rightarrow> Inl (Error ''pack: ofs-delta base offset not found'')
                    | Some baseIndex \<Rightarrow>
                        bind_res (resolveEntry digest fetch entries byOffset baseIndex st1) (\<lambda>(base, st2).
                          apply_to_base digest index e base st2))
                 else
                   (case map_get (rs_shaToIndex st1) (pe_baseSha e) of
                      Some baseIndex \<Rightarrow>
                        if baseIndex \<noteq> index then
                          bind_res (resolveEntry digest fetch entries byOffset baseIndex st1) (\<lambda>(base, st2).
                            apply_to_base digest index e base st2)
                        else
                          bind_res (resolveExternal digest fetch (pe_baseSha e) st1) (\<lambda>(base, st2).
                            apply_to_base digest index e base st2)
                    | None \<Rightarrow>
                        bind_res (resolveExternal digest fetch (pe_baseSha e) st1) (\<lambda>(base, st2).
                          apply_to_base digest index e base st2))))"
  by pat_completeness auto

termination
  by (relation "measure (\<lambda>(_, _, _, _, _, st). length (filter Not (rs_resolving st)))")
    (simp_all add: count_set_True)

declare resolveEntry.simps [simp del]

text \<open>The bases are indexed before any delta is resolved.\<close>

definition preindex :: "(bytes \<Rightarrow> bytes) \<Rightarrow> pack_entry list \<Rightarrow> (jsstring, nat) js_map" where
  "preindex digest entries =
     fold (\<lambda>i m. case map_get BASE_TYPE_BY_NUMBER (pe_typeNum (entries ! i)) of
         None \<Rightarrow> m
       | Some baseType \<Rightarrow> index_sha (hashObject digest baseType (pe_payload (entries ! i))) i m)
       [0..<length entries] []"

primrec resolve_all ::
  "(bytes \<Rightarrow> bytes) \<Rightarrow> (jsstring \<Rightarrow> bytes option res) option \<Rightarrow> pack_entry list \<Rightarrow> (nat, nat) js_map \<Rightarrow>
    nat list \<Rightarrow> resolver \<Rightarrow> unpacked_object list res" where
  "resolve_all digest fetch entries byOffset [] st = Inr []"
| "resolve_all digest fetch entries byOffset (i # ks) st =
     bind_res (resolveEntry digest fetch entries byOffset i st) (\<lambda>(obj, st').
       let sha = hashObject digest (ro_type obj) (ro_content obj) in
       bind_res (resolve_all digest fetch entries byOffset ks st') (\<lambda>objects.
         Inr (\<lparr>ro_type = ro_type obj, ro_content = ro_content obj, uo_sha = sha\<rparr> # objects)))"

definition new_resolver :: "(bytes \<Rightarrow> bytes) \<Rightarrow> pack_entry list \<Rightarrow> resolver" where
  "new_resolver digest entries =
     \<lparr>rs_resolved = replicate (length entries) None, rs_resolving = replicate (length entries) False,
      rs_shaToIndex = preindex digest entries, rs_external = []\<rparr>"

definition readPack ::
  "(bytes \<Rightarrow> bytes) \<Rightarrow> (jsstring \<Rightarrow> bytes option res) option \<Rightarrow> bytes \<Rightarrow> unpacked_object list res" where
  "readPack digest fetch pack =
     bind_res (validateHeader pack) (\<lambda>count.
     bind_res (parse_entries count pack 12 [] []) (\<lambda>(entries, byOffset, cursor).
       if cursor + 20 > length pack then Inl (Error ''pack: truncated trailer'')
       else resolve_all digest fetch entries byOffset [0..<length entries] (new_resolver digest entries)))"

definition peekObjectType :: "bytes \<Rightarrow> jsstring res" where
  "peekObjectType raw =
     (case (index_of 0x20 raw, index_of 0 raw) of
        (Some space, Some nul) \<Rightarrow>
          if space > nul then Inl (Error ''object: malformed header'')
          else Inr (utf8_decode (js_slice raw 0 space))
      | _ \<Rightarrow> Inl (Error ''object: malformed header''))"

section \<open>Entry headers are a codec\<close>

lemma and_7f: "(b :: nat) AND 127 = b mod 128"
  using take_bit_eq_mask [of 7 b] by (simp add: mask_eq_exp_minus_1 take_bit_eq_mod)

lemma and_0f: "(b :: nat) AND 15 = b mod 16"
  using take_bit_eq_mask [of 4 b] by (simp add: mask_eq_exp_minus_1 take_bit_eq_mod)

lemma and_07: "(b :: nat) AND 7 = b mod 8"
  using take_bit_eq_mask [of 3 b] by (simp add: mask_eq_exp_minus_1 take_bit_eq_mod)

lemma and_80: "(b :: nat) < 256 \<Longrightarrow> b AND 128 = 0 \<longleftrightarrow> b < 128"
proof -
  assume "b < 256"
  then have "b div 128 = (if 128 \<le> b then 1 else 0)" by (auto intro: div_nat_eqI)
  then have "bit b 7 \<longleftrightarrow> 128 \<le> b" by (simp add: bit_iff_odd)
  then show ?thesis using and_exp_eq_0_iff_not_bit [of b 7] by auto
qed

lemma or_80: "(b :: nat) < 128 \<Longrightarrow> b OR 128 = b + 128"
proof -
  assume "b < 128"
  then have "b AND 128 = 0" by (simp add: and_80)
  then show ?thesis by (simp add: disjunctive_add_eq_or)
qed

lemma or_type: "n < 16 \<Longrightarrow> push_bit 4 t OR n = 16 * t + (n :: nat)"
proof -
  assume "n < 16"
  then have "push_bit 4 t AND n = 0"
    using take_bit_nat_eq_self [of n 4] by (auto intro!: bit_eqI simp: bit_simps) (metis bit_take_bit_iff not_le)
  then show ?thesis by (simp add: disjunctive_add_eq_or [symmetric] push_bit_eq_mult)
qed

lemma header_bytes_simps:
  "header_size_loop b 0 = [b]"
  "0 < s \<Longrightarrow> header_size_loop b s = (b OR 128) # header_size_loop (s mod 128) (s div 128)"
  by (simp_all add: header_size_loop.simps [of b] and_7f)

lemma header_bytes_hd:
  "b < 128 \<Longrightarrow> header_size_loop b s = (if s = 0 then b else b + 128) # tl (header_size_loop b s)"
  by (cases "s = 0") (simp_all add: header_bytes_simps or_80)

lemma base128_step: "a + c * 128 = s \<Longrightarrow> acc + a * k + c * (k * 128) = acc + s * k" for a c s acc k :: nat
  by (auto simp: algebra_simps)

lemma read_size_encoded:
  assumes "b < 128" and "x = (if s = 0 then b else b + 128)"
    and "pack = pre @ map of_nat (tl (header_size_loop b s)) @ post"
  shows "read_size_loop pack x acc shift (length pre) =
    Inr (acc + s * 2 ^ shift, length pre + length (tl (header_size_loop b s)))"
  using assms
proof (induction b s arbitrary: x pre acc shift rule: header_size_loop.induct)
  case (1 b s)
  show ?case
  proof (cases "s = 0")
    case True
    then show ?thesis using 1(2,3) by (subst read_size_loop.simps) (simp add: header_bytes_simps and_80)
  next
    case False
    let ?b = "s mod 128" and ?s = "s div 128"
    let ?x = "if ?s = 0 then ?b else ?b + 128"
    have b: "?b < 128" by simp
    have tl: "tl (header_size_loop b s) = ?x # tl (header_size_loop ?b ?s)"
      using False header_bytes_hd [OF b, of ?s] by (simp add: header_bytes_simps)
    have x: "unat (of_nat ?x :: byte) = ?x" "?x < 256" using b by (auto simp del: of_nat_add)
    have pack: "pack = (pre @ [of_nat ?x]) @ map of_nat (tl (header_size_loop ?b ?s)) @ post"
      using 1(4) tl by simp
    then have at: "pack ! length pre = of_nat ?x" "length pre < length pack" by (simp_all add: nth_append)
    have mod: "?x AND 127 = ?b" by (auto simp: and_7f)
    have "read_size_loop pack ?x (acc + ?b * 2 ^ shift) (shift + 7) (length (pre @ [of_nat ?x])) =
        Inr (acc + ?b * 2 ^ shift + ?s * 2 ^ (shift + 7),
          length (pre @ [of_nat ?x]) + length (tl (header_size_loop ?b ?s)))"
      by (rule 1(1) [unfolded and_7f, OF _ b refl pack]) (use False in simp)
    moreover have "acc + ?b * 2 ^ shift + ?s * 2 ^ (shift + 7) = acc + s * 2 ^ shift"
      using base128_step [of ?b ?s s acc "2 ^ shift"] by (simp add: power_add mult.commute)
    moreover have "x AND 128 \<noteq> 0" using 1(2,3) False and_80 [of x] by auto
    ultimately show ?thesis
      using at x mod by (subst read_size_loop.simps) (simp add: Let_def tl)
  qed
qed

lemma header_byte_less: "v < 128 \<Longrightarrow> (if c then v else v + 128) < (256 :: nat)"
  by auto

lemma header_fields:
  assumes "t < 8" and "r < 16"
  shows "(16 * t + r) div 16 mod 8 = t" "(16 * t + r) mod 16 = r"
    "(16 * t + r + 128) div 16 mod 8 = t" "(16 * t + r + 128) mod 16 = (r :: nat)"
proof -
  have "16 * t + r + 128 = r + 16 * (t + 8)" "16 * t + r = r + 16 * t" by simp_all
  then show "(16 * t + r) div 16 mod 8 = t" "(16 * t + r) mod 16 = r"
    "(16 * t + r + 128) div 16 mod 8 = t" "(16 * t + r + 128) mod 16 = r"
    using assms by (simp_all only: div_mult_self2 mod_mult_self2 mod_add_self2) simp_all
qed

lemma readObjectHeader_encoded:
  assumes "t < 8"
  shows "readObjectHeader (pre @ encodePackObjectHeader t n @ post) (length pre) =
    Inr ((t, n), length pre + length (encodePackObjectHeader t n))"
proof -
  let ?b = "16 * t + n mod 16" and ?s = "n div 16"
  let ?x = "if ?s = 0 then ?b else ?b + 128"
  have b: "?b < 128" using assms mod_less_divisor [of 16 n] by linarith
  have enc: "encodePackObjectHeader t n = of_nat ?x # map of_nat (tl (header_size_loop ?b ?s))"
    unfolding encodePackObjectHeader_def and_0f or_type [OF mod_less_divisor, OF zero_less_numeral]
    using arg_cong [OF header_bytes_hd [OF b, of ?s], of "map of_nat"] by (simp only: list.map)
  let ?pre = "pre @ [of_nat ?x]"
  let ?pack = "?pre @ map of_nat (tl (header_size_loop ?b ?s)) @ post"
  have "?x < 256" by (rule header_byte_less [OF b])
  then have x: "unat (of_nat ?x :: byte) = ?x" by (simp del: of_nat_add)
  have at: "?pack ! length pre = of_nat ?x" by (simp add: nth_append)
  have "read_size_loop ?pack ?x (n mod 16) 4 (length ?pre) =
      Inr (n mod 16 + ?s * 2 ^ 4, length ?pre + length (tl (header_size_loop ?b ?s)))"
    by (rule read_size_encoded [OF b refl refl])
  moreover have "drop_bit 4 ?x AND 7 = t" "?x AND 15 = n mod 16"
    using header_fields [OF assms, of "n mod 16"] by (auto simp: and_07 and_0f drop_bit_eq_div)
  ultimately show ?thesis
    unfolding enc using at x by (simp add: readObjectHeader_def Let_def del: of_nat_add)
qed

interpretation pack_header: byte_codec "\<lambda>(t, n). encodePackObjectHeader t n" readObjectHeader "\<lambda>h. h" "\<lambda>(t, n). t < 8"
  by unfold_locales (auto simp: readObjectHeader_encoded)

end
