(* ===== verification/GitDelta.thy ===== *)
theory GitDelta
  imports GitPackReader
begin

text \<open>
  What a git delta means: a list of copy and insert instructions. Applying a delta is shown to
  be the interpretation of such a list, for every delta that is accepted, and every list of
  valid instructions has a delta that is accepted.
\<close>

datatype delta_op = Copy nat nat | Insert bytes

fun op_bytes :: "bytes \<Rightarrow> delta_op \<Rightarrow> bytes" where
  "op_bytes base (Copy off sz) = take sz (drop off base)"
| "op_bytes base (Insert bs) = bs"

fun op_valid :: "bytes \<Rightarrow> delta_op \<Rightarrow> bool" where
  "op_valid base (Copy off sz) \<longleftrightarrow> 0 < sz \<and> off + sz \<le> length base"
| "op_valid base (Insert bs) \<longleftrightarrow> 0 < length bs \<and> length bs < 128"

definition delta_result :: "bytes \<Rightarrow> delta_op list \<Rightarrow> bytes" where
  "delta_result base ops = concat (map (op_bytes base) ops)"

section \<open>Every accepted delta is a list of instructions\<close>

lemma set_at_prefix:
  "off \<le> length xs \<Longrightarrow> off + length ys \<le> length xs \<Longrightarrow>
    take (off + length ys) (set_at xs off ys) = take off xs @ ys \<and> length (set_at xs off ys) = length xs"
  by (simp add: set_at_def)

lemma length_copied: "off + sz \<le> length base \<Longrightarrow> length (js_slice base off (off + sz)) = sz"
  by simp

lemma read_copy_size: "0 < snd (fst (read_copy delta op p))"
  by (simp add: read_copy_def Let_def split: prod.splits)

lemma apply_delta_loop_sound:
  "apply_delta_loop base delta tgt p outPos out = Inr (outPos', out') \<Longrightarrow> length out = tgt \<Longrightarrow>
    outPos \<le> tgt \<Longrightarrow>
    \<exists>ops. list_all (op_valid base) ops \<and> outPos' = outPos + length (delta_result base ops) \<and>
      outPos' \<le> tgt \<and> length out' = tgt \<and>
      take outPos' out' = take outPos out @ delta_result base ops"
proof (induction base delta tgt p outPos out rule: apply_delta_loop.induct)
  case (1 base delta tgt p outPos out)
  show ?case
  proof (cases "p < length delta")
    case False
    then show ?thesis using 1(3-5)
      by (subst (asm) apply_delta_loop.simps) (intro exI [of _ "[]"], simp add: delta_result_def)
  next
    case True
    let ?op = "unat (delta ! p)"
    show ?thesis
    proof (cases "?op AND 0x80 \<noteq> 0")
      case copy: True
      obtain off sz p' where rc: "read_copy delta ?op (p + 1) = ((off, sz), p')"
        by (metis prod.exhaust)
      let ?out = "set_at out outPos (js_slice base off (off + sz))"
      have ok: "\<not> length delta < p'" "\<not> length base < off + sz" "\<not> tgt < outPos + sz"
        and rec: "apply_delta_loop base delta tgt p' (outPos + sz) ?out = Inr (outPos', out')"
        using 1(3) True copy rc by (subst (asm) apply_delta_loop.simps, simp add: Let_def split: if_splits)+
      have len: "take (outPos + sz) ?out = take outPos out @ js_slice base off (off + sz)" "length ?out = tgt"
        using set_at_prefix [of outPos out "js_slice base off (off + sz)"] ok 1(4,5) by simp_all
      obtain ops where ops: "list_all (op_valid base) ops" "outPos' = outPos + sz + length (delta_result base ops)"
        "outPos' \<le> tgt" "length out' = tgt" "take outPos' out' = take (outPos + sz) ?out @ delta_result base ops"
        using 1(1) [OF True refl copy rc [symmetric] refl ok rec len(2)] ok(3) by auto
      have "0 < sz" using read_copy_size [of delta ?op "p + 1"] rc by simp
      with ops len ok show ?thesis
        by (intro exI [of _ "Copy off sz # ops"]) (simp add: delta_result_def js_slice_def)
    next
      case insert: False
      let ?bs = "js_slice delta (p + 1) (p + 1 + ?op)"
      let ?out = "set_at out outPos ?bs"
      have ok: "?op \<noteq> 0" "\<not> length delta < p + 1 + ?op" "\<not> tgt < outPos + ?op"
        and rec: "apply_delta_loop base delta tgt (p + 1 + ?op) (outPos + ?op) ?out = Inr (outPos', out')"
        using 1(3) True insert by (subst (asm) apply_delta_loop.simps, simp add: Let_def split: if_splits)+
      have bs: "length ?bs = ?op" using ok by simp
      have "?op < 128" using and_80 [of ?op] insert by simp
      have len: "take (outPos + ?op) ?out = take outPos out @ ?bs" "length ?out = tgt"
        using set_at_prefix [of outPos out ?bs] bs ok 1(4,5) by simp_all
      obtain ops where ops: "list_all (op_valid base) ops" "outPos' = outPos + ?op + length (delta_result base ops)"
        "outPos' \<le> tgt" "length out' = tgt" "take outPos' out' = take (outPos + ?op) ?out @ delta_result base ops"
        using 1(2) [OF True refl insert ok rec len(2)] ok(3) by auto
      with bs len ok \<open>?op < 128\<close> show ?thesis
        by (intro exI [of _ "Insert ?bs # ops"]) (simp add: delta_result_def)
    qed
  qed
qed

lemma applyDelta_sound:
  assumes "applyDelta base delta = Inr out"
  shows "\<exists>ops. list_all (op_valid base) ops \<and> out = delta_result base ops"
proof -
  obtain tgt p outPos where loop: "apply_delta_loop base delta tgt p 0 (replicate tgt 0) = Inr (outPos, out)"
    "outPos = tgt"
    using assms by (auto simp: applyDelta_def res_elims split: if_splits)
  then show ?thesis using apply_delta_loop_sound [OF loop(1)] by auto
qed

section \<open>Every list of instructions has a delta\<close>

fun enc_size :: "nat \<Rightarrow> bytes" where
  "enc_size n = (if n < 128 then [of_nat n] else of_nat (n mod 128 + 128) # enc_size (n div 128))"

declare enc_size.simps [simp del]

text \<open>A copy with all seven argument bytes present.\<close>

fun enc_op :: "delta_op \<Rightarrow> bytes" where
  "enc_op (Copy off sz) =
     0xFF # map of_nat [off mod 256, off div 256 mod 256, off div 65536 mod 256, off div 16777216 mod 256,
       sz mod 256, sz div 256 mod 256, sz div 65536 mod 256]"
| "enc_op (Insert bs) = of_nat (length bs) # bs"

fun op_fits :: "delta_op \<Rightarrow> bool" where
  "op_fits (Copy off sz) \<longleftrightarrow> off < 2 ^ 32 \<and> sz < 2 ^ 24"
| "op_fits (Insert bs) \<longleftrightarrow> True"

definition enc_delta :: "bytes \<Rightarrow> delta_op list \<Rightarrow> bytes" where
  "enc_delta base ops =
     enc_size (length base) @ enc_size (length (delta_result base ops)) @ concat (map enc_op ops)"

lemma read_delta_size_encoded:
  "read_delta_size_loop (pre @ enc_size n @ post) acc shift (length pre) =
    Inr (acc + n * 2 ^ shift, length pre + length (enc_size n))"
proof (induction n arbitrary: pre acc shift rule: enc_size.induct)
  case (1 n)
  show ?case
  proof (cases "n < 128")
    case True
    then have "unat (of_nat n :: byte) = n" "n AND 128 = 0" by (simp_all add: and_80)
    with True show ?thesis
      by (subst read_delta_size_loop.simps)
        (simp add: enc_size.simps [of n] nth_append and_7f Let_def)
  next
    case False
    let ?b = "n mod 128" and ?n = "n div 128"
    have b: "?b + 128 < 256" by simp
    then have u: "unat (of_nat (?b + 128) :: byte) = ?b + 128" by (rule unat_of_nat_8)
    have enc: "enc_size n = of_nat (?b + 128) # enc_size ?n" using False by (subst enc_size.simps) simp
    let ?pre = "pre @ [of_nat (?b + 128)]"
    have IH: "read_delta_size_loop (?pre @ enc_size ?n @ post) (acc + ?b * 2 ^ shift) (shift + 7) (length ?pre) =
        Inr (acc + ?b * 2 ^ shift + ?n * 2 ^ (shift + 7), length ?pre + length (enc_size ?n))"
      by (rule 1) (use False in simp)
    have sum: "acc + ?b * 2 ^ shift + ?n * 2 ^ (shift + 7) = acc + n * 2 ^ shift"
      using base128_step [of ?b ?n n acc "2 ^ shift"] by (simp add: power_add mult.commute)
    have flags: "(?b + 128) AND 128 \<noteq> 0" "(?b + 128) AND 127 = ?b"
      using b by (simp_all add: and_80 and_7f)
    have at: "(pre @ enc_size n @ post) ! length pre = of_nat (?b + 128)" "length pre < length (pre @ enc_size n @ post)"
      by (simp_all add: enc)
    show ?thesis
      using IH unfolding sum
      by (subst read_delta_size_loop.simps) (simp add: at(1) u flags Let_def enc del: of_nat_add)
  qed
qed

lemma flag_byte_ff:
  "delta = pre @ x # post \<Longrightarrow> flag \<in> {0x01, 0x02, 0x04, 0x08, 0x10, 0x20, 0x40} \<Longrightarrow>
    flag_byte delta 255 flag scale acc (length pre) = (acc + unat x * scale, length (pre @ [x]))"
  by (auto simp: flag_byte_def delta_byte_def nth_append)

lemma unat_of_nat_mod [simp]: "unat (of_nat (n mod 256) :: byte) = n mod 256"
  by simp

lemma bytes_4: "n < 2 ^ 32 \<Longrightarrow> n mod 256 + n div 256 mod 256 * 2 ^ 8 + n div 65536 mod 256 * 2 ^ 16
    + n div 16777216 mod 256 * 0x1000000 = (n :: nat)"
proof -
  assume "n < 2 ^ 32"
  define a b c where "a = n div 256" and "b = a div 256" and "c = b div 256"
  have "n = n mod 256 + 256 * a" "a = a mod 256 + 256 * b" "b = b mod 256 + 256 * c"
    by (simp_all add: a_def b_def c_def)
  moreover have "n div 65536 = b" "n div 16777216 = c"
    by (simp_all add: a_def b_def c_def div_mult2_eq [symmetric])
  moreover have "c mod 256 = c"
    using \<open>n < 2 ^ 32\<close> by (simp add: a_def b_def c_def less_mult_imp_div_less)
  ultimately show ?thesis unfolding a_def [symmetric] by simp
qed

lemma bytes_3: "n < 2 ^ 24 \<Longrightarrow> n mod 256 + n div 256 mod 256 * 2 ^ 8 + n div 65536 mod 256 * 2 ^ 16 = (n :: nat)"
  using bytes_4 [of n] by simp

lemma read_copy_encoded:
  assumes "off < 2 ^ 32" and "sz < 2 ^ 24" and "0 < sz"
    and "delta = pre @ map of_nat [off mod 256, off div 256 mod 256, off div 65536 mod 256,
      off div 16777216 mod 256, sz mod 256, sz div 256 mod 256, sz div 65536 mod 256] @ post"
  shows "read_copy delta 255 (length pre) = ((off, sz), length pre + 7)"
proof -
  let ?b = "\<lambda>n. of_nat (n mod 256) :: byte"
  let ?p1 = "pre @ [?b off]" let ?p2 = "?p1 @ [?b (off div 256)]"
  let ?p3 = "?p2 @ [?b (off div 65536)]" let ?p4 = "?p3 @ [?b (off div 16777216)]"
  let ?p5 = "?p4 @ [?b sz]" let ?p6 = "?p5 @ [?b (sz div 256)]"
  have f: "flag_byte delta 255 1 scale acc (length pre) = (acc + unat (?b off) * scale, length ?p1)"
    "flag_byte delta 255 2 scale acc (length ?p1) = (acc + unat (?b (off div 256)) * scale, length ?p2)"
    "flag_byte delta 255 4 scale acc (length ?p2) = (acc + unat (?b (off div 65536)) * scale, length ?p3)"
    "flag_byte delta 255 8 scale acc (length ?p3) = (acc + unat (?b (off div 16777216)) * scale, length ?p4)"
    "flag_byte delta 255 16 scale acc (length ?p4) = (acc + unat (?b sz) * scale, length ?p5)"
    "flag_byte delta 255 32 scale acc (length ?p5) = (acc + unat (?b (sz div 256)) * scale, length ?p6)"
    "flag_byte delta 255 64 scale acc (length ?p6) =
      (acc + unat (?b (sz div 65536)) * scale, length (?p6 @ [?b (sz div 65536)]))" for scale acc
    by (rule flag_byte_ff; simp add: assms(4))+
  have "sz mod 256 + sz div 256 mod 256 * 2 ^ 8 + sz div 65536 mod 256 * 2 ^ 16 = sz"
    using assms(2) by (rule bytes_3)
  moreover have "off mod 256 + off div 256 mod 256 * 2 ^ 8 + off div 65536 mod 256 * 2 ^ 16
      + off div 16777216 mod 256 * 0x1000000 = off"
    using assms(1) by (rule bytes_4)
  moreover have "length (?p6 @ [?b (sz div 65536)]) = length pre + 7" by simp
  ultimately show ?thesis
    unfolding read_copy_def Let_def f prod.case unat_of_nat_mod
    by (simp only: f prod.case unat_of_nat_mod mult_1_right add_0) (use assms(3) in simp)
qed

lemma apply_delta_copy:
  assumes "p < length delta" and "delta ! p = x" and "unat x AND 0x80 \<noteq> 0"
    and "read_copy delta (unat x) (p + 1) = ((off, sz), p')" and "p' \<le> length delta"
    and "off + sz \<le> length base" and "outPos + sz \<le> tgt"
  shows "apply_delta_loop base delta tgt p outPos out =
    apply_delta_loop base delta tgt p' (outPos + sz) (set_at out outPos (js_slice base off (off + sz)))"
  by (subst apply_delta_loop.simps) (use assms in \<open>simp add: Let_def not_less\<close>)

lemma apply_delta_insert:
  assumes "p < length delta" and "delta ! p = of_nat n" and "0 < n" and "n < 128"
    and "p + 1 + n \<le> length delta" and "outPos + n \<le> tgt"
  shows "apply_delta_loop base delta tgt p outPos out =
    apply_delta_loop base delta tgt (p + 1 + n) (outPos + n)
      (set_at out outPos (js_slice delta (p + 1) (p + 1 + n)))"
proof -
  have "unat (of_nat n :: byte) = n" "n AND 128 = 0" using assms(4) by (simp_all add: and_80)
  with assms show ?thesis by (subst apply_delta_loop.simps) (simp add: Let_def not_less)
qed

lemma apply_delta_loop_encoded:
  "list_all (op_valid base) ops \<Longrightarrow> list_all op_fits ops \<Longrightarrow> length out = tgt \<Longrightarrow>
    outPos + length (delta_result base ops) \<le> tgt \<Longrightarrow>
    \<exists>out'. apply_delta_loop base (pre @ concat (map enc_op ops)) tgt (length pre) outPos out =
        Inr (outPos + length (delta_result base ops), out') \<and>
      length out' = tgt \<and>
      take (outPos + length (delta_result base ops)) out' = take outPos out @ delta_result base ops"
proof (induction ops arbitrary: pre outPos out)
  case Nil
  then show ?case by (subst apply_delta_loop.simps) (simp add: delta_result_def)
next
  case (Cons op ops)
  let ?delta = "pre @ enc_op op @ concat (map enc_op ops)"
  let ?bs = "op_bytes base op"
  let ?out = "set_at out outPos ?bs"
  have res: "delta_result base (op # ops) = ?bs @ delta_result base ops" by (simp add: delta_result_def)
  have fit: "outPos + length ?bs + length (delta_result base ops) \<le> tgt" using Cons.prems(4) res by simp
  have out: "take (outPos + length ?bs) ?out = take outPos out @ ?bs" "length ?out = tgt"
    using set_at_prefix [of outPos out ?bs] fit Cons.prems(3) by auto
  have "apply_delta_loop base ?delta tgt (length pre) outPos out =
      apply_delta_loop base ?delta tgt (length (pre @ enc_op op)) (outPos + length ?bs) ?out"
  proof (cases op)
    case (Copy off sz)
    let ?args = "map of_nat [off mod 256, off div 256 mod 256, off div 65536 mod 256,
      off div 16777216 mod 256, sz mod 256, sz div 256 mod 256, sz div 65536 mod 256] :: bytes"
    have ok: "off < 2 ^ 32" "sz < 2 ^ 24" "0 < sz" "off + sz \<le> length base"
      using Cons.prems Copy by auto
    have len: "length (enc_op op) = 8" by (simp add: Copy)
    have "read_copy ?delta 255 (length (pre @ [0xFF])) = ((off, sz), length (pre @ [0xFF]) + 7)"
      by (rule read_copy_encoded [OF ok(1-3), of _ _ "concat (map enc_op ops)"]) (simp add: Copy)
    then have rc: "read_copy ?delta (unat (0xFF :: byte)) (length pre + 1) = ((off, sz), length (pre @ enc_op op))"
      using len by simp
    have bs: "js_slice base off (off + sz) = ?bs" "length ?bs = sz"
      using ok Copy by (simp_all add: js_slice_def)
    have "apply_delta_loop base ?delta tgt (length pre) outPos out =
        apply_delta_loop base ?delta tgt (length (pre @ enc_op op)) (outPos + sz)
          (set_at out outPos (js_slice base off (off + sz)))"
    proof (rule apply_delta_copy [OF _ _ _ rc])
      show "?delta ! length pre = 0xFF" by (simp add: Copy nth_append)
      show "outPos + sz \<le> tgt" using fit bs(2) by simp
    qed (use len ok in simp_all)
    then show ?thesis by (simp only: bs)
  next
    case (Insert bs)
    have len: "0 < length bs" "length bs < 128" using Cons.prems Insert by auto
    have enc: "enc_op op = of_nat (length bs) # bs" by (simp add: Insert)
    have next': "length (pre @ enc_op op) = length pre + 1 + length bs" by (simp add: enc)
    have "js_slice ?delta (length pre + 1) (length pre + 1 + length bs) = bs"
      using js_slice_append [of "pre @ [of_nat (length bs)]" "length pre + 1" bs "length pre + 1 + length bs"]
      by (simp add: enc)
    moreover have "apply_delta_loop base ?delta tgt (length pre) outPos out =
        apply_delta_loop base ?delta tgt (length pre + 1 + length bs) (outPos + length bs)
          (set_at out outPos (js_slice ?delta (length pre + 1) (length pre + 1 + length bs)))"
      by (rule apply_delta_insert) (use len fit in \<open>simp_all add: enc nth_append Insert\<close>)
    ultimately show ?thesis unfolding next' by (simp add: Insert)
  qed
  moreover have "\<exists>out'. apply_delta_loop base ((pre @ enc_op op) @ concat (map enc_op ops)) tgt
      (length (pre @ enc_op op)) (outPos + length ?bs) ?out =
      Inr (outPos + length ?bs + length (delta_result base ops), out') \<and> length out' = tgt \<and>
      take (outPos + length ?bs + length (delta_result base ops)) out' =
        take (outPos + length ?bs) ?out @ delta_result base ops"
    by (rule Cons.IH) (use Cons.prems fit out in simp_all)
  ultimately show ?case by (simp only: res out append_assoc list.map concat.simps length_append add.assoc)
qed

lemma applyDelta_encoded:
  assumes "list_all (op_valid base) ops" and "list_all op_fits ops"
  shows "applyDelta base (enc_delta base ops) = Inr (delta_result base ops)"
proof -
  let ?n = "length (delta_result base ops)"
  let ?s = "enc_size (length base)" and ?t = "enc_size ?n"
  let ?delta = "?s @ ?t @ concat (map enc_op ops)"
  have "readDeltaSize ?delta 0 = Inr (length base, length ?s)"
    using read_delta_size_encoded [of "[]" "length base" "?t @ concat (map enc_op ops)" 0 0]
    by (simp add: readDeltaSize_def)
  moreover have "readDeltaSize ?delta (length ?s) = Inr (?n, length (?s @ ?t))"
    using read_delta_size_encoded [of ?s ?n "concat (map enc_op ops)" 0 0] by (simp add: readDeltaSize_def)
  moreover obtain out where "apply_delta_loop base ((?s @ ?t) @ concat (map enc_op ops)) ?n (length (?s @ ?t)) 0
      (replicate ?n 0) = Inr (?n, out)" "length out = ?n" "take ?n out = delta_result base ops"
    using apply_delta_loop_encoded [OF assms, of "replicate ?n 0" ?n 0 "?s @ ?t"] by auto
  ultimately show ?thesis by (simp add: applyDelta_def enc_delta_def)
qed

section \<open>Properties\<close>



text \<open>Every list of valid instructions, written with its two size varints, is accepted and
  reconstructs exactly what the instructions say.\<close>

theorem applyDelta_roundtrip:
  assumes "list_all (op_valid base) ops" and "list_all op_fits ops"
  shows "applyDelta base (enc_delta base ops) = Inr (concat (map (op_bytes base) ops))"
  using applyDelta_encoded [OF assms] by (simp add: delta_result_def)

theorem applyDelta_roundtrip_witness:
  "applyDelta [1, 2, 3] (enc_delta [1, 2, 3] [Copy 1 2, Insert [9, 8], Copy 0 3]) = Inr [2, 3, 9, 8, 1, 2, 3]"
  using applyDelta_roundtrip [of "[1, 2, 3]" "[Copy 1 2, Insert [9, 8], Copy 0 3]"] by simp

end
