(* ===== verification/GitPack.thy ===== *)
theory GitPack
  imports GitDelta
begin

text \<open>
  The packfile writer (\<open>takos-git/local/core/pack.ts\<close>) and what the reader guarantees: every
  object it returns is one the pack stands for, whatever its deltas, and reading back a
  written pack gives the objects.

  The platform's \<open>CompressionStream\<close> is a parameter \<open>deflate\<close>; what is relied on is that
  its output is a zlib stream of its input.
\<close>

section \<open>What a pack entry stands for\<close>

inductive stands_for ::
  "(bytes \<Rightarrow> bytes) \<Rightarrow> (jsstring \<Rightarrow> bytes option res) option \<Rightarrow> pack_entry list \<Rightarrow> nat \<Rightarrow>
    jsstring \<Rightarrow> bytes \<Rightarrow> bool"
  for digest fetch entries where
  base: "i < length entries \<Longrightarrow> map_get BASE_TYPE_BY_NUMBER (pe_typeNum (entries ! i)) = Some t \<Longrightarrow>
    stands_for digest fetch entries i t (pe_payload (entries ! i))"
| ofs: "i < length entries \<Longrightarrow> pe_typeNum (entries ! i) = OBJ_OFS_DELTA \<Longrightarrow>
    j < length entries \<Longrightarrow> int (pe_start (entries ! j)) = pe_baseOffset (entries ! i) \<Longrightarrow>
    stands_for digest fetch entries j t b \<Longrightarrow> applyDelta b (pe_payload (entries ! i)) = Inr c \<Longrightarrow>
    stands_for digest fetch entries i t c"
| ref: "i < length entries \<Longrightarrow> map_get BASE_TYPE_BY_NUMBER (pe_typeNum (entries ! i)) = None \<Longrightarrow>
    pe_typeNum (entries ! i) \<noteq> OBJ_OFS_DELTA \<Longrightarrow>
    stands_for digest fetch entries j t b \<Longrightarrow> hashObject digest t b = pe_baseSha (entries ! i) \<Longrightarrow>
    applyDelta b (pe_payload (entries ! i)) = Inr c \<Longrightarrow>
    stands_for digest fetch entries i t c"
| ext: "i < length entries \<Longrightarrow> map_get BASE_TYPE_BY_NUMBER (pe_typeNum (entries ! i)) = None \<Longrightarrow>
    pe_typeNum (entries ! i) \<noteq> OBJ_OFS_DELTA \<Longrightarrow>
    fetch = Some f \<Longrightarrow> f (pe_baseSha (entries ! i)) = Inr (Some b) \<Longrightarrow> t \<in> set ALL_TYPES \<Longrightarrow>
    hashObject digest t b = pe_baseSha (entries ! i) \<Longrightarrow>
    applyDelta b (pe_payload (entries ! i)) = Inr c \<Longrightarrow>
    stands_for digest fetch entries i t c"

inductive_cases stands_for_cases: "stands_for digest fetch entries i t c"

lemma stands_for_base:
  "stands_for digest fetch entries i t c \<Longrightarrow> map_get BASE_TYPE_BY_NUMBER (pe_typeNum (entries ! i)) = Some t' \<Longrightarrow>
    t = t' \<and> c = pe_payload (entries ! i)"
  by (erule stands_for_cases) (auto simp: OBJ_OFS_DELTA_def BASE_TYPE_BY_NUMBER_def map_get_def)

lemma stands_for_index: "stands_for digest fetch entries i t c \<Longrightarrow> i < length entries"
  by (erule stands_for_cases)

section \<open>The invariant of the resolver\<close>

text \<open>An id is indexed at a base entry with that id, or at an entry resolved to an object with that id.\<close>

definition indexed :: "(bytes \<Rightarrow> bytes) \<Rightarrow> pack_entry list \<Rightarrow> resolver \<Rightarrow> jsstring \<Rightarrow> nat \<Rightarrow> bool" where
  "indexed digest entries st sha j \<longleftrightarrow>
     j < length entries \<and>
     (case map_get BASE_TYPE_BY_NUMBER (pe_typeNum (entries ! j)) of
        Some t \<Rightarrow> hashObject digest t (pe_payload (entries ! j)) = sha
      | None \<Rightarrow> \<exists>ob. rs_resolved st ! j = Some ob \<and> hashObject digest (ro_type ob) (ro_content ob) = sha)"

definition rs_inv ::
  "(bytes \<Rightarrow> bytes) \<Rightarrow> (jsstring \<Rightarrow> bytes option res) option \<Rightarrow> pack_entry list \<Rightarrow> resolver \<Rightarrow> bool" where
  "rs_inv digest fetch entries st \<longleftrightarrow>
     length (rs_resolved st) = length entries \<and> length (rs_resolving st) = length entries \<and>
     (\<forall>i < length entries. \<forall>ob. rs_resolved st ! i = Some ob \<longrightarrow>
       stands_for digest fetch entries i (ro_type ob) (ro_content ob)) \<and>
     (\<forall>sha j. map_get (rs_shaToIndex st) sha = Some j \<longrightarrow> indexed digest entries st sha j) \<and>
     (\<forall>sha ob. map_get (rs_external st) sha = Some ob \<longrightarrow>
       ro_type ob \<in> set ALL_TYPES \<and> hashObject digest (ro_type ob) (ro_content ob) = sha \<and>
       (\<exists>f. fetch = Some f \<and> f sha = Inr (Some (ro_content ob))))"

text \<open>
  What a call of \<open>resolveEntry\<close> leaves alone: the guards, and the results of the entries
  that are resolved or being resolved.
\<close>

definition rs_keeps :: "resolver \<Rightarrow> resolver \<Rightarrow> bool" where
  "rs_keeps st st' \<longleftrightarrow>
     rs_resolving st' = rs_resolving st \<and>
     (\<forall>j < length (rs_resolved st).
       rs_resolving st ! j \<or> rs_resolved st ! j \<noteq> None \<longrightarrow> rs_resolved st' ! j = rs_resolved st ! j)"

definition offsets_ok :: "pack_entry list \<Rightarrow> (nat, nat) js_map \<Rightarrow> bool" where
  "offsets_ok entries byOffset \<longleftrightarrow>
     (\<forall>off j. map_get byOffset off = Some j \<longrightarrow> j < length entries \<and> pe_start (entries ! j) = off) \<and>
     (\<forall>e \<in> set entries. pe_typeNum e = OBJ_OFS_DELTA \<longrightarrow> 0 \<le> pe_baseOffset e)"

lemma typeOfExternalBase_ok:
  "typeOfExternalBase digest content sha = Inr t \<Longrightarrow> t \<in> set ALL_TYPES \<and> hashObject digest t content = sha"
  by (auto simp: typeOfExternalBase_def find_Some_iff split: option.splits)

lemma indexed_external [simp]:
  "indexed digest entries (st\<lparr>rs_external := m\<rparr>) = indexed digest entries st"
  "indexed digest entries (st\<lparr>rs_resolving := g\<rparr>) = indexed digest entries st"
  unfolding fun_eq_iff by (auto simp: indexed_def split: option.splits)

lemma rs_inv_external:
  "rs_inv digest fetch entries st \<Longrightarrow> ro_type ob \<in> set ALL_TYPES \<Longrightarrow>
    hashObject digest (ro_type ob) (ro_content ob) = sha \<Longrightarrow>
    fetch = Some f \<Longrightarrow> f sha = Inr (Some (ro_content ob)) \<Longrightarrow>
    rs_inv digest fetch entries (st\<lparr>rs_external := map_set sha ob (rs_external st)\<rparr>)"
  by (simp add: rs_inv_def)

lemma resolveExternal_ok:
  assumes "resolveExternal digest fetch sha st = Inr (ob, st')" and "rs_inv digest fetch entries st"
  shows "rs_inv digest fetch entries st' \<and> rs_keeps st st' \<and> rs_resolved st' = rs_resolved st \<and>
    ro_type ob \<in> set ALL_TYPES \<and>
    hashObject digest (ro_type ob) (ro_content ob) = sha \<and>
    (\<exists>f. fetch = Some f \<and> f sha = Inr (Some (ro_content ob)))"
proof (cases "map_get (rs_external st) sha")
  case (Some cached)
  then show ?thesis using assms by (auto simp: resolveExternal_def rs_inv_def rs_keeps_def)
next
  case None
  then obtain f content t where f: "fetch = Some f" "f sha = Inr (Some content)"
    "typeOfExternalBase digest content sha = Inr t" "ob = \<lparr>ro_type = t, ro_content = content\<rparr>"
    "st' = st\<lparr>rs_external := map_set sha ob (rs_external st)\<rparr>"
    using assms(1) by (auto simp: resolveExternal_def res_elims Let_def split: option.splits)
  then show ?thesis
    using typeOfExternalBase_ok [OF f(3)] rs_inv_external [OF assms(2), of ob sha f]
    by (simp add: rs_keeps_def)
qed

lemma finish_entry_ok:
  assumes inv: "rs_inv digest fetch entries st2" and i: "i < length entries" "rs_resolved st2 ! i = None"
    and sf: "stands_for digest fetch entries i (ro_type ob) (ro_content ob)"
  shows "rs_inv digest fetch entries (finish_entry digest i ob st2)"
proof -
  let ?st = "finish_entry digest i ob st2"
  have idx: "indexed digest entries ?st sha j" if "map_get (rs_shaToIndex ?st) sha = Some j" for sha j
  proof (cases "map_get (rs_shaToIndex st2) sha = Some j")
    case True
    then have "indexed digest entries st2 sha j" using inv by (auto simp: rs_inv_def)
    then show ?thesis using i inv
      by (auto simp: indexed_def finish_entry_def rs_inv_def nth_list_update split: option.splits)
  next
    case False
    with that have "j = i" "hashObject digest (ro_type ob) (ro_content ob) = sha"
      by (auto simp: finish_entry_def index_sha_def split: if_splits)
    then show ?thesis using i inv stands_for_base [OF sf]
      by (auto simp: indexed_def finish_entry_def rs_inv_def split: option.splits)
  qed
  show ?thesis
    unfolding rs_inv_def using inv idx sf i
    by (auto simp: rs_inv_def finish_entry_def nth_list_update split: if_splits)
qed

lemma apply_to_base_ok:
  assumes "apply_to_base digest i (entries ! i) b st2 = Inr (ob, st')"
    and "rs_inv digest fetch entries st2" and "i < length entries" and "rs_resolved st2 ! i = None"
    and "\<And>c. applyDelta (ro_content b) (pe_payload (entries ! i)) = Inr c \<Longrightarrow>
      stands_for digest fetch entries i (ro_type b) c"
  shows "rs_inv digest fetch entries st' \<and> stands_for digest fetch entries i (ro_type ob) (ro_content ob) \<and>
    rs_resolving st' = (rs_resolving st2)[i := False] \<and> rs_resolved st' = (rs_resolved st2)[i := Some ob]"
proof -
  obtain c where c: "applyDelta (ro_content b) (pe_payload (entries ! i)) = Inr c"
    "ob = \<lparr>ro_type = ro_type b, ro_content = c\<rparr>" "st' = finish_entry digest i ob st2"
    using assms(1) by (auto simp: apply_to_base_def res_elims Let_def)
  then have "stands_for digest fetch entries i (ro_type ob) (ro_content ob)" using assms(5) by simp
  then show ?thesis using finish_entry_ok [OF assms(2,3,4)] c(3) by (simp add: finish_entry_def)
qed

lemma rs_inv_guard:
  "rs_inv digest fetch entries st \<Longrightarrow>
    rs_inv digest fetch entries (st\<lparr>rs_resolving := (rs_resolving st)[i := True]\<rparr>)"
  by (simp add: rs_inv_def)

lemma keeps_after_base:
  assumes "rs_keeps (st\<lparr>rs_resolving := (rs_resolving st)[i := True]\<rparr>) st2"
    and "i < length (rs_resolved st)" and "i < length (rs_resolving st)"
    and "rs_resolved st ! i = None" and "\<not> rs_resolving st ! i"
    and "rs_resolving st' = (rs_resolving st2)[i := False]" and "rs_resolved st' = (rs_resolved st2)[i := Some ob]"
  shows "rs_keeps st st' \<and> rs_resolved st2 ! i = None"
proof -
  have g: "rs_resolving st2 = (rs_resolving st)[i := True]"
    and k: "\<And>j. j < length (rs_resolved st) \<Longrightarrow> (rs_resolving st)[i := True] ! j \<or> rs_resolved st ! j \<noteq> None \<Longrightarrow>
      rs_resolved st2 ! j = rs_resolved st ! j"
    using assms(1) by (auto simp: rs_keeps_def)
  have "rs_resolving st' = rs_resolving st"
    using assms(5,6) g assms(3) by (simp add: list_update_same_conv)
  moreover have "rs_resolved st' ! j = rs_resolved st ! j"
    if "j < length (rs_resolved st)" "rs_resolving st ! j \<or> rs_resolved st ! j \<noteq> None" for j
  proof -
    have "j \<noteq> i" using that assms(4,5) by auto
    then show ?thesis using that k [of j] assms(3,7) by (simp add: nth_list_update)
  qed
  moreover have "rs_resolved st2 ! i = None" using k [OF assms(2)] assms(3,4) by simp
  ultimately show ?thesis by (simp add: rs_keeps_def)
qed

text \<open>
  The resolver is sound: what it returns for an entry is what the entry stands for, and it
  leaves the invariant and everything another call relies on.
\<close>

lemma resolveEntry_ok:
  assumes "resolveEntry digest fetch entries byOffset i st = Inr (ob, st')"
    and "rs_inv digest fetch entries st" and "offsets_ok entries byOffset"
  shows "rs_inv digest fetch entries st' \<and> rs_keeps st st' \<and> rs_resolved st' ! i = Some ob \<and>
    stands_for digest fetch entries i (ro_type ob) (ro_content ob)"
  using assms
proof (induction digest fetch entries byOffset i st arbitrary: ob st' rule: resolveEntry.induct)
  case (1 digest fetch entries byOffset i st)
  note prems = 1(3-5)
  have i: "\<not> (length entries \<le> i \<or> length (rs_resolving st) \<le> i)"
    using prems(1) by (subst (asm) resolveEntry.simps) (auto split: if_splits)
  then have len: "i < length entries" "i < length (rs_resolving st)" "i < length (rs_resolved st)"
    using prems(2) by (auto simp: rs_inv_def)
  show ?case
  proof (cases "rs_resolved st ! i")
    case (Some existing)
    then show ?thesis using prems i len
      by (subst (asm) resolveEntry.simps) (auto simp: rs_keeps_def rs_inv_def)
  next
    case None
    let ?st1 = "st\<lparr>rs_resolving := (rs_resolving st)[i := True]\<rparr>"
    let ?e = "entries ! i"
    have free: "\<not> rs_resolving st ! i"
      using prems(1) i None by (subst (asm) resolveEntry.simps) (auto split: if_splits)
    have inv1: "rs_inv digest fetch entries ?st1" by (rule rs_inv_guard [OF prems(2)])
    note step = prems(1) [unfolded resolveEntry.simps [of digest fetch entries byOffset i st] Let_def]
    have finish: ?thesis
      if "rs_inv digest fetch entries st2" "rs_keeps ?st1 st2"
        "apply_to_base digest i ?e b st2 = Inr (ob, st')"
        "\<And>c. applyDelta (ro_content b) (pe_payload ?e) = Inr c \<Longrightarrow>
          stands_for digest fetch entries i (ro_type b) c" for st2 b
    proof -
      have n2: "rs_resolved st2 ! i = None"
        using that(2) len None by (auto simp: rs_keeps_def)
      note a = apply_to_base_ok [OF that(3,1) len(1) n2 that(4)]
      have "length (rs_resolved st2) = length entries" using that(1) by (simp add: rs_inv_def)
      then show ?thesis
        using a keeps_after_base [OF that(2) len(3,2) None free, of st' ob] len(1) by simp
    qed
    show ?thesis
    proof (cases "map_get BASE_TYPE_BY_NUMBER (pe_typeNum ?e)")
      case (Some t)
      let ?ob = "\<lparr>ro_type = t, ro_content = pe_payload ?e\<rparr>"
      have ob: "ob = ?ob" "st' = finish_entry digest i ?ob ?st1"
        using step i None free Some by auto
      have sf: "stands_for digest fetch entries i (ro_type ?ob) (ro_content ?ob)"
        using stands_for.base [OF len(1) Some] by simp
      have "rs_inv digest fetch entries st'"
        unfolding ob(2) using finish_entry_ok [OF inv1 len(1) _ sf] None by simp
      moreover have "rs_keeps st st'"
        using keeps_after_base [of st i ?st1 st' ?ob] len None free
        by (simp add: ob(2) finish_entry_def rs_keeps_def)
      ultimately show ?thesis using sf ob len(3) by (simp add: finish_entry_def)
    next
      case nobase: None
      show ?thesis
      proof (cases "pe_typeNum ?e = OBJ_OFS_DELTA")
        case True
        then obtain j where j: "map_get byOffset (nat (pe_baseOffset ?e)) = Some j"
          using step i None free nobase by (auto split: option.splits)
        then obtain b st2 where b: "resolveEntry digest fetch entries byOffset j ?st1 = Inr (b, st2)"
          "apply_to_base digest i ?e b st2 = Inr (ob, st')"
          using step i None free nobase True by (auto simp: res_elims)
        note IH = 1(1) [OF i None free refl refl nobase True j b(1) inv1 prems(3)]
        have "j < length entries" "int (pe_start (entries ! j)) = pe_baseOffset ?e"
          using prems(3) j True len(1) by (auto simp: offsets_ok_def)
        then show ?thesis using finish [of st2 b] IH b(2) stands_for.ofs [OF len(1) True] by blast
      next
        case ref: False
        have refI: "stands_for digest fetch entries i (ro_type b) c"
          if "stands_for digest fetch entries j (ro_type b) (ro_content b)"
            "hashObject digest (ro_type b) (ro_content b) = pe_baseSha ?e"
            "applyDelta (ro_content b) (pe_payload ?e) = Inr c" for j b c
          using stands_for.ref [OF len(1) nobase ref that] .
        show ?thesis
        proof (cases "\<exists>j. map_get (rs_shaToIndex st) (pe_baseSha ?e) = Some j \<and> j \<noteq> i")
          case True
          then obtain j where j: "map_get (rs_shaToIndex st) (pe_baseSha ?e) = Some j" "j \<noteq> i" by blast
          then obtain b st2 where b: "resolveEntry digest fetch entries byOffset j ?st1 = Inr (b, st2)"
            "apply_to_base digest i ?e b st2 = Inr (ob, st')"
            using step i None free nobase ref by (auto simp: res_elims)
          have j1: "map_get (rs_shaToIndex ?st1) (pe_baseSha ?e) = Some j" using j by simp
          note IH = 1(2) [OF i None free refl refl nobase ref j1 j(2) b(1) inv1 prems(3)]
          have "indexed digest entries st (pe_baseSha ?e) j" using prems(2) j by (auto simp: rs_inv_def)
          then have "hashObject digest (ro_type b) (ro_content b) = pe_baseSha ?e"
            using IH stands_for_base [of digest fetch entries j "ro_type b" "ro_content b"] prems(2)
            by (fastforce simp: indexed_def rs_keeps_def rs_inv_def split: option.splits)
          then show ?thesis using finish [of st2 b] IH b(2) refI by blast
        next
          case False
          then obtain b st2 where b: "resolveExternal digest fetch (pe_baseSha ?e) ?st1 = Inr (b, st2)"
            "apply_to_base digest i ?e b st2 = Inr (ob, st')"
            using step i None free nobase ref by (auto simp: res_elims split: option.splits if_splits)
          note ext = resolveExternal_ok [OF b(1) inv1]
          then obtain f where "fetch = Some f" "f (pe_baseSha ?e) = Inr (Some (ro_content b))" by blast
          then show ?thesis using finish [of st2 b] ext b(2) stands_for.ext [OF len(1) nobase ref] by blast
        qed
      qed
    qed
  qed
qed

section \<open>Reading a pack\<close>

lemma parse_entry_fields:
  "parse_entry pack start = Inr (e, nxt) \<Longrightarrow>
    pe_start e = start \<and> (pe_typeNum e = OBJ_OFS_DELTA \<longrightarrow> 0 \<le> pe_baseOffset e)"
  by (auto simp: parse_entry_def read_base_ref_def Let_def res_elims split: if_splits)

lemma parse_entries_ok:
  "parse_entries n pack cursor entries byOffset = Inr (entries', byOffset', cursor') \<Longrightarrow>
    offsets_ok entries byOffset \<Longrightarrow> offsets_ok entries' byOffset' \<and> length entries' = length entries + n"
proof (induction n arbitrary: cursor entries byOffset)
  case (Suc n)
  then obtain e nxt where e: "parse_entry pack cursor = Inr (e, nxt)"
    "parse_entries n pack nxt (entries @ [e]) (map_set cursor (length entries) byOffset) =
      Inr (entries', byOffset', cursor')"
    by (auto simp: res_elims)
  have "offsets_ok (entries @ [e]) (map_set cursor (length entries) byOffset)"
    using Suc.prems(2) parse_entry_fields [OF e(1)]
    by (auto simp: offsets_ok_def nth_append less_SucI split: if_splits)
  with Suc.IH [OF e(2)] show ?case by simp
qed simp

lemma preindex_indexed:
  "map_get (preindex digest entries) sha = Some j \<Longrightarrow>
    j < length entries \<and>
    (\<exists>t. map_get BASE_TYPE_BY_NUMBER (pe_typeNum (entries ! j)) = Some t \<and>
      hashObject digest t (pe_payload (entries ! j)) = sha)"
proof -
  let ?f = "\<lambda>i m. case map_get BASE_TYPE_BY_NUMBER (pe_typeNum (entries ! i)) of
      None \<Rightarrow> m
    | Some baseType \<Rightarrow> index_sha (hashObject digest baseType (pe_payload (entries ! i))) i m"
  have "map_get (fold ?f is m) sha = Some j \<Longrightarrow> map_get m sha = Some j \<or>
      j \<in> set is \<and> (\<exists>t. map_get BASE_TYPE_BY_NUMBER (pe_typeNum (entries ! j)) = Some t \<and>
        hashObject digest t (pe_payload (entries ! j)) = sha)" for "is" m
  proof (induction "is" arbitrary: m)
    case (Cons i "is")
    show ?case
      using Cons.IH [of "?f i m"] Cons.prems
      by (auto simp: index_sha_def split: option.splits if_splits)
  qed simp
  then show "map_get (preindex digest entries) sha = Some j \<Longrightarrow> ?thesis"
    unfolding preindex_def by fastforce
qed

lemma new_resolver_inv: "rs_inv digest fetch entries (new_resolver digest entries)"
  using preindex_indexed by (fastforce simp: rs_inv_def new_resolver_def indexed_def)

lemma resolve_all_ok:
  "resolve_all digest fetch entries byOffset ks st = Inr objs \<Longrightarrow> rs_inv digest fetch entries st \<Longrightarrow>
    offsets_ok entries byOffset \<Longrightarrow>
    length objs = length ks \<and>
    (\<forall>k < length ks. stands_for digest fetch entries (ks ! k) (ro_type (objs ! k)) (ro_content (objs ! k)) \<and>
      uo_sha (objs ! k) = hashObject digest (ro_type (objs ! k)) (ro_content (objs ! k)))"
proof (induction ks arbitrary: st objs)
  case (Cons i ks)
  then obtain ob st' objs' where r: "resolveEntry digest fetch entries byOffset i st = Inr (ob, st')"
    "resolve_all digest fetch entries byOffset ks st' = Inr objs'"
    "objs = \<lparr>ro_type = ro_type ob, ro_content = ro_content ob,
      uo_sha = hashObject digest (ro_type ob) (ro_content ob)\<rparr> # objs'"
    by (auto simp: res_elims Let_def)
  note ok = resolveEntry_ok [OF r(1) Cons.prems(2,3)]
  show ?case
    using Cons.IH [OF r(2) _ Cons.prems(3)] ok r(3) by (auto simp: nth_Cons split: nat.split)
qed simp

lemma readPack_ok:
  assumes "readPack digest fetch pack = Inr objs"
  shows "\<exists>entries byOffset cursor.
    parse_entries (be32 pack 8) pack 12 [] [] = Inr (entries, byOffset, cursor) \<and>
    length entries = be32 pack 8 \<and> length objs = be32 pack 8 \<and>
    (\<forall>i < length objs. stands_for digest fetch entries i (ro_type (objs ! i)) (ro_content (objs ! i)) \<and>
      uo_sha (objs ! i) = hashObject digest (ro_type (objs ! i)) (ro_content (objs ! i)))"
proof -
  obtain entries byOffset cursor where p: "parse_entries (be32 pack 8) pack 12 [] [] = Inr (entries, byOffset, cursor)"
    "resolve_all digest fetch entries byOffset [0..<length entries] (new_resolver digest entries) = Inr objs"
    using assms by (auto simp: readPack_def validateHeader_def res_elims split: if_splits)
  have o: "offsets_ok entries byOffset" "length entries = be32 pack 8"
    using parse_entries_ok [OF p(1)] by (auto simp: offsets_ok_def)
  show ?thesis using resolve_all_ok [OF p(2) new_resolver_inv o(1)] p(1) o(2) by auto
qed

section \<open>Writing a pack\<close>

definition be32_bytes :: "nat \<Rightarrow> bytes" where
  "be32_bytes n = [of_nat (n div 2 ^ 24), of_nat (n div 2 ^ 16), of_nat (n div 2 ^ 8), of_nat n]"

definition packHeader :: "nat \<Rightarrow> bytes" where
  "packHeader objectCount =
     set_at (set_at (set_at (replicate 12 0) 0 (utf8_encode (js ''PACK''))) 4 (be32_bytes 2)) 8
       (be32_bytes objectCount)"

definition pack_chunk :: "(bytes \<Rightarrow> bytes) \<Rightarrow> resolved_object \<Rightarrow> bytes list res" where
  "pack_chunk deflate ob =
     bind_res (gitTypeToNumber (ro_type ob)) (\<lambda>n.
       Inr [encodePackObjectHeader n (length (ro_content ob)), deflate (ro_content ob)])"

definition writePack :: "(bytes \<Rightarrow> bytes) \<Rightarrow> (bytes \<Rightarrow> bytes) \<Rightarrow> resolved_object list \<Rightarrow> bytes res" where
  "writePack digest deflate objects =
     bind_res (map_res (pack_chunk deflate) objects) (\<lambda>chunks.
       let body = concatBytes (packHeader (length objects) # concat chunks);
           trailer = hexToBytes (sha1 digest body) in
       Inr (concatBytes [body, trailer]))"

text \<open>What is relied on of the platform's compressor, and of its digest.\<close>

definition deflates :: "(bytes \<Rightarrow> bytes) \<Rightarrow> bytes \<Rightarrow> bool" where
  "deflates deflate c \<longleftrightarrow> (\<exists>z. zlib_ok z \<and> deflate c = zlib_bytes z \<and> stream_out (zs_blocks z) = c)"

definition sha1_digest :: "(bytes \<Rightarrow> bytes) \<Rightarrow> bool" where
  "sha1_digest digest \<longleftrightarrow> (\<forall>x. length (digest x) = 20)"

section \<open>Reading back what was written\<close>

lemma packHeader_bytes: "packHeader n = [0x50, 0x41, 0x43, 0x4b] @ be32_bytes 2 @ be32_bytes n"
proof -
  have "replicate 12 (0 :: byte) = [0,0,0,0,0,0,0,0,0,0,0,0]" by (simp add: numeral_eq_Suc)
  moreover have "utf8_encode (js ''PACK'') = [0x50, 0x41, 0x43, 0x4b]"
    by (simp add: utf8_encode_ascii js_simps)
  ultimately show ?thesis by (simp add: packHeader_def set_at_def be32_bytes_def)
qed

lemma be32_bytes_val:
  assumes "n < 2 ^ 32" and "pack = pre @ be32_bytes n @ post" and "i = length pre"
  shows "be32 pack i = n"
proof -
  define a b c where "a = n div 256" and "b = a div 256" and "c = b div 256"
  have eqs: "n = n mod 256 + 256 * a" "a = a mod 256 + 256 * b" "b = b mod 256 + 256 * c"
    by (simp_all add: a_def b_def c_def)
  have u: "unat (of_nat m :: byte) = m mod 256" for m
    by (simp add: unat_of_nat take_bit_eq_mod)
  have d: "n div 2 ^ 24 = c" "n div 2 ^ 16 = b" "n div 2 ^ 8 = a" "c mod 256 = c"
    using assms(1) by (simp_all add: a_def b_def c_def div_mult2_eq [symmetric] less_mult_imp_div_less)
  have "be32 pack i = unat (of_nat c :: byte) * 2 ^ 24 + unat (of_nat b :: byte) * 2 ^ 16
      + unat (of_nat a :: byte) * 2 ^ 8 + unat (of_nat n :: byte)"
    unfolding assms(2,3) be32_def be32_bytes_def d by (simp add: nth_append)
  then show ?thesis unfolding u d(4) using eqs by simp
qed

definition base_entry :: "nat \<Rightarrow> nat \<Rightarrow> bytes \<Rightarrow> pack_entry" where
  "base_entry start n c =
     \<lparr>pe_start = start, pe_typeNum = n, pe_payload = c, pe_baseOffset = -1, pe_baseSha = []\<rparr>"

lemma gitType_base: "gitTypeToNumber t = Inr n \<Longrightarrow> map_get BASE_TYPE_BY_NUMBER n = Some t"
  by (auto simp: gitTypeToNumber_def TYPE_TO_NUMBER_def BASE_TYPE_BY_NUMBER_def map_get_def
      pack_obj_defs split: if_splits)

lemma parse_entry_written:
  assumes "gitTypeToNumber t = Inr n" and "deflates deflate c"
  shows "parse_entry (pre @ encodePackObjectHeader n (length c) @ deflate c @ post) (length pre) =
    Inr (base_entry (length pre) n c,
      length pre + length (encodePackObjectHeader n (length c)) + length (deflate c))"
proof -
  let ?h = "encodePackObjectHeader n (length c)"
  let ?pack = "pre @ ?h @ deflate c @ post"
  have n: "n \<in> {1, 2, 3, 4}" using gitTypeToNumber_range [OF assms(1)] .
  then have n8: "n < 8" by auto
  obtain z where z: "zlib_ok z" "deflate c = zlib_bytes z" "stream_out (zs_blocks z) = c"
    using assms(2) by (auto simp: deflates_def)
  have hd: "readObjectHeader ?pack (length pre) = Inr ((n, length c), length pre + length ?h)"
    by (rule readObjectHeader_encoded [OF n8])
  have "inflateZlibAt ((pre @ ?h) @ zlib_bytes z @ post) (length (pre @ ?h)) = Inr (c, length (zlib_bytes z))"
    using inflateZlibAt_ok [OF z(1)] z(3) by metis
  then have inf: "inflateZlibAt ?pack (length pre + length ?h) = Inr (c, length (deflate c))"
    using z(2) by simp
  have "read_base_ref ?pack (length pre) n (length pre + length ?h) = Inr (-1, [], length pre + length ?h)"
    using n gitType_base [OF assms(1)] by (auto simp: read_base_ref_def OBJ_OFS_DELTA_def OBJ_REF_DELTA_def)
  with hd inf show ?thesis by (simp add: parse_entry_def base_entry_def)
qed

text \<open>The entries of a written pack, from the position of the first one.\<close>

fun written_entries :: "(bytes \<Rightarrow> bytes) \<Rightarrow> nat \<Rightarrow> resolved_object list \<Rightarrow> pack_entry list" where
  "written_entries deflate start [] = []"
| "written_entries deflate start (ob # obs) =
     (let n = the (map_get TYPE_TO_NUMBER (ro_type ob)) in
      base_entry start n (ro_content ob) #
        written_entries deflate
          (start + length (encodePackObjectHeader n (length (ro_content ob))) + length (deflate (ro_content ob)))
          obs)"

lemma gitTypeToNumber_the: "gitTypeToNumber t = Inr n \<Longrightarrow> the (map_get TYPE_TO_NUMBER t) = n"
  by (auto simp: gitTypeToNumber_def split: option.splits)

lemma pack_chunk_Inr:
  "pack_chunk deflate ob = Inr ch \<longleftrightarrow> (\<exists>n. gitTypeToNumber (ro_type ob) = Inr n \<and>
    ch = [encodePackObjectHeader n (length (ro_content ob)), deflate (ro_content ob)])"
  by (auto simp: pack_chunk_def res_elims)

lemma parse_entries_written:
  "map_res (pack_chunk deflate) obs = Inr chunks \<Longrightarrow> (\<And>ob. ob \<in> set obs \<Longrightarrow> deflates deflate (ro_content ob)) \<Longrightarrow>
    \<exists>byOffset'. parse_entries (length obs) (pre @ concat (concat chunks) @ post) (length pre) entries byOffset =
      Inr (entries @ written_entries deflate (length pre) obs, byOffset',
        length pre + length (concat (concat chunks)))"
proof (induction obs arbitrary: chunks pre entries byOffset)
  case (Cons ob obs)
  then obtain n chunks' where n: "gitTypeToNumber (ro_type ob) = Inr n"
    "map_res (pack_chunk deflate) obs = Inr chunks'"
    "chunks = [encodePackObjectHeader n (length (ro_content ob)), deflate (ro_content ob)] # chunks'"
    by (auto simp: res_elims pack_chunk_Inr)
  let ?h = "encodePackObjectHeader n (length (ro_content ob))" and ?d = "deflate (ro_content ob)"
  let ?pre = "pre @ ?h @ ?d"
  have d: "deflates deflate (ro_content ob)" using Cons.prems(2) by simp
  have "parse_entry (pre @ ?h @ ?d @ (concat (concat chunks') @ post)) (length pre) =
      Inr (base_entry (length pre) n (ro_content ob), length pre + length ?h + length ?d)"
    by (rule parse_entry_written [OF n(1) d])
  moreover obtain bo where
    "parse_entries (length obs) (?pre @ concat (concat chunks') @ post) (length ?pre)
       (entries @ [base_entry (length pre) n (ro_content ob)]) (map_set (length pre) (length entries) byOffset) =
      Inr ((entries @ [base_entry (length pre) n (ro_content ob)]) @ written_entries deflate (length ?pre) obs, bo,
        length ?pre + length (concat (concat chunks')))"
    using Cons.IH [OF n(2), of ?pre] Cons.prems(2) by (metis list.set_intros(2))
  ultimately show ?case
    by (simp add: n(3) gitTypeToNumber_the [OF n(1)] Let_def add.assoc)
qed simp

lemma resolve_all_bases:
  assumes base: "\<And>j. j < length entries \<Longrightarrow> map_get BASE_TYPE_BY_NUMBER (pe_typeNum (entries ! j)) = Some (t j)"
    and fresh: "length (rs_resolved st) = length entries" "length (rs_resolving st) = length entries"
      "\<And>j. i \<le> j \<Longrightarrow> j < length entries \<Longrightarrow> rs_resolved st ! j = None \<and> \<not> rs_resolving st ! j"
    and "i \<le> length entries"
  shows "resolve_all digest fetch entries byOffset [i..<length entries] st =
    Inr (map (\<lambda>j. \<lparr>ro_type = t j, ro_content = pe_payload (entries ! j),
      uo_sha = hashObject digest (t j) (pe_payload (entries ! j))\<rparr>) [i..<length entries])"
  using fresh \<open>i \<le> length entries\<close>
proof (induction "length entries - i" arbitrary: i st)
  case (Suc d)
  then have i: "i < length entries" by simp
  let ?ob = "\<lparr>ro_type = t i, ro_content = pe_payload (entries ! i)\<rparr>"
  let ?st = "finish_entry digest i ?ob (st\<lparr>rs_resolving := (rs_resolving st)[i := True]\<rparr>)"
  have "resolveEntry digest fetch entries byOffset i st = Inr (?ob, ?st)"
    using i Suc.prems base [OF i] by (subst resolveEntry.simps) (simp add: Let_def)
  moreover have "resolve_all digest fetch entries byOffset [Suc i..<length entries] ?st =
      Inr (map (\<lambda>j. \<lparr>ro_type = t j, ro_content = pe_payload (entries ! j),
        uo_sha = hashObject digest (t j) (pe_payload (entries ! j))\<rparr>) [Suc i..<length entries])"
    using Suc i by (intro Suc.hyps(1)) (auto simp: finish_entry_def)
  ultimately show ?case using i by (simp add: upt_conv_Cons Let_def)
qed simp

lemma written_entries_nth:
  "map_res (pack_chunk deflate) obs = Inr chunks \<Longrightarrow> i < length obs \<Longrightarrow>
    map_get BASE_TYPE_BY_NUMBER (pe_typeNum (written_entries deflate start obs ! i)) = Some (ro_type (obs ! i)) \<and>
    pe_payload (written_entries deflate start obs ! i) = ro_content (obs ! i)"
proof (induction obs arbitrary: chunks start i)
  case (Cons ob obs)
  then show ?case
    by (cases i) (auto simp: res_elims pack_chunk_Inr Let_def base_entry_def gitTypeToNumber_the gitType_base)
qed simp

lemma length_written_entries [simp]: "length (written_entries deflate start obs) = length obs"
  by (induction obs arbitrary: start) (auto simp: Let_def)

lemma readPack_written:
  assumes w: "writePack digest deflate objects = Inr pack"
    and d: "\<And>ob. ob \<in> set objects \<Longrightarrow> deflates deflate (ro_content ob)"
    and "sha1_digest digest" and "length objects < 2 ^ 32"
  shows "readPack digest fetch pack =
    Inr (map (\<lambda>ob. \<lparr>ro_type = ro_type ob, ro_content = ro_content ob,
      uo_sha = hashObject digest (ro_type ob) (ro_content ob)\<rparr>) objects)"
proof -
  obtain chunks where chunks: "map_res (pack_chunk deflate) objects = Inr chunks"
    using w by (auto simp: writePack_def res_elims)
  let ?data = "concat (concat chunks)" and ?h = "packHeader (length objects)"
  let ?trailer = "digest (?h @ ?data)"
  have pack: "pack = ?h @ ?data @ ?trailer"
    using w chunks by (simp add: writePack_def Let_def sha1_def)
  have trailer: "length ?trailer = 20" using assms(3) by (simp add: sha1_digest_def)
  have h: "?h = [0x50, 0x41, 0x43, 0x4b] @ be32_bytes 2 @ be32_bytes (length objects)" "length ?h = 12"
    by (simp_all add: packHeader_bytes be32_bytes_def)
  have "be32 pack 4 = 2"
    by (rule be32_bytes_val [of _ _ "[0x50, 0x41, 0x43, 0x4b]"]) (auto simp: pack h(1))
  moreover have count: "be32 pack 8 = length objects"
    by (rule be32_bytes_val [of _ _ "[0x50, 0x41, 0x43, 0x4b] @ be32_bytes 2"])
      (use assms(4) in \<open>auto simp: pack h(1) be32_bytes_def\<close>)
  ultimately have valid: "validateHeader pack = Inr (length objects)"
    using h trailer by (simp add: validateHeader_def pack nth_append)
  let ?es = "written_entries deflate 12 objects"
  obtain bo where parse: "parse_entries (length objects) pack 12 [] [] = Inr (?es, bo, 12 + length ?data)"
    using parse_entries_written [OF chunks d, of ?h ?trailer "[]" "[]"] h(2) pack by auto
  have "resolve_all digest fetch ?es bo [0..<length ?es] (new_resolver digest ?es) =
      Inr (map (\<lambda>j. \<lparr>ro_type = ro_type (objects ! j), ro_content = pe_payload (?es ! j),
        uo_sha = hashObject digest (ro_type (objects ! j)) (pe_payload (?es ! j))\<rparr>) [0..<length ?es])"
    using written_entries_nth [OF chunks] by (intro resolve_all_bases) (auto simp: new_resolver_def)
  also have "\<dots> = Inr (map (\<lambda>ob. \<lparr>ro_type = ro_type ob, ro_content = ro_content ob,
      uo_sha = hashObject digest (ro_type ob) (ro_content ob)\<rparr>) objects)"
    using written_entries_nth [OF chunks] by (auto intro!: nth_equalityI)
  finally show ?thesis
    using valid parse pack h(2) trailer by (simp add: readPack_def)
qed

section \<open>Properties\<close>

text \<open>A compressor and a digest with the properties relied on.\<close>

definition store_deflate :: "bytes \<Rightarrow> bytes" where
  "store_deflate c = zlib_bytes (zlib_store c)"

definition len_digest :: "bytes \<Rightarrow> bytes" where
  "len_digest x = take 20 (x @ replicate 20 0)"

lemma store_deflate_ok: "length c < 65536 \<Longrightarrow> deflates store_deflate c"
  using zlib_store_ok zlib_store_out by (auto simp: deflates_def store_deflate_def)

lemma len_digest_ok: "sha1_digest len_digest"
  by (auto simp: sha1_digest_def len_digest_def min_def)

definition two_objects :: "resolved_object list" where
  "two_objects =
     [\<lparr>ro_type = js ''blob'', ro_content = [104, 105]\<rparr>, \<lparr>ro_type = js ''tree'', ro_content = []\<rparr>]"

lemma two_objects_written: "\<exists>pack. writePack len_digest store_deflate two_objects = Inr pack"
  by (simp add: writePack_def two_objects_def pack_chunk_def gitTypeToNumber_def TYPE_TO_NUMBER_def
      map_get_def js_simps Let_def)

text \<open>C7: A written pack reads back as its objects, in order, each with its type, its content and
  its id, whatever the compressor makes of the contents as long as it is zlib.\<close>

theorem pack_roundtrip:
  assumes "writePack digest deflate objects = Inr pack"
    and "\<And>ob. ob \<in> set objects \<Longrightarrow> deflates deflate (ro_content ob)"
    and "sha1_digest digest" and "length objects < 2 ^ 32"
  shows "readPack digest fetch pack =
    Inr (map (\<lambda>ob. \<lparr>ro_type = ro_type ob, ro_content = ro_content ob,
      uo_sha = hashObject digest (ro_type ob) (ro_content ob)\<rparr>) objects)"
  using assms by (rule readPack_written)

theorem pack_roundtrip_witness:
  "\<exists>pack. writePack len_digest store_deflate two_objects = Inr pack \<and>
    readPack len_digest None pack =
      Inr (map (\<lambda>ob. \<lparr>ro_type = ro_type ob, ro_content = ro_content ob,
        uo_sha = hashObject len_digest (ro_type ob) (ro_content ob)\<rparr>) two_objects)"
proof -
  obtain pack where pack: "writePack len_digest store_deflate two_objects = Inr pack"
    using two_objects_written by blast
  have "readPack len_digest None pack =
      Inr (map (\<lambda>ob. \<lparr>ro_type = ro_type ob, ro_content = ro_content ob,
        uo_sha = hashObject len_digest (ro_type ob) (ro_content ob)\<rparr>) two_objects)"
    by (rule pack_roundtrip [OF pack _ len_digest_ok])
      (auto simp: two_objects_def store_deflate_ok)
  with pack show ?thesis by blast
qed

text \<open>C8: Reading a pack is sound for any bytes a remote sends: it returns as many objects as the
  header announces, each one is what its entry stands for through its chain of deltas, with
  in-pack and external bases identified by their ids, and carries the id of its content.\<close>

theorem readPack_sound:
  assumes "readPack digest fetch pack = Inr objs"
  shows "\<exists>entries byOffset cursor.
    parse_entries (be32 pack 8) pack 12 [] [] = Inr (entries, byOffset, cursor) \<and>
    length objs = be32 pack 8 \<and>
    (\<forall>i < length objs. stands_for digest fetch entries i (ro_type (objs ! i)) (ro_content (objs ! i)) \<and>
      uo_sha (objs ! i) = hashObject digest (ro_type (objs ! i)) (ro_content (objs ! i)))"
  using readPack_ok [OF assms] by blast

theorem readPack_sound_witness:
  "\<exists>pack objs entries. readPack len_digest None pack = Inr objs \<and> length objs = 2 \<and>
    stands_for len_digest None entries 0 (js ''blob'') [104, 105]"
proof -
  obtain pack where pack: "writePack len_digest store_deflate two_objects = Inr pack"
    using two_objects_written by blast
  have "readPack len_digest None pack =
      Inr (map (\<lambda>ob. \<lparr>ro_type = ro_type ob, ro_content = ro_content ob,
        uo_sha = hashObject len_digest (ro_type ob) (ro_content ob)\<rparr>) two_objects)" (is "_ = Inr ?objs")
    by (rule readPack_written [OF pack _ len_digest_ok]) (auto simp: two_objects_def store_deflate_ok)
  note read = this
  have objs: "0 < length ?objs" "length ?objs = 2" "ro_type (?objs ! 0) = js ''blob''"
    "ro_content (?objs ! 0) = [104, 105]"
    by (simp_all add: two_objects_def)
  from readPack_sound [OF read] objs(1) obtain entries where
    "stands_for len_digest None entries 0 (ro_type (?objs ! 0)) (ro_content (?objs ! 0))" by blast
  then have "stands_for len_digest None entries 0 (js ''blob'') [104, 105]" unfolding objs(3,4) .
  with read objs(2) show ?thesis by blast
qed

text \<open>
  Three entries: a delta that names its base by id, a blob, and a delta of that blob whose
  result has the id.
\<close>

definition forward_entries :: "(bytes \<Rightarrow> bytes) \<Rightarrow> pack_entry list" where
  "forward_entries digest =
     [\<lparr>pe_start = 12, pe_typeNum = OBJ_REF_DELTA, pe_payload = enc_delta [2] [Insert [3]], pe_baseOffset = -1,
        pe_baseSha = hashObject digest (js ''blob'') [2]\<rparr>,
      base_entry 40 3 [1],
      \<lparr>pe_start = 60, pe_typeNum = OBJ_OFS_DELTA, pe_payload = enc_delta [1] [Insert [2]], pe_baseOffset = 40,
        pe_baseSha = []\<rparr>]"

lemma forward_entries_nth:
  "forward_entries digest ! 0 = \<lparr>pe_start = 12, pe_typeNum = OBJ_REF_DELTA, pe_payload = enc_delta [2] [Insert [3]],
     pe_baseOffset = -1, pe_baseSha = hashObject digest (js ''blob'') [2]\<rparr>"
  "forward_entries digest ! 1 = base_entry 40 3 [1]" "forward_entries digest ! Suc 0 = base_entry 40 3 [1]"
  "forward_entries digest ! 2 = \<lparr>pe_start = 60, pe_typeNum = OBJ_OFS_DELTA, pe_payload = enc_delta [1] [Insert [2]],
     pe_baseOffset = 40, pe_baseSha = []\<rparr>"
  "length (forward_entries digest) = 3"
  by (simp_all add: forward_entries_def)

text \<open>A delta entry that names by id an object of the same pack is not resolved when that
  object is itself a delta and comes later: the entry stands for an object, yet without an
  external resolver reading the entries fails.\<close>

theorem forward_ref_delta_fails:
  assumes "hashObject digest (js ''blob'') [1] \<noteq> hashObject digest (js ''blob'') [2]"
  shows "stands_for digest None (forward_entries digest) 0 (js ''blob'') [3] \<and>
    resolve_all digest None (forward_entries digest) [(12, 0), (40, 1), (60, 2)] [0..<3]
      (new_resolver digest (forward_entries digest)) =
    Inl (Error ''pack: ref-delta base not in pack (no resolver)'')"
proof
  let ?es = "forward_entries digest"
  have blob: "map_get BASE_TYPE_BY_NUMBER 3 = Some (js ''blob'')" "map_get BASE_TYPE_BY_NUMBER 6 = None"
    "map_get BASE_TYPE_BY_NUMBER 7 = None"
    by (simp_all add: BASE_TYPE_BY_NUMBER_def map_get_def)
  have "stands_for digest None ?es 1 (js ''blob'') (pe_payload (?es ! 1))"
    by (rule stands_for.base) (simp_all add: forward_entries_nth base_entry_def blob)
  then have "stands_for digest None ?es 1 (js ''blob'') [1]" by (simp add: forward_entries_nth base_entry_def)
  moreover have "applyDelta [1] (enc_delta [1] [Insert [2]]) = Inr [2]"
    using applyDelta_encoded [of "[1]" "[Insert [2]]"] by (simp add: delta_result_def)
  ultimately have "stands_for digest None ?es 2 (js ''blob'') [2]"
    by (intro stands_for.ofs [of 2 ?es 1]) (simp_all add: forward_entries_nth base_entry_def)
  moreover have "applyDelta [2] (enc_delta [2] [Insert [3]]) = Inr [3]"
    using applyDelta_encoded [of "[2]" "[Insert [3]]"] by (simp add: delta_result_def)
  ultimately show "stands_for digest None ?es 0 (js ''blob'') [3]"
    by (intro stands_for.ref [of 0 ?es digest None 2])
      (simp_all add: forward_entries_nth OBJ_REF_DELTA_def OBJ_OFS_DELTA_def blob)
  have idxs: "[0..<length ?es] = [0, 1, 2]" by (simp add: forward_entries_nth upt_rec)
  have idx: "preindex digest ?es = [(hashObject digest (js ''blob'') [1], 1)]"
    unfolding preindex_def idxs
    by (simp add: forward_entries_nth OBJ_REF_DELTA_def OBJ_OFS_DELTA_def
        base_entry_def blob index_sha_def map_has_def map_set_def)
  have blob_miss: "map_get [(hashObject digest (js ''blob'') [1], Suc 0)] (hashObject digest (js ''blob'') [2]) = None"
    using assms by (simp add: map_get_def)
  have "resolveEntry digest None ?es [(12, 0), (40, 1), (60, 2)] 0 (new_resolver digest ?es) =
      Inl (Error ''pack: ref-delta base not in pack (no resolver)'')"
    using assms by (subst resolveEntry.simps)
      (simp add: new_resolver_def idx forward_entries_nth blob OBJ_REF_DELTA_def OBJ_OFS_DELTA_def
        blob_miss resolveExternal_def Let_def)
  then show "resolve_all digest None ?es [(12, 0), (40, 1), (60, 2)] [0..<3] (new_resolver digest ?es) =
      Inl (Error ''pack: ref-delta base not in pack (no resolver)'')"
    by (simp add: upt_rec)
qed

theorem forward_ref_delta_fails_witness:
  "stands_for rev None (forward_entries rev) 0 (js ''blob'') [3] \<and>
    resolve_all rev None (forward_entries rev) [(12, 0), (40, 1), (60, 2)] [0..<3]
      (new_resolver rev (forward_entries rev)) =
    Inl (Error ''pack: ref-delta base not in pack (no resolver)'')"
proof (rule forward_ref_delta_fails)
  have "loose_object (js ''blob'') [1] \<noteq> loose_object (js ''blob'') [2]"
    using loose_object_inj [of "js ''blob''" "js ''blob''" "[1]" "[2]"] by simp
  then show "hashObject rev (js ''blob'') [1] \<noteq> hashObject rev (js ''blob'') [2]"
    by (simp add: hashObject_loose sha1_def bytesToHex_inj)
qed

end
