(* ===== verification/GitObjectStore.thy ===== *)
theory GitObjectStore
  imports GitPack
begin

text \<open>
  The loose-object store (\<open>takos-git/local/core/object-store.ts\<close>) on a bucket
  (\<open>local-platform/in-memory-r2.ts\<close>), and the pack writer that reads from it. A bucket is a
  map from keys to bytes; its interface is a locale, with the laws the store relies on.

  The digest, the compressor and the decompressor of the platform are parameters, gathered
  in a record.
\<close>

section \<open>The bucket\<close>

type_synonym bucket = "(jsstring, bytes) js_map"

text \<open>The object metadata a bucket also keeps is not used by the store and left out.\<close>

definition r2_head :: "bucket \<Rightarrow> jsstring \<Rightarrow> bool" where
  "r2_head b key = map_has b key"

definition r2_get :: "bucket \<Rightarrow> jsstring \<Rightarrow> bytes option" where
  "r2_get b key = map_get b key"

definition r2_put :: "jsstring \<Rightarrow> bytes \<Rightarrow> bucket \<Rightarrow> bucket" where
  "r2_put key val b = map_set key val b"

definition r2_delete :: "jsstring \<Rightarrow> bucket \<Rightarrow> bucket" where
  "r2_delete key b = map_del key b"

locale kv_bucket =
  fixes head :: "'s \<Rightarrow> 'k \<Rightarrow> bool"
    and get :: "'s \<Rightarrow> 'k \<Rightarrow> 'v option"
    and put :: "'k \<Rightarrow> 'v \<Rightarrow> 's \<Rightarrow> 's"
    and del :: "'k \<Rightarrow> 's \<Rightarrow> 's"
  assumes head_get: "head s k \<longleftrightarrow> get s k \<noteq> None"
    and get_put: "get (put k v s) k' = (if k' = k then Some v else get s k')"
    and get_del: "get (del k s) k' = (if k' = k then None else get s k')"
begin

text \<open>Writing a value only where there is none: how every object is stored.\<close>

definition put_new :: "'k \<Rightarrow> 'v \<Rightarrow> 's \<Rightarrow> 's" where
  "put_new k v s = (if head s k then s else put k v s)"

lemma put_new_keeps: "get s k' = Some v' \<Longrightarrow> get (put_new k v s) k' = Some v'"
  by (auto simp: put_new_def head_get get_put)

lemma put_new_get: "get (put_new k v s) k = (case get s k of None \<Rightarrow> Some v | Some v' \<Rightarrow> Some v')"
  by (auto simp: put_new_def head_get get_put split: option.splits)

lemma put_new_other: "k' \<noteq> k \<Longrightarrow> get (put_new k v s) k' = get s k'"
  by (simp add: put_new_def get_put)

lemma put_new_cases: "get (put_new k v s) k' = Some w \<Longrightarrow> get s k' = Some w \<or> k' = k \<and> w = v"
  by (auto simp: put_new_def get_put split: if_splits)

lemma put_new_invariant:
  assumes "\<And>k' w. get s k' = Some w \<Longrightarrow> P k' w" and "P k v"
  shows "get (put_new k v s) k' = Some w \<Longrightarrow> P k' w"
  using assms put_new_cases by blast

lemma del_invariant: "(\<And>k' w. get s k' = Some w \<Longrightarrow> P k' w) \<Longrightarrow> get (del k s) k' = Some w \<Longrightarrow> P k' w"
  by (simp add: get_del split: if_splits)

end

interpretation r2: kv_bucket r2_head r2_get r2_put r2_delete
  by unfold_locales (simp_all add: r2_head_def r2_get_def r2_put_def r2_delete_def map_has_get)

section \<open>The platform\<close>

record platform =
  pf_digest :: "bytes \<Rightarrow> bytes"
  pf_deflate :: "bytes \<Rightarrow> bytes"
  pf_inflate :: "bytes \<Rightarrow> bytes res"

definition platform_ok :: "platform \<Rightarrow> bool" where
  "platform_ok pf \<longleftrightarrow> sha1_digest (pf_digest pf) \<and> (\<forall>x. pf_inflate pf (pf_deflate pf x) = Inr x)"

section \<open>Writing\<close>

definition OBJECT_PREFIX :: jsstring where "OBJECT_PREFIX = js ''git/v2/objects''"

definition getObjectKey :: "jsstring \<Rightarrow> jsstring" where
  "getObjectKey sha = OBJECT_PREFIX @ js ''/'' @ take 2 sha @ js ''/'' @ drop 2 sha"

definition putBlob :: "platform \<Rightarrow> bytes \<Rightarrow> bucket \<Rightarrow> jsstring \<times> bucket" where
  "putBlob pf content b =
     (let sha = hashObject (pf_digest pf) (js ''blob'') content; key = getObjectKey sha in
      if r2_head b key then (sha, b)
      else (sha, r2_put key (pf_deflate pf (encodeBlob content)) b))"

definition putTree :: "platform \<Rightarrow> tree_entry list \<Rightarrow> bucket \<Rightarrow> jsstring \<times> bucket" where
  "putTree pf entries b =
     (let sha = hashObject (pf_digest pf) (js ''tree'') (encodeTreeContent entries); key = getObjectKey sha in
      if r2_head b key then (sha, b)
      else (sha, r2_put key (pf_deflate pf (encodeTree entries)) b))"

definition putCommit :: "platform \<Rightarrow> 'a commit_body_scheme \<Rightarrow> bucket \<Rightarrow> jsstring \<times> bucket" where
  "putCommit pf c b =
     (let sha = hashObject (pf_digest pf) (js ''commit'') (encodeCommitContent c); key = getObjectKey sha in
      if r2_head b key then (sha, b)
      else (sha, r2_put key (pf_deflate pf (encodeCommit c)) b))"

definition putRawObject :: "platform \<Rightarrow> bytes \<Rightarrow> bucket \<Rightarrow> jsstring \<times> bucket" where
  "putRawObject pf raw b =
     (let sha = sha1 (pf_digest pf) raw; key = getObjectKey sha in
      if r2_head b key then (sha, b)
      else (sha, r2_put key (pf_deflate pf raw) b))"

section \<open>Reading\<close>

definition getRawObject :: "platform \<Rightarrow> bucket \<Rightarrow> jsstring \<Rightarrow> bytes option res" where
  "getRawObject pf b sha =
     (if \<not> isValidSha sha then Inr None
      else case r2_get b (getObjectKey sha) of
        None \<Rightarrow> Inr None
      | Some compressed \<Rightarrow> bind_res (pf_inflate pf compressed) (\<lambda>raw. Inr (Some raw)))"

definition getObject :: "platform \<Rightarrow> bucket \<Rightarrow> jsstring \<Rightarrow> (jsstring \<times> bytes) option res" where
  "getObject pf b sha =
     bind_res (getRawObject pf b sha) (\<lambda>raw.
       case raw of
         None \<Rightarrow> Inr None
       | Some raw \<Rightarrow> bind_res (decodeObject raw) (\<lambda>ob. Inr (Some ob)))"

definition getBlob :: "platform \<Rightarrow> bucket \<Rightarrow> jsstring \<Rightarrow> bytes option res" where
  "getBlob pf b sha =
     bind_res (getObject pf b sha) (\<lambda>ob.
       case ob of
         None \<Rightarrow> Inr None
       | Some (type, content) \<Rightarrow> if type \<noteq> js ''blob'' then Inr None else Inr (Some content))"

definition getTreeEntries :: "platform \<Rightarrow> bucket \<Rightarrow> jsstring \<Rightarrow> tree_entry list option res" where
  "getTreeEntries pf b sha =
     bind_res (getObject pf b sha) (\<lambda>ob.
       case ob of
         None \<Rightarrow> Inr None
       | Some (type, content) \<Rightarrow> if type \<noteq> js ''tree'' then Inr None else Inr (Some (decodeTree content)))"

definition getCommitData :: "platform \<Rightarrow> bucket \<Rightarrow> jsstring \<Rightarrow> git_commit option res" where
  "getCommitData pf b sha =
     bind_res (getObject pf b sha) (\<lambda>ob.
       case ob of
         None \<Rightarrow> Inr None
       | Some (type, content) \<Rightarrow>
           if type \<noteq> js ''commit'' then Inr None
           else bind_res (decodeCommit content) (\<lambda>commit. Inr (Some (commit\<lparr>cm_sha := sha\<rparr>))))"

definition objectExists :: "bucket \<Rightarrow> jsstring \<Rightarrow> bool" where
  "objectExists b sha = (isValidSha sha \<and> r2_head b (getObjectKey sha))"

definition getCompressedObject :: "bucket \<Rightarrow> jsstring \<Rightarrow> bytes option" where
  "getCompressedObject b sha = (if \<not> isValidSha sha then None else r2_get b (getObjectKey sha))"

definition deleteObject :: "jsstring \<Rightarrow> bucket \<Rightarrow> bucket" where
  "deleteObject sha b = (if \<not> isValidSha sha then b else r2_delete (getObjectKey sha) b)"

text \<open>\<open>writePackFromShas\<close> (\<open>core/pack.ts\<close>): unknown ids are skipped and reported.\<close>

primrec collect_pack_objects ::
  "platform \<Rightarrow> bucket \<Rightarrow> jsstring list \<Rightarrow> (resolved_object list \<times> jsstring list) res" where
  "collect_pack_objects pf b [] = Inr ([], [])"
| "collect_pack_objects pf b (sha # shas) =
     bind_res (getObject pf b sha) (\<lambda>ob.
     bind_res (collect_pack_objects pf b shas) (\<lambda>(objects, missing).
       case ob of
         None \<Rightarrow> Inr (objects, sha # missing)
       | Some (type, content) \<Rightarrow> Inr (\<lparr>ro_type = type, ro_content = content\<rparr> # objects, missing)))"

record pack_result =
  pr_pack :: bytes
  pr_written :: nat
  pr_missing :: "jsstring list"

definition writePackFromShas :: "platform \<Rightarrow> bucket \<Rightarrow> jsstring list \<Rightarrow> pack_result res" where
  "writePackFromShas pf b shas =
     bind_res (collect_pack_objects pf b shas) (\<lambda>(objects, missing).
     bind_res (writePack (pf_digest pf) (pf_deflate pf) objects) (\<lambda>pack.
       Inr \<lparr>pr_pack = pack, pr_written = length objects, pr_missing = missing\<rparr>))"

section \<open>Content addressing\<close>

text \<open>Every stored object is under the key of the digest of its bytes.\<close>

definition content_addressed :: "platform \<Rightarrow> bucket \<Rightarrow> bool" where
  "content_addressed pf b \<longleftrightarrow>
     (\<forall>key v. r2_get b key = Some v \<longrightarrow>
       (\<exists>raw. pf_inflate pf v = Inr raw \<and> key = getObjectKey (sha1 (pf_digest pf) raw)))"

definition store_raw :: "platform \<Rightarrow> bytes \<Rightarrow> bucket \<Rightarrow> bucket" where
  "store_raw pf raw b = r2.put_new (getObjectKey (sha1 (pf_digest pf) raw)) (pf_deflate pf raw) b"

lemma put_store_raw:
  "putBlob pf content b = (hashObject (pf_digest pf) (js ''blob'') content, store_raw pf (encodeBlob content) b)"
  "putTree pf es b = (hashObject (pf_digest pf) (js ''tree'') (encodeTreeContent es), store_raw pf (encodeTree es) b)"
  "putCommit pf c b =
    (hashObject (pf_digest pf) (js ''commit'') (encodeCommitContent c), store_raw pf (encodeCommit c) b)"
  "putRawObject pf raw b = (sha1 (pf_digest pf) raw, store_raw pf raw b)"
  by (simp_all add: putBlob_def putTree_def putCommit_def putRawObject_def store_raw_def r2.put_new_def
      hashObject_loose encodeBlob_loose encodeTree_loose encodeCommit_loose Let_def)

lemma getObjectKey_inj: "getObjectKey s = getObjectKey t \<Longrightarrow> isValidSha s \<Longrightarrow> isValidSha t \<Longrightarrow> s = t"
proof -
  assume key: "getObjectKey s = getObjectKey t" and "isValidSha s" "isValidSha t"
  then have "length (take 2 s) = length (take 2 t)" by (simp add: isValidSha_def)
  with key have "take 2 s = take 2 t" "drop 2 s = drop 2 t"
    by (simp_all add: getObjectKey_def append_eq_append_conv)
  then show "s = t" by (metis append_take_drop_id)
qed

lemma sha1_valid: "sha1_digest digest \<Longrightarrow> isValidSha (sha1 digest x)"
  by (simp add: sha1_digest_def sha1_def isValidSha_hex)

lemma store_raw_addressed:
  assumes "platform_ok pf" and "content_addressed pf b"
  shows "content_addressed pf (store_raw pf raw b)"
  unfolding content_addressed_def store_raw_def
proof (intro allI impI)
  fix key v
  let ?P = "\<lambda>key v. \<exists>raw. pf_inflate pf v = Inr raw \<and> key = getObjectKey (sha1 (pf_digest pf) raw)"
  assume "r2_get (r2.put_new (getObjectKey (sha1 (pf_digest pf) raw)) (pf_deflate pf raw) b) key = Some v"
  then show "?P key v"
    by (rule r2.put_new_invariant [where P = ?P, rotated 2])
      (use assms in \<open>auto simp: content_addressed_def platform_ok_def\<close>)
qed

lemma deleteObject_addressed: "content_addressed pf b \<Longrightarrow> content_addressed pf (deleteObject sha b)"
  by (auto simp: content_addressed_def deleteObject_def r2.get_del split: if_splits)

text \<open>Storing keeps what is there, and what was stored is found unless the digest collides.\<close>

lemma store_raw_keeps:
  "getRawObject pf b sha = Inr (Some raw) \<Longrightarrow> getRawObject pf (store_raw pf raw' b) sha = Inr (Some raw)"
  by (auto simp: getRawObject_def store_raw_def r2.put_new_keeps split: option.splits if_splits)

definition stored_raws :: "platform \<Rightarrow> bucket \<Rightarrow> bytes set" where
  "stored_raws pf b = {raw. \<exists>key v. r2_get b key = Some v \<and> pf_inflate pf v = Inr raw}"

text \<open>The digest tells the given objects apart from each other and from the stored ones.\<close>

definition no_collision :: "platform \<Rightarrow> bucket \<Rightarrow> bytes set \<Rightarrow> bool" where
  "no_collision pf b raws \<longleftrightarrow> inj_on (pf_digest pf) (stored_raws pf b \<union> raws)"

lemma no_collision_Nil [simp]: "no_collision pf [] raws \<longleftrightarrow> inj_on (pf_digest pf) raws"
  by (simp add: no_collision_def stored_raws_def r2_get_def)

lemma stored_raws_store: "platform_ok pf \<Longrightarrow> stored_raws pf (store_raw pf raw b) \<subseteq> insert raw (stored_raws pf b)"
  by (auto simp: stored_raws_def store_raw_def platform_ok_def dest!: r2.put_new_cases)

lemma store_raw_get:
  assumes "platform_ok pf" and "content_addressed pf b" and "no_collision pf b raws" and "raw \<in> raws"
  shows "getRawObject pf (store_raw pf raw b) (sha1 (pf_digest pf) raw) = Inr (Some raw)"
proof -
  let ?sha = "sha1 (pf_digest pf) raw" and ?key = "getObjectKey (sha1 (pf_digest pf) raw)"
  have valid: "isValidSha ?sha" using assms(1) by (simp add: platform_ok_def sha1_valid)
  obtain v where v: "r2_get (store_raw pf raw b) ?key = Some v"
    by (cases "r2_get b ?key") (auto simp: store_raw_def r2.put_new_get)
  obtain raw' where raw': "pf_inflate pf v = Inr raw'" "?key = getObjectKey (sha1 (pf_digest pf) raw')"
    using store_raw_addressed [OF assms(1,2), of raw] v unfolding content_addressed_def by blast
  have valid': "isValidSha (sha1 (pf_digest pf) raw')" using assms(1) by (simp add: platform_ok_def sha1_valid)
  have "?sha = sha1 (pf_digest pf) raw'" by (rule getObjectKey_inj [OF raw'(2) valid valid'])
  then have "pf_digest pf raw = pf_digest pf raw'" by (simp add: sha1_def bytesToHex_inj)
  moreover have "raw' \<in> insert raw (stored_raws pf b)"
    using stored_raws_store [OF assms(1), of raw b] v raw'(1) unfolding stored_raws_def by blast
  ultimately have "raw' = raw" using assms(3,4) unfolding no_collision_def inj_on_def by auto
  then show ?thesis using valid v raw'(1) by (simp add: getRawObject_def)
qed

lemma getObject_raw:
  "getRawObject pf b sha = Inr (Some raw) \<Longrightarrow> decodeObject raw = Inr ob \<Longrightarrow> getObject pf b sha = Inr (Some ob)"
  by (simp add: getObject_def)

lemma store_loose_get:
  assumes "platform_ok pf" and "content_addressed pf b" and "no_collision pf b raws"
    and "object_type_ok type" and "loose_object type content \<in> raws"
  shows "getObject pf (store_raw pf (loose_object type content) b)
      (hashObject (pf_digest pf) type content) = Inr (Some (type, content))"
  using store_raw_get [OF assms(1-3,5)] assms(4)
  by (auto simp: hashObject_loose intro: getObject_raw decodeObject_loose)

section \<open>Properties\<close>

lemma put_keeps_raw:
  assumes "getRawObject pf b sha = Inr (Some raw)"
  shows "getRawObject pf (snd (putBlob pf c b)) sha = Inr (Some raw)"
    "getRawObject pf (snd (putTree pf es b)) sha = Inr (Some raw)"
    "getRawObject pf (snd (putCommit pf cm b)) sha = Inr (Some raw)"
    "getRawObject pf (snd (putRawObject pf raw' b)) sha = Inr (Some raw)"
  using store_raw_keeps [OF assms] by (simp_all add: put_store_raw)

lemma put_addressed:
  assumes "platform_ok pf" and "content_addressed pf b"
  shows "content_addressed pf (snd (putBlob pf c b))"
    "content_addressed pf (snd (putTree pf es b))"
    "content_addressed pf (snd (putCommit pf cm b))"
    "content_addressed pf (snd (putRawObject pf raw b))"
  using store_raw_addressed [OF assms] by (simp_all add: put_store_raw)

lemma addressed_Nil [simp]: "content_addressed pf []"
  by (simp add: content_addressed_def r2_get_def)

lemma getRawObject_sha:
  assumes "content_addressed pf b" and "platform_ok pf" and "getRawObject pf b sha = Inr (Some raw)"
  shows "sha1 (pf_digest pf) raw = sha"
proof -
  obtain v where v: "isValidSha sha" "r2_get b (getObjectKey sha) = Some v" "pf_inflate pf v = Inr raw"
    using assms(3) by (auto simp: getRawObject_def res_elims split: if_splits option.splits)
  then have "getObjectKey sha = getObjectKey (sha1 (pf_digest pf) raw)"
    using assms(1) by (fastforce simp: content_addressed_def)
  moreover have "isValidSha (sha1 (pf_digest pf) raw)" using assms(2) by (simp add: platform_ok_def sha1_valid)
  ultimately show ?thesis using getObjectKey_inj [OF _ v(1)] by simp
qed

text \<open>A platform for the witnesses: the compressor prefixes a byte that the decompressor drops.\<close>

definition test_platform :: platform where
  "test_platform =
     \<lparr>pf_digest = len_digest, pf_deflate = (\<lambda>x. 1 # x),
      pf_inflate = (\<lambda>x. if x = [] then Inl TypeError else Inr (tl x))\<rparr>"

lemma test_platform_ok [simp]: "platform_ok test_platform"
  by (simp add: platform_ok_def test_platform_def len_digest_ok)

text \<open>C29: What is stored is what is read: where the digest tells the objects involved apart,
  reading the id returned for a blob, a tree or a commit gives it back (a tree in git's order, a
  commit with its id); and everything that could be read before still reads the same.\<close>

theorem store_then_read:
  fixes cm :: "'a commit_body_scheme"
  assumes "platform_ok pf" and "content_addressed pf b"
    and "list_all tree_entry_ok es" and "commit_ok cm"
    and "no_collision pf b {encodeBlob c, encodeTree es, encodeCommit cm}"
  shows "(case putBlob pf c b of (sha, b') \<Rightarrow> getBlob pf b' sha = Inr (Some c))
    \<and> (case putTree pf es b of (sha, b') \<Rightarrow>
        getTreeEntries pf b' sha = Inr (Some (sort_key tree_sort_name es)))
    \<and> (case putCommit pf cm b of (sha, b') \<Rightarrow>
        getCommitData pf b' sha = Inr (Some \<lparr>cm_tree = cm_tree cm, cm_parents = cm_parents cm,
          cm_author = cm_author cm, cm_committer = cm_committer cm, cm_message = cm_message cm,
          cm_sha = sha\<rparr>))
    \<and> (\<forall>sha raw. getRawObject pf b sha = Inr (Some raw) \<longrightarrow>
        getRawObject pf (snd (putBlob pf c b)) sha = Inr (Some raw) \<and>
        getRawObject pf (snd (putTree pf es b)) sha = Inr (Some raw) \<and>
        getRawObject pf (snd (putCommit pf cm b)) sha = Inr (Some raw))"
proof -
  have tree: "decodeTree (encodeTreeContent es) = sort_key tree_sort_name es"
    using assms(3) decodeTree_encode_entries [of "sort_key tree_sort_name es"]
    by (simp add: encodeTreeContent_def list_all_iff)
  note get = store_loose_get [OF assms(1,2,5)]
  show ?thesis
    using get [of "js ''blob''" c] get [of "js ''tree''" "encodeTreeContent es"]
      get [of "js ''commit''" "encodeCommitContent cm"] put_keeps_raw
    by (auto simp: put_store_raw encodeBlob_loose encodeTree_loose encodeCommit_loose getBlob_def
        getTreeEntries_def getCommitData_def tree decode_encode_commit [OF assms(4)])
qed

lemma loose_digest_neq:
  "take 3 (utf8_encode t) \<noteq> take 3 (utf8_encode t') \<Longrightarrow> wf16 t \<Longrightarrow> wf16 t' \<Longrightarrow>
    3 \<le> length (utf8_encode t) \<Longrightarrow> 3 \<le> length (utf8_encode t') \<Longrightarrow>
    len_digest (loose_object t c) \<noteq> len_digest (loose_object t' c')"
proof
  assume neq: "take 3 (utf8_encode t) \<noteq> take 3 (utf8_encode t')" and wf: "wf16 t" "wf16 t'"
    and len: "3 \<le> length (utf8_encode t)" "3 \<le> length (utf8_encode t')"
    and eq: "len_digest (loose_object t c) = len_digest (loose_object t' c')"
  have "take 3 (len_digest (loose_object t c)) = take 3 (utf8_encode t)"
    if "wf16 t" "3 \<le> length (utf8_encode t)" for t c
    using that by (simp add: len_digest_def loose_object_def utf8_encode_append min_def)
  with eq neq wf len show False by metis
qed

lemma type_digests:
  "len_digest (loose_object (js ''blob'') c) \<noteq> len_digest (loose_object (js ''tree'') c')"
  "len_digest (loose_object (js ''blob'') c) \<noteq> len_digest (loose_object (js ''commit'') c')"
  "len_digest (loose_object (js ''tree'') c) \<noteq> len_digest (loose_object (js ''commit'') c')"
  by (rule loose_digest_neq; simp add: utf8_encode_ascii js_simps hi_surr_def lo_surr_def)+

theorem store_then_read_witness:
  "(case putBlob test_platform [1] [] of (sha, b') \<Rightarrow> getBlob test_platform b' sha = Inr (Some [1])) \<and>
   (case putTree test_platform [readme_entry] [] of (sha, b') \<Rightarrow>
      getTreeEntries test_platform b' sha = Inr (Some [readme_entry]))"
proof -
  have "inj_on len_digest {encodeBlob [1], encodeTree [readme_entry], encodeCommit first_commit}"
    unfolding encodeBlob_loose encodeTree_loose encodeCommit_loose
    by (intro inj_onI) (elim insertE emptyE, simp_all only: type_digests type_digests [symmetric] not_False_eq_True)
  then have "no_collision test_platform [] {encodeBlob [1], encodeTree [readme_entry], encodeCommit first_commit}"
    by (simp add: test_platform_def)
  from store_then_read [OF test_platform_ok addressed_Nil _ first_commit_ok this] show ?thesis
    by (simp add: case_prod_beta)
qed

text \<open>C28: Content addressing is an invariant of every operation that changes the store, and under
  it whatever is read under an id has that id as its digest.\<close>

theorem store_content_addressed:
  assumes "platform_ok pf" and "content_addressed pf b"
  shows "content_addressed pf (snd (putBlob pf c b)) \<and> content_addressed pf (snd (putTree pf es b)) \<and>
    content_addressed pf (snd (putCommit pf cm b)) \<and> content_addressed pf (snd (putRawObject pf raw b)) \<and>
    content_addressed pf (deleteObject sha b) \<and>
    (\<forall>sha raw. getRawObject pf b sha = Inr (Some raw) \<longrightarrow> sha1 (pf_digest pf) raw = sha)"
  using put_addressed [OF assms] deleteObject_addressed [OF assms(2)] getRawObject_sha [OF assms(2,1)] by blast

theorem store_content_addressed_witness:
  "content_addressed test_platform (snd (putBlob test_platform [1, 2] []))"
  by (rule conjunct1 [OF store_content_addressed [OF test_platform_ok addressed_Nil]])

text \<open>Deleting an id removes that object only; an id that is not 40 hexadecimal digits is
  never found and never deletes anything.\<close>

theorem delete_only_that:
  "(\<not> isValidSha sha \<longrightarrow> deleteObject sha b = b \<and> \<not> objectExists b sha \<and> getObject pf b sha = Inr None) \<and>
   \<not> objectExists (deleteObject sha b) sha \<and>
   (sha' \<noteq> sha \<longrightarrow> getRawObject pf (deleteObject sha b) sha' = getRawObject pf b sha' \<and>
     objectExists (deleteObject sha b) sha' = objectExists b sha')"
proof -
  have other: "getObjectKey sha' \<noteq> getObjectKey sha" if "isValidSha sha" "isValidSha sha'" "sha' \<noteq> sha"
    using getObjectKey_inj that by blast
  show ?thesis
    by (auto simp: deleteObject_def objectExists_def getRawObject_def getObject_def r2.get_del r2.head_get
        dest: other)
qed

theorem delete_only_that_witness:
  "\<not> objectExists (deleteObject (replicate 40 97) (r2_put (getObjectKey (replicate 40 97)) [1] []))
    (replicate 40 97)"
  using delete_only_that [of "replicate 40 97" "r2_put (getObjectKey (replicate 40 97)) [1] []"] by blast

text \<open>The objects of a clone: those found, in the order asked for.\<close>

definition found :: "platform \<Rightarrow> bucket \<Rightarrow> jsstring list \<Rightarrow> (jsstring \<times> bytes) list" where
  "found pf b shas =
     concat (map (\<lambda>sha. case getObject pf b sha of Inr (Some ob) \<Rightarrow> [ob] | _ \<Rightarrow> []) shas)"

lemma collect_pack_objects_ok:
  "collect_pack_objects pf b shas = Inr (objects, missing) \<Longrightarrow>
    map (\<lambda>ob. (ro_type ob, ro_content ob)) objects = found pf b shas \<and>
    missing = filter (\<lambda>sha. getObject pf b sha = Inr None) shas \<and> length objects \<le> length shas"
  by (induction shas arbitrary: objects missing)
    (auto simp: res_elims found_def split: option.splits)

lemma found_in: "(t, c) \<in> set (found pf b shas) \<Longrightarrow> \<exists>sha \<in> set shas. getObject pf b sha = Inr (Some (t, c))"
  by (auto simp: found_def split: sum.splits option.splits)

definition zlib_platform :: platform where
  "zlib_platform =
     \<lparr>pf_digest = len_digest, pf_deflate = store_deflate,
      pf_inflate = (\<lambda>x. bind_res (inflateZlibAt x 0) (\<lambda>(output, _). Inr output))\<rparr>"

definition hi_bucket :: bucket where
  "hi_bucket = snd (putBlob zlib_platform [104, 105] [])"

definition hi_sha :: jsstring where
  "hi_sha = fst (putBlob zlib_platform [104, 105] [])"

lemma hi_object: "getObject zlib_platform hi_bucket hi_sha = Inr (Some (js ''blob'', [104, 105]))"
proof -
  let ?raw = "encodeBlob [104, 105]"
  have len: "length ?raw < 65536"
    by (simp add: encodeBlob_def utf8_encode_ascii NUL_def js_simps nat_str_def radix_str.simps
        digit_char_def)
  have sha: "hi_sha = sha1 len_digest ?raw"
    by (simp add: hi_sha_def put_store_raw zlib_platform_def hashObject_loose encodeBlob_loose)
  have bucket: "hi_bucket = [(getObjectKey hi_sha, store_deflate ?raw)]"
    unfolding sha by (simp add: hi_bucket_def put_store_raw store_raw_def r2.put_new_def r2_head_def
        map_has_def r2_put_def map_set_def zlib_platform_def)
  have inflated: "inflateZlibAt (store_deflate ?raw) 0 = Inr (?raw, length (store_deflate ?raw))"
    using inflateZlibAt_ok [OF zlib_store_ok [OF len], of "[]" "[]"] zlib_store_out
    by (simp add: store_deflate_def)
  have "isValidSha hi_sha" unfolding sha by (rule sha1_valid [OF len_digest_ok])
  then have "getRawObject zlib_platform hi_bucket hi_sha = Inr (Some ?raw)"
    using inflated by (simp add: getRawObject_def bucket r2_get_def map_get_def zlib_platform_def)
  then show ?thesis by (rule getObject_raw) (simp add: encodeBlob_loose decodeObject_loose)
qed

text \<open>A clone's pack, built from ids by reading the store, reads back as exactly the objects
  that the store has, in the order asked for; the ids it does not have are all reported.\<close>

theorem clone_pack_roundtrip:
  assumes "writePackFromShas pf b shas = Inr r"
    and "\<And>sha t c. sha \<in> set shas \<Longrightarrow> getObject pf b sha = Inr (Some (t, c)) \<Longrightarrow> deflates (pf_deflate pf) c"
    and "sha1_digest (pf_digest pf)" and "length shas < 2 ^ 32"
  shows "\<exists>objs. readPack (pf_digest pf) fetch (pr_pack r) = Inr objs \<and>
    map (\<lambda>ob. (ro_type ob, ro_content ob)) objs = found pf b shas \<and>
    pr_written r = length objs \<and> pr_missing r = filter (\<lambda>sha. getObject pf b sha = Inr None) shas"
proof -
  obtain objects missing pack where w: "collect_pack_objects pf b shas = Inr (objects, missing)"
    "writePack (pf_digest pf) (pf_deflate pf) objects = Inr pack"
    "r = \<lparr>pr_pack = pack, pr_written = length objects, pr_missing = missing\<rparr>"
    using assms(1) by (auto simp: writePackFromShas_def res_elims)
  note c = collect_pack_objects_ok [OF w(1)]
  have "deflates (pf_deflate pf) (ro_content ob)" if "ob \<in> set objects" for ob
  proof -
    have "(ro_type ob, ro_content ob) \<in> set (map (\<lambda>ob. (ro_type ob, ro_content ob)) objects)"
      using that by (simp add: image_iff) blast
    then have "(ro_type ob, ro_content ob) \<in> set (found pf b shas)" by (simp only: conjunct1 [OF c])
    then show ?thesis using found_in assms(2) by blast
  qed
  then have "readPack (pf_digest pf) fetch pack = Inr (map (\<lambda>ob. \<lparr>ro_type = ro_type ob, ro_content = ro_content ob,
      uo_sha = hashObject (pf_digest pf) (ro_type ob) (ro_content ob)\<rparr>) objects)"
    by (rule readPack_written [OF w(2) _ assms(3)]) (use c assms(4) in auto)
  then show ?thesis using c w(3) by (simp add: comp_def)
qed

theorem clone_pack_roundtrip_witness:
  "\<exists>r objs. writePackFromShas zlib_platform hi_bucket [hi_sha, js ''nope''] = Inr r \<and>
    readPack len_digest None (pr_pack r) = Inr objs \<and>
    map (\<lambda>ob. (ro_type ob, ro_content ob)) objs = [(js ''blob'', [104, 105])] \<and> pr_missing r = [js ''nope'']"
proof -
  have nope: "getObject zlib_platform hi_bucket (js ''nope'') = Inr None"
    by (simp add: getObject_def getRawObject_def isValidSha_def js_simps)
  have "collect_pack_objects zlib_platform hi_bucket [hi_sha, js ''nope''] =
      Inr ([\<lparr>ro_type = js ''blob'', ro_content = [104, 105]\<rparr>], [js ''nope''])"
    by (simp add: hi_object nope)
  then obtain r where r: "writePackFromShas zlib_platform hi_bucket [hi_sha, js ''nope''] = Inr r"
    by (simp add: writePackFromShas_def writePack_def pack_chunk_def gitTypeToNumber_def
        TYPE_TO_NUMBER_def map_get_def js_simps Let_def)
  have fields: "pf_deflate zlib_platform = store_deflate" "pf_digest zlib_platform = len_digest"
    by (simp_all add: zlib_platform_def)
  have "\<exists>objs. readPack (pf_digest zlib_platform) None (pr_pack r) = Inr objs \<and>
      map (\<lambda>ob. (ro_type ob, ro_content ob)) objs = found zlib_platform hi_bucket [hi_sha, js ''nope''] \<and>
      pr_written r = length objs \<and>
      pr_missing r = filter (\<lambda>sha. getObject zlib_platform hi_bucket sha = Inr None) [hi_sha, js ''nope'']"
    by (rule clone_pack_roundtrip [OF r])
      (auto simp: hi_object nope fields len_digest_ok intro!: store_deflate_ok)
  then show ?thesis using r by (auto simp: found_def hi_object nope fields)
qed

end
