(* ===== verification/GitTreeOps.thy ===== *)
theory GitTreeOps
  imports GitObjectStore
begin

text \<open>
  Operations on trees of the store (\<open>takos-git/local/core/tree-ops.ts\<close>): path validation,
  navigation by path, building the nested trees of a list of files, flattening a tree with its
  limits and its cycle guard, and applying changes. What they do is proved in the theory
  \<open>GitTreeBuild\<close>.
\<close>

section \<open>Paths\<close>

definition SLASH :: unit16 where "SLASH = 47"

definition MAX_GIT_PATH_LENGTH :: nat where "MAX_GIT_PATH_LENGTH = 4096"

definition hasControlChars :: "jsstring \<Rightarrow> bool" where
  "hasControlChars s \<longleftrightarrow> list_ex (\<lambda>c. unat c \<le> 0x1f \<or> unat c = 0x7f) s"

definition isValidGitPathSegment :: "jsstring \<Rightarrow> bool" where
  "isValidGitPathSegment seg \<longleftrightarrow>
     \<not> (seg = [] \<or> seg = js ''.'' \<or> seg = js ''..'' \<or> NUL \<in> set seg \<or> hasControlChars seg)"

definition isValidGitPath :: "jsstring \<Rightarrow> bool" where
  "isValidGitPath path \<longleftrightarrow>
     (if length path = 0 \<or> length path > MAX_GIT_PATH_LENGTH then False
      else if NUL \<in> set path \<or> hasControlChars path then False
      else if js_starts_with path [SLASH] \<or> js_ends_with path [SLASH] \<or> js_ch (CHR 0x5C) \<in> set path \<or>
          js_includes path [SLASH, SLASH] then False
      else length (js_split SLASH path) > 0 \<and> list_all isValidGitPathSegment (js_split SLASH path))"

definition assertValidGitPath :: "jsstring \<Rightarrow> jsstring res" where
  "assertValidGitPath path =
     (let normalized = js_trim path in
      if \<not> isValidGitPath normalized then Inl (Error ''Invalid git path: '') else Inr normalized)"

section \<open>Navigation\<close>

definition createTree :: "platform \<Rightarrow> tree_entry list \<Rightarrow> bucket \<Rightarrow> jsstring \<times> bucket" where
  "createTree pf entries b = putTree pf entries b"

definition getTree :: "platform \<Rightarrow> bucket \<Rightarrow> jsstring \<Rightarrow> (jsstring \<times> tree_entry list) option res" where
  "getTree pf b sha =
     bind_res (getTreeEntries pf b sha) (\<lambda>es.
       case es of None \<Rightarrow> Inr None | Some entries \<Rightarrow> Inr (Some (sha, entries)))"

text \<open>An entry with its kind; \<open>te_is_tree\<close> stands for the field \<open>type\<close>.\<close>

record typed_entry = tree_entry +
  te_is_tree :: bool

definition typed :: "tree_entry \<Rightarrow> typed_entry" where
  "typed e = \<lparr>te_mode = te_mode e, te_name = te_name e, te_sha = te_sha e, te_is_tree = is_dir_mode (te_mode e)\<rparr>"

definition strip_slashes :: "jsstring \<Rightarrow> jsstring" where
  "strip_slashes path = rev (dropWhile (\<lambda>c. c = SLASH) (rev (dropWhile (\<lambda>c. c = SLASH) path)))"

primrec entry_at_parts :: "platform \<Rightarrow> bucket \<Rightarrow> jsstring list \<Rightarrow> jsstring \<Rightarrow> typed_entry option res" where
  "entry_at_parts pf b [] currentTreeSha = Inr None"
| "entry_at_parts pf b (part # parts) currentTreeSha =
     bind_res (getTreeEntries pf b currentTreeSha) (\<lambda>es.
       case es of
         None \<Rightarrow> Inr None
       | Some entries \<Rightarrow>
           (case List.find (\<lambda>e. te_name e = part) entries of
             None \<Rightarrow> Inr None
           | Some e \<Rightarrow>
               if parts = [] then Inr (Some (typed e))
               else if \<not> is_dir_mode (te_mode e) then Inr None
               else entry_at_parts pf b parts (te_sha e)))"

definition getEntryAtPath :: "platform \<Rightarrow> bucket \<Rightarrow> jsstring \<Rightarrow> jsstring \<Rightarrow> typed_entry option res" where
  "getEntryAtPath pf b rootTreeSha path =
     (let normalizedPath = strip_slashes path in
      if normalizedPath = [] then
        Inr (Some \<lparr>te_mode = MODE_DIRECTORY, te_name = [], te_sha = rootTreeSha, te_is_tree = True\<rparr>)
      else entry_at_parts pf b (js_split SLASH normalizedPath) rootTreeSha)"

definition listDirectory :: "platform \<Rightarrow> bucket \<Rightarrow> jsstring \<Rightarrow> jsstring \<Rightarrow> tree_entry list option res" where
  "listDirectory pf b rootTreeSha path =
     bind_res (getEntryAtPath pf b rootTreeSha path) (\<lambda>r.
       case r of
         None \<Rightarrow> Inr None
       | Some e \<Rightarrow> if \<not> te_is_tree e then Inr None else getTreeEntries pf b (te_sha e))"

definition getBlobAtPath :: "platform \<Rightarrow> bucket \<Rightarrow> jsstring \<Rightarrow> jsstring \<Rightarrow> bytes option res" where
  "getBlobAtPath pf b rootTreeSha path =
     bind_res (getEntryAtPath pf b rootTreeSha path) (\<lambda>r.
       case r of
         None \<Rightarrow> Inr None
       | Some e \<Rightarrow> if te_is_tree e \<or> te_mode e = MODE_SYMLINK then Inr None else getBlob pf b (te_sha e))"

section \<open>Building\<close>

text \<open>
  The nested \<open>Map\<close>s of \<open>buildTreeFromPaths\<close>. The source walks down from the root and changes
  the maps in place; here the changed maps are rebuilt on the way back, which is the same
  since the walk shares nothing. An absent or empty mode is a regular file.
\<close>

datatype tree_node = Leaf tree_entry | Node "(jsstring \<times> tree_node) list"

record build_file =
  bf_path :: jsstring
  bf_sha :: jsstring
  bf_mode :: "jsstring option"

definition mode_or_regular :: "jsstring option \<Rightarrow> jsstring" where
  "mode_or_regular mo = (case mo of None \<Rightarrow> MODE_REGULAR | Some md \<Rightarrow> if md = [] then MODE_REGULAR else md)"

fun add_file :: "jsstring list \<Rightarrow> tree_entry \<Rightarrow> (jsstring, tree_node) js_map \<Rightarrow> (jsstring, tree_node) js_map res" where
  "add_file [] e m = Inr m"
| "add_file [fileName] e m = Inr (map_set fileName (Leaf e) m)"
| "add_file (part # q # parts) e m =
     (case (if map_has m part then map_get m part else Some (Node [])) of
       Some (Node child) \<Rightarrow>
         bind_res (add_file (q # parts) e child) (\<lambda>child'. Inr (map_set part (Node child') m))
     | _ \<Rightarrow> Inl (Error ''Path conflict at ''))"

definition add_build_file :: "build_file \<Rightarrow> (jsstring, tree_node) js_map \<Rightarrow> (jsstring, tree_node) js_map res" where
  "add_build_file f m =
     bind_res (assertValidGitPath (bf_path f)) (\<lambda>validPath.
       let parts = js_split SLASH validPath in
       add_file parts \<lparr>te_mode = mode_or_regular (bf_mode f), te_name = last parts, te_sha = bf_sha f\<rparr> m)"

fun create_entries :: "platform \<Rightarrow> (jsstring \<times> tree_node) list \<Rightarrow> bucket \<Rightarrow> tree_entry list \<times> bucket" where
  "create_entries pf [] b = ([], b)"
| "create_entries pf ((name, Leaf e) # rest) b = (let (es, b1) = create_entries pf rest b in (e # es, b1))"
| "create_entries pf ((name, Node child) # rest) b =
     (let (ces, b1) = create_entries pf child b;
          (subtreeSha, b2) = createTree pf ces b1;
          (es, b3) = create_entries pf rest b2 in
      (\<lparr>te_mode = MODE_DIRECTORY, te_name = name, te_sha = subtreeSha\<rparr> # es, b3))"

definition createTreeFromNode :: "platform \<Rightarrow> (jsstring, tree_node) js_map \<Rightarrow> bucket \<Rightarrow> jsstring \<times> bucket" where
  "createTreeFromNode pf m b = (let (entries, b1) = create_entries pf m b in createTree pf entries b1)"

definition buildTreeFromPaths :: "platform \<Rightarrow> build_file list \<Rightarrow> bucket \<Rightarrow> (jsstring \<times> bucket) res" where
  "buildTreeFromPaths pf files b =
     bind_res (fold_res add_build_file files []) (\<lambda>root. Inr (createTreeFromNode pf root b))"

section \<open>Flattening\<close>

record flat_file =
  ff_path :: jsstring
  ff_sha :: jsstring
  ff_mode :: jsstring

record flat_options =
  fo_maxDepth :: nat
  fo_maxEntries :: nat
  fo_skipSymlinks :: bool

definition DEFAULT_FLATTEN :: flat_options where
  "DEFAULT_FLATTEN = \<lparr>fo_maxDepth = 50, fo_maxEntries = 100000, fo_skipSymlinks = False\<rparr>"

record flat_state =
  fs_files :: "flat_file list"
  fs_entries :: nat
  fs_visited :: "jsstring list"

definition join_path :: "jsstring \<Rightarrow> jsstring \<Rightarrow> jsstring" where
  "join_path base name = (if base \<noteq> [] then base @ [SLASH] @ name else name)"

definition visit :: "jsstring \<Rightarrow> flat_state \<Rightarrow> flat_state" where
  "visit sha st = st\<lparr>fs_visited := sha # fs_visited st\<rparr>"

definition unvisit :: "jsstring \<Rightarrow> flat_state \<Rightarrow> flat_state" where
  "unvisit sha st = st\<lparr>fs_visited := removeAll sha (fs_visited st)\<rparr>"

function (sequential) walk ::
    "platform \<Rightarrow> bucket \<Rightarrow> flat_options \<Rightarrow> jsstring \<Rightarrow> jsstring \<Rightarrow> nat \<Rightarrow> flat_state \<Rightarrow> flat_state res"
  and walk_entries ::
    "platform \<Rightarrow> bucket \<Rightarrow> flat_options \<Rightarrow> tree_entry list \<Rightarrow> jsstring \<Rightarrow> nat \<Rightarrow> flat_state \<Rightarrow> flat_state res" where
  "walk pf b op currentTreeSha currentBasePath depth st =
     (if depth > fo_maxDepth op then Inl (Error ''Tree flatten depth limit exceeded'')
      else if currentTreeSha \<in> set (fs_visited st) then Inr st
      else bind_res (getTreeEntries pf b currentTreeSha) (\<lambda>es.
        case es of
          None \<Rightarrow> Inr (unvisit currentTreeSha (visit currentTreeSha st))
        | Some entries \<Rightarrow>
            bind_res (walk_entries pf b op entries currentBasePath depth (visit currentTreeSha st)) (\<lambda>st'.
              Inr (unvisit currentTreeSha st'))))"
| "walk_entries pf b op [] currentBasePath depth st = Inr st"
| "walk_entries pf b op (e # entries) currentBasePath depth st =
     (let st1 = st\<lparr>fs_entries := Suc (fs_entries st)\<rparr>; fullPath = join_path currentBasePath (te_name e) in
      if fs_entries st1 > fo_maxEntries op then Inl (Error ''Tree flatten entry limit exceeded'')
      else bind_res
        (if is_dir_mode (te_mode e) then walk pf b op (te_sha e) fullPath (Suc depth) st1
         else if te_mode e = MODE_SYMLINK then
           (if fo_skipSymlinks op then Inr st1
            else Inl (Error ''Symlink blob entries are not supported: ''))
         else Inr (st1\<lparr>fs_files := fs_files st1 @
           [\<lparr>ff_path = fullPath, ff_sha = te_sha e, ff_mode = te_mode e\<rparr>]\<rparr>))
        (walk_entries pf b op entries currentBasePath depth))"
  by pat_completeness auto
termination
  by (relation "measures
      [\<lambda>x. (case x of Inl (pf, b, op, sha, p, d, st) \<Rightarrow> if d > fo_maxDepth op then 0 else 2 * (fo_maxDepth op + 1 - d) + 1
            | Inr (pf, b, op, es, p, d, st) \<Rightarrow> if d > fo_maxDepth op then 1 else 2 * (fo_maxDepth op + 1 - d)),
       \<lambda>x. (case x of Inl _ \<Rightarrow> 0 | Inr (pf, b, op, es, p, d, st) \<Rightarrow> length es)]") auto

declare walk.simps [simp del] walk_entries.simps(2) [simp del]

definition flattenTree :: "platform \<Rightarrow> bucket \<Rightarrow> jsstring \<Rightarrow> jsstring \<Rightarrow> flat_options \<Rightarrow> flat_file list res" where
  "flattenTree pf b treeSha basePath op =
     bind_res (walk pf b op treeSha basePath 0 \<lparr>fs_files = [], fs_entries = 0, fs_visited = []\<rparr>)
       (\<lambda>st. Inr (fs_files st))"

section \<open>Changes\<close>

datatype change_operation = Add | Modify | Delete

record tree_change =
  tc_path :: jsstring
  tc_operation :: change_operation
  tc_sha :: "jsstring option"
  tc_mode :: "jsstring option"

definition apply_change :: "tree_change \<Rightarrow> (jsstring, flat_file) js_map \<Rightarrow> (jsstring, flat_file) js_map res" where
  "apply_change change fileMap =
     (if tc_operation change = Delete then Inr (map_del (tc_path change) fileMap)
      else case tc_sha change of
        None \<Rightarrow> Inl (Error ''SHA required for operation'')
      | Some sha \<Rightarrow>
          if sha = [] then Inl (Error ''SHA required for operation'')
          else Inr (map_set (tc_path change)
            \<lparr>ff_path = tc_path change, ff_sha = sha, ff_mode = mode_or_regular (tc_mode change)\<rparr> fileMap))"

definition to_build_file :: "flat_file \<Rightarrow> build_file" where
  "to_build_file f = \<lparr>bf_path = ff_path f, bf_sha = ff_sha f, bf_mode = Some (ff_mode f)\<rparr>"

definition applyTreeChanges :: "platform \<Rightarrow> jsstring \<Rightarrow> tree_change list \<Rightarrow> bucket \<Rightarrow> (jsstring \<times> bucket) res" where
  "applyTreeChanges pf baseTreeSha changes b =
     bind_res (flattenTree pf b baseTreeSha [] DEFAULT_FLATTEN) (\<lambda>files.
     bind_res (fold_res apply_change changes (map_from (map (\<lambda>f. (ff_path f, f)) files))) (\<lambda>fileMap.
       buildTreeFromPaths pf (map (to_build_file \<circ> snd) fileMap) b))"

definition createEmptyTree :: "platform \<Rightarrow> bucket \<Rightarrow> jsstring \<times> bucket" where
  "createEmptyTree pf b = createTree pf [] b"

definition createSingleFileTree :: "platform \<Rightarrow> jsstring \<Rightarrow> bytes \<Rightarrow> bucket \<Rightarrow> jsstring \<times> bucket" where
  "createSingleFileTree pf fileName content b =
     (let (blobSha, b1) = putBlob pf content b in
      createTree pf [\<lparr>te_mode = MODE_REGULAR, te_name = fileName, te_sha = blobSha\<rparr>] b1)"

end
