(* ===== verification/GitTreeBuild.thy ===== *)
theory GitTreeBuild
  imports GitTreeOps "HOL-Library.Sublist"
begin

text \<open>
  Building and flattening trees: a tree built from files is stored with all its subtrees, is
  never an ancestor of itself, and flattens to exactly those files. The proofs follow the
  nested maps of \<open>buildTreeFromPaths\<close>: what is stored for a node, how the walk goes through
  it, and which files adding a path puts into it.
\<close>

section \<open>What a built tree stores\<close>

fun node_entries :: "platform \<Rightarrow> (jsstring \<times> tree_node) list \<Rightarrow> tree_entry list" where
  "node_entries pf [] = []"
| "node_entries pf ((n, Leaf e) # rest) = e # node_entries pf rest"
| "node_entries pf ((n, Node c) # rest) =
     \<lparr>te_mode = MODE_DIRECTORY, te_name = n, te_sha = hashTree (pf_digest pf) (node_entries pf c)\<rparr> #
     node_entries pf rest"

definition tree_id :: "platform \<Rightarrow> (jsstring \<times> tree_node) list \<Rightarrow> jsstring" where
  "tree_id pf m = hashTree (pf_digest pf) (node_entries pf m)"

definition child_entry :: "platform \<Rightarrow> jsstring \<times> tree_node \<Rightarrow> tree_entry" where
  "child_entry pf nc = (case snd nc of Leaf e \<Rightarrow> e
     | Node c \<Rightarrow> \<lparr>te_mode = MODE_DIRECTORY, te_name = fst nc, te_sha = tree_id pf c\<rparr>)"

lemma node_entries_map: "node_entries pf m = map (child_entry pf) m"
  by (induction m rule: node_entries.induct) (auto simp: child_entry_def tree_id_def)

definition name_ok :: "jsstring \<Rightarrow> bool" where
  "name_ok n \<longleftrightarrow> n \<noteq> [] \<and> text_ok n \<and> NUL \<notin> set n"

definition leaf_ok :: "tree_entry \<Rightarrow> bool" where
  "leaf_ok e \<longleftrightarrow> tree_entry_ok e \<and> \<not> is_dir_mode (te_mode e) \<and> te_mode e \<noteq> MODE_SYMLINK"

fun node_ok :: "(jsstring \<times> tree_node) list \<Rightarrow> bool" where
  "node_ok [] = True"
| "node_ok ((n, Leaf e) # rest) = (name_ok n \<and> te_name e = n \<and> leaf_ok e \<and> node_ok rest)"
| "node_ok ((n, Node c) # rest) = (name_ok n \<and> node_ok c \<and> node_ok rest)"

definition child_ok :: "jsstring \<times> tree_node \<Rightarrow> bool" where
  "child_ok nc = (name_ok (fst nc) \<and>
     (case snd nc of Leaf e \<Rightarrow> te_name e = fst nc \<and> leaf_ok e | Node c \<Rightarrow> node_ok c))"

lemma node_ok_all: "node_ok m \<longleftrightarrow> (\<forall>nc \<in> set m. child_ok nc)"
  by (induction m rule: node_ok.induct) (auto simp: child_ok_def)

lemma hashTree_valid: "platform_ok pf \<Longrightarrow> isValidSha (hashTree (pf_digest pf) es)"
  by (simp add: hashTree_def hashObject_loose sha1_valid platform_ok_def)

lemma dir_entry_ok:
  "platform_ok pf \<Longrightarrow> name_ok n \<Longrightarrow> tree_entry_ok \<lparr>te_mode = MODE_DIRECTORY, te_name = n, te_sha = tree_id pf c\<rparr>"
  by (simp add: tree_entry_ok_def name_ok_def tree_id_def hashTree_valid MODE_DIRECTORY_def js_simps
      pad_start_def strip_zeros_def js_ch_def SP_def NUL_def)

lemma child_entry_ok: "platform_ok pf \<Longrightarrow> child_ok nc \<Longrightarrow> tree_entry_ok (child_entry pf nc)"
  by (auto simp: child_ok_def child_entry_def leaf_ok_def dir_entry_ok split: tree_node.splits)

lemma child_entry_name: "child_ok nc \<Longrightarrow> te_name (child_entry pf nc) = fst nc"
  by (auto simp: child_ok_def child_entry_def split: tree_node.splits)

lemma node_entries_ok: "platform_ok pf \<Longrightarrow> node_ok m \<Longrightarrow> list_all tree_entry_ok (node_entries pf m)"
  by (auto simp: node_entries_map list_all_iff node_ok_all child_entry_ok)

text \<open>One store extends another when everything readable stays readable.\<close>

definition store_le :: "platform \<Rightarrow> bucket \<Rightarrow> bucket \<Rightarrow> bool" where
  "store_le pf b b' \<longleftrightarrow>
     (\<forall>sha raw. getRawObject pf b sha = Inr (Some raw) \<longrightarrow> getRawObject pf b' sha = Inr (Some raw))"

lemma store_le_refl [simp]: "store_le pf b b"
  by (simp add: store_le_def)

lemma store_le_trans: "store_le pf b b' \<Longrightarrow> store_le pf b' b'' \<Longrightarrow> store_le pf b b''"
  by (simp add: store_le_def)

lemma store_le_put: "store_le pf b (snd (putBlob pf c b))" "store_le pf b (snd (putTree pf es b))"
  "store_le pf b (snd (putCommit pf cm b))" "store_le pf b (snd (putRawObject pf raw b))"
  by (simp_all add: store_le_def put_keeps_raw)

lemma store_le_object:
  "store_le pf b b' \<Longrightarrow> getObject pf b sha = Inr (Some ob) \<Longrightarrow> getObject pf b' sha = Inr (Some ob)"
  by (auto simp: getObject_def store_le_def res_elims split: option.splits)

lemma getTreeEntries_iff:
  "getTreeEntries pf b sha = Inr (Some es) \<longleftrightarrow>
    (\<exists>c. getObject pf b sha = Inr (Some (js ''tree'', c)) \<and> decodeTree c = es)"
  by (cases "getObject pf b sha") (auto simp: getTreeEntries_def split: option.splits if_splits)

lemma store_le_tree:
  "store_le pf b b' \<Longrightarrow> getTreeEntries pf b sha = Inr (Some es) \<Longrightarrow> getTreeEntries pf b' sha = Inr (Some es)"
  unfolding getTreeEntries_iff using store_le_object by blast

definition tree_stored :: "platform \<Rightarrow> bucket \<Rightarrow> (jsstring \<times> tree_node) list \<Rightarrow> bool" where
  "tree_stored pf b m \<longleftrightarrow>
     getTreeEntries pf b (tree_id pf m) = Inr (Some (sort_key tree_sort_name (node_entries pf m)))"

lemma decode_sorted_tree:
  "list_all tree_entry_ok es \<Longrightarrow> decodeTree (encodeTreeContent es) = sort_key tree_sort_name es"
  using decodeTree_encode_entries [of "sort_key tree_sort_name es"]
  by (simp add: encodeTreeContent_def list_all_iff)

lemma putTree_stored:
  assumes "platform_ok pf" and "content_addressed pf b" and "list_all tree_entry_ok es"
    and "no_collision pf b raws" and "encodeTree es \<in> raws"
  shows "fst (putTree pf es b) = hashTree (pf_digest pf) es \<and>
    getTreeEntries pf (snd (putTree pf es b)) (hashTree (pf_digest pf) es) =
      Inr (Some (sort_key tree_sort_name es))"
  using store_loose_get [OF assms(1,2,4), of "js ''tree''" "encodeTreeContent es"] assms(3,5)
  by (simp add: put_store_raw encodeTree_loose hashTree_def getTreeEntries_def decode_sorted_tree)

lemma putTree_no_collision:
  "platform_ok pf \<Longrightarrow> no_collision pf b raws \<Longrightarrow> encodeTree es \<in> raws \<Longrightarrow>
    no_collision pf (snd (putTree pf es b)) raws"
  unfolding no_collision_def put_store_raw snd_conv
  by (erule inj_on_subset) (use stored_raws_store [of pf "encodeTree es" b] in blast)

text \<open>The encodings of a tree and of its subtrees.\<close>

fun sub_raws :: "platform \<Rightarrow> (jsstring \<times> tree_node) list \<Rightarrow> bytes list" where
  "sub_raws pf [] = []"
| "sub_raws pf ((n, Leaf e) # rest) = sub_raws pf rest"
| "sub_raws pf ((n, Node c) # rest) = encodeTree (node_entries pf c) # sub_raws pf c @ sub_raws pf rest"

definition tree_raws :: "platform \<Rightarrow> (jsstring \<times> tree_node) list \<Rightarrow> bytes list" where
  "tree_raws pf m = encodeTree (node_entries pf m) # sub_raws pf m"

lemma tree_raws_child: "(n, Node c) \<in> set m \<Longrightarrow> set (tree_raws pf c) \<subseteq> set (sub_raws pf m)"
  by (induction pf m rule: sub_raws.induct) (auto simp: tree_raws_def)

fun nodes_stored :: "platform \<Rightarrow> bucket \<Rightarrow> (jsstring \<times> tree_node) list \<Rightarrow> bool" where
  "nodes_stored pf b [] = True"
| "nodes_stored pf b ((n, Leaf e) # rest) = nodes_stored pf b rest"
| "nodes_stored pf b ((n, Node c) # rest) = (nodes_stored pf b c \<and> tree_stored pf b c \<and> nodes_stored pf b rest)"

lemma nodes_stored_all:
  "nodes_stored pf b m \<longleftrightarrow> (\<forall>n c. (n, Node c) \<in> set m \<longrightarrow> nodes_stored pf b c \<and> tree_stored pf b c)"
  by (induction pf b m rule: nodes_stored.induct) auto

lemma nodes_stored_mono: "store_le pf b b' \<Longrightarrow> nodes_stored pf b m \<Longrightarrow> nodes_stored pf b' m"
  by (induction pf b m rule: nodes_stored.induct) (auto simp: tree_stored_def store_le_tree)

lemma create_entries_ok:
  "platform_ok pf \<Longrightarrow> no_collision pf b raws \<Longrightarrow> set (sub_raws pf m) \<subseteq> raws \<Longrightarrow> content_addressed pf b \<Longrightarrow>
    node_ok m \<Longrightarrow> create_entries pf m b = (es, b') \<Longrightarrow>
    es = node_entries pf m \<and> content_addressed pf b' \<and> store_le pf b b' \<and> no_collision pf b' raws \<and>
    nodes_stored pf b' m"
proof (induction pf m b arbitrary: es b' rule: create_entries.induct)
  case (2 pf name e rest b)
  then show ?case by (auto split: prod.splits)
next
  case (3 pf name child rest b)
  obtain ces b1 where c: "create_entries pf child b = (ces, b1)" by fastforce
  obtain sha b2 where t: "putTree pf ces b1 = (sha, b2)" by fastforce
  obtain es' b3 where r: "create_entries pf rest b2 = (es', b3)" by fastforce
  have ok: "node_ok child" "node_ok rest" using "3.prems" by auto
  have raws: "set (sub_raws pf child) \<subseteq> raws" "set (sub_raws pf rest) \<subseteq> raws"
    "encodeTree (node_entries pf child) \<in> raws" using "3.prems"(3) by auto
  note i1 = "3.IH"(1) [OF "3.prems"(1,2) raws(1) "3.prems"(4) ok(1) c]
  have "list_all tree_entry_ok ces" using i1 node_entries_ok "3.prems"(1) ok(1) by blast
  then have s: "sha = tree_id pf child" "tree_stored pf b2 child"
    using putTree_stored [OF "3.prems"(1), of b1 ces raws] i1 t raws(3)
    by (auto simp: tree_id_def tree_stored_def)
  have b2: "content_addressed pf b2" "store_le pf b1 b2" "no_collision pf b2 raws"
    using put_addressed(2) [OF "3.prems"(1), of b1 ces] store_le_put(2) [of pf b1 ces] i1 t
      putTree_no_collision [OF "3.prems"(1), of b1 raws ces] raws(3) by auto
  have i2: "es' = node_entries pf rest \<and> content_addressed pf b3 \<and> store_le pf b2 b3 \<and>
      no_collision pf b3 raws \<and> nodes_stored pf b3 rest"
    by (rule "3.IH"(2) [OF c [symmetric] refl _ refl "3.prems"(1) b2(3) raws(2) b2(1) ok(2)])
      (use t r in \<open>auto simp: createTree_def\<close>)
  have "tree_stored pf b3 child" using s(2) i2 store_le_tree by (auto simp: tree_stored_def)
  moreover have "nodes_stored pf b3 child"
    using i1 i2 b2(2) nodes_stored_mono store_le_trans by blast
  moreover have "store_le pf b b3" using i1 i2 b2(2) store_le_trans by blast
  moreover have "es = \<lparr>te_mode = MODE_DIRECTORY, te_name = name, te_sha = sha\<rparr> # es'" "b' = b3"
    using "3.prems"(6) c t r by (auto simp: createTree_def)
  ultimately show ?case using i2 s(1) by (simp add: tree_id_def)
qed auto

lemma createTreeFromNode_ok:
  assumes "platform_ok pf" and "no_collision pf b (set (tree_raws pf m))" and "content_addressed pf b"
    and "node_ok m" and "createTreeFromNode pf m b = (sha, b')"
  shows "sha = tree_id pf m \<and> content_addressed pf b' \<and> store_le pf b b' \<and> nodes_stored pf b' m \<and>
    tree_stored pf b' m"
proof -
  obtain es b1 where c: "create_entries pf m b = (es, b1)" by fastforce
  have sub: "set (sub_raws pf m) \<subseteq> set (tree_raws pf m)" by (auto simp: tree_raws_def)
  note i = create_entries_ok [OF assms(1,2) sub assms(3,4) c]
  have t: "putTree pf es b1 = (sha, b')" using assms(5) c by (simp add: createTreeFromNode_def createTree_def)
  have "list_all tree_entry_ok es" using i node_entries_ok assms(1,4) by blast
  moreover have "encodeTree es \<in> set (tree_raws pf m)" using i by (simp add: tree_raws_def)
  ultimately show ?thesis
    using putTree_stored [OF assms(1), of b1 es "set (tree_raws pf m)"] put_addressed(2) [OF assms(1), of b1 es]
      store_le_put(2) [of pf b1 es] i t store_le_trans [of pf b b1 b'] nodes_stored_mono [of pf b1 b' m]
    by (auto simp: tree_id_def tree_stored_def tree_raws_def)
qed

section \<open>Walking a stored tree\<close>

fun height :: "(jsstring \<times> tree_node) list \<Rightarrow> nat" where
  "height [] = 0"
| "height ((n, Leaf e) # rest) = height rest"
| "height ((n, Node c) # rest) = max (Suc (height c)) (height rest)"

fun node_count :: "(jsstring \<times> tree_node) list \<Rightarrow> nat" where
  "node_count [] = 0"
| "node_count ((n, Leaf e) # rest) = Suc (node_count rest)"
| "node_count ((n, Node c) # rest) = Suc (node_count c + node_count rest)"

definition flat_of :: "jsstring \<Rightarrow> tree_entry \<Rightarrow> flat_file" where
  "flat_of path e = \<lparr>ff_path = path, ff_sha = te_sha e, ff_mode = te_mode e\<rparr>"

fun leaves :: "jsstring \<Rightarrow> (jsstring \<times> tree_node) list \<Rightarrow> flat_file list" where
  "leaves base [] = []"
| "leaves base ((n, Leaf e) # rest) = flat_of (join_path base n) e # leaves base rest"
| "leaves base ((n, Node c) # rest) = leaves (join_path base n) c @ leaves base rest"

lemma height_le: "height m \<le> h \<longleftrightarrow> (\<forall>n c. (n, Node c) \<in> set m \<longrightarrow> height c < h)"
  by (induction m rule: height.induct) (auto simp: Suc_le_eq)

lemma height_child: "(n, Node c) \<in> set m \<Longrightarrow> height c < height m"
  using height_le [of m "height m"] by blast

lemma node_count_sum: "node_count m = sum_list (map (\<lambda>nc. node_count [nc]) m)"
  by (induction m rule: node_count.induct) auto

lemma leaves_sum: "mset (leaves base m) = sum_list (map (\<lambda>nc. mset (leaves base [nc])) m)"
  by (induction base m rule: leaves.induct) auto

lemma sum_list_perm:
  "mset xs = mset ys \<Longrightarrow> sum_list (map f xs) = sum_list (map (f :: 'a \<Rightarrow> 'b :: comm_monoid_add) ys)"
  by (metis mset_map sum_mset_sum_list)

lemma node_count_perm: "mset m = mset m' \<Longrightarrow> node_count m = node_count m'"
  unfolding node_count_sum [of m] node_count_sum [of m'] by (rule sum_list_perm)

lemma leaves_perm: "mset m = mset m' \<Longrightarrow> mset (leaves base m) = mset (leaves base m')"
  by (subst (1 2) leaves_sum) (rule sum_list_perm)

lemma hashTree_inj:
  assumes "hashTree digest es = hashTree digest es'" and "inj_on digest raws"
    and "encodeTree es \<in> raws" and "encodeTree es' \<in> raws"
    and "list_all tree_entry_ok es" and "list_all tree_entry_ok es'"
  shows "set es = set es'"
proof -
  have "digest (encodeTree es) = digest (encodeTree es')"
    using assms(1) by (simp add: hashTree_def hashObject_loose encodeTree_loose sha1_def bytesToHex_inj)
  then have "encodeTree es = encodeTree es'" using assms(2-4) by (simp add: inj_on_def)
  then have "encodeTreeContent es = encodeTreeContent es'" using loose_object_inj by (simp add: encodeTree_loose)
  then have "sort_key tree_sort_name es = sort_key tree_sort_name es'"
    using decode_sorted_tree [OF assms(5)] decode_sorted_tree [OF assms(6)] by simp
  then show ?thesis by (metis set_sort)
qed

lemma child_entry_simps:
  "child_entry pf (n, Leaf e) = e" "te_name (child_entry pf (n, Node c)) = n"
  "te_sha (child_entry pf (n, Node c)) = tree_id pf c" "is_dir_mode (te_mode (child_entry pf (n, Node c)))"
  by (simp_all add: child_entry_def is_dir_mode_def MODE_DIRECTORY_def)

lemma child_entry_dir:
  assumes "child_ok nc" and "child_entry pf nc = child_entry pf (n, Node c)"
  shows "\<exists>c'. nc = (n, Node c') \<and> node_ok c' \<and> tree_id pf c' = tree_id pf c"
proof (cases "snd nc")
  case (Leaf e)
  then have "\<not> is_dir_mode (te_mode (child_entry pf nc))"
    using assms(1) by (cases nc) (simp add: child_ok_def child_entry_simps leaf_ok_def)
  then show ?thesis by (simp add: assms(2) child_entry_simps)
next
  case (Node c')
  then have nc: "nc = (fst nc, Node c')" by (cases nc) simp
  have "te_name (child_entry pf nc) = n" "te_sha (child_entry pf nc) = tree_id pf c"
    unfolding assms(2) by (simp_all add: child_entry_simps)
  then have "fst nc = n" "tree_id pf c' = tree_id pf c"
    using nc by (metis child_entry_simps(2), metis child_entry_simps(3))
  then show ?thesis using nc assms(1) by (metis Node child_ok_def tree_node.simps(6))
qed

text \<open>A tree is never stored under the id of a tree it contains.\<close>

definition tree_in :: "platform \<Rightarrow> bytes set \<Rightarrow> (jsstring \<times> tree_node) list \<Rightarrow> bool" where
  "tree_in pf raws m \<longleftrightarrow> node_ok m \<and> set (tree_raws pf m) \<subseteq> raws"

lemma tree_in_child: "tree_in pf raws m \<Longrightarrow> (n, Node c) \<in> set m \<Longrightarrow> tree_in pf raws c"
proof -
  assume m: "tree_in pf raws m" and c: "(n, Node c) \<in> set m"
  have "node_ok c" using m bspec [OF iffD1 [OF node_ok_all], OF _ c] by (simp add: tree_in_def child_ok_def)
  then show ?thesis using tree_raws_child [OF c, of pf] m by (auto simp: tree_in_def tree_raws_def)
qed

lemma tree_id_height:
  assumes "platform_ok pf" and "inj_on (pf_digest pf) raws"
  shows "tree_in pf raws m \<Longrightarrow> tree_in pf raws m' \<Longrightarrow> tree_id pf m = tree_id pf m' \<Longrightarrow> height m \<le> height m'"
proof (induction "height m" arbitrary: m m' rule: less_induct)
  case less
  have ok: "node_ok m" "node_ok m'" and raws: "encodeTree (node_entries pf m) \<in> raws"
    "encodeTree (node_entries pf m') \<in> raws"
    using less.prems(1,2) by (simp_all add: tree_in_def tree_raws_def)
  have eq: "set (node_entries pf m) = set (node_entries pf m')"
    by (rule hashTree_inj [OF less.prems(3)[unfolded tree_id_def] assms(2) raws
          node_entries_ok [OF assms(1) ok(1)] node_entries_ok [OF assms(1) ok(2)]])
  show ?case
    unfolding height_le
  proof (intro allI impI)
    fix n c assume c: "(n, Node c) \<in> set m"
    then have "child_entry pf (n, Node c) \<in> set (node_entries pf m)"
      unfolding node_entries_map set_map by (rule imageI)
    then obtain nc where nc: "nc \<in> set m'" "child_entry pf nc = child_entry pf (n, Node c)"
      unfolding eq unfolding node_entries_map set_map by (metis imageE)
    have "child_ok nc" using nc(1) ok(2) node_ok_all by blast
    then obtain c' where c': "nc = (n, Node c')" "tree_id pf c' = tree_id pf c"
      using child_entry_dir [OF _ nc(2)] by blast
    have "height c \<le> height c'"
      by (rule less.hyps [OF height_child [OF c] tree_in_child [OF less.prems(1) c]
            tree_in_child [OF less.prems(2)] c'(2) [symmetric]]) (use nc(1) c'(1) in simp)
    also have "\<dots> < height m'" using nc(1) c'(1) height_child by blast
    finally show "height c < height m'" .
  qed
qed

lemma sort_key_map: "sort_key f (map g xs) = map g (sort_key (\<lambda>x. f (g x)) xs)"
proof -
  have "insort_key f (g x) (map g ys) = map g (insort_key (\<lambda>x. f (g x)) x ys)" for x ys
    by (induction ys) auto
  then show ?thesis by (induction xs) auto
qed

definition walked :: "flat_state \<Rightarrow> flat_file list \<Rightarrow> nat \<Rightarrow> flat_state" where
  "walked st fs k = st\<lparr>fs_entries := fs_entries st + k, fs_files := fs_files st @ fs\<rparr>"

lemma walked_simps [simp]:
  "fs_files (walked st fs k) = fs_files st @ fs" "fs_entries (walked st fs k) = fs_entries st + k"
  "fs_visited (walked st fs k) = fs_visited st" "walked (walked st fs k) fs' k' = walked st (fs @ fs') (k + k')"
  "walked st [] 0 = st"
  by (simp_all add: walked_def)

lemma unvisit_walked:
  "sha \<notin> set (fs_visited st) \<Longrightarrow> unvisit sha (walked (visit sha st) fs k) = walked st fs k"
  by (simp add: unvisit_def walked_def visit_def removeAll_id)

lemma walk_entries_leaf:
  "fs_entries st < fo_maxEntries op \<Longrightarrow> leaf_ok e \<Longrightarrow>
    walk_entries pf b op (e # es) base depth st =
      walk_entries pf b op es base depth (walked st [flat_of (join_path base (te_name e)) e] 1)"
  by (simp add: walk_entries.simps(2) leaf_ok_def Let_def walked_def flat_of_def)

lemma walk_entries_dir:
  "fs_entries st < fo_maxEntries op \<Longrightarrow> is_dir_mode (te_mode e) \<Longrightarrow>
    walk_entries pf b op (e # es) base depth st =
      bind_res (walk pf b op (te_sha e) (join_path base (te_name e)) (Suc depth) (walked st [] 1))
        (walk_entries pf b op es base depth)"
  by (simp add: walk_entries.simps(2) Let_def walked_def)

text \<open>The ids on the way to a tree are those of trees that are higher.\<close>

definition above :: "platform \<Rightarrow> bytes set \<Rightarrow> nat \<Rightarrow> flat_state \<Rightarrow> bool" where
  "above pf raws h st \<longleftrightarrow>
     (\<forall>v \<in> set (fs_visited st). \<exists>m. tree_in pf raws m \<and> v = tree_id pf m \<and> h \<le> height m)"

lemma above_visit: "above pf raws (Suc (height m)) st \<Longrightarrow> tree_in pf raws m \<Longrightarrow> above pf raws (height m) (visit (tree_id pf m) st)"
  unfolding above_def visit_def by (auto dest: Suc_leD)

text \<open>The entry loop, given that the walks of the subtrees are right.\<close>

definition walks :: "platform \<Rightarrow> bytes set \<Rightarrow> bucket \<Rightarrow> flat_options \<Rightarrow> (jsstring \<times> tree_node) list \<Rightarrow> nat \<Rightarrow> bool" where
  "walks pf raws b op c depth \<longleftrightarrow> (\<forall>base st. fs_entries st + node_count c \<le> fo_maxEntries op \<longrightarrow>
     above pf raws (Suc (height c)) st \<longrightarrow>
     (\<exists>fs. walk pf b op (tree_id pf c) base depth st = Inr (walked st fs (node_count c)) \<and>
       mset fs = mset (leaves base c)))"

lemma walk_entries_stored:
  assumes "\<And>n c. (n, Node c) \<in> set cs \<Longrightarrow> walks pf raws b op c (Suc depth) \<and> height c < h"
    and "\<forall>nc \<in> set cs. child_ok nc" and "fs_entries st + node_count cs \<le> fo_maxEntries op"
    and "above pf raws h st"
  shows "\<exists>fs. walk_entries pf b op (map (child_entry pf) cs) base depth st =
      Inr (walked st fs (node_count cs)) \<and> mset fs = mset (leaves base cs)"
  using assms
proof (induction cs arbitrary: st rule: node_count.induct)
  case 1
  then show ?case by simp
next
  case (2 n e cs)
  have e: "te_name e = n" "leaf_ok e" using "2.prems"(2) by (auto simp: child_ok_def)
  let ?st = "walked st [flat_of (join_path base n) e] 1"
  have "above pf raws h ?st" using "2.prems"(4) by (simp add: above_def)
  then obtain fs where fs: "walk_entries pf b op (map (child_entry pf) cs) base depth ?st =
      Inr (walked ?st fs (node_count cs))" "mset fs = mset (leaves base cs)"
    using "2.IH" [of ?st] "2.prems"(1-3) by auto
  have "walk_entries pf b op (map (child_entry pf) ((n, Leaf e) # cs)) base depth st =
      walk_entries pf b op (map (child_entry pf) cs) base depth ?st"
    using "2.prems"(3) e by (simp add: walk_entries_leaf child_entry_simps)
  with fs show ?case by (intro exI [of _ "flat_of (join_path base n) e # fs"]) simp
next
  case (3 n c cs)
  have w: "walks pf raws b op c (Suc depth)" "height c < h" using "3.prems"(1) by auto
  then have ab: "above pf raws (Suc (height c)) (walked st [] 1)"
    using "3.prems"(4) unfolding above_def walked_simps by (meson Suc_leI le_trans)
  have cnt: "fs_entries (walked st [] 1) + node_count c \<le> fo_maxEntries op"
    "fs_entries st < fo_maxEntries op" using "3.prems"(3) by auto
  obtain f1 where f1: "walk pf b op (tree_id pf c) (join_path base n) (Suc depth) (walked st [] 1) =
      Inr (walked (walked st [] 1) f1 (node_count c))" "mset f1 = mset (leaves (join_path base n) c)"
    using w(1) cnt(1) ab unfolding walks_def by blast
  let ?st' = "walked (walked st [] 1) f1 (node_count c)"
  have "above pf raws h ?st'" using "3.prems"(4) by (simp add: above_def)
  moreover have "fs_entries ?st' + node_count cs \<le> fo_maxEntries op" using "3.prems"(3) by simp
  moreover have "\<And>n' c'. (n', Node c') \<in> set cs \<Longrightarrow> walks pf raws b op c' (Suc depth) \<and> height c' < h"
    "\<forall>nc \<in> set cs. child_ok nc" using "3.prems"(1,2) by auto
  ultimately obtain f2 where f2: "walk_entries pf b op (map (child_entry pf) cs) base depth ?st' =
      Inr (walked ?st' f2 (node_count cs))" "mset f2 = mset (leaves base cs)"
    using "3.IH"(2) [of ?st'] by blast
  have "walk_entries pf b op (map (child_entry pf) ((n, Node c) # cs)) base depth st =
      walk_entries pf b op (map (child_entry pf) cs) base depth ?st'"
    using cnt(2) f1(1) by (simp add: walk_entries_dir child_entry_simps del: walked_simps)
  then show ?case using f1(2) f2 by (intro exI [of _ "f1 @ f2"]) simp
qed

lemma walk_stored:
  assumes "platform_ok pf" and "inj_on (pf_digest pf) raws"
  shows "tree_in pf raws m \<Longrightarrow> nodes_stored pf b m \<Longrightarrow> tree_stored pf b m \<Longrightarrow>
    depth + height m \<le> fo_maxDepth op \<Longrightarrow> walks pf raws b op m depth"
proof (induction "height m" arbitrary: m depth rule: less_induct)
  case less
  define cs where "cs = sort_key (\<lambda>nc. tree_sort_name (child_entry pf nc)) m"
  have perm: "mset cs = mset m" by (simp add: cs_def)
  have cs: "set cs = set m" "node_count cs = node_count m" "mset (leaves base cs) = mset (leaves base m)" for base
    using mset_eq_setD [OF perm] node_count_perm [OF perm] leaves_perm [OF perm] by auto
  have children: "walks pf raws b op c (Suc depth) \<and> height c < height m" if "(n, Node c) \<in> set cs" for n c
  proof -
    have c: "(n, Node c) \<in> set m" using that cs by simp
    have "nodes_stored pf b c" "tree_stored pf b c"
      using less.prems(2) c nodes_stored_all by blast+
    then show ?thesis
      using less.hyps [OF height_child [OF c] tree_in_child [OF less.prems(1) c], of "Suc depth"]
        height_child [OF c] less.prems(4)
      by simp
  qed
  have entries: "getTreeEntries pf b (tree_id pf m) = Inr (Some (map (child_entry pf) cs))"
    using less.prems(3) by (simp add: tree_stored_def node_entries_map sort_key_map cs_def)
  show ?case
    unfolding walks_def
  proof (intro allI impI)
    fix base st
    assume cnt: "fs_entries st + node_count m \<le> fo_maxEntries op" and ab: "above pf raws (Suc (height m)) st"
    have fresh: "tree_id pf m \<notin> set (fs_visited st)"
    proof
      assume "tree_id pf m \<in> set (fs_visited st)"
      then obtain m' where "tree_in pf raws m'" "tree_id pf m' = tree_id pf m" "Suc (height m) \<le> height m'"
        using ab unfolding above_def by metis
      then show False using tree_id_height [OF assms, of m' m] less.prems(1) by simp
    qed
    have ab': "above pf raws (height m) (visit (tree_id pf m) st)"
      using above_visit [OF ab less.prems(1)] .
    have cnt': "fs_entries (visit (tree_id pf m) st) + node_count cs \<le> fo_maxEntries op"
      using cnt by (simp add: visit_def cs)
    have ok: "\<forall>nc \<in> set cs. child_ok nc" using less.prems(1) by (simp add: tree_in_def node_ok_all cs)
    have "\<exists>fs. walk_entries pf b op (map (child_entry pf) cs) base depth (visit (tree_id pf m) st) =
        Inr (walked (visit (tree_id pf m) st) fs (node_count cs)) \<and> mset fs = mset (leaves base cs)"
      by (rule walk_entries_stored [OF children ok cnt' ab'])
    then show "\<exists>fs. walk pf b op (tree_id pf m) base depth st = Inr (walked st fs (node_count m)) \<and>
        mset fs = mset (leaves base m)"
      unfolding cs using entries fresh less.prems(4) by (auto simp: walk.simps unvisit_walked)
  qed
qed

lemma flattenTree_stored:
  assumes "platform_ok pf" and "inj_on (pf_digest pf) (set (tree_raws pf m))"
    and "node_ok m" and "nodes_stored pf b m" and "tree_stored pf b m"
    and "height m \<le> fo_maxDepth op" and "node_count m \<le> fo_maxEntries op"
  shows "\<exists>fs. flattenTree pf b (tree_id pf m) base op = Inr fs \<and> mset fs = mset (leaves base m)"
  using walk_stored [OF assms(1,2) _ assms(4,5), of 0 op] assms(3,6,7)
  unfolding flattenTree_def walks_def
  by (auto dest!: spec [of _ base] spec [of _ "\<lparr>fs_files = [], fs_entries = 0, fs_visited = []\<rparr>"]
      simp: above_def tree_in_def)

section \<open>The files of a built tree\<close>

fun node_paths :: "(jsstring \<times> tree_node) list \<Rightarrow> (jsstring list \<times> tree_entry) list" where
  "node_paths [] = []"
| "node_paths ((n, Leaf e) # rest) = ([n], e) # node_paths rest"
| "node_paths ((n, Node c) # rest) = map (\<lambda>(p, e). (n # p, e)) (node_paths c) @ node_paths rest"

lemma node_paths_Leaf: "(n, Leaf e) \<in> set m \<Longrightarrow> ([n], e) \<in> set (node_paths m)"
  by (induction m rule: node_paths.induct) auto

lemma node_paths_Node: "(n, Node c) \<in> set m \<Longrightarrow> (p, e) \<in> set (node_paths c) \<Longrightarrow> (n # p, e) \<in> set (node_paths m)"
  by (induction m rule: node_paths.induct) force+

lemma node_paths_sum: "mset (node_paths m) = sum_list (map (\<lambda>nc. mset (node_paths [nc])) m)"
  by (induction m rule: node_paths.induct) auto

lemma node_paths_neq_Nil: "(p, e) \<in> set (node_paths m) \<Longrightarrow> p \<noteq> []"
  by (induction m arbitrary: p rule: node_paths.induct) auto

definition path_of :: "jsstring \<Rightarrow> jsstring list \<Rightarrow> jsstring" where
  "path_of base p = (if base = [] then js_join [SLASH] p else base @ [SLASH] @ js_join [SLASH] p)"

lemma path_of_Cons: "n \<noteq> [] \<Longrightarrow> p \<noteq> [] \<Longrightarrow> path_of base (n # p) = path_of (join_path base n) p"
  by (cases p) (auto simp: path_of_def join_path_def)

lemma leaves_paths:
  "node_ok m \<Longrightarrow> leaves base m = map (\<lambda>(p, e). flat_of (path_of base p) e) (node_paths m)"
proof (induction base m rule: leaves.induct)
  case (2 base n e rest)
  then show ?case by (simp add: path_of_def join_path_def)
next
  case (3 base n c rest)
  have "flat_of (path_of (join_path base n) p) e = flat_of (path_of base (n # p)) e"
    if "(p, e) \<in> set (node_paths c)" for p e
    using 3 node_paths_neq_Nil [OF that] by (simp add: path_of_Cons name_ok_def)
  with 3 show ?case by (auto simp: comp_def)
qed simp

lemma set_map_set: "set (map_set k v m) \<subseteq> insert (k, v) (set m)"
proof -
  have "set (AList.update k v m) \<subseteq> insert (k, v) (set m)" by (induction m) auto
  then show ?thesis by (simp add: map_set_def)
qed

lemma map_set_sum:
  fixes f :: "'k \<times> 'v \<Rightarrow> 'b :: comm_monoid_add"
  shows "map_get m k = Some old \<Longrightarrow>
      sum_list (map f (map_set k v m)) + f (k, old) = sum_list (map f m) + f (k, v)"
    and "map_get m k = None \<Longrightarrow> sum_list (map f (map_set k v m)) = sum_list (map f m) + f (k, v)"
  by (induction m) (auto simp: map_get_def map_set_def ac_simps split: if_splits)

lemma node_ok_set: "node_ok m \<Longrightarrow> child_ok (n, c) \<Longrightarrow> node_ok (map_set n c m)"
  using set_map_set [of n c m] by (auto simp: node_ok_all)

lemma node_ok_get: "node_ok m \<Longrightarrow> map_get m n = Some c \<Longrightarrow> child_ok (n, c)"
  using map_get_Some_in [of m n c] by (simp add: node_ok_all)

text \<open>No path is a prefix of the other: neither overwrites or runs into the other.\<close>

definition apart :: "jsstring list \<Rightarrow> jsstring list \<Rightarrow> bool" where
  "apart p q \<longleftrightarrow> \<not> prefix p q \<and> \<not> prefix q p"

definition paths1 :: "jsstring \<times> tree_node \<Rightarrow> (jsstring list \<times> tree_entry) multiset" where
  "paths1 nc = mset (node_paths [nc])"

lemma node_paths_sum1: "mset (node_paths m) = sum_list (map paths1 m)"
  unfolding node_paths_sum [of m] by (rule arg_cong [where f = sum_list]) (simp add: paths1_def)

lemma set_paths:
  "mset (node_paths (map_set n c m)) + (case map_get m n of None \<Rightarrow> {#} | Some old \<Rightarrow> paths1 (n, old)) =
    mset (node_paths m) + paths1 (n, c)"
  unfolding node_paths_sum1
  by (cases "map_get m n") (simp_all add: map_set_sum)

definition added :: "jsstring list \<Rightarrow> tree_entry \<Rightarrow> (jsstring \<times> tree_node) list \<Rightarrow> (jsstring \<times> tree_node) list \<Rightarrow> bool" where
  "added segs e m m' \<longleftrightarrow> node_ok m' \<and> mset (node_paths m') = add_mset (segs, e) (mset (node_paths m)) \<and>
     height m' \<le> max (height m) (length segs - 1) \<and> node_count m' \<le> node_count m + length segs"

lemma paths1_simps:
  "paths1 (n, Leaf e) = {#([n], e)#}" "paths1 (n, Node c) = image_mset (\<lambda>(p, e). (n # p, e)) (mset (node_paths c))"
  by (simp_all add: paths1_def)

lemma height_set: "height (map_set n c m) \<le> max (height m) (height [(n, c)])"
  unfolding height_le
proof (intro allI impI)
  fix n' c' assume "(n', Node c') \<in> set (map_set n c m)"
  then consider "(n', Node c') \<in> set m" | "n' = n" "c = Node c'" using set_map_set [of n c m] by auto
  then show "height c' < max (height m) (height [(n, c)])"
    by cases (auto dest: height_child simp: max.strict_coboundedI1 less_max_iff_disj)
qed

definition count1 :: "jsstring \<times> tree_node \<Rightarrow> nat" where
  "count1 nc = node_count [nc]"

lemma node_count_sum1: "node_count m = sum_list (map count1 m)"
  unfolding node_count_sum [of m] by (rule arg_cong [where f = sum_list]) (simp add: count1_def)

lemma count_set:
  "node_count (map_set n c m) + (case map_get m n of None \<Rightarrow> 0 | Some old \<Rightarrow> count1 (n, old)) =
    node_count m + count1 (n, c)"
  unfolding node_count_sum1
  by (cases "map_get m n") (simp_all add: map_set_sum)

lemma count1_simps: "count1 (n, Leaf e) = 1" "count1 (n, Node c) = Suc (node_count c)"
  by (simp_all add: count1_def)

lemma apart_get:
  assumes "\<forall>(p, x) \<in> set (node_paths m). apart p segs" and "map_get m n = Some c"
  shows "case c of Leaf x \<Rightarrow> apart [n] segs | Node c' \<Rightarrow> \<forall>(p, x) \<in> set (node_paths c'). apart (n # p) segs"
  using assms node_paths_Leaf node_paths_Node map_get_Some_in [OF assms(2)]
  by (cases c) fastforce+

lemma added_file:
  assumes "leaf_ok e" and "name_ok n" and "te_name e = n" and "node_ok m"
    and "\<forall>(p, x) \<in> set (node_paths m). apart p [n]"
  shows "added [n] e m (map_set n (Leaf e) m)"
  unfolding added_def
proof (intro conjI)
  have empty: "paths1 (n, old) = {#}" if "map_get m n = Some old" for old
  proof (cases old)
    case (Leaf x)
    then show ?thesis using apart_get [OF assms(5) that] by (simp add: apart_def)
  next
    case (Node c)
    then have "\<forall>x \<in> set (node_paths c). False" using apart_get [OF assms(5) that] by (auto simp: apart_def)
    then have "node_paths c = []" by (cases "node_paths c") (auto simp del: split_paired_All)
    then show ?thesis by (simp add: Node paths1_simps)
  qed
  show "node_ok (map_set n (Leaf e) m)"
    by (rule node_ok_set) (use assms in \<open>simp_all add: child_ok_def\<close>)
  show "mset (node_paths (map_set n (Leaf e) m)) = add_mset ([n], e) (mset (node_paths m))"
    using set_paths [of n "Leaf e" m] empty by (simp add: paths1_simps split: option.splits)
  show "height (map_set n (Leaf e) m) \<le> max (height m) (length [n] - 1)"
    using height_set [of n "Leaf e" m] by simp
  show "node_count (map_set n (Leaf e) m) \<le> node_count m + length [n]"
    using count_set [of n "Leaf e" m] by (simp add: count1_simps split: option.splits)
qed

lemma added_below:
  assumes "name_ok n" and "node_ok m" and "map_get m n = None \<and> c = [] \<or> map_get m n = Some (Node c)"
    and "added segs e c c'" and "segs \<noteq> []"
  shows "added (n # segs) e m (map_set n (Node c') m)"
  unfolding added_def
proof (intro conjI)
  show "node_ok (map_set n (Node c') m)"
    by (rule node_ok_set) (use assms in \<open>simp_all add: child_ok_def added_def\<close>)
  show "mset (node_paths (map_set n (Node c') m)) = add_mset (n # segs, e) (mset (node_paths m))"
    using set_paths [of n "Node c'" m] assms(3,4) by (elim disjE) (simp_all add: added_def paths1_simps)
  have "Suc (height c) \<le> max (height m) (Suc 0)"
    using assms(3) by (elim disjE) (auto dest!: map_get_Some_in height_child)
  then show "height (map_set n (Node c') m) \<le> max (height m) (length (n # segs) - 1)"
    using height_set [of n "Node c'" m] assms(4,5) by (cases segs) (auto simp: added_def)
  show "node_count (map_set n (Node c') m) \<le> node_count m + length (n # segs)"
    using count_set [of n "Node c'" m] assms(3,4) by (elim disjE) (simp_all add: added_def count1_simps)
qed

lemma add_file_ok:
  assumes "leaf_ok e"
  shows "list_all name_ok segs \<Longrightarrow> segs \<noteq> [] \<Longrightarrow> te_name e = last segs \<Longrightarrow> node_ok m \<Longrightarrow>
    \<forall>(p, x) \<in> set (node_paths m). apart p segs \<Longrightarrow> \<exists>m'. add_file segs e m = Inr m' \<and> added segs e m m'"
  using assms
proof (induction segs e m rule: add_file.induct)
  case (2 n e m)
  then show ?case using added_file [of e n m] by simp
next
  case (3 n q segs e m)
  have get: "\<exists>c. (if map_has m n then map_get m n else Some (Node [])) = Some (Node c) \<and>
    (map_get m n = None \<and> c = [] \<or> map_get m n = Some (Node c))"
  proof (cases "map_get m n")
    case None
    then show ?thesis by (simp add: map_has_get)
  next
    case (Some ch)
    then show ?thesis using apart_get [OF "3.prems"(5) Some]
      by (cases ch) (simp_all add: map_has_get apart_def)
  qed
  then obtain c where c: "(if map_has m n then map_get m n else Some (Node [])) = Some (Node c)"
    "map_get m n = None \<and> c = [] \<or> map_get m n = Some (Node c)" by blast
  from c(2) have ok: "node_ok c \<and> (\<forall>(p, x) \<in> set (node_paths c). apart p (q # segs))"
  proof
    assume "map_get m n = Some (Node c)"
    from node_ok_get [OF "3.prems"(4) this] apart_get [OF "3.prems"(5) this]
    show ?thesis by (simp add: child_ok_def apart_def case_prod_beta)
  qed simp
  obtain c' where c': "add_file (q # segs) e c = Inr c'" "added (q # segs) e c c'"
    using "3.IH" [OF c(1) refl] "3.prems" ok by auto
  have "added (n # q # segs) e m (map_set n (Node c') m)"
    by (rule added_below [OF _ "3.prems"(4) c(2) c'(2)]) (use "3.prems"(1) in simp_all)
  then show ?case using c(1) c'(1) by simp
qed simp

section \<open>Building from files\<close>

definition build_entry :: "build_file \<Rightarrow> tree_entry" where
  "build_entry f =
     \<lparr>te_mode = mode_or_regular (bf_mode f), te_name = last (js_split SLASH (bf_path f)), te_sha = bf_sha f\<rparr>"

text \<open>A file whose path is valid and kept by \<open>trim\<close>, with text names, an id and a file mode.\<close>

definition build_file_ok :: "build_file \<Rightarrow> bool" where
  "build_file_ok f \<longleftrightarrow> isValidGitPath (bf_path f) \<and> js_trim (bf_path f) = bf_path f \<and>
     list_all text_ok (js_split SLASH (bf_path f)) \<and> leaf_ok (build_entry f)"

definition segments :: "build_file \<Rightarrow> jsstring list" where
  "segments f = js_split SLASH (bf_path f)"

definition files_ok :: "build_file list \<Rightarrow> bool" where
  "files_ok files \<longleftrightarrow> list_all build_file_ok files \<and> sorted_wrt apart (map segments files)"

lemma build_file_names: "build_file_ok f \<Longrightarrow> list_all name_ok (segments f)"
  by (auto simp: build_file_ok_def segments_def isValidGitPath_def list_all_iff name_ok_def
      isValidGitPathSegment_def split: if_splits)

lemma add_build_file_eq:
  "build_file_ok f \<Longrightarrow> add_build_file f m = add_file (segments f) (build_entry f) m"
  by (simp add: add_build_file_def assertValidGitPath_def build_file_ok_def build_entry_def segments_def Let_def)

lemma add_files_ok:
  "files_ok files \<Longrightarrow> node_ok m \<Longrightarrow> \<forall>(p, x) \<in> set (node_paths m). \<forall>f \<in> set files. apart p (segments f) \<Longrightarrow>
    \<exists>m'. fold_res add_build_file files m = Inr m' \<and> node_ok m' \<and>
      mset (node_paths m') = mset (node_paths m) + mset (map (\<lambda>f. (segments f, build_entry f)) files) \<and>
      (\<forall>h. height m \<le> h \<longrightarrow> (\<forall>f \<in> set files. length (segments f) \<le> Suc h) \<longrightarrow> height m' \<le> h) \<and>
      node_count m' \<le> node_count m + sum_list (map (length \<circ> segments) files)"
proof (induction files arbitrary: m)
  case Nil
  then show ?case by auto
next
  case (Cons f files)
  have f: "build_file_ok f" "files_ok files" "\<forall>g \<in> set files. apart (segments f) (segments g)"
    using Cons.prems(1) by (auto simp: files_ok_def)
  have "leaf_ok (build_entry f)" "segments f \<noteq> []" "te_name (build_entry f) = last (segments f)"
    using f(1) by (simp_all add: build_file_ok_def segments_def build_entry_def)
  then obtain m1 where m1: "add_file (segments f) (build_entry f) m = Inr m1" "added (segments f) (build_entry f) m m1"
    using add_file_ok [OF _ build_file_names [OF f(1)], of "build_entry f" m] Cons.prems(2,3) by auto
  have paths: "set (node_paths m1) = insert (segments f, build_entry f) (set (node_paths m))"
    using m1(2) unfolding added_def by (metis set_mset_mset set_mset_add_mset_insert)
  have n1: "node_ok m1" using m1(2) by (simp add: added_def)
  have a1: "\<forall>(p, x) \<in> set (node_paths m1). \<forall>g \<in> set files. apart p (segments g)"
    unfolding paths using Cons.prems(3) f(3) by (simp add: case_prod_beta)
  obtain m' where m': "fold_res add_build_file files m1 = Inr m'" "node_ok m'"
    "mset (node_paths m') = mset (node_paths m1) + mset (map (\<lambda>f. (segments f, build_entry f)) files)"
    "\<And>h. height m1 \<le> h \<Longrightarrow> (\<forall>f \<in> set files. length (segments f) \<le> Suc h) \<Longrightarrow> height m' \<le> h"
    "node_count m' \<le> node_count m1 + sum_list (map (length \<circ> segments) files)"
    using Cons.IH [OF f(2) n1 a1] by blast
  have "height m1 \<le> h" if "height m \<le> h" "length (segments f) \<le> Suc h" for h
    using m1(2) that by (auto simp: added_def)
  then show ?case
    using m' m1 by (auto simp: add_build_file_eq [OF f(1)] added_def comp_def)
qed

definition flat_build_file :: "build_file \<Rightarrow> flat_file" where
  "flat_build_file f = \<lparr>ff_path = bf_path f, ff_sha = bf_sha f, ff_mode = mode_or_regular (bf_mode f)\<rparr>"

definition build_raws :: "platform \<Rightarrow> build_file list \<Rightarrow> bytes list" where
  "build_raws pf files = (case fold_res add_build_file files [] of Inl e \<Rightarrow> [] | Inr m \<Rightarrow> tree_raws pf m)"

lemma build_flatten:
  assumes "platform_ok pf" and "content_addressed pf b" and "no_collision pf b (set (build_raws pf files))"
    and "files_ok files" and "\<forall>f \<in> set files. length (segments f) \<le> Suc (fo_maxDepth op)"
    and "sum_list (map (length \<circ> segments) files) \<le> fo_maxEntries op"
  shows "\<exists>sha b' fs. buildTreeFromPaths pf files b = Inr (sha, b') \<and> content_addressed pf b' \<and>
    store_le pf b b' \<and> flattenTree pf b' sha [] op = Inr fs \<and> mset fs = mset (map flat_build_file files)"
proof -
  obtain m where m: "fold_res add_build_file files [] = Inr m" "node_ok m"
    "mset (node_paths m) = mset (map (\<lambda>f. (segments f, build_entry f)) files)"
    "\<forall>h. (\<forall>f \<in> set files. length (segments f) \<le> Suc h) \<longrightarrow> height m \<le> h"
    "node_count m \<le> sum_list (map (length \<circ> segments) files)"
    using add_files_ok [OF assms(4), of "[]"] by auto
  obtain sha b' where c: "createTreeFromNode pf m b = (sha, b')" by fastforce
  have nc: "no_collision pf b (set (tree_raws pf m))" using assms(3) m(1) by (simp add: build_raws_def)
  note s = createTreeFromNode_ok [OF assms(1) nc assms(2) m(2) c]
  have inj: "inj_on (pf_digest pf) (set (tree_raws pf m))"
    using nc unfolding no_collision_def by (rule inj_on_subset) simp
  have "height m \<le> fo_maxDepth op" "node_count m \<le> fo_maxEntries op" using m(4,5) assms(5,6) by auto
  then obtain fs where fs: "flattenTree pf b' sha [] op = Inr fs" "mset fs = mset (leaves [] m)"
    using flattenTree_stored [OF assms(1) inj m(2)] s by blast
  have "mset (leaves [] m) = image_mset (\<lambda>(p, e). flat_of (path_of [] p) e) (mset (node_paths m))"
    by (simp add: leaves_paths [OF m(2)])
  also have "\<dots> = mset (map (\<lambda>f. flat_of (path_of [] (segments f)) (build_entry f)) files)"
    unfolding m(3) mset_map [symmetric] by (simp add: comp_def del: mset_map)
  also have "(\<lambda>f. flat_of (path_of [] (segments f)) (build_entry f)) = flat_build_file"
    by (simp add: fun_eq_iff flat_of_def path_of_def segments_def build_entry_def flat_build_file_def)
  finally show ?thesis using m(1) c s fs by (simp add: buildTreeFromPaths_def)
qed

section \<open>Properties\<close>

text \<open>C25: Building a tree from files and flattening it gives back exactly those files: for valid
  paths of which none runs into another, within the depth and entry limits, and where the digest
  tells the trees involved apart, the build succeeds, keeps the store content-addressed and all that
  was in it, and the flattened tree has every file with its id and mode and no other.\<close>

theorem build_flatten_roundtrip:
  assumes "platform_ok pf" and "content_addressed pf b" and "files_ok files"
    and "no_collision pf b (set (build_raws pf files))"
    and "\<forall>f \<in> set files. length (segments f) \<le> 51"
    and "sum_list (map (length \<circ> segments) files) \<le> 100000"
  shows "\<exists>sha b' fs. buildTreeFromPaths pf files b = Inr (sha, b') \<and> content_addressed pf b' \<and>
    store_le pf b b' \<and> flattenTree pf b' sha [] DEFAULT_FLATTEN = Inr fs \<and>
    mset fs = mset (map flat_build_file files)"
  by (rule build_flatten [OF assms(1,2,4,3)]) (use assms(5,6) in \<open>simp_all add: DEFAULT_FLATTEN_def\<close>)

definition two_files :: "build_file list" where
  "two_files =
     [\<lparr>bf_path = js ''d/a'', bf_sha = replicate 40 97, bf_mode = None\<rparr>,
      \<lparr>bf_path = js ''b'', bf_sha = replicate 40 98, bf_mode = Some (js ''100755'')\<rparr>]"

lemma two_files_ok: "files_ok two_files"
  by (simp add: files_ok_def two_files_def segments_def SLASH_def js_simps apart_def build_file_ok_def
      isValidGitPath_def isValidGitPathSegment_def MAX_GIT_PATH_LENGTH_def hasControlChars_def NUL_def
      js_starts_with_def js_ends_with_def js_includes_def js_ch_def js_trim_def js_ws_def text_ok_def
      hi_surr_def lo_surr_def build_entry_def leaf_ok_def tree_entry_ok_def mode_or_regular_def
      MODE_REGULAR_def MODE_SYMLINK_def is_dir_mode_def pad_start_def strip_zeros_def SP_def
      isValidSha_def is_lower_hex_def list_all_iff)

lemma length_encodeTreeContent: "length (encodeTreeContent es) = sum_list (map (\<lambda>e. length (encode_tree_entry e)) es)"
proof -
  have "length (encodeTreeContent es) = sum_list (map (\<lambda>e. length (encode_tree_entry e)) (sort_key tree_sort_name es))"
    by (simp add: encodeTreeContent_def length_concat comp_def)
  then show ?thesis by (simp add: sum_list_perm [of "sort_key tree_sort_name es" es])
qed

lemma encodeTree_head:
  assumes "length (encodeTreeContent es) = n" and "map (ucast :: unit16 \<Rightarrow> byte) (nat_str n) = [a, b]"
  shows "take 7 (len_digest (encodeTree es)) = [116, 114, 101, 101, 32, a, b]"
proof -
  have "ascii (js ''tree'' @ js '' '' @ nat_str n @ [NUL])" by (simp add: js_simps NUL_def)
  then show ?thesis
    using assms(2) by (simp add: len_digest_def encodeTree_loose loose_object_def assms(1) utf8_encode_ascii js_simps)
qed

lemma length_digests:
  assumes "length (encodeTreeContent es) = 29" and "length (encodeTreeContent es') = 57"
  shows "len_digest (encodeTree es) \<noteq> len_digest (encodeTree es')"
proof
  assume eq: "len_digest (encodeTree es) = len_digest (encodeTree es')"
  have "map (ucast :: unit16 \<Rightarrow> byte) (nat_str 29) = [50, 57]" "map (ucast :: unit16 \<Rightarrow> byte) (nat_str 57) = [53, 55]"
    by (simp_all add: nat_str_def radix_str.simps digit_char_def)
  from encodeTree_head [OF assms(1) this(1)] encodeTree_head [OF assms(2) this(2)] eq show False by simp
qed

lemma inj_on_pair: "f x \<noteq> f y \<Longrightarrow> inj_on f {x, y}"
  by (auto simp: inj_on_def)

lemma two_files_root: "fold_res add_build_file two_files [] = Inr
    [(js ''d'', Node [(js ''a'', Leaf \<lparr>te_mode = js ''100644'', te_name = js ''a'', te_sha = replicate 40 97\<rparr>)]),
     (js ''b'', Leaf \<lparr>te_mode = js ''100755'', te_name = js ''b'', te_sha = replicate 40 98\<rparr>)]"
  using two_files_ok
  by (simp add: files_ok_def two_files_def add_build_file_eq segments_def SLASH_def js_simps build_entry_def
      mode_or_regular_def MODE_REGULAR_def map_set_def map_has_def map_get_def)

lemma two_files_apart: "no_collision test_platform [] (set (build_raws test_platform two_files))"
proof -
  let ?a = "[\<lparr>te_mode = js ''100644'', te_name = js ''a'', te_sha = replicate 40 97\<rparr>]"
  let ?r = "\<lambda>sha. [\<lparr>te_mode = MODE_DIRECTORY, te_name = js ''d'', te_sha = sha\<rparr>,
    \<lparr>te_mode = js ''100755'', te_name = js ''b'', te_sha = replicate 40 98\<rparr>]"
  let ?sha = "hashTree len_digest ?a"
  have raws: "build_raws test_platform two_files = [encodeTree (?r ?sha), encodeTree ?a]"
    by (simp add: build_raws_def two_files_root tree_raws_def test_platform_def)
  have "length ?sha = 40" using hashTree_valid [OF test_platform_ok, of ?a]
    by (simp add: isValidSha_def test_platform_def)
  then have "length (encodeTreeContent ?a) = 29" "length (encodeTreeContent (?r ?sha)) = 57"
    by (simp_all add: length_encodeTreeContent encode_tree_entry_def strip_zeros_def js_simps js_ch_def
        MODE_DIRECTORY_def utf8_encode_ascii SP_def NUL_def)
  then have "inj_on len_digest {encodeTree (?r ?sha), encodeTree ?a}"
    by (intro inj_on_pair) (rule length_digests [symmetric])
  moreover have "pf_digest test_platform = len_digest" by (simp add: test_platform_def)
  ultimately show ?thesis unfolding raws no_collision_Nil by (simp only: list.set)
qed

theorem build_flatten_roundtrip_witness:
  "\<exists>sha b' fs. buildTreeFromPaths test_platform two_files [] = Inr (sha, b') \<and>
    flattenTree test_platform b' sha [] DEFAULT_FLATTEN = Inr fs \<and>
    mset fs = {#\<lparr>ff_path = js ''d/a'', ff_sha = replicate 40 97, ff_mode = js ''100644''\<rparr>,
      \<lparr>ff_path = js ''b'', ff_sha = replicate 40 98, ff_mode = js ''100755''\<rparr>#}"
  using build_flatten_roundtrip [OF test_platform_ok addressed_Nil two_files_ok two_files_apart]
  by (auto simp: two_files_def segments_def SLASH_def js_simps flat_build_file_def mode_or_regular_def
      MODE_REGULAR_def)

lemma map_set_overwrite: "map_set k v (map_set k v' m) = map_set k v m"
  by (induction m) (auto simp: map_set_def)

lemma add_file_overwrite:
  "add_file segs e m = Inr m' \<Longrightarrow> add_file segs e' m' = add_file segs e' m"
proof (induction segs e m arbitrary: m' rule: add_file.induct)
  case (2 n e m)
  then show ?case by (auto simp: map_set_overwrite)
next
  case (3 n q segs e m)
  obtain c c' where c: "(if map_has m n then map_get m n else Some (Node [])) = Some (Node c)"
    "add_file (q # segs) e c = Inr c'" "m' = map_set n (Node c') m"
    using "3.prems" by (auto simp: res_elims split: option.splits tree_node.splits)
  have "add_file (q # segs) e' c' = add_file (q # segs) e' c" by (rule "3.IH" [OF c(1) refl c(2)])
  then show ?case using c(1) by (simp add: c(3) map_has_get map_set_overwrite)
qed auto

lemma add_file_fails: "add_file segs e m = Inl x \<Longrightarrow> add_file segs e' m = Inl x"
  by (induction segs e m arbitrary: x rule: add_file.induct)
    (auto simp: res_elims split: option.splits tree_node.splits)

text \<open>Two paths that differ only in white space around them are one path: of two such files in a
  row the first leaves no trace, whatever its id and mode. A flattened tree that has both, as trees
  written by git may, loses one of them when it is rebuilt.\<close>

theorem build_trims_paths:
  assumes "js_trim (bf_path f) = js_trim (bf_path g)"
  shows "buildTreeFromPaths pf (fs @ f # g # gs) b = buildTreeFromPaths pf (fs @ g # gs) b"
proof -
  have same: "assertValidGitPath (bf_path f) = assertValidGitPath (bf_path g)"
    using assms by (simp add: assertValidGitPath_def)
  have "bind_res (add_build_file f m) (add_build_file g) = add_build_file g m" for m
  proof (cases "assertValidGitPath (bf_path g)")
    case (Inl x)
    then show ?thesis by (simp add: add_build_file_def same)
  next
    case (Inr p)
    define e e' where "e = \<lparr>te_mode = mode_or_regular (bf_mode f), te_name = last (js_split SLASH p), te_sha = bf_sha f\<rparr>"
      and "e' = \<lparr>te_mode = mode_or_regular (bf_mode g), te_name = last (js_split SLASH p), te_sha = bf_sha g\<rparr>"
    have "add_build_file f m = add_file (js_split SLASH p) e m" "add_build_file g m' = add_file (js_split SLASH p) e' m'" for m m'
      by (simp_all add: add_build_file_def same Inr e_def e'_def Let_def)
    note add = this
    show ?thesis
    proof (cases "add_file (js_split SLASH p) e m")
      case (Inl x)
      then show ?thesis unfolding add by (simp add: add_file_fails [OF Inl])
    next
      case (Inr m')
      then show ?thesis unfolding add by (simp add: add_file_overwrite [OF Inr])
    qed
  qed
  then have "bind_res (add_build_file f m) (fold_res add_build_file (g # gs)) = fold_res add_build_file (g # gs) m" for m
    by (cases "add_build_file f m") (metis bind_res.simps fold_res.simps(2))+
  then have "fold_res add_build_file (f # g # gs) = fold_res add_build_file (g # gs)"
    unfolding fun_eq_iff fold_res.simps(2) [of _ f] by (rule allI)
  then show ?thesis unfolding buildTreeFromPaths_def fold_res_append by (simp only:)
qed

theorem build_trims_paths_witness:
  "buildTreeFromPaths test_platform
     [\<lparr>bf_path = js ''a '', bf_sha = replicate 40 97, bf_mode = None\<rparr>,
      \<lparr>bf_path = js ''a'', bf_sha = replicate 40 98, bf_mode = None\<rparr>] [] =
   buildTreeFromPaths test_platform [\<lparr>bf_path = js ''a'', bf_sha = replicate 40 98, bf_mode = None\<rparr>] []"
  using build_trims_paths [of "\<lparr>bf_path = js ''a '', bf_sha = replicate 40 97, bf_mode = None\<rparr>"
      "\<lparr>bf_path = js ''a'', bf_sha = replicate 40 98, bf_mode = None\<rparr>" test_platform "[]" "[]" "[]"]
  by (simp add: js_trim_def js_simps js_ws_def)

lemma add_file_down:
  assumes "add_file (n # q # segs) e m = Inr m'"
  obtains c c' where "(if map_has m n then map_get m n else Some (Node [])) = Some (Node c)"
    "add_file (q # segs) e c = Inr c'" "m' = map_set n (Node c') m"
  using assms by (auto simp: res_elims split: option.splits tree_node.splits)

lemma add_file_over:
  "segs \<noteq> [] \<Longrightarrow> add_file (segs @ q # r) e m = Inr m' \<Longrightarrow> add_file segs e' m' = add_file segs e' m"
proof (induction segs arbitrary: m m' rule: induct_list012)
  case (2 n)
  then show ?case by (auto elim!: add_file_down simp: map_set_overwrite simp del: add_file.simps(3))
next
  case (3 n n2 segs)
  from "3.prems"(2) obtain c c' where c: "(if map_has m n then map_get m n else Some (Node [])) = Some (Node c)"
    "add_file (n2 # segs @ q # r) e c = Inr c'" "m' = map_set n (Node c') m"
    using add_file_down [of n n2 "segs @ q # r" e m m'] by (metis append_Cons)
  have "add_file (n2 # segs) e' c' = add_file (n2 # segs) e' c" using "3.IH"(2) [of c c'] c(2) by simp
  then show ?case using c(1) by (simp add: c(3) map_has_get map_set_overwrite)
qed simp

lemma add_file_under:
  "segs \<noteq> [] \<Longrightarrow> add_file segs e m = Inr m' \<Longrightarrow> add_file (segs @ q # r) e' m' = Inl (Error ''Path conflict at '')"
proof (induction segs arbitrary: m m' rule: induct_list012)
  case (2 n)
  then show ?case by (auto simp: map_has_get)
next
  case (3 n n2 segs)
  from "3.prems"(2) obtain c c' where c: "add_file (n2 # segs) e c = Inr c'" "m' = map_set n (Node c') m"
    using add_file_down [of n n2 segs e m m'] by metis
  have "add_file (n2 # segs @ q # r) e' c' = Inl (Error ''Path conflict at '')" using "3.IH"(2) [of c c'] c(1) by simp
  then show ?case by (simp add: c(2) map_has_get)
qed simp

text \<open>A file and a file below it in the same tree: given after the file below, the upper one
  replaces the whole directory without an error; given before, the build fails with a path
  conflict. Which of the two happens depends on the order of the files alone.\<close>

theorem file_over_directory:
  assumes "build_file_ok f" and "build_file_ok g" and "strict_prefix (segments f) (segments g)"
  shows "(\<exists>m. fold_res add_build_file [g] [] = Inr m) \<and>
    fold_res add_build_file [g, f] [] = fold_res add_build_file [f] [] \<and>
    fold_res add_build_file [f, g] [] = Inl (Error ''Path conflict at '')"
proof -
  obtain q r where q: "segments g = segments f @ q # r"
    using assms(3) by (metis strict_prefixE')
  have ne: "segments f \<noteq> []" "segments g \<noteq> []" by (simp_all add: segments_def)
  have ok: "leaf_ok (build_entry h) \<and> te_name (build_entry h) = last (segments h) \<and> list_all name_ok (segments h)"
    if "build_file_ok h" for h
    using that build_file_names [OF that] by (simp add: build_file_ok_def segments_def build_entry_def)
  obtain mf mg where m: "add_file (segments f) (build_entry f) [] = Inr mf" "add_file (segments g) (build_entry g) [] = Inr mg"
    using add_file_ok [of "build_entry f" "segments f" "[]"] add_file_ok [of "build_entry g" "segments g" "[]"]
      ok [OF assms(1)] ok [OF assms(2)] ne by auto
  show ?thesis
    using m add_file_over [OF ne(1), of q r "build_entry g" "[]" mg "build_entry f"]
      add_file_under [OF ne(1) m(1), of q r "build_entry g"]
    by (simp add: add_build_file_eq assms(1,2) q)
qed

theorem file_over_directory_witness:
  "fold_res add_build_file
     [\<lparr>bf_path = js ''d/a'', bf_sha = replicate 40 97, bf_mode = None\<rparr>,
      \<lparr>bf_path = js ''d'', bf_sha = replicate 40 97, bf_mode = None\<rparr>] [] =
   Inr [(js ''d'', Leaf \<lparr>te_mode = MODE_REGULAR, te_name = js ''d'', te_sha = replicate 40 97\<rparr>)]"
proof -
  let ?g = "\<lparr>bf_path = js ''d/a'', bf_sha = replicate 40 97, bf_mode = None\<rparr>"
  let ?f = "\<lparr>bf_path = js ''d'', bf_sha = replicate 40 97, bf_mode = None\<rparr>"
  have ok: "build_file_ok ?f" "build_file_ok ?g"
    by (simp_all add: SLASH_def js_simps build_file_ok_def
      isValidGitPath_def isValidGitPathSegment_def MAX_GIT_PATH_LENGTH_def hasControlChars_def NUL_def
      js_starts_with_def js_ends_with_def js_includes_def js_ch_def js_trim_def js_ws_def text_ok_def
      hi_surr_def lo_surr_def build_entry_def leaf_ok_def tree_entry_ok_def mode_or_regular_def
      MODE_REGULAR_def MODE_SYMLINK_def is_dir_mode_def pad_start_def strip_zeros_def SP_def
      isValidSha_def is_lower_hex_def list_all_iff)
  have "strict_prefix (segments ?f) (segments ?g)" by (simp add: segments_def SLASH_def js_simps)
  from file_over_directory [OF ok this]
  have "fold_res add_build_file [?g, ?f] [] = fold_res add_build_file [?f] []" by blast
  also have "\<dots> = Inr [(js ''d'', Leaf \<lparr>te_mode = MODE_REGULAR, te_name = js ''d'', te_sha = replicate 40 97\<rparr>)]"
  proof -
    have "segments ?f = [js ''d'']" by (simp add: segments_def SLASH_def js_simps)
    then show ?thesis
      by (simp add: add_build_file_eq [OF ok(1)] build_entry_def segments_def mode_or_regular_def map_set_def)
  qed
  finally show ?thesis .
qed

end
