(* ===== verification/GitMerge.thy ===== *)
theory GitMerge
  imports GitTreeBuild
begin

text \<open>
  The three-way merge of trees (\<open>takos-git/local/core/merge.ts\<close>): path by path, on the
  flattened trees, with ids and modes compared. Against it stands the usual rule of a
  three-way merge. The comparison \<open>localeCompare\<close> of the platform, which orders the conflicts
  and the merged files, is a parameter.
\<close>

section \<open>The merge\<close>

record file_version =
  fv_sha :: jsstring
  fv_mode :: jsstring

datatype conflict_type = Content | DeleteModify | AddAdd

record merge_conflict =
  mc_path :: jsstring
  mc_type :: conflict_type

fun entriesEqual :: "file_version option \<Rightarrow> file_version option \<Rightarrow> bool" where
  "entriesEqual None None = True"
| "entriesEqual (Some a) (Some b) = (fv_sha a = fv_sha b \<and> fv_mode a = fv_mode b)"
| "entriesEqual _ _ = False"

definition classifyConflict ::
    "file_version option \<Rightarrow> file_version option \<Rightarrow> file_version option \<Rightarrow> conflict_type" where
  "classifyConflict bas loc ups =
     (if bas = None \<and> loc \<noteq> None \<and> ups \<noteq> None then AddAdd
      else let localDeleted = bas \<noteq> None \<and> loc = None; upstreamDeleted = bas \<noteq> None \<and> ups = None in
        if localDeleted \<and> ups \<noteq> None \<or> upstreamDeleted \<and> loc \<noteq> None then DeleteModify else Content)"

definition to_version_map :: "flat_file list \<Rightarrow> (jsstring, file_version) js_map" where
  "to_version_map files = map_from (map (\<lambda>f. (ff_path f, \<lparr>fv_sha = ff_sha f, fv_mode = ff_mode f\<rparr>)) files)"

type_synonym merge_state = "(jsstring, file_version) js_map \<times> merge_conflict list"

definition keep_version :: "jsstring \<Rightarrow> file_version option \<Rightarrow> merge_state \<Rightarrow> merge_state" where
  "keep_version path v st = (case v of None \<Rightarrow> st | Some e \<Rightarrow> (map_set path e (fst st), snd st))"

definition merge_path ::
    "(jsstring, file_version) js_map \<Rightarrow> (jsstring, file_version) js_map \<Rightarrow> (jsstring, file_version) js_map \<Rightarrow>
      jsstring \<Rightarrow> merge_state \<Rightarrow> merge_state" where
  "merge_path baseMap localMap upstreamMap path st =
     (let baseEntry = map_get baseMap path; localEntry = map_get localMap path;
          upstreamEntry = map_get upstreamMap path;
          localChanged = (\<not> entriesEqual baseEntry localEntry);
          upstreamChanged = (\<not> entriesEqual baseEntry upstreamEntry) in
      if \<not> localChanged \<and> \<not> upstreamChanged then keep_version path baseEntry st
      else if localChanged \<and> \<not> upstreamChanged then keep_version path localEntry st
      else if \<not> localChanged \<and> upstreamChanged then keep_version path upstreamEntry st
      else if entriesEqual localEntry upstreamEntry then keep_version path localEntry st
      else (fst st, snd st @ [\<lparr>mc_path = path, mc_type = classifyConflict baseEntry localEntry upstreamEntry\<rparr>]))"

definition merge_maps ::
    "(jsstring, file_version) js_map \<Rightarrow> (jsstring, file_version) js_map \<Rightarrow> (jsstring, file_version) js_map \<Rightarrow>
      merge_state" where
  "merge_maps baseMap localMap upstreamMap =
     fold (merge_path baseMap localMap upstreamMap)
       (js_set (map_keys baseMap @ map_keys localMap @ map_keys upstreamMap)) ([], [])"

definition version_file :: "jsstring \<times> file_version \<Rightarrow> build_file" where
  "version_file pe = \<lparr>bf_path = fst pe, bf_sha = fv_sha (snd pe), bf_mode = Some (fv_mode (snd pe))\<rparr>"

definition mergeTrees3Way ::
    "(jsstring \<Rightarrow> jsstring \<Rightarrow> int) \<Rightarrow> platform \<Rightarrow> jsstring \<Rightarrow> jsstring \<Rightarrow> jsstring \<Rightarrow> bucket \<Rightarrow>
      ((jsstring option \<times> merge_conflict list) \<times> bucket) res" where
  "mergeTrees3Way localeCompare pf baseTreeSha localTreeSha upstreamTreeSha b =
     bind_res (flattenTree pf b baseTreeSha [] DEFAULT_FLATTEN) (\<lambda>baseFiles.
     bind_res (flattenTree pf b localTreeSha [] DEFAULT_FLATTEN) (\<lambda>localFiles.
     bind_res (flattenTree pf b upstreamTreeSha [] DEFAULT_FLATTEN) (\<lambda>upstreamFiles.
       let (mergedMap, conflicts) =
         merge_maps (to_version_map baseFiles) (to_version_map localFiles) (to_version_map upstreamFiles) in
       if length conflicts > 0 then
         Inr ((None, js_sort (\<lambda>x y. localeCompare (mc_path x) (mc_path y)) conflicts), b)
       else
         let mergedFiles = map version_file (js_sort (\<lambda>x y. localeCompare (fst x) (fst y)) mergedMap) in
         bind_res (buildTreeFromPaths pf mergedFiles b) (\<lambda>(tree_sha, b'). Inr ((Some tree_sha, []), b')))))"

section \<open>The rule of a three-way merge\<close>

text \<open>
  The version a side did not touch yields to the other side's; where both touched it the
  versions must agree. \<open>None\<close> is a conflict, \<open>Some None\<close> a path that ends up absent.
\<close>

definition merge3 :: "'a option \<Rightarrow> 'a option \<Rightarrow> 'a option \<Rightarrow> 'a option option" where
  "merge3 bas loc ups =
     (if loc = bas then Some ups else if ups = bas then Some loc else if loc = ups then Some loc else None)"

lemma merge3_commute: "merge3 bas loc ups = merge3 bas ups loc"
  by (auto simp: merge3_def)

lemma entriesEqual_eq: "entriesEqual x y \<longleftrightarrow> x = y"
  by (cases x; cases y) auto

lemma merge_path_spec:
  "merge_path B L U p st =
     (case merge3 (map_get B p) (map_get L p) (map_get U p) of
       Some v \<Rightarrow> keep_version p v st
     | None \<Rightarrow> (fst st, snd st @ [\<lparr>mc_path = p,
         mc_type = classifyConflict (map_get B p) (map_get L p) (map_get U p)\<rparr>]))"
  by (auto simp: merge_path_def merge3_def entriesEqual_eq Let_def)

definition conflicting ::
    "(jsstring, file_version) js_map \<Rightarrow> (jsstring, file_version) js_map \<Rightarrow> (jsstring, file_version) js_map \<Rightarrow>
      jsstring \<Rightarrow> bool" where
  "conflicting B L U p \<longleftrightarrow> merge3 (map_get B p) (map_get L p) (map_get U p) = None"

definition conflict_at ::
    "(jsstring, file_version) js_map \<Rightarrow> (jsstring, file_version) js_map \<Rightarrow> (jsstring, file_version) js_map \<Rightarrow>
      jsstring \<Rightarrow> merge_conflict" where
  "conflict_at B L U p =
     \<lparr>mc_path = p, mc_type = classifyConflict (map_get B p) (map_get L p) (map_get U p)\<rparr>"

lemma merge_fold:
  "distinct ps \<Longrightarrow> map_ok (fst st) \<Longrightarrow> (\<forall>p \<in> set ps. map_get (fst st) p = None) \<Longrightarrow>
    fold (merge_path B L U) ps st = (m, cs) \<Longrightarrow>
    cs = snd st @ map (conflict_at B L U) (filter (conflicting B L U) ps) \<and> map_ok m \<and>
    (\<forall>p. map_get m p = (if p \<in> set ps then
        (case merge3 (map_get B p) (map_get L p) (map_get U p) of Some v \<Rightarrow> v | None \<Rightarrow> None)
      else map_get (fst st) p))"
proof (induction ps arbitrary: st)
  case (Cons p ps)
  have step: "map_ok (fst (merge_path B L U p st))"
    "\<forall>q \<in> set ps. map_get (fst (merge_path B L U p st)) q = None"
    using Cons.prems by (auto simp: merge_path_spec keep_version_def split: option.splits)
  from Cons.IH [OF _ step] Cons.prems show ?case
    by (auto simp: merge_path_spec keep_version_def conflicting_def conflict_at_def split: option.splits)
qed auto

lemma merge_maps_spec:
  assumes "merge_maps B L U = (m, cs)"
  shows "cs = map (conflict_at B L U) (filter (conflicting B L U) (js_set (map_keys B @ map_keys L @ map_keys U)))"
    and "map_ok m"
    and "map_get m p = (case merge3 (map_get B p) (map_get L p) (map_get U p) of Some v \<Rightarrow> v | None \<Rightarrow> None)"
proof -
  have keys: "p \<notin> set (js_set (map_keys B @ map_keys L @ map_keys U)) \<Longrightarrow>
      map_get B p = None \<and> map_get L p = None \<and> map_get U p = None" for p
    by (auto simp: set_map_keys)
  note f = merge_fold [OF _ _ _ assms[unfolded merge_maps_def]]
  show "cs = map (conflict_at B L U) (filter (conflicting B L U) (js_set (map_keys B @ map_keys L @ map_keys U)))"
    "map_ok m" using f by simp_all
  show "map_get m p = (case merge3 (map_get B p) (map_get L p) (map_get U p) of Some v \<Rightarrow> v | None \<Rightarrow> None)"
    using f keys [of p] by (auto simp: merge3_def simp del: js_set_simps(1))
qed

lemma conflicting_key: "conflicting B L U p \<Longrightarrow> p \<in> set (js_set (map_keys B @ map_keys L @ map_keys U))"
  by (auto simp: conflicting_def merge3_def set_map_keys split: if_splits)

lemma merge_unfold:
  assumes "flattenTree pf b baseSha [] DEFAULT_FLATTEN = Inr B"
    and "flattenTree pf b localSha [] DEFAULT_FLATTEN = Inr L"
    and "flattenTree pf b upstreamSha [] DEFAULT_FLATTEN = Inr U"
    and "merge_maps (to_version_map B) (to_version_map L) (to_version_map U) = (m, cs)"
  shows "mergeTrees3Way lc pf baseSha localSha upstreamSha b =
    (if cs \<noteq> [] then Inr ((None, js_sort (\<lambda>x y. lc (mc_path x) (mc_path y)) cs), b)
     else bind_res (buildTreeFromPaths pf (map version_file (js_sort (\<lambda>x y. lc (fst x) (fst y)) m)) b)
       (\<lambda>(tree_sha, b'). Inr ((Some tree_sha, []), b')))"
  by (simp add: mergeTrees3Way_def assms)

definition conflict_kind :: "'a option \<Rightarrow> 'a option \<Rightarrow> 'a option \<Rightarrow> conflict_type" where
  "conflict_kind bv lv uv =
     (if bv = None then AddAdd else if lv = None \<or> uv = None then DeleteModify else Content)"

lemma classify_conflicting:
  "conflicting B L U p \<Longrightarrow> classifyConflict (map_get B p) (map_get L p) (map_get U p) =
    conflict_kind (map_get B p) (map_get L p) (map_get U p)"
  by (cases "map_get B p"; cases "map_get L p"; cases "map_get U p")
    (auto simp: conflicting_def merge3_def classifyConflict_def conflict_kind_def split: if_splits)

section \<open>A store for the examples\<close>

definition file_a :: "jsstring \<Rightarrow> tree_entry" where
  "file_a md = \<lparr>te_mode = md, te_name = js ''a'', te_sha = replicate 40 97\<rparr>"

definition plain_tree :: jsstring where "plain_tree = hashTree len_digest [file_a (js ''100644'')]"
definition exec_tree :: jsstring where "exec_tree = hashTree len_digest [file_a (js ''100755'')]"

definition two_trees :: bucket where
  "two_trees = snd (putTree test_platform [file_a (js ''100755'')]
     (snd (putTree test_platform [file_a (js ''100644'')] [])))"

lemma file_a_ok: "leaf_ok (file_a (js ''100644''))" "leaf_ok (file_a (js ''100755''))"
  by (simp_all add: file_a_def leaf_ok_def tree_entry_ok_def is_dir_mode_def MODE_SYMLINK_def js_simps
      pad_start_def strip_zeros_def js_ch_def SP_def NUL_def text_ok_def hi_surr_def lo_surr_def
      isValidSha_def is_lower_hex_def list_all_iff)

lemma file_a_trees_differ:
  "inj_on len_digest {encodeTree [file_a (js ''100644'')], encodeTree [file_a (js ''100755'')]}"
proof (rule inj_on_pair)
  have len: "length (encode_tree_entry (file_a (js ''100644''))) = 29" "length (encode_tree_entry (file_a (js ''100755''))) = 29"
    by (simp_all add: encode_tree_entry_def file_a_def strip_zeros_def js_simps js_ch_def utf8_encode_ascii SP_def NUL_def)
  have head: "drop 12 (take 14 (len_digest (encodeTree [file_a (js ''1006'' @ [x, y])]))) = [ucast x, ucast y]"
    if "length (encode_tree_entry (file_a (js ''1006'' @ [x, y]))) = 29" "ascii [x, y]" for x y
    using that by (simp add: len_digest_def encodeTree_loose loose_object_def encodeTreeContent_def utf8_encode_ascii js_simps
        nat_str_def radix_str.simps digit_char_def NUL_def encode_tree_entry_def file_a_def strip_zeros_def js_ch_def SP_def)
  have modes: "js ''100644'' = js ''1006'' @ [52, 52]" "js ''100755'' = js ''1007'' @ [53, 53]"
    by (simp_all add: js_simps)
  have "drop 12 (take 14 (len_digest (encodeTree [file_a (js ''1007'' @ [x, y])]))) = [ucast x, ucast y]"
    if "length (encode_tree_entry (file_a (js ''1007'' @ [x, y]))) = 29" "ascii [x, y]" for x y
    using that by (simp add: len_digest_def encodeTree_loose loose_object_def encodeTreeContent_def utf8_encode_ascii js_simps
        nat_str_def radix_str.simps digit_char_def NUL_def encode_tree_entry_def file_a_def strip_zeros_def js_ch_def SP_def)
  from head [of 52 52] this [of 53 53]
  have "drop 12 (take 14 (len_digest (encodeTree [file_a (js ''100644'')]))) = [52, 52]"
    "drop 12 (take 14 (len_digest (encodeTree [file_a (js ''100755'')]))) = [53, 53]"
    using len by (simp_all add: modes)
  then show "len_digest (encodeTree [file_a (js ''100644'')]) \<noteq> len_digest (encodeTree [file_a (js ''100755'')])"
    by auto
qed

lemma flatten_one_file:
  "getTreeEntries pf b sha = Inr (Some [e]) \<Longrightarrow> leaf_ok e \<Longrightarrow>
    flattenTree pf b sha [] DEFAULT_FLATTEN = Inr [flat_of (te_name e) e]"
  by (simp add: flattenTree_def walk.simps walk_entries_leaf DEFAULT_FLATTEN_def visit_def unvisit_def
      join_path_def walked_def)

lemma flatten_unreadable: "flattenTree pf b [] [] DEFAULT_FLATTEN = Inr []"
  by (simp add: flattenTree_def walk.simps getTreeEntries_def getObject_def getRawObject_def isValidSha_def
      DEFAULT_FLATTEN_def visit_def unvisit_def)

lemma two_trees_entries:
  "getTreeEntries test_platform two_trees plain_tree = Inr (Some [file_a (js ''100644'')])"
  "getTreeEntries test_platform two_trees exec_tree = Inr (Some [file_a (js ''100755'')])"
  "no_collision test_platform two_trees {encodeTree [file_a (js ''100644'')]}"
proof -
  let ?raws = "{encodeTree [file_a (js ''100644'')], encodeTree [file_a (js ''100755'')]}"
  let ?b = "snd (putTree test_platform [file_a (js ''100644'')] [])"
  have dig: "pf_digest test_platform = len_digest" by (simp add: test_platform_def)
  have n: "no_collision test_platform [] ?raws" using file_a_trees_differ by (simp add: dig)
  have ok: "tree_entry_ok (file_a (js ''100644''))" "tree_entry_ok (file_a (js ''100755''))"
    using file_a_ok by (simp_all add: leaf_ok_def)
  have n': "no_collision test_platform ?b ?raws"
    by (rule putTree_no_collision [OF test_platform_ok n]) simp
  have ad: "content_addressed test_platform ?b" by (rule put_addressed(2) [OF test_platform_ok addressed_Nil])
  have "getTreeEntries test_platform ?b plain_tree = Inr (Some [file_a (js ''100644'')])"
    using putTree_stored [OF test_platform_ok addressed_Nil _ n, of "[file_a (js ''100644'')]"] ok
    by (simp add: dig plain_tree_def)
  then show "getTreeEntries test_platform two_trees plain_tree = Inr (Some [file_a (js ''100644'')])"
    unfolding two_trees_def by (rule store_le_tree [OF store_le_put(2)])
  show "getTreeEntries test_platform two_trees exec_tree = Inr (Some [file_a (js ''100755'')])"
    using putTree_stored [OF test_platform_ok ad _ n', of "[file_a (js ''100755'')]"] ok
    by (simp add: dig exec_tree_def two_trees_def)
  have "no_collision test_platform two_trees ?raws"
    unfolding two_trees_def by (rule putTree_no_collision [OF test_platform_ok n']) simp
  then show "no_collision test_platform two_trees {encodeTree [file_a (js ''100644'')]}"
    unfolding no_collision_def by (rule inj_on_subset) blast
qed

lemmas two_trees_flat =
  flatten_one_file [OF two_trees_entries(1) file_a_ok(1)] flatten_one_file [OF two_trees_entries(2) file_a_ok(2)]

section \<open>Properties\<close>

text \<open>C11: A merge reports as conflicts exactly the paths that the two sides changed in different ways
  since the base, each once and with its kind: added on both sides, deleted on one and changed on
  the other, or changed on both. With a conflict it writes nothing and has no tree; without one it
  has a tree.\<close>

theorem merge_conflicts_exact:
  assumes "flattenTree pf b baseSha [] DEFAULT_FLATTEN = Inr B"
    and "flattenTree pf b localSha [] DEFAULT_FLATTEN = Inr L"
    and "flattenTree pf b upstreamSha [] DEFAULT_FLATTEN = Inr U"
    and "mergeTrees3Way lc pf baseSha localSha upstreamSha b = Inr ((tree, conflicts), b')"
  shows "set conflicts = {\<lparr>mc_path = p, mc_type = conflict_kind bv lv uv\<rparr> | p bv lv uv.
        bv = map_get (to_version_map B) p \<and> lv = map_get (to_version_map L) p \<and>
        uv = map_get (to_version_map U) p \<and> lv \<noteq> bv \<and> uv \<noteq> bv \<and> lv \<noteq> uv}
    \<and> distinct (map mc_path conflicts) \<and> (conflicts \<noteq> [] \<longrightarrow> tree = None \<and> b' = b)
    \<and> (conflicts = [] \<longrightarrow> tree \<noteq> None)"
proof -
  let ?B = "to_version_map B" and ?L = "to_version_map L" and ?U = "to_version_map U"
  obtain m cs where m: "merge_maps ?B ?L ?U = (m, cs)" by fastforce
  note u = assms(4)[unfolded merge_unfold [OF assms(1-3) m]]
  have perm: "mset conflicts = mset cs" and rest: "(conflicts \<noteq> [] \<longrightarrow> tree = None \<and> b' = b) \<and>
      (conflicts = [] \<longrightarrow> tree \<noteq> None)"
    using u by (auto simp: res_elims split: if_splits) (metis mset_js_sort mset_zero_iff)+
  note cs = merge_maps_spec(1) [OF m]
  have "set conflicts = set cs" using perm by (rule mset_eq_setD)
  also have "\<dots> = {conflict_at ?B ?L ?U p | p. conflicting ?B ?L ?U p}"
    using conflicting_key [of ?B ?L ?U] unfolding cs by auto
  also have "\<dots> = {\<lparr>mc_path = p, mc_type = conflict_kind bv lv uv\<rparr> | p bv lv uv.
      bv = map_get ?B p \<and> lv = map_get ?L p \<and> uv = map_get ?U p \<and> lv \<noteq> bv \<and> uv \<noteq> bv \<and> lv \<noteq> uv}"
    using classify_conflicting [of ?B ?L ?U]
    by (auto simp: conflict_at_def conflicting_def merge3_def split: if_splits)
  finally have eq: "set conflicts = \<dots>" .
  have "distinct (map mc_path cs)"
    unfolding cs by (simp add: comp_def conflict_at_def)
  then have "distinct (map mc_path conflicts)"
    using perm by (metis mset_eq_imp_distinct_iff mset_map)
  with eq rest show ?thesis by blast
qed

theorem merge_conflicts_exact_witness:
  "mergeTrees3Way (\<lambda>_ _. 0) test_platform [] plain_tree exec_tree two_trees =
    Inr ((None, [\<lparr>mc_path = js ''a'', mc_type = AddAdd\<rparr>]), two_trees) \<and>
   set [\<lparr>mc_path = js ''a'', mc_type = AddAdd\<rparr>] = {\<lparr>mc_path = p, mc_type = conflict_kind bv lv uv\<rparr> | p bv lv uv.
      bv = map_get (to_version_map []) p \<and>
      lv = map_get (to_version_map [flat_of (te_name (file_a (js ''100644''))) (file_a (js ''100644''))]) p \<and>
      uv = map_get (to_version_map [flat_of (te_name (file_a (js ''100755''))) (file_a (js ''100755''))]) p \<and>
      lv \<noteq> bv \<and> uv \<noteq> bv \<and> lv \<noteq> uv}"
proof -
  have m: "merge_maps (to_version_map []) (to_version_map [flat_of (te_name (file_a (js ''100644''))) (file_a (js ''100644''))])
      (to_version_map [flat_of (te_name (file_a (js ''100755''))) (file_a (js ''100755''))]) =
      ([], [\<lparr>mc_path = js ''a'', mc_type = AddAdd\<rparr>])"
    by (simp add: merge_maps_def to_version_map_def map_from_def map_set_def map_keys_def js_set_def merge_path_def
        map_get_def flat_of_def file_a_def js_simps classifyConflict_def)
  have r: "mergeTrees3Way (\<lambda>_ _. 0) test_platform [] plain_tree exec_tree two_trees =
      Inr ((None, [\<lparr>mc_path = js ''a'', mc_type = AddAdd\<rparr>]), two_trees)"
    by (simp add: merge_unfold [OF flatten_unreadable two_trees_flat m] js_sort_def)
  from merge_conflicts_exact [OF flatten_unreadable two_trees_flat r] r show ?thesis by blast
qed

definition merged_files ::
    "(jsstring \<Rightarrow> jsstring \<Rightarrow> int) \<Rightarrow> flat_file list \<Rightarrow> flat_file list \<Rightarrow> flat_file list \<Rightarrow> build_file list" where
  "merged_files lc B L U =
     map version_file (js_sort (\<lambda>x y. lc (fst x) (fst y))
       (fst (merge_maps (to_version_map B) (to_version_map L) (to_version_map U))))"

lemma record_eta:
  "\<lparr>ff_path = ff_path f, ff_sha = ff_sha f, ff_mode = ff_mode f\<rparr> = f"
  "\<lparr>fv_sha = fv_sha v, fv_mode = fv_mode v\<rparr> = v"
  by simp_all

lemma to_version_map_get:
  "distinct (map ff_path fs) \<Longrightarrow> map_get (to_version_map fs) p = Some v \<longleftrightarrow>
    \<lparr>ff_path = p, ff_sha = fv_sha v, ff_mode = fv_mode v\<rparr> \<in> set fs"
proof -
  assume d: "distinct (map ff_path fs)"
  then have "distinct (map fst (map (\<lambda>f. (ff_path f, \<lparr>fv_sha = ff_sha f, fv_mode = ff_mode f\<rparr>)) fs))"
    by (simp add: comp_def)
  then show ?thesis
    by (cases v) (auto simp: to_version_map_def map_get_from_distinct image_iff record_eta intro: rev_bexI)
qed

lemma flat_version_file:
  "fv_mode (snd pe) \<noteq> [] \<Longrightarrow>
    flat_build_file (version_file pe) = \<lparr>ff_path = fst pe, ff_sha = fv_sha (snd pe), ff_mode = fv_mode (snd pe)\<rparr>"
  by (simp add: flat_build_file_def version_file_def mode_or_regular_def)

text \<open>C10: A merge without conflicts writes the tree of the three-way merge: flattened again, it has
  at every path the version of the side that changed it, the common version where both sides agree,
  and nothing where the file was deleted. This is for merged files whose paths do not run into each
  other and lie within the limits, and where the digest tells the trees written apart.\<close>

theorem merge_result_flattens:
  assumes "platform_ok pf" and "content_addressed pf b"
    and "flattenTree pf b baseSha [] DEFAULT_FLATTEN = Inr B"
    and "flattenTree pf b localSha [] DEFAULT_FLATTEN = Inr L"
    and "flattenTree pf b upstreamSha [] DEFAULT_FLATTEN = Inr U"
    and "snd (merge_maps (to_version_map B) (to_version_map L) (to_version_map U)) = []"
    and "files_ok (merged_files lc B L U)" and "\<forall>f \<in> set (merged_files lc B L U). bf_mode f \<noteq> Some []"
    and "no_collision pf b (set (build_raws pf (merged_files lc B L U)))"
    and "\<forall>f \<in> set (merged_files lc B L U). length (segments f) \<le> 51"
    and "sum_list (map (length \<circ> segments) (merged_files lc B L U)) \<le> 100000"
  shows "\<exists>tree b' fs. mergeTrees3Way lc pf baseSha localSha upstreamSha b = Inr ((Some tree, []), b') \<and>
    flattenTree pf b' tree [] DEFAULT_FLATTEN = Inr fs \<and> distinct (map ff_path fs) \<and>
    (\<forall>p. merge3 (map_get (to_version_map B) p) (map_get (to_version_map L) p) (map_get (to_version_map U) p) =
      Some (map_get (to_version_map fs) p))"
proof -
  let ?B = "to_version_map B" and ?L = "to_version_map L" and ?U = "to_version_map U"
  let ?s = "js_sort (\<lambda>x y :: jsstring \<times> file_version. lc (fst x) (fst y))"
  obtain m cs where m0: "merge_maps ?B ?L ?U = (m, cs)" by fastforce
  then have m: "merge_maps ?B ?L ?U = (m, [])" and files: "merged_files lc B L U = map version_file (?s m)"
    using assms(6) by (simp_all add: merged_files_def)
  note spec = merge_maps_spec [OF m]
  obtain sha b' fs where b: "buildTreeFromPaths pf (merged_files lc B L U) b = Inr (sha, b')"
    "flattenTree pf b' sha [] DEFAULT_FLATTEN = Inr fs"
    "mset fs = mset (map flat_build_file (merged_files lc B L U))"
    using build_flatten [OF assms(1,2,9,7), of DEFAULT_FLATTEN] assms(10,11) by (auto simp: DEFAULT_FLATTEN_def)
  have "\<forall>pe \<in> set m. fv_mode (snd pe) \<noteq> []"
    using assms(8) by (simp add: files version_file_def)
  then have "map flat_build_file (merged_files lc B L U) =
      map (\<lambda>pe. \<lparr>ff_path = fst pe, ff_sha = fv_sha (snd pe), ff_mode = fv_mode (snd pe)\<rparr>) (?s m)"
    by (simp add: files flat_version_file)
  with b(3) have fs: "mset fs = mset (map (\<lambda>pe. \<lparr>ff_path = fst pe, ff_sha = fv_sha (snd pe), ff_mode = fv_mode (snd pe)\<rparr>) (?s m))"
    by simp
  then have "image_mset ff_path (mset fs) = image_mset ff_path
      (mset (map (\<lambda>pe. \<lparr>ff_path = fst pe, ff_sha = fv_sha (snd pe), ff_mode = fv_mode (snd pe)\<rparr>) (?s m)))"
    by (rule arg_cong)
  then have "mset (map ff_path fs) = mset (map fst m)" by (simp add: multiset.map_comp comp_def)
  then have d: "distinct (map ff_path fs)" using spec(2) unfolding map_ok_def by (metis mset_eq_imp_distinct_iff)
  have "map_get (to_version_map fs) p = Some v \<longleftrightarrow> map_get m p = Some v" for p v
    unfolding to_version_map_get [OF d] map_get_iff [OF spec(2)] using mset_eq_setD [OF fs]
    by (cases v) (auto simp: image_iff record_eta intro: rev_bexI)
  then have get: "map_get (to_version_map fs) p = map_get m p" for p by (metis not_None_eq)
  have "\<not> conflicting ?B ?L ?U p" for p
    using spec(1) conflicting_key [of ?B ?L ?U p] by (metis filter_empty_conv map_is_Nil_conv)
  then have "\<exists>v. merge3 (map_get ?B p) (map_get ?L p) (map_get ?U p) = Some v" for p by (simp add: conflicting_def)
  then have "merge3 (map_get ?B p) (map_get ?L p) (map_get ?U p) = Some (map_get m p)" for p
    using spec(3) [of p] by (metis option.simps(5))
  then show ?thesis using b d get files by (simp add: merge_unfold [OF assms(3-5) m])
qed

lemma merged_one:
  "merge_maps (to_version_map []) (to_version_map [flat_of (te_name (file_a md)) (file_a md)]) (to_version_map []) =
    ([(js ''a'', \<lparr>fv_sha = replicate 40 97, fv_mode = md\<rparr>)], [])"
  by (simp add: merge_maps_def to_version_map_def map_from_def map_set_def map_keys_def js_set_def merge_path_def
      map_get_def flat_of_def file_a_def keep_version_def)

theorem merge_result_flattens_witness:
  "\<exists>tree b' fs. mergeTrees3Way (\<lambda>_ _. 0) test_platform [] plain_tree [] two_trees = Inr ((Some tree, []), b') \<and>
    flattenTree test_platform b' tree [] DEFAULT_FLATTEN = Inr fs \<and>
    map_get (to_version_map fs) (js ''a'') = Some \<lparr>fv_sha = replicate 40 97, fv_mode = js ''100644''\<rparr>"
proof -
  let ?L = "[flat_of (te_name (file_a (js ''100644''))) (file_a (js ''100644''))]"
  let ?f = "\<lparr>bf_path = js ''a'', bf_sha = replicate 40 97, bf_mode = Some (js ''100644'')\<rparr>"
  have files: "merged_files (\<lambda>_ _. 0) [] ?L [] = [?f]"
    by (simp add: merged_files_def merged_one js_sort_def version_file_def)
  have entry: "build_entry ?f = file_a (js ''100644'')"
    by (simp add: build_entry_def file_a_def mode_or_regular_def js_simps SLASH_def)
  have leaf: "leaf_ok (build_entry ?f)" using file_a_ok(1) by (simp only: entry)
  then have ok: "files_ok [?f]"
    by (simp add: files_ok_def build_file_ok_def isValidGitPath_def MAX_GIT_PATH_LENGTH_def hasControlChars_def
        NUL_def SLASH_def js_starts_with_def js_ends_with_def js_includes_def js_simps js_ch_def isValidGitPathSegment_def
        js_trim_def js_ws_def text_ok_def hi_surr_def lo_surr_def segments_def)
  have seg: "segments ?f = [js ''a'']" by (simp add: segments_def SLASH_def js_simps)
  have raws: "build_raws test_platform [?f] = [encodeTree [file_a (js ''100644'')]]"
    using ok seg by (simp add: build_raws_def files_ok_def add_build_file_eq entry map_set_def tree_raws_def)
  have nc: "no_collision test_platform two_trees (set (build_raws test_platform [?f]))"
    using two_trees_entries(3) by (simp add: raws)
  have ad: "content_addressed test_platform two_trees"
    unfolding two_trees_def by (intro put_addressed(2) test_platform_ok addressed_Nil)
  have m: "snd (merge_maps (to_version_map []) (to_version_map ?L) (to_version_map [])) = []"
    by (simp only: merged_one snd_conv)
  have "\<exists>tree b' fs. mergeTrees3Way (\<lambda>_ _. 0) test_platform [] plain_tree [] two_trees = Inr ((Some tree, []), b') \<and>
      flattenTree test_platform b' tree [] DEFAULT_FLATTEN = Inr fs \<and> distinct (map ff_path fs) \<and>
      (\<forall>p. merge3 (map_get (to_version_map []) p) (map_get (to_version_map ?L) p) (map_get (to_version_map []) p) =
        Some (map_get (to_version_map fs) p))"
    by (rule merge_result_flattens [OF test_platform_ok ad flatten_unreadable two_trees_flat(1) flatten_unreadable m])
      (unfold files, use ok nc seg in \<open>simp_all add: js_simps\<close>)
  moreover have "map_get (to_version_map ?L) (js ''a'') = Some \<lparr>fv_sha = replicate 40 97, fv_mode = js ''100644''\<rparr>"
    "map_get (to_version_map []) (js ''a'') = None"
    by (simp_all add: to_version_map_def map_from_def flat_of_def file_a_def)
  ultimately show ?thesis unfolding merge3_def by (metis option.distinct(1) option.inject)
qed

end
