(* ===== verification/SqlTable.thy ===== *)
theory SqlTable
  imports JsText
begin

text \<open>
  Tables as lists of rows, and the SQL statements the code issues on them. An \<open>UPDATE\<close> maps the rows its
  \<open>WHERE\<close> clause selects and reports how many there were; an \<open>INSERT ... ON CONFLICT DO NOTHING\<close> appends
  unless the key is taken; an \<open>INSERT\<close> that breaks a unique index fails. A comparison with \<open>NULL\<close>
  selects nothing.
\<close>

section \<open>Statements\<close>

definition sql_update :: "('r \<Rightarrow> bool) \<Rightarrow> ('r \<Rightarrow> 'r) \<Rightarrow> 'r list \<Rightarrow> 'r list" where
  "sql_update P f rows = map (\<lambda>r. if P r then f r else r) rows"

definition sql_count :: "('r \<Rightarrow> bool) \<Rightarrow> 'r list \<Rightarrow> nat" where
  "sql_count P rows = length (filter P rows)"

definition sql_get :: "('r \<Rightarrow> bool) \<Rightarrow> 'r list \<Rightarrow> 'r option" where
  "sql_get P rows = find P rows"

definition sql_insert :: "('r \<Rightarrow> 'k) \<Rightarrow> 'r \<Rightarrow> 'r list \<Rightarrow> 'r list" where
  "sql_insert key r rows = (if key r \<in> key ` set rows then rows else rows @ [r])"

text \<open>\<open>lt(column, value)\<close> on a column that may be \<open>NULL\<close>.\<close>

definition sql_lt :: "int option \<Rightarrow> int \<Rightarrow> bool" where
  "sql_lt c v \<longleftrightarrow> (case c of None \<Rightarrow> False | Some x \<Rightarrow> x < v)"

text \<open>An \<open>INSERT\<close> into a table with unique indexes: it fails when one of the keys is taken.\<close>

definition sql_insert_unique :: "('r \<Rightarrow> 'r \<Rightarrow> bool) \<Rightarrow> 'r \<Rightarrow> 'r list \<Rightarrow> 'r list res" where
  "sql_insert_unique clash r rows =
    (if \<exists>x \<in> set rows. clash r x then Inl (Error ''UNIQUE constraint failed'') else Inr (rows @ [r]))"

definition sql_delete :: "('r \<Rightarrow> bool) \<Rightarrow> 'r list \<Rightarrow> 'r list" where
  "sql_delete P rows = filter (\<lambda>r. \<not> P r) rows"

section \<open>Facts about statements\<close>

lemma sql_update_simps [simp]:
  "sql_update P f [] = []" "length (sql_update P f rows) = length rows"
  by (simp_all add: sql_update_def)

lemma set_sql_update: "set (sql_update P f rows) = (\<lambda>r. if P r then f r else r) ` set rows"
  by (simp add: sql_update_def)

lemma sql_update_None: "(\<And>r. r \<in> set rows \<Longrightarrow> \<not> P r) \<Longrightarrow> sql_update P f rows = rows"
  by (induction rows) (auto simp: sql_update_def)

lemma map_sql_update: "(\<And>r. P r \<Longrightarrow> k (f r) = k r) \<Longrightarrow> map k (sql_update P f rows) = map k rows"
  by (auto simp: sql_update_def)

lemma sql_count_0 [simp]: "sql_count P rows = 0 \<longleftrightarrow> (\<forall>r \<in> set rows. \<not> P r)"
  by (auto simp: sql_count_def filter_empty_conv)

lemma sql_count_pos: "0 < sql_count P rows \<longleftrightarrow> (\<exists>r \<in> set rows. P r)"
  by (auto simp: sql_count_def filter_empty_conv)

lemma sql_count_zero_update: "sql_count P rows = 0 \<Longrightarrow> sql_update P f rows = rows"
  by (simp add: sql_update_None)

lemma sql_get_Some: "sql_get P rows = Some r \<Longrightarrow> r \<in> set rows \<and> P r"
  by (auto simp: sql_get_def find_Some_iff)

lemma sql_get_None: "sql_get P rows = None \<longleftrightarrow> (\<forall>r \<in> set rows. \<not> P r)"
  by (auto simp: sql_get_def find_None_iff)

lemma sql_get_update:
  "(\<And>r. k (f r) = k r) \<Longrightarrow>
    sql_get (\<lambda>r. k r = i) (sql_update P f rows) = map_option (\<lambda>r. if P r then f r else r) (sql_get (\<lambda>r. k r = i) rows)"
  by (induction rows) (auto simp: sql_get_def sql_update_def)

lemma set_sql_insert: "set (sql_insert key r rows) = (if key r \<in> key ` set rows then set rows else insert r (set rows))"
  by (simp add: sql_insert_def)

lemma distinct_sql_insert [simp]: "distinct (map key rows) \<Longrightarrow> distinct (map key (sql_insert key r rows))"
  by (auto simp: sql_insert_def)

lemma sql_get_append: "sql_get P (xs @ ys) = (case sql_get P xs of None \<Rightarrow> sql_get P ys | Some r \<Rightarrow> Some r)"
  by (induction xs) (auto simp: sql_get_def)

lemma sql_get_delete: "sql_get P (sql_delete Q rows) = sql_get (\<lambda>r. P r \<and> \<not> Q r) rows"
  by (induction rows) (auto simp: sql_get_def sql_delete_def)

lemma set_sql_delete: "set (sql_delete P rows) = {r \<in> set rows. \<not> P r}"
  by (auto simp: sql_delete_def)

end
