(* ===== verification/GitRefs.thy ===== *)
theory GitRefs
  imports SqlTable GitObjects
begin

text \<open>
  Branches and tags (\<open>takos-git/local/core/refs.ts\<close>) on the tables \<open>branches\<close>, \<open>tags\<close> and \<open>commits\<close> of
  \<open>infra/db/schema-repos.ts\<close>. Dates are instants in milliseconds, the clock and the random ids are
  arguments. A read goes through the query builder and falls back to the same query in plain SQL when the
  adapter fails in one of the known ways: \<open>adapter q\<close> is the message it fails with on the query \<open>q\<close>.
\<close>

section \<open>Rows\<close>

record git_branch =
  b_id :: jsstring
  b_repo :: jsstring
  b_name :: jsstring
  b_sha :: jsstring
  b_default :: bool
  b_protected :: bool
  b_createdAt :: int
  b_updatedAt :: int

record git_tag =
  t_id :: jsstring
  t_repo :: jsstring
  t_name :: jsstring
  t_sha :: jsstring
  t_message :: "jsstring option"
  t_taggerName :: "jsstring option"
  t_taggerEmail :: "jsstring option"
  t_createdAt :: int

text \<open>The text in \<open>parent_shas\<close> by what \<open>JSON.parse\<close> makes of it: no text, the array of strings that was
  written there with \<open>JSON.stringify\<close>, or text that is not JSON.\<close>

datatype parents_text = NoParents | ParentsJson "jsstring list" | ParentsGarbage

record commit_row =
  cr_id :: jsstring
  cr_repo :: jsstring
  cr_sha :: jsstring
  cr_tree :: jsstring
  cr_parents :: parents_text
  cr_authorName :: jsstring
  cr_authorEmail :: jsstring
  cr_authorDate :: int
  cr_committerName :: jsstring
  cr_committerEmail :: jsstring
  cr_commitDate :: int
  cr_message :: jsstring

record fork_row =
  fk_id :: jsstring
  fk_repo :: jsstring
  fk_upstream :: jsstring
  fk_createdAt :: int

record remote_row =
  rt_id :: jsstring
  rt_repo :: jsstring
  rt_name :: jsstring
  rt_upstream :: jsstring
  rt_url :: "jsstring option"
  rt_lastFetchedAt :: "int option"
  rt_createdAt :: int

text \<open>The columns of a repository that the git services read or write; the others keep their defaults.\<close>

record repo_row =
  rp_id :: jsstring
  rp_account :: jsstring
  rp_name :: jsstring
  rp_description :: "jsstring option"
  rp_visibility :: jsstring
  rp_defaultBranch :: jsstring
  rp_forkedFrom :: "jsstring option"
  rp_remoteCloneUrl :: "jsstring option"
  rp_stars :: int
  rp_forks :: int
  rp_gitEnabled :: bool
  rp_createdAt :: int
  rp_updatedAt :: int

record git_db =
  gd_repos :: "repo_row list"
  gd_branches :: "git_branch list"
  gd_tags :: "git_tag list"
  gd_commits :: "commit_row list"
  gd_forks :: "fork_row list"
  gd_remotes :: "remote_row list"

definition has_repo :: "git_db \<Rightarrow> jsstring \<Rightarrow> bool" where
  "has_repo db repoId \<longleftrightarrow> list_ex (\<lambda>r. rp_id r = repoId) (gd_repos db)"

record ref_result =
  rr_success :: bool
  rr_current :: "jsstring option"
  rr_error :: "jsstring option"

abbreviation "ref_ok \<equiv> \<lparr>rr_success = True, rr_current = None, rr_error = None\<rparr>"
abbreviation "ref_error e \<equiv> \<lparr>rr_success = False, rr_current = None, rr_error = Some (js e)\<rparr>"
abbreviation "ref_conflict c e \<equiv> \<lparr>rr_success = False, rr_current = Some c, rr_error = Some (js e)\<rparr>"

section \<open>Names\<close>

definition MAX_REPO_ID_LENGTH :: nat where "MAX_REPO_ID_LENGTH = 128"
definition MAX_REF_NAME_LENGTH :: nat where "MAX_REF_NAME_LENGTH = 255"

text \<open>\<open>/^[a-z0-9_-]+$/i\<close>\<close>

definition repo_id_char :: "unit16 \<Rightarrow> bool" where
  "repo_id_char c \<longleftrightarrow> 48 \<le> unat c \<and> unat c \<le> 57 \<or> 65 \<le> unat c \<and> unat c \<le> 90 \<or>
    97 \<le> unat c \<and> unat c \<le> 122 \<or> unat c = 95 \<or> unat c = 45"

definition isValidRepoId :: "jsstring \<Rightarrow> bool" where
  "isValidRepoId repoId =
    (let v = js_trim repoId in v \<noteq> [] \<and> length v \<le> MAX_REPO_ID_LENGTH \<and> list_all repo_id_char v)"

definition ascii_printable :: "unit16 \<Rightarrow> bool" where
  "ascii_printable c \<longleftrightarrow> 33 \<le> unat c \<and> unat c \<le> 126"

definition invalid_ref_char :: "unit16 \<Rightarrow> bool" where
  "invalid_ref_char c \<longleftrightarrow> c \<in> set (js ''~^:?*['') \<or> unat c = 92"

definition isValidRefName :: "jsstring \<Rightarrow> bool" where
  "isValidRefName name =
    (let v = js_trim name in
     v \<noteq> [] \<and> length v \<le> MAX_REF_NAME_LENGTH \<and> list_all ascii_printable v \<and>
     \<not> list_ex invalid_ref_char v \<and>
     \<not> js_includes v (js ''..'') \<and> \<not> js_includes v [64, 123] \<and>
     \<not> js_ends_with v (js ''.'') \<and> \<not> js_ends_with v (js ''.lock'') \<and>
     \<not> js_starts_with v (js ''/'') \<and> \<not> js_ends_with v (js ''/'') \<and> \<not> js_includes v (js ''//''))"

text \<open>\<open>/^[a-f0-9]{40}([a-f0-9]{24})?$/i\<close>\<close>

definition is_hex :: "unit16 \<Rightarrow> bool" where
  "is_hex c \<longleftrightarrow> is_lower_hex c \<or> 65 \<le> unat c \<and> unat c \<le> 70"

definition isValidCommitSha :: "jsstring \<Rightarrow> bool" where
  "isValidCommitSha sha \<longleftrightarrow> (length sha = 40 \<or> length sha = 64) \<and> list_all is_hex sha"

section \<open>Reading\<close>

datatype ref_query =
    QBranch jsstring jsstring
  | QBranches jsstring "jsstring list"
  | QDefault jsstring
  | QBranchList jsstring
  | QTag jsstring jsstring
  | QTagList jsstring

type_synonym adapter = "ref_query \<Rightarrow> jsstring option"

text \<open>\<open>isInvalidArrayBufferError\<close> of \<open>shared/utils/db-guards.ts\<close>, on the message of the error.\<close>

definition isInvalidArrayBufferError :: "jsstring \<Rightarrow> bool" where
  "isInvalidArrayBufferError message \<longleftrightarrow>
    js_includes (to_lower message) (js ''invalid array buffer length'') \<or>
    js_includes (to_lower message) (js ''does not exist in the current database'')"

definition withDrizzleFallback :: "jsstring option \<Rightarrow> 'a \<Rightarrow> 'a \<Rightarrow> 'a res" where
  "withDrizzleFallback failure drizzle fallback =
    (case failure of
       None \<Rightarrow> Inr drizzle
     | Some message \<Rightarrow>
         if isInvalidArrayBufferError message \<or> js_includes message (js ''SQLITE_BUSY'') \<or>
            js_includes message (js ''D1_ERROR'') \<or> js_includes message (js ''database is locked'')
         then Inr fallback
         else Inl (Error ''query failed''))"

definition branch_at :: "jsstring \<Rightarrow> jsstring \<Rightarrow> git_branch \<Rightarrow> bool" where
  "branch_at repoId name b \<longleftrightarrow> b_repo b = repoId \<and> b_name b = name"

definition tag_at :: "jsstring \<Rightarrow> jsstring \<Rightarrow> git_tag \<Rightarrow> bool" where
  "tag_at repoId name t \<longleftrightarrow> t_repo t = repoId \<and> t_name t = name"

definition getBranch :: "adapter \<Rightarrow> git_db \<Rightarrow> jsstring \<Rightarrow> jsstring \<Rightarrow> git_branch option res" where
  "getBranch adapter db repoId name =
    (if \<not> isValidRepoId repoId \<or> \<not> isValidRefName name then Inr None
     else let row = sql_get (branch_at repoId name) (gd_branches db) in
       withDrizzleFallback (adapter (QBranch repoId name)) row row)"

text \<open>The placeholders of an \<open>IN\<close> list ask for membership; the map is keyed by name.\<close>

definition getBranchesByNames ::
  "adapter \<Rightarrow> git_db \<Rightarrow> jsstring \<Rightarrow> jsstring list \<Rightarrow> (jsstring, git_branch) js_map res" where
  "getBranchesByNames adapter db repoId names =
    (let validNames = filter isValidRefName names in
     if \<not> isValidRepoId repoId \<or> validNames = [] then Inr []
     else let rows = filter (\<lambda>b. b_repo b = repoId \<and> b_name b \<in> set validNames) (gd_branches db) in
       bind_res (withDrizzleFallback (adapter (QBranches repoId validNames)) rows rows) (\<lambda>result.
         Inr (map_from (map (\<lambda>b. (b_name b, b)) result))))"

definition getDefaultBranch :: "adapter \<Rightarrow> git_db \<Rightarrow> jsstring \<Rightarrow> git_branch option res" where
  "getDefaultBranch adapter db repoId =
    (if \<not> isValidRepoId repoId then Inr None
     else let row = sql_get (\<lambda>b. b_repo b = repoId \<and> b_default b) (gd_branches db) in
       withDrizzleFallback (adapter (QDefault repoId)) row row)"

text \<open>\<open>ORDER BY is_default DESC, name ASC\<close>; names order by their bytes.\<close>

definition branch_order :: "git_branch \<Rightarrow> git_branch \<Rightarrow> int" where
  "branch_order a b =
    (if b_default a \<noteq> b_default b then (if b_default a then -1 else 1)
     else if utf8_encode (b_name a) < utf8_encode (b_name b) then -1
     else if b_name a = b_name b then 0 else 1)"

definition listBranches :: "adapter \<Rightarrow> git_db \<Rightarrow> jsstring \<Rightarrow> git_branch list res" where
  "listBranches adapter db repoId =
    (if \<not> isValidRepoId repoId then Inr []
     else let rows = js_sort branch_order (filter (\<lambda>b. b_repo b = repoId) (gd_branches db)) in
       withDrizzleFallback (adapter (QBranchList repoId)) rows rows)"

definition getTag :: "adapter \<Rightarrow> git_db \<Rightarrow> jsstring \<Rightarrow> jsstring \<Rightarrow> git_tag option res" where
  "getTag adapter db repoId name =
    (if \<not> isValidRepoId repoId \<or> \<not> isValidRefName name then Inr None
     else let row = sql_get (tag_at repoId name) (gd_tags db) in
       withDrizzleFallback (adapter (QTag repoId name)) row row)"

text \<open>\<open>ORDER BY created_at DESC\<close>; tags of the same instant stay in the order of the table.\<close>

definition listTags :: "adapter \<Rightarrow> git_db \<Rightarrow> jsstring \<Rightarrow> git_tag list res" where
  "listTags adapter db repoId =
    (if \<not> isValidRepoId repoId then Inr []
     else let rows = js_sort (\<lambda>a b. t_createdAt b - t_createdAt a) (filter (\<lambda>t. t_repo t = repoId) (gd_tags db)) in
       withDrizzleFallback (adapter (QTagList repoId)) rows rows)"

section \<open>Writing\<close>

text \<open>The database keeps ids and names in a repository unique and refuses rows of unknown repositories.\<close>

definition branch_clash :: "git_branch \<Rightarrow> git_branch \<Rightarrow> bool" where
  "branch_clash a b \<longleftrightarrow> b_id a = b_id b \<or> (b_repo a = b_repo b \<and> b_name a = b_name b)"

definition insert_branch :: "git_branch \<Rightarrow> git_db \<Rightarrow> git_db res" where
  "insert_branch b db =
    (if \<not> has_repo db (b_repo b) then Inl (Error ''FOREIGN KEY constraint failed'')
     else bind_res (sql_insert_unique branch_clash b (gd_branches db)) (\<lambda>rows. Inr (db\<lparr>gd_branches := rows\<rparr>)))"

definition tag_clash :: "git_tag \<Rightarrow> git_tag \<Rightarrow> bool" where
  "tag_clash a b \<longleftrightarrow> t_id a = t_id b \<or> (t_repo a = t_repo b \<and> t_name a = t_name b)"

definition insert_tag :: "git_tag \<Rightarrow> git_db \<Rightarrow> git_db res" where
  "insert_tag t db =
    (if \<not> has_repo db (t_repo t) then Inl (Error ''FOREIGN KEY constraint failed'')
     else bind_res (sql_insert_unique tag_clash t (gd_tags db)) (\<lambda>rows. Inr (db\<lparr>gd_tags := rows\<rparr>)))"

definition createBranch ::
  "adapter \<Rightarrow> jsstring \<Rightarrow> int \<Rightarrow> jsstring \<Rightarrow> jsstring \<Rightarrow> jsstring \<Rightarrow> bool \<Rightarrow> git_db \<Rightarrow> (ref_result \<times> git_db) res" where
  "createBranch adapter newId timestamp repoId name commitSha isDefault db =
    (if \<not> isValidRepoId repoId \<or> \<not> isValidRefName name then Inr (ref_error ''Invalid branch name'', db)
     else if \<not> isValidCommitSha commitSha then Inr (ref_error ''Invalid commit SHA'', db)
     else case insert_branch \<lparr>b_id = newId, b_repo = repoId, b_name = name, b_sha = commitSha, b_default = isDefault,
            b_protected = False, b_createdAt = timestamp, b_updatedAt = timestamp\<rparr> db of
       Inr db' \<Rightarrow> Inr (ref_ok, db')
     | Inl _ \<Rightarrow> bind_res (getBranch adapter db repoId name) (\<lambda>existing.
         case existing of
           Some b \<Rightarrow> Inr (ref_conflict (b_sha b) ''Branch already exists'', db)
         | None \<Rightarrow> Inl (Error ''Failed to create branch'')))"

text \<open>The compare-and-set on a branch.\<close>

definition cas_where :: "jsstring \<Rightarrow> jsstring \<Rightarrow> jsstring \<Rightarrow> git_branch \<Rightarrow> bool" where
  "cas_where repoId name oldSha b \<longleftrightarrow> b_repo b = repoId \<and> b_name b = name \<and> b_sha b = oldSha"

definition cas_branch :: "jsstring \<Rightarrow> jsstring \<Rightarrow> jsstring \<Rightarrow> jsstring \<Rightarrow> int \<Rightarrow> git_db \<Rightarrow> nat \<times> git_db" where
  "cas_branch repoId name oldSha newSha timestamp db =
    (sql_count (cas_where repoId name oldSha) (gd_branches db),
     db\<lparr>gd_branches := sql_update (cas_where repoId name oldSha)
          (\<lambda>b. b\<lparr>b_sha := newSha, b_updatedAt := timestamp\<rparr>) (gd_branches db)\<rparr>)"

definition updateBranch ::
  "adapter \<Rightarrow> jsstring \<Rightarrow> int \<Rightarrow> jsstring \<Rightarrow> jsstring \<Rightarrow> jsstring option \<Rightarrow> jsstring \<Rightarrow> git_db \<Rightarrow> (ref_result \<times> git_db) res" where
  "updateBranch adapter newId timestamp repoId name oldSha newSha db =
    (if \<not> isValidRepoId repoId \<or> \<not> isValidRefName name then Inr (ref_error ''Invalid branch name'', db)
     else if (\<exists>old. oldSha = Some old \<and> \<not> isValidCommitSha old) \<or> \<not> isValidCommitSha newSha
     then Inr (ref_error ''Invalid commit SHA'', db)
     else case oldSha of
       None \<Rightarrow> createBranch adapter newId timestamp repoId name newSha False db
     | Some old \<Rightarrow>
         let (n, db') = cas_branch repoId name old newSha timestamp db in
         if n = 0 then
           bind_res (getBranch adapter db' repoId name) (\<lambda>current.
             case current of
               None \<Rightarrow> Inr (ref_error ''Branch not found'', db')
             | Some b \<Rightarrow> Inr (ref_conflict (b_sha b) ''Ref conflict: branch was modified by another process'', db'))
         else Inr (ref_ok, db'))"

definition delete_branch_row :: "jsstring \<Rightarrow> jsstring \<Rightarrow> git_db \<Rightarrow> git_db" where
  "delete_branch_row repoId name db = db\<lparr>gd_branches := sql_delete (branch_at repoId name) (gd_branches db)\<rparr>"

text \<open>What \<open>deleteBranch\<close> decides on the branch it has read: refuse, or go on to the \<open>DELETE\<close>.\<close>

fun delete_check :: "git_branch option \<Rightarrow> ref_result option" where
  "delete_check None = Some (ref_error ''Branch not found'')"
| "delete_check (Some b) =
    (if b_default b then Some (ref_error ''Cannot delete default branch'')
     else if b_protected b then Some (ref_error ''Cannot delete protected branch'')
     else None)"

definition deleteBranch :: "adapter \<Rightarrow> jsstring \<Rightarrow> jsstring \<Rightarrow> git_db \<Rightarrow> (ref_result \<times> git_db) res" where
  "deleteBranch adapter repoId name db =
    (if \<not> isValidRepoId repoId \<or> \<not> isValidRefName name then Inr (ref_error ''Invalid branch name'', db)
     else bind_res (getBranch adapter db repoId name) (\<lambda>branch.
       case delete_check branch of
         Some refusal \<Rightarrow> Inr (refusal, db)
       | None \<Rightarrow> Inr (ref_ok, delete_branch_row repoId name db)))"

text \<open>The column \<open>updated_at\<close> is refreshed by every update that does not set it.\<close>

definition clear_default :: "jsstring \<Rightarrow> int \<Rightarrow> git_db \<Rightarrow> git_db" where
  "clear_default repoId now db =
    db\<lparr>gd_branches := sql_update (\<lambda>b. b_repo b = repoId) (\<lambda>b. b\<lparr>b_default := False, b_updatedAt := now\<rparr>) (gd_branches db)\<rparr>"

definition mark_default :: "jsstring \<Rightarrow> jsstring \<Rightarrow> int \<Rightarrow> git_db \<Rightarrow> git_db" where
  "mark_default repoId name now db =
    db\<lparr>gd_branches := sql_update (branch_at repoId name) (\<lambda>b. b\<lparr>b_default := True, b_updatedAt := now\<rparr>) (gd_branches db)\<rparr>"

definition setDefaultBranch :: "adapter \<Rightarrow> int \<Rightarrow> int \<Rightarrow> jsstring \<Rightarrow> jsstring \<Rightarrow> git_db \<Rightarrow> (ref_result \<times> git_db) res" where
  "setDefaultBranch adapter now now' repoId name db =
    (if \<not> isValidRepoId repoId \<or> \<not> isValidRefName name then Inr (ref_error ''Invalid branch name'', db)
     else bind_res (getBranch adapter db repoId name) (\<lambda>branch.
       case branch of
         None \<Rightarrow> Inr (ref_error ''Branch not found'', db)
       | Some _ \<Rightarrow> Inr (ref_ok, mark_default repoId name now' (clear_default repoId now db))))"

definition createTag ::
  "adapter \<Rightarrow> jsstring \<Rightarrow> int \<Rightarrow> jsstring \<Rightarrow> jsstring \<Rightarrow> jsstring \<Rightarrow> jsstring option \<Rightarrow> jsstring option \<Rightarrow> jsstring option \<Rightarrow>
    git_db \<Rightarrow> (ref_result \<times> git_db) res" where
  "createTag adapter newId timestamp repoId name commitSha message taggerName taggerEmail db =
    (if \<not> isValidRepoId repoId \<or> \<not> isValidRefName name then Inr (ref_error ''Invalid tag name'', db)
     else if \<not> isValidCommitSha commitSha then Inr (ref_error ''Invalid commit SHA'', db)
     else bind_res (getTag adapter db repoId name) (\<lambda>existing.
       case existing of
         Some t \<Rightarrow> Inr (ref_conflict (t_sha t) ''Tag already exists'', db)
       | None \<Rightarrow>
           (case insert_tag \<lparr>t_id = newId, t_repo = repoId, t_name = name, t_sha = commitSha, t_message = truthy message,
                  t_taggerName = truthy taggerName, t_taggerEmail = truthy taggerEmail, t_createdAt = timestamp\<rparr> db of
             Inr db' \<Rightarrow> Inr (ref_ok, db')
           | Inl _ \<Rightarrow> bind_res (getTag adapter db repoId name) (\<lambda>existingNow.
               case existingNow of
                 Some t \<Rightarrow> Inr (ref_conflict (t_sha t) ''Tag already exists'', db)
               | None \<Rightarrow> Inl (Error ''Failed to create tag'')))))"

definition delete_tag_row :: "jsstring \<Rightarrow> jsstring \<Rightarrow> git_db \<Rightarrow> git_db" where
  "delete_tag_row repoId name db = db\<lparr>gd_tags := sql_delete (tag_at repoId name) (gd_tags db)\<rparr>"

definition deleteTag :: "adapter \<Rightarrow> jsstring \<Rightarrow> jsstring \<Rightarrow> git_db \<Rightarrow> (ref_result \<times> git_db) res" where
  "deleteTag adapter repoId name db =
    (if \<not> isValidRepoId repoId \<or> \<not> isValidRefName name then Inr (ref_error ''Invalid tag name'', db)
     else bind_res (getTag adapter db repoId name) (\<lambda>tag.
       case tag of
         None \<Rightarrow> Inr (ref_error ''Tag not found'', db)
       | Some _ \<Rightarrow> Inr (ref_ok, delete_tag_row repoId name db)))"

section \<open>Resolving\<close>

definition commit_indexed :: "git_db \<Rightarrow> jsstring \<Rightarrow> jsstring \<Rightarrow> bool" where
  "commit_indexed db repoId sha \<longleftrightarrow> sql_get (\<lambda>c. cr_repo c = repoId \<and> cr_sha c = sha) (gd_commits db) \<noteq> None"

definition branch_sha :: "git_branch option \<Rightarrow> jsstring option" where
  "branch_sha b = truthy (map_option b_sha b)"

definition resolveRef :: "adapter \<Rightarrow> git_db \<Rightarrow> jsstring \<Rightarrow> jsstring \<Rightarrow> jsstring option res" where
  "resolveRef adapter db repoId ref =
    (if \<not> isValidRepoId repoId \<or> \<not> isValidRefName ref then Inr None
     else bind_res (getBranch adapter db repoId ref) (\<lambda>branch.
       case branch of
         Some b \<Rightarrow> Inr (Some (b_sha b))
       | None \<Rightarrow> bind_res (getTag adapter db repoId ref) (\<lambda>tag.
           case tag of
             Some t \<Rightarrow> Inr (Some (t_sha t))
           | None \<Rightarrow>
               if js_starts_with ref (js ''refs/heads/'') then
                 bind_res (getBranch adapter db repoId (drop (length (js ''refs/heads/'')) ref)) (\<lambda>b. Inr (branch_sha b))
               else if js_starts_with ref (js ''refs/remotes/'') then
                 bind_res (getBranch adapter db repoId (drop (length (js ''refs/'')) ref)) (\<lambda>b. Inr (branch_sha b))
               else if js_starts_with ref (js ''refs/tags/'') then
                 bind_res (getTag adapter db repoId (drop (length (js ''refs/tags/'')) ref)) (\<lambda>t. Inr (truthy (map_option t_sha t)))
               else if isValidCommitSha ref then Inr (if commit_indexed db repoId ref then Some ref else None)
               else Inr None)))"

datatype ref_kind = BranchRef | TagRef | RemoteRef

record listed_ref =
  lr_name :: jsstring
  lr_target :: jsstring
  lr_kind :: ref_kind

definition branch_ref :: "git_branch \<Rightarrow> listed_ref" where
  "branch_ref b =
    (let isRemote = js_starts_with (b_name b) (js ''remotes/'') in
     \<lparr>lr_name = (if isRemote then js ''refs/'' @ b_name b else js ''refs/heads/'' @ b_name b),
      lr_target = b_sha b, lr_kind = (if isRemote then RemoteRef else BranchRef)\<rparr>)"

definition tag_ref :: "git_tag \<Rightarrow> listed_ref" where
  "tag_ref t = \<lparr>lr_name = js ''refs/tags/'' @ t_name t, lr_target = t_sha t, lr_kind = TagRef\<rparr>"

definition listAllRefs :: "adapter \<Rightarrow> git_db \<Rightarrow> jsstring \<Rightarrow> listed_ref list res" where
  "listAllRefs adapter db repoId =
    bind_res (listBranches adapter db repoId) (\<lambda>branchList.
      bind_res (listTags adapter db repoId) (\<lambda>tagList.
        Inr (map branch_ref branchList @ map tag_ref tagList)))"

end
