(* ===== verification/GitCommitIndex.thy ===== *)
theory GitCommitIndex
  imports GitTreeOps GitRefs
begin

text \<open>
  Commits, their index in the database and the walks over the commit graph
  (\<open>takos-git/local/core/commit-index.ts\<close>), and the tolerant resolution of a ref to a commit whose tree can
  be read (\<open>readable-commit.ts\<close>). A walk reads commits through a parameter \<open>read\<close>, which the callers
  instantiate with \<open>getCommit\<close>; the loops are partial functions with the value \<open>None\<close> for not returning,
  and \<open>GitGraph\<close> proves that they return. A read may throw, so a loop that returns returns a failure or a
  result.
\<close>

section \<open>Loops that may not return\<close>

type_synonym 'a run = "'a res option"

definition bind_run :: "'a run \<Rightarrow> ('a \<Rightarrow> 'b run) \<Rightarrow> 'b run" where
  "bind_run m f = (case m of None \<Rightarrow> None | Some (Inl e) \<Rightarrow> Some (Inl e) | Some (Inr x) \<Rightarrow> f x)"

lemma bind_run_simps [simp]:
  "bind_run None f = None" "bind_run (Some (Inl e)) f = Some (Inl e)" "bind_run (Some (Inr x)) f = f x"
  by (simp_all add: bind_run_def)

lemma bind_run_Inr_iff [res_elims]: "bind_run m f = Some (Inr y) \<longleftrightarrow> (\<exists>x. m = Some (Inr x) \<and> f x = Some (Inr y))"
  by (auto simp: bind_run_def split: option.splits sum.splits)

lemma bind_run_returns: "m \<noteq> None \<Longrightarrow> (\<And>x. m = Some (Inr x) \<Longrightarrow> f x \<noteq> None) \<Longrightarrow> bind_run m f \<noteq> None"
  by (auto simp: bind_run_def split: option.splits sum.splits)

section \<open>The index\<close>

definition sig_of_row :: "jsstring \<Rightarrow> jsstring \<Rightarrow> int \<Rightarrow> git_signature" where
  "sig_of_row name email date = \<lparr>sig_name = name, sig_email = email, sig_timestamp = Num (date div 1000), sig_tz = js ''+0000''\<rparr>"

definition indexedToCommit :: "commit_row \<Rightarrow> git_commit" where
  "indexedToCommit row =
    \<lparr>cm_tree = cr_tree row,
     cm_parents = (case cr_parents row of ParentsJson ps \<Rightarrow> ps | _ \<Rightarrow> []),
     cm_author = sig_of_row (cr_authorName row) (cr_authorEmail row) (cr_authorDate row),
     cm_committer = sig_of_row (cr_committerName row) (cr_committerEmail row) (cr_commitDate row),
     cm_message = cr_message row, cm_sha = cr_sha row\<rparr>"

text \<open>\<open>now\<close> is the clock in milliseconds.\<close>

definition makeSignature :: "int \<Rightarrow> git_signature option \<Rightarrow> git_signature" where
  "makeSignature now sig =
    (case sig of
       Some s \<Rightarrow> s
     | None \<Rightarrow> \<lparr>sig_name = js ''System'', sig_email = js ''system@takos.jp'', sig_timestamp = Num (now div 1000),
                sig_tz = js ''+0000''\<rparr>)"

text \<open>\<open>toISOString\<close> throws on an invalid date: not a number, or beyond 100,000,000 days from 1970.\<close>

definition sigTimestampToIso :: "git_signature \<Rightarrow> int res" where
  "sigTimestampToIso sig =
    (case sig_timestamp sig of
       NaN \<Rightarrow> Inl RangeError
     | Num t \<Rightarrow> if \<bar>t * 1000\<bar> \<le> 8640000000000000 then Inr (t * 1000) else Inl RangeError)"

definition parents_column :: "jsstring list \<Rightarrow> parents_text" where
  "parents_column parents = (if parents = [] then NoParents else ParentsJson parents)"

definition commit_row_of :: "jsstring \<Rightarrow> jsstring \<Rightarrow> git_commit \<Rightarrow> commit_row res" where
  "commit_row_of newId repoId c =
    bind_res (sigTimestampToIso (cm_author c)) (\<lambda>authorDate.
      bind_res (sigTimestampToIso (cm_committer c)) (\<lambda>commitDate.
        Inr \<lparr>cr_id = newId, cr_repo = repoId, cr_sha = cm_sha c, cr_tree = cm_tree c,
          cr_parents = parents_column (cm_parents c),
          cr_authorName = sig_name (cm_author c), cr_authorEmail = sig_email (cm_author c), cr_authorDate = authorDate,
          cr_committerName = sig_name (cm_committer c), cr_committerEmail = sig_email (cm_committer c),
          cr_commitDate = commitDate, cr_message = cm_message c\<rparr>))"

definition commit_clash :: "commit_row \<Rightarrow> commit_row \<Rightarrow> bool" where
  "commit_clash a b \<longleftrightarrow> cr_id a = cr_id b \<or> (cr_repo a = cr_repo b \<and> cr_sha a = cr_sha b)"

definition insert_commit :: "commit_row \<Rightarrow> git_db \<Rightarrow> git_db res" where
  "insert_commit row db =
    (if \<not> has_repo db (cr_repo row) then Inl (Error ''FOREIGN KEY constraint failed'')
     else bind_res (sql_insert_unique commit_clash row (gd_commits db)) (\<lambda>rows. Inr (db\<lparr>gd_commits := rows\<rparr>)))"

record create_commit_params =
  cp_tree :: jsstring
  cp_parents :: "jsstring list"
  cp_message :: jsstring
  cp_author :: "git_signature option"
  cp_committer :: "git_signature option"

text \<open>The object is stored before the index row is written; a failure of the row leaves it there.\<close>

definition createCommit ::
  "platform \<Rightarrow> jsstring \<Rightarrow> int \<Rightarrow> jsstring \<Rightarrow> create_commit_params \<Rightarrow> git_db \<times> bucket \<Rightarrow> git_commit res \<times> git_db \<times> bucket" where
  "createCommit pf newId now repoId params st =
    (let (db, bucket) = st;
         author = makeSignature now (cp_author params);
         committer = makeSignature now (cp_committer params);
         body = \<lparr>cm_tree = cp_tree params, cm_parents = cp_parents params, cm_author = author, cm_committer = committer,
                 cm_message = cp_message params\<rparr>;
         (sha, bucket) = putCommit pf body bucket;
         commit = \<lparr>cm_tree = cp_tree params, cm_parents = cp_parents params, cm_author = author, cm_committer = committer,
                 cm_message = cp_message params, cm_sha = sha\<rparr>
     in case bind_res (commit_row_of newId repoId commit) (\<lambda>row. insert_commit row db) of
          Inl e \<Rightarrow> (Inl e, db, bucket)
        | Inr db \<Rightarrow> (Inr commit, db, bucket))"

definition commit_at :: "jsstring \<Rightarrow> jsstring \<Rightarrow> commit_row \<Rightarrow> bool" where
  "commit_at repoId sha row \<longleftrightarrow> cr_repo row = repoId \<and> cr_sha row = sha"

definition indexCommit :: "jsstring \<Rightarrow> jsstring \<Rightarrow> git_commit \<Rightarrow> git_db \<Rightarrow> git_db res" where
  "indexCommit newId repoId commit db =
    (case sql_get (commit_at repoId (cm_sha commit)) (gd_commits db) of
       Some _ \<Rightarrow> Inr db
     | None \<Rightarrow> bind_res (commit_row_of newId repoId commit) (\<lambda>row. insert_commit row db))"

definition getCommitFromIndex :: "git_db \<Rightarrow> jsstring \<Rightarrow> jsstring \<Rightarrow> git_commit option" where
  "getCommitFromIndex db repoId sha = map_option indexedToCommit (sql_get (commit_at repoId sha) (gd_commits db))"

text \<open>\<open>chunkForInClause\<close> (\<open>shared/utils/in-clause.ts\<close>) with its batches of 90.\<close>

definition IN_CLAUSE_CHUNK_SIZE :: nat where "IN_CLAUSE_CHUNK_SIZE = 90"

function chunkForInClause :: "'a list \<Rightarrow> nat \<Rightarrow> 'a list list" where
  "chunkForInClause xs chunkSize =
    (if xs = [] then []
     else take (max 1 chunkSize) xs # chunkForInClause (drop (max 1 chunkSize) xs) chunkSize)"
  by pat_completeness auto
termination by (relation "measure (\<lambda>(xs, n). length xs)") auto

declare chunkForInClause.simps [simp del]

definition getCommitsFromIndex :: "git_db \<Rightarrow> jsstring \<Rightarrow> jsstring list \<Rightarrow> (jsstring, git_commit) js_map" where
  "getCommitsFromIndex db repoId shas =
    (let uniqueShas = filter (\<lambda>sha. sha \<noteq> []) (js_set shas) in
     fold (\<lambda>chunk result.
         fold (\<lambda>row. map_set (cr_sha row) (indexedToCommit row))
           (filter (\<lambda>row. cr_repo row = repoId \<and> cr_sha row \<in> set chunk) (gd_commits db)) result)
       (chunkForInClause uniqueShas IN_CLAUSE_CHUNK_SIZE) [])"

definition getCommit :: "platform \<Rightarrow> git_db \<Rightarrow> bucket \<Rightarrow> jsstring \<Rightarrow> jsstring \<Rightarrow> git_commit option res" where
  "getCommit pf db bucket repoId sha =
    (case getCommitFromIndex db repoId sha of
       Some c \<Rightarrow> Inr (Some c)
     | None \<Rightarrow> if \<not> isValidSha sha then Inr None else getCommitData pf bucket sha)"

section \<open>Walks\<close>

type_synonym reader = "jsstring \<Rightarrow> git_commit option res"

text \<open>The log follows first parents. The argument \<open>n\<close> counts what is left of the limit; no cursor is the
  empty text, which \<open>while (cursorSha ...)\<close> takes for none as well.\<close>

fun log_loop :: "reader \<Rightarrow> nat \<Rightarrow> jsstring list \<Rightarrow> jsstring \<Rightarrow> git_commit list res" where
  "log_loop read 0 visited cursor = Inr []"
| "log_loop read (Suc n) visited cursor =
    (if cursor = [] \<or> cursor \<in> set visited then Inr []
     else bind_res (read cursor) (\<lambda>commit.
       case commit of
         None \<Rightarrow> Inr []
       | Some c \<Rightarrow>
           bind_res (log_loop read n (cursor # visited) (case cm_parents c of [] \<Rightarrow> [] | p # _ \<Rightarrow> p)) (\<lambda>rest.
             Inr (c # rest))))"

definition commit_log :: "reader \<Rightarrow> jsstring \<Rightarrow> int \<Rightarrow> git_commit list res" where
  "commit_log read startSha limit =
    (if startSha = [] \<or> limit \<le> 0 then Inr [] else log_loop read (nat limit) [] startSha)"

definition getCommitLog :: "platform \<Rightarrow> git_db \<Rightarrow> bucket \<Rightarrow> jsstring \<Rightarrow> jsstring \<Rightarrow> int \<Rightarrow> git_commit list res" where
  "getCommitLog pf db bucket repoId = commit_log (getCommit pf db bucket repoId)"

partial_function (option) from_ref_loop ::
  "reader \<Rightarrow> int \<Rightarrow> jsstring list \<Rightarrow> git_commit list \<Rightarrow> jsstring list \<Rightarrow> git_commit list run" where
  "from_ref_loop read limit visited commits queue =
    (if queue = [] \<or> limit \<le> int (length commits) then Some (Inr commits)
     else let sha = hd queue; queue = tl queue in
       if sha \<in> set visited then from_ref_loop read limit visited commits queue
       else case read sha of
         Inl e \<Rightarrow> Some (Inl e)
       | Inr None \<Rightarrow> from_ref_loop read limit (sha # visited) commits queue
       | Inr (Some c) \<Rightarrow>
           from_ref_loop read limit (sha # visited) (commits @ [c])
             (queue @ filter (\<lambda>p. p \<notin> set (sha # visited)) (cm_parents c)))"

text \<open>A comparison that is \<open>NaN\<close> counts as equal.\<close>

definition newest_first :: "git_commit \<Rightarrow> git_commit \<Rightarrow> int" where
  "newest_first a b =
    (case (sig_timestamp (cm_committer b), sig_timestamp (cm_committer a)) of (Num y, Num x) \<Rightarrow> y - x | _ \<Rightarrow> 0)"

definition commits_from_ref :: "reader \<Rightarrow> jsstring \<Rightarrow> int \<Rightarrow> git_commit list run" where
  "commits_from_ref read startSha limit =
    bind_run (from_ref_loop read limit [] [] [startSha]) (\<lambda>commits.
      Some (Inr (take (nat limit) (js_sort newest_first commits))))"

definition getCommitsFromRef :: "platform \<Rightarrow> git_db \<Rightarrow> bucket \<Rightarrow> jsstring \<Rightarrow> jsstring \<Rightarrow> int \<Rightarrow> git_commit list run" where
  "getCommitsFromRef pf db bucket repoId = commits_from_ref (getCommit pf db bucket repoId)"

partial_function (option) ancestor_loop :: "reader \<Rightarrow> jsstring \<Rightarrow> jsstring list \<Rightarrow> jsstring list \<Rightarrow> bool run" where
  "ancestor_loop read ancestor visited queue =
    (if queue = [] then Some (Inr False)
     else let sha = hd queue; queue = tl queue in
       if sha \<in> set visited then ancestor_loop read ancestor visited queue
       else if sha = ancestor then Some (Inr True)
       else case read sha of
         Inl e \<Rightarrow> Some (Inl e)
       | Inr None \<Rightarrow> ancestor_loop read ancestor (sha # visited) queue
       | Inr (Some c) \<Rightarrow>
           ancestor_loop read ancestor (sha # visited) (queue @ filter (\<lambda>p. p \<notin> set (sha # visited)) (cm_parents c)))"

definition is_ancestor :: "reader \<Rightarrow> jsstring \<Rightarrow> jsstring \<Rightarrow> bool run" where
  "is_ancestor read ancestor descendant =
    (if ancestor = descendant then Some (Inr True) else ancestor_loop read ancestor [] [descendant])"

definition isAncestor :: "platform \<Rightarrow> git_db \<Rightarrow> bucket \<Rightarrow> jsstring \<Rightarrow> jsstring \<Rightarrow> jsstring \<Rightarrow> bool run" where
  "isAncestor pf db bucket repoId = is_ancestor (getCommit pf db bucket repoId)"

text \<open>The two loops of \<open>findMergeBase\<close>: all ancestors of the first commit, then a search from the second.\<close>

partial_function (option) ancestors_loop :: "reader \<Rightarrow> jsstring list \<Rightarrow> jsstring list \<Rightarrow> jsstring list run" where
  "ancestors_loop read ancestors queue =
    (if queue = [] then Some (Inr ancestors)
     else let sha = hd queue; queue = tl queue in
       if sha \<in> set ancestors then ancestors_loop read ancestors queue
       else case read sha of
         Inl e \<Rightarrow> Some (Inl e)
       | Inr None \<Rightarrow> ancestors_loop read (sha # ancestors) queue
       | Inr (Some c) \<Rightarrow> ancestors_loop read (sha # ancestors) (queue @ cm_parents c))"

partial_function (option) merge_base_loop ::
  "reader \<Rightarrow> jsstring list \<Rightarrow> jsstring list \<Rightarrow> jsstring list \<Rightarrow> jsstring option run" where
  "merge_base_loop read ancestors visited queue =
    (if queue = [] then Some (Inr None)
     else let sha = hd queue; queue = tl queue in
       if sha \<in> set visited then merge_base_loop read ancestors visited queue
       else if sha \<in> set ancestors then Some (Inr (Some sha))
       else case read sha of
         Inl e \<Rightarrow> Some (Inl e)
       | Inr None \<Rightarrow> merge_base_loop read ancestors (sha # visited) queue
       | Inr (Some c) \<Rightarrow> merge_base_loop read ancestors (sha # visited) (queue @ cm_parents c))"

definition merge_base :: "reader \<Rightarrow> jsstring \<Rightarrow> jsstring \<Rightarrow> jsstring option run" where
  "merge_base read shaA shaB =
    bind_run (ancestors_loop read [] [shaA]) (\<lambda>ancestors. merge_base_loop read ancestors [] [shaB])"

definition findMergeBase :: "platform \<Rightarrow> git_db \<Rightarrow> bucket \<Rightarrow> jsstring \<Rightarrow> jsstring \<Rightarrow> jsstring \<Rightarrow> jsstring option run" where
  "findMergeBase pf db bucket repoId = merge_base (getCommit pf db bucket repoId)"

partial_function (option) count_loop :: "reader \<Rightarrow> jsstring \<Rightarrow> nat \<Rightarrow> jsstring list \<Rightarrow> jsstring list \<Rightarrow> nat run" where
  "count_loop read stopAt n visited queue =
    (if queue = [] then Some (Inr n)
     else let sha = hd queue; queue = tl queue in
       if sha \<in> set visited \<or> sha = stopAt then count_loop read stopAt n visited queue
       else case read sha of
         Inl e \<Rightarrow> Some (Inl e)
       | Inr None \<Rightarrow> count_loop read stopAt (Suc n) (sha # visited) queue
       | Inr (Some c) \<Rightarrow> count_loop read stopAt (Suc n) (sha # visited) (queue @ cm_parents c))"

definition countCommitsTo :: "reader \<Rightarrow> jsstring \<Rightarrow> jsstring \<Rightarrow> nat run" where
  "countCommitsTo read fromSha stopAtSha = count_loop read stopAtSha 0 [] [fromSha]"

record commit_counts =
  cc_ahead :: nat
  cc_behind :: nat
  cc_hasBase :: bool

text \<open>An empty merge base is falsy.\<close>

definition count_between :: "reader \<Rightarrow> jsstring \<Rightarrow> jsstring \<Rightarrow> commit_counts run" where
  "count_between read baseSha headSha =
    bind_run (merge_base read baseSha headSha) (\<lambda>mergeBase.
      case truthy mergeBase of
        None \<Rightarrow> Some (Inr \<lparr>cc_ahead = 0, cc_behind = 0, cc_hasBase = False\<rparr>)
      | Some mb \<Rightarrow>
          bind_run (countCommitsTo read headSha mb) (\<lambda>ahead.
            bind_run (countCommitsTo read baseSha mb) (\<lambda>behind.
              Some (Inr \<lparr>cc_ahead = ahead, cc_behind = behind, cc_hasBase = True\<rparr>))))"

definition countCommitsBetween :: "platform \<Rightarrow> git_db \<Rightarrow> bucket \<Rightarrow> jsstring \<Rightarrow> jsstring \<Rightarrow> jsstring \<Rightarrow> commit_counts run" where
  "countCommitsBetween pf db bucket repoId = count_between (getCommit pf db bucket repoId)"

end
