(* ===== verification/Reachability.thy ===== *)
theory Reachability
  imports JsString
begin

text \<open>
  Walks over a graph that is read node by node: what a queue leads to without meeting the nodes that were
  visited, how that changes when the front of the queue is expanded, and the interface \<open>finite_reader\<close> of a
  store in which only finitely many ids can be read, with the induction that every worklist loop follows.
\<close>

section \<open>Paths that avoid a set\<close>

inductive leads :: "('a \<Rightarrow> 'a \<Rightarrow> bool) \<Rightarrow> 'a set \<Rightarrow> 'a \<Rightarrow> 'a \<Rightarrow> bool" for edge V where
  leads_start: "x \<notin> V \<Longrightarrow> leads edge V x x"
| leads_step: "leads edge V x y \<Longrightarrow> edge y z \<Longrightarrow> z \<notin> V \<Longrightarrow> leads edge V x z"

lemma leads_avoids: "leads edge V x y \<Longrightarrow> x \<notin> V \<and> y \<notin> V"
  by (induction rule: leads.induct) auto

lemma leads_mono: "leads edge V x y \<Longrightarrow> W \<subseteq> V \<Longrightarrow> leads edge W x y"
  by (induction rule: leads.induct) (auto intro: leads.intros)

lemma leads_trans: "leads edge V y z \<Longrightarrow> leads edge V x y \<Longrightarrow> leads edge V x z"
  by (induction rule: leads.induct) (auto intro: leads.intros)

lemma leads_closed: "leads edge V x y \<Longrightarrow> P x \<Longrightarrow> (\<And>y z. P y \<Longrightarrow> edge y z \<Longrightarrow> P z) \<Longrightarrow> P y"
  by (induction rule: leads.induct) auto

text \<open>What the front of the queue contributes: itself, and what its successors lead to without meeting it
  again.\<close>

lemma leads_split:
  assumes "leads edge V x y"
  shows "leads edge (insert s V) x y \<or> y = s \<or> (\<exists>p. edge s p \<and> leads edge (insert s V) p y)"
  using assms
proof (induction rule: leads.induct)
  case (leads_step x y z)
  then show ?case by (cases "z = s") (auto intro: leads.intros)
qed (auto intro: leads.intros)

section \<open>What a queue leads to\<close>

definition frontier :: "('a \<Rightarrow> 'a \<Rightarrow> bool) \<Rightarrow> 'a set \<Rightarrow> 'a set \<Rightarrow> 'a set" where
  "frontier edge V Q = {y. \<exists>q \<in> Q. leads edge V q y}"

lemma frontierI: "q \<in> Q \<Longrightarrow> leads edge V q y \<Longrightarrow> y \<in> frontier edge V Q"
  by (auto simp: frontier_def)

lemma frontier_empty [simp]: "frontier edge V {} = {}"
  by (simp add: frontier_def)

lemma frontier_avoids: "frontier edge V Q \<inter> V = {}"
  by (auto simp: frontier_def dest: leads_avoids)

lemma frontier_not_in: "s \<in> V \<Longrightarrow> s \<notin> frontier edge V Q"
  using frontier_avoids [of edge V Q] by blast

lemma frontier_seen: "s \<in> V \<Longrightarrow> frontier edge V (insert s Q) = frontier edge V Q"
  by (auto simp: frontier_def dest: leads_avoids)

lemma frontier_filter: "frontier edge V (Q \<inter> - V) = frontier edge V Q"
  by (auto simp: frontier_def dest: leads_avoids)

lemma frontier_Un: "frontier edge V (Q \<union> R) = frontier edge V Q \<union> frontier edge V R"
  by (auto simp: frontier_def)

lemma frontier_expand:
  assumes "s \<notin> V"
  shows "frontier edge V (insert s Q) = insert s (frontier edge (insert s V) (Q \<union> {p. edge s p}))"
proof (intro equalityI subsetI)
  fix y assume "y \<in> frontier edge V (insert s Q)"
  then obtain q where q: "q \<in> insert s Q" "leads edge V q y" by (auto simp: frontier_def)
  consider "leads edge (insert s V) q y" | "y = s" | p where "edge s p" "leads edge (insert s V) p y"
    using leads_split [OF q(2), of s] by blast
  then show "y \<in> insert s (frontier edge (insert s V) (Q \<union> {p. edge s p}))"
    using q(1) by cases (auto simp: frontier_def dest: leads_avoids)
next
  fix y assume "y \<in> insert s (frontier edge (insert s V) (Q \<union> {p. edge s p}))"
  then consider "y = s" | q where "q \<in> Q" "leads edge (insert s V) q y" | p where "edge s p" "leads edge (insert s V) p y"
    by (auto simp: frontier_def)
  then show "y \<in> frontier edge V (insert s Q)"
  proof cases
    case 1
    then show ?thesis using assms by (auto simp: frontier_def intro: leads.intros)
  next
    case 2
    then show ?thesis using leads_mono [of edge "insert s V" q y V] by (auto simp: frontier_def)
  next
    case 3
    have "leads edge V s p" using 3 leads_avoids [OF 3(2)] assms by (auto intro: leads.intros)
    then have "leads edge V s y" using leads_mono [OF 3(2), of V] by (auto intro: leads_trans)
    then show ?thesis by (auto simp: frontier_def)
  qed
qed

lemma frontier_stuck: "s \<notin> V \<Longrightarrow> (\<And>p. \<not> edge s p) \<Longrightarrow> frontier edge V (insert s Q) = insert s (frontier edge (insert s V) Q)"
  by (simp add: frontier_expand)

text \<open>A part of the queue first, then the rest without meeting what the part led to.\<close>

lemma frontier_first: "frontier edge V (A \<union> B) = frontier edge V A \<union> frontier edge (V \<union> frontier edge V A) B"
proof -
  let ?F = "frontier edge V A"
  have closed: "z \<in> ?F" if "y \<in> ?F" "edge y z" "z \<notin> V" for y z
    using that by (auto simp: frontier_def intro: leads.intros)
  have split: "y \<in> ?F \<or> leads edge (V \<union> ?F) x y" if "leads edge V x y" for x y
    using that by (induction rule: leads.induct) (auto intro: leads.intros closed)
  have widen: "leads edge (V \<union> ?F) x y \<Longrightarrow> leads edge V x y" for x y by (rule leads_mono) auto
  show ?thesis
  proof (intro equalityI subsetI)
    fix y assume "y \<in> frontier edge V (A \<union> B)"
    then obtain x where x: "x \<in> A \<union> B" "leads edge V x y" unfolding frontier_def by blast
    then show "y \<in> ?F \<union> frontier edge (V \<union> ?F) B"
      using split [OF x(2)] by (blast intro: frontierI)
  next
    fix y assume "y \<in> ?F \<union> frontier edge (V \<union> ?F) B"
    then show "y \<in> frontier edge V (A \<union> B)"
      unfolding frontier_Un frontier_def [of edge "V \<union> ?F"] frontier_def [of edge V B] using widen by blast
  qed
qed

section \<open>The interface to a store\<close>

locale finite_reader =
  fixes read :: "'k \<Rightarrow> 'x option res"
  assumes finite_readable: "finite {s. \<exists>c. read s = Inr (Some c)}"
begin

definition unread :: "'k list \<Rightarrow> nat" where
  "unread visited = card ({s. \<exists>c. read s = Inr (Some c)} - set visited)"

lemma unread_less: "s \<notin> set visited \<Longrightarrow> read s = Inr (Some c) \<Longrightarrow> unread (s # visited) < unread visited"
  unfolding unread_def by (rule psubset_card_mono) (use finite_readable in auto)

lemma unread_mono: "set V \<subseteq> set W \<Longrightarrow> unread W \<le> unread V"
  unfolding unread_def by (rule card_mono) (use finite_readable in auto)

lemma unread_le: "unread (s # visited) \<le> unread visited"
  unfolding unread_def by (rule card_mono) (use finite_readable in auto)

text \<open>Induction over a walk: the queue is empty, its front is seen, missing, fails or is read; a read adds
  to the queue but takes one of the readable ids away.\<close>

lemma walk_induct_further [case_names Nil Seen Missing Failed Read]:
  assumes Nil: "\<And>V. P V []"
    and Seen: "\<And>V s Q. s \<in> set V \<Longrightarrow> P V Q \<Longrightarrow> P V (s # Q)"
    and Missing: "\<And>V s Q. s \<notin> set V \<Longrightarrow> read s = Inr None \<Longrightarrow> P V Q \<Longrightarrow> P (s # V) Q \<Longrightarrow> P V (s # Q)"
    and Failed: "\<And>V s Q e. s \<notin> set V \<Longrightarrow> read s = Inl e \<Longrightarrow> P V Q \<Longrightarrow> P (s # V) Q \<Longrightarrow> P V (s # Q)"
    and Read: "\<And>V s Q c. s \<notin> set V \<Longrightarrow> read s = Inr (Some c) \<Longrightarrow> P V Q \<Longrightarrow> (\<And>W R. set (s # V) \<subseteq> set W \<Longrightarrow> P W R) \<Longrightarrow> P V (s # Q)"
  shows "P V Q"
proof (induction "unread V" arbitrary: V Q rule: less_induct)
  case (less V Q)
  have "\<forall>W. unread W \<le> unread V \<longrightarrow> P W Q"
  proof (induction Q)
    case Nil
    then show ?case using assms(1) by blast
  next
    case (Cons s Q)
    show ?case
    proof (intro allI impI)
      fix W assume W: "unread W \<le> unread V"
      have PW: "P W Q" using Cons.IH W by blast
      have PsW: "P (s # W) Q" using Cons.IH unread_le [of s W] W by (meson order_trans)
      show "P W (s # Q)"
      proof (cases "s \<in> set W")
        case True
        then show ?thesis using Seen PW by blast
      next
        case False
        show ?thesis
        proof (cases "read s")
          case (Inl e)
          then show ?thesis using Failed False PW PsW by blast
        next
          case (Inr o')
          then show ?thesis
          proof (cases o')
            case None
            then show ?thesis using Missing False Inr PW PsW by blast
          next
            case (Some c)
            have "P X R" if "set (s # W) \<subseteq> set X" for X R
            proof (rule less.hyps)
              show "unread X < unread V"
                using unread_mono [OF that] unread_less [OF False, of c] Inr Some W by simp
            qed
            then show ?thesis using Read False Inr Some PW by blast
          qed
        qed
      qed
    qed
  qed
  from this [rule_format, of V] show ?case by simp
qed

text \<open>The same when a read only adds its id to the visited ones.\<close>

lemma walk_induct [case_names Nil Seen Missing Failed Read]:
  assumes "\<And>V. P V []"
    and "\<And>V s Q. s \<in> set V \<Longrightarrow> P V Q \<Longrightarrow> P V (s # Q)"
    and "\<And>V s Q. s \<notin> set V \<Longrightarrow> read s = Inr None \<Longrightarrow> P V Q \<Longrightarrow> P (s # V) Q \<Longrightarrow> P V (s # Q)"
    and "\<And>V s Q e. s \<notin> set V \<Longrightarrow> read s = Inl e \<Longrightarrow> P V Q \<Longrightarrow> P (s # V) Q \<Longrightarrow> P V (s # Q)"
    and Read: "\<And>V s Q c. s \<notin> set V \<Longrightarrow> read s = Inr (Some c) \<Longrightarrow> P V Q \<Longrightarrow> (\<And>R. P (s # V) R) \<Longrightarrow> P V (s # Q)"
  shows "P V Q"
proof (induction V Q rule: walk_induct_further)
  case (Read V s Q c)
  have "P (s # V) R" for R by (rule Read(4)) simp
  then show ?case by (rule assms(5) [OF Read(1,2,3)])
qed (fact assms(1-4))+

end

end
