(* ===== verification/GitGraph.thy ===== *)
theory GitGraph
  imports GitCommitIndex Reachability
begin

text \<open>
  The walks over the commit graph return and compute what they should: reachability by parents, a common
  ancestor, the number of commits on this side of the merge base. The locale \<open>commit_graph\<close> is the interface
  to the store: only finitely many ids can be read. It is interpreted on \<open>getCommit\<close>.
\<close>

section \<open>Reachability\<close>

definition parent_of :: "reader \<Rightarrow> jsstring \<Rightarrow> jsstring \<Rightarrow> bool" where
  "parent_of read c p \<longleftrightarrow> (\<exists>x. read c = Inr (Some x) \<and> p \<in> set (cm_parents x))"

abbreviation "is_ancestor_of read a d \<equiv> leads (parent_of read) {} d a"

lemma frontier_read:
  assumes "s \<notin> V" and "read s = Inr (Some c)"
  shows "frontier (parent_of read) V (insert s Q) = insert s (frontier (parent_of read) (insert s V) (Q \<union> set (cm_parents c)))"
proof -
  have "{p. parent_of read s p} = set (cm_parents c)" using assms(2) by (auto simp: parent_of_def)
  then show ?thesis using frontier_expand [OF assms(1)] by simp
qed

lemma frontier_missing:
  assumes "s \<notin> V" and "read s = Inr None"
  shows "frontier (parent_of read) V (insert s Q) = insert s (frontier (parent_of read) (insert s V) Q)"
proof -
  have "{p. parent_of read s p} = {}" using assms(2) by (auto simp: parent_of_def)
  then show ?thesis using frontier_expand [OF assms(1)] by simp
qed

lemma loop_Nil [simp]:
  "ancestor_loop read a V [] = Some (Inr False)"
  "ancestors_loop read V [] = Some (Inr V)"
  "merge_base_loop read A V [] = Some (Inr None)"
  "count_loop read stop n V [] = Some (Inr n)"
  by (simp_all add: ancestor_loop.simps ancestors_loop.simps merge_base_loop.simps count_loop.simps)

lemmas ancestor_loop_Cons = ancestor_loop.simps [of _ _ _ "s # Q" for s Q, simplified Let_def list.sel, simplified]
lemmas ancestors_loop_Cons = ancestors_loop.simps [of _ _ "s # Q" for s Q, simplified Let_def list.sel, simplified]
lemmas merge_base_loop_Cons = merge_base_loop.simps [of _ _ _ "s # Q" for s Q, simplified Let_def list.sel, simplified]
lemmas count_loop_Cons = count_loop.simps [of _ _ _ _ "s # Q" for s Q, simplified Let_def list.sel, simplified]

lemmas from_ref_loop_Cons = from_ref_loop.simps [of _ _ _ _ "s # Q" for s Q, simplified Let_def list.sel, simplified]

section \<open>The interface to the store\<close>

locale commit_graph = finite_reader read for read :: reader
begin

subsection \<open>Ancestors\<close>

lemma ancestor_loop_spec:
  "a \<notin> set V \<Longrightarrow> \<exists>r. ancestor_loop read a V Q = Some r \<and> (\<forall>b. r = Inr b \<longrightarrow> (b \<longleftrightarrow> a \<in> frontier (parent_of read) (set V) (set Q)))"
proof (induction V Q rule: walk_induct)
  case (Nil V)
  then show ?case by simp
next
  case (Seen V s Q)
  then show ?case by (simp add: ancestor_loop_Cons frontier_seen)
next
  case (Missing V s Q)
  show ?case
  proof (cases "s = a")
    case False
    then show ?thesis using Missing frontier_missing [where read = read, OF Missing(1,2), of "set Q"] by (simp add: ancestor_loop_Cons)
  qed (use Missing frontier_missing [where read = read, OF Missing(1,2), of "set Q"] in \<open>simp add: ancestor_loop_Cons\<close>)
next
  case (Failed V s Q e)
  have "s = a \<Longrightarrow> a \<in> frontier (parent_of read) (set V) (insert s (set Q))" using Failed(1) by (simp add: frontier_expand)
  then show ?case using Failed by (simp add: ancestor_loop_Cons)
next
  case (Read V s Q c)
  let ?ps = "filter (\<lambda>p. p \<notin> set (s # V)) (cm_parents c)"
  have fr: "frontier (parent_of read) (set V) (set (s # Q)) = insert s (frontier (parent_of read) (set (s # V)) (set (Q @ ?ps)))"
  proof -
    have "set (Q @ ?ps) = set Q \<union> (set (cm_parents c) \<inter> - set (s # V))" by auto
    then have "frontier (parent_of read) (set (s # V)) (set (Q @ ?ps)) = frontier (parent_of read) (set (s # V)) (set Q \<union> set (cm_parents c))"
      by (simp only: frontier_Un frontier_filter)
    then show ?thesis using frontier_read [where read = read, OF Read(1,2), of "set Q"] by simp
  qed
  show ?case
  proof (cases "s = a")
    case True
    then show ?thesis using fr Read(1) by (simp add: ancestor_loop_Cons)
  next
    case False
    then have "a \<notin> set (s # V)" using Read(5) by simp
    then show ?thesis using Read(4) [of "Q @ ?ps"] fr False Read(1,2) by (simp add: ancestor_loop_Cons)
  qed
qed

lemma is_ancestor_spec: "\<exists>r. is_ancestor read a d = Some r \<and> (\<forall>b. r = Inr b \<longrightarrow> (b \<longleftrightarrow> is_ancestor_of read a d))"
proof (cases "a = d")
  case True
  then show ?thesis by (auto simp: is_ancestor_def intro: leads.intros)
next
  case False
  then show ?thesis using ancestor_loop_spec [of a "[]" "[d]"] by (simp add: is_ancestor_def frontier_def)
qed

subsection \<open>Merge bases\<close>

lemma ancestors_loop_spec:
  "\<exists>r. ancestors_loop read V Q = Some r \<and> (\<forall>as. r = Inr as \<longrightarrow> set as = set V \<union> frontier (parent_of read) (set V) (set Q))"
proof (induction V Q rule: walk_induct)
  case (Nil V)
  then show ?case by simp
next
  case (Seen V s Q)
  then show ?case by (simp add: ancestors_loop_Cons frontier_seen)
next
  case (Missing V s Q)
  then show ?case using frontier_missing [where read = read, OF Missing(1,2), of "set Q"] by (simp add: ancestors_loop_Cons)
next
  case (Failed V s Q e)
  then show ?case by (simp add: ancestors_loop_Cons)
next
  case (Read V s Q c)
  then show ?case using Read(4) [of "Q @ cm_parents c"] frontier_read [where read = read, OF Read(1,2), of "set Q"]
    by (simp add: ancestors_loop_Cons)
qed

lemma merge_base_loop_spec:
  "set A \<inter> set V = {} \<Longrightarrow> \<exists>r. merge_base_loop read A V Q = Some r \<and>
    (\<forall>m. r = Inr (Some m) \<longrightarrow> m \<in> set A \<inter> frontier (parent_of read) (set V) (set Q)) \<and>
    (r = Inr None \<longrightarrow> set A \<inter> frontier (parent_of read) (set V) (set Q) = {})"
proof (induction V Q rule: walk_induct)
  case (Nil V)
  then show ?case by simp
next
  case (Seen V s Q)
  then show ?case by (simp add: merge_base_loop_Cons frontier_seen)
next
  case (Missing V s Q)
  note fr = frontier_missing [where read = read, OF Missing(1,2), of "set Q"]
  show ?case
  proof (cases "s \<in> set A")
    case True
    then show ?thesis using Missing(1) fr by (simp add: merge_base_loop_Cons)
  next
    case False
    then have "set A \<inter> set (s # V) = {}" using Missing(5) by auto
    then show ?thesis using Missing(4) fr False Missing(1,2) by (simp add: merge_base_loop_Cons)
  qed
next
  case (Failed V s Q e)
  have "s \<in> frontier (parent_of read) (set V) (insert s (set Q))" using Failed(1) by (simp add: frontier_expand)
  then show ?case using Failed(1,2) by (simp add: merge_base_loop_Cons)
next
  case (Read V s Q c)
  note fr = frontier_read [where read = read, OF Read(1,2), of "set Q"]
  show ?case
  proof (cases "s \<in> set A")
    case True
    then show ?thesis using Read(1) fr by (simp add: merge_base_loop_Cons)
  next
    case False
    then have "set A \<inter> set (s # V) = {}" using Read(5) by auto
    then show ?thesis using Read(4) [of "Q @ cm_parents c"] fr False Read(1,2) by (simp add: merge_base_loop_Cons)
  qed
qed

lemma merge_base_spec: "\<exists>r. merge_base read x y = Some r \<and>
  (\<forall>m. r = Inr (Some m) \<longrightarrow> is_ancestor_of read m x \<and> is_ancestor_of read m y) \<and>
  (r = Inr None \<longrightarrow> (\<forall>m. \<not> (is_ancestor_of read m x \<and> is_ancestor_of read m y)))"
proof -
  obtain a where a: "ancestors_loop read [] [x] = Some a"
    "\<forall>as. a = Inr as \<longrightarrow> set as = frontier (parent_of read) {} {x}" using ancestors_loop_spec [of "[]" "[x]"] by auto
  show ?thesis
  proof (cases a)
    case (Inl e)
    then show ?thesis using a by (simp add: merge_base_def)
  next
    case (Inr as)
    obtain r where "merge_base_loop read as [] [y] = Some r"
      "\<forall>m. r = Inr (Some m) \<longrightarrow> m \<in> set as \<inter> frontier (parent_of read) {} {y}" "r = Inr None \<longrightarrow> set as \<inter> frontier (parent_of read) {} {y} = {}"
      using merge_base_loop_spec [of as "[]" "[y]"] by auto
    then show ?thesis using a Inr by (auto simp: merge_base_def frontier_def)
  qed
qed

subsection \<open>Counting\<close>

lemma count_loop_spec:
  "\<exists>r. count_loop read stop n V Q = Some r \<and>
    (\<forall>k. r = Inr k \<longrightarrow> finite (frontier (parent_of read) (insert stop (set V)) (set Q)) \<and>
      k = n + card (frontier (parent_of read) (insert stop (set V)) (set Q)))"
proof (induction V Q arbitrary: n rule: walk_induct)
  case (Nil V)
  then show ?case by simp
next
  case (Seen V s Q)
  then show ?case by (simp add: count_loop_Cons frontier_seen)
next
  case (Missing V s Q)
  show ?case
  proof (cases "s = stop")
    case True
    then show ?thesis using Missing(3) by (simp add: count_loop_Cons frontier_seen)
  next
    case False
    have "s \<notin> frontier (parent_of read) (insert s (insert stop (set V))) (set Q)" by (simp add: frontier_not_in)
    then show ?thesis using Missing(1,2) Missing(4) [of "Suc n"] False frontier_missing [where read = read and V = "insert stop (set V)" and s = s and Q = "set Q"]
      by (auto simp: count_loop_Cons insert_commute)
  qed
next
  case (Failed V s Q e)
  then show ?case by (cases "s = stop") (simp_all add: count_loop_Cons frontier_seen)
next
  case (Read V s Q c)
  show ?case
  proof (cases "s = stop")
    case True
    then show ?thesis using Read(3) by (simp add: count_loop_Cons frontier_seen)
  next
    case False
    have "s \<notin> frontier (parent_of read) (insert s (insert stop (set V))) (set (Q @ cm_parents c))" by (simp add: frontier_not_in)
    then show ?thesis using Read(1,2) Read(4) [of "Suc n" "Q @ cm_parents c"] False
        frontier_read [where read = read and V = "insert stop (set V)" and s = s and Q = "set Q" and c = c]
      by (auto simp: count_loop_Cons insert_commute)
  qed
qed

lemma countCommitsTo_spec: "\<exists>r. countCommitsTo read x stop = Some r \<and>
  (\<forall>k. r = Inr k \<longrightarrow> finite {y. leads (parent_of read) {stop} x y} \<and> k = card {y. leads (parent_of read) {stop} x y})"
  using count_loop_spec [of stop 0 "[]" "[x]"] by (simp add: countCommitsTo_def frontier_def)

lemma count_between_spec:
  "\<exists>r. count_between read x y = Some r \<and> (\<forall>k. r = Inr k \<longrightarrow>
    (cc_hasBase k \<longrightarrow> (\<exists>m. merge_base read x y = Some (Inr (Some m)) \<and> cc_ahead k = card {z. leads (parent_of read) {m} y z} \<and>
        cc_behind k = card {z. leads (parent_of read) {m} x z} \<and> finite {z. leads (parent_of read) {m} x z} \<and> finite {z. leads (parent_of read) {m} y z})) \<and>
    (\<not> cc_hasBase k \<longrightarrow> cc_ahead k = 0 \<and> cc_behind k = 0))"
proof -
  obtain b where b: "merge_base read x y = Some b" using merge_base_spec by blast
  show ?thesis
  proof (cases "\<exists>m. b = Inr (Some m) \<and> m \<noteq> []")
    case True
    then obtain m where m: "b = Inr (Some m)" "m \<noteq> []" by blast
    then have t: "truthy (Some m) = Some m" by (simp add: truthy_def split: list.splits)
    obtain h where h: "countCommitsTo read y m = Some h"
      "\<forall>k. h = Inr k \<longrightarrow> finite {z. leads (parent_of read) {m} y z} \<and> k = card {z. leads (parent_of read) {m} y z}" using countCommitsTo_spec by blast
    obtain l where l: "countCommitsTo read x m = Some l"
      "\<forall>k. l = Inr k \<longrightarrow> finite {z. leads (parent_of read) {m} x z} \<and> k = card {z. leads (parent_of read) {m} x z}" using countCommitsTo_spec by blast
    show ?thesis using b m t h l by (cases h; cases l) (simp_all add: count_between_def)
  next
    case False
    then show ?thesis using b by (cases b) (auto simp: count_between_def truthy_def split: option.splits list.splits)
  qed
qed

subsection \<open>Commits from a ref\<close>

lemma from_ref_loop_returns: "\<exists>r. from_ref_loop read limit V acc Q = Some r"
proof (induction V Q arbitrary: acc rule: walk_induct)
  case (Nil V)
  show ?case by (subst from_ref_loop.simps) simp
next
  case (Seen V s Q)
  then show ?case by (subst from_ref_loop_Cons) simp
next
  case (Missing V s Q)
  then show ?case by (subst from_ref_loop_Cons) simp
next
  case (Failed V s Q e)
  then show ?case by (subst from_ref_loop_Cons) simp
next
  case (Read V s Q c)
  then show ?case by (subst from_ref_loop_Cons) simp
qed

end

text \<open>Reading a commit from the index or the object store is such a store.\<close>

lemma finite_commits: "finite {s. \<exists>c. getCommit pf db bucket repoId s = Inr (Some c)}"
proof (rule finite_subset)
  have "inj_on getObjectKey {s. isValidSha s \<and> getObjectKey s \<in> fst ` set bucket}"
    by (rule inj_onI) (auto simp: isValidSha_def dest: getObjectKey_inj)
  then have "finite {s. isValidSha s \<and> getObjectKey s \<in> fst ` set bucket}"
    by (rule finite_imageD [rotated]) (rule finite_subset [of _ "fst ` set bucket"], auto)
  then show "finite (cr_sha ` set (gd_commits db) \<union> {s. isValidSha s \<and> getObjectKey s \<in> fst ` set bucket})" by simp
  show "{s. \<exists>c. getCommit pf db bucket repoId s = Inr (Some c)} \<subseteq>
      cr_sha ` set (gd_commits db) \<union> {s. isValidSha s \<and> getObjectKey s \<in> fst ` set bucket}"
  proof (rule subsetI, elim CollectE exE)
    fix s c assume g: "getCommit pf db bucket repoId s = Inr (Some c)"
    show "s \<in> cr_sha ` set (gd_commits db) \<union> {s. isValidSha s \<and> getObjectKey s \<in> fst ` set bucket}"
    proof (cases "sql_get (commit_at repoId s) (gd_commits db)")
      case None
      then have "isValidSha s" "getCommitData pf bucket s = Inr (Some c)"
        using g by (simp_all add: getCommit_def getCommitFromIndex_def split: if_splits)
      then have "r2_get bucket (getObjectKey s) \<noteq> None"
        by (auto simp: getCommitData_def getObject_def getRawObject_def res_elims split: option.splits)
      then show ?thesis using \<open>isValidSha s\<close> by (auto simp: r2_get_def map_get_def map_of_eq_None_iff)
    next
      case (Some row)
      then show ?thesis using sql_get_Some [OF Some] by (auto simp: commit_at_def)
    qed
  qed
qed

interpretation commits: commit_graph "getCommit pf db bucket repoId" for pf db bucket repoId
  by unfold_locales (rule finite_commits)

end
