(* ===== verification/GitReach.thy ===== *)
theory GitReach
  imports GitGraph
begin

text \<open>
  The objects a repository needs (\<open>takos-git/local/core/commit-index.ts\<close>): what \<open>upload-pack\<close> sends for the
  commits a client wants and has, and what the garbage collection must keep. Commits are read through
  \<open>read\<close> and trees through \<open>tree\<close>. The recursion of \<open>collectTreeObjects\<close> over the entries of a tree is a
  loop over an agenda: the entries of a subtree come before the rest of the tree it stands in, which is the
  order of the recursive calls.
\<close>

type_synonym tree_reader = "jsstring \<Rightarrow> tree_entry list option res"

section \<open>Objects to send\<close>

definition agenda_of :: "tree_entry list \<Rightarrow> (jsstring \<times> bool) list" where
  "agenda_of entries = map (\<lambda>e. (te_sha e, is_dir_mode (te_mode e))) entries"

partial_function (option) collect_tree ::
  "tree_reader \<Rightarrow> jsstring list \<Rightarrow> (jsstring \<times> bool) list \<Rightarrow> jsstring list \<Rightarrow> jsstring list \<Rightarrow> (jsstring list \<times> jsstring list) run" where
  "collect_tree tree haves agenda result visited =
    (if agenda = [] then Some (Inr (result, visited))
     else let sha = fst (hd agenda); isTree = snd (hd agenda); agenda = tl agenda in
       if sha \<in> set visited \<or> sha \<in> set haves then collect_tree tree haves agenda result visited
       else if \<not> isTree then collect_tree tree haves agenda (result @ [sha]) (sha # visited)
       else case tree sha of
         Inl e \<Rightarrow> Some (Inl e)
       | Inr None \<Rightarrow> collect_tree tree haves agenda (result @ [sha]) (sha # visited)
       | Inr (Some entries) \<Rightarrow> collect_tree tree haves (agenda_of entries @ agenda) (result @ [sha]) (sha # visited))"

definition collectTreeObjects ::
  "tree_reader \<Rightarrow> jsstring list \<Rightarrow> jsstring \<Rightarrow> jsstring list \<Rightarrow> jsstring list \<Rightarrow> (jsstring list \<times> jsstring list) run" where
  "collectTreeObjects tree haves treeSha = collect_tree tree haves [(treeSha, True)]"

partial_function (option) collect_commits ::
  "reader \<Rightarrow> tree_reader \<Rightarrow> jsstring list \<Rightarrow> jsstring list \<Rightarrow> jsstring list \<Rightarrow> jsstring list \<Rightarrow> jsstring list run" where
  "collect_commits read tree haves commitQueue result visited =
    (if commitQueue = [] then Some (Inr result)
     else let sha = hd commitQueue; commitQueue = tl commitQueue in
       if sha \<in> set visited \<or> sha \<in> set haves then collect_commits read tree haves commitQueue result visited
       else case read sha of
         Inl e \<Rightarrow> Some (Inl e)
       | Inr None \<Rightarrow> collect_commits read tree haves commitQueue (result @ [sha]) (sha # visited)
       | Inr (Some c) \<Rightarrow>
           (case (if cm_tree c \<notin> set (sha # visited) \<and> cm_tree c \<notin> set haves
                  then collectTreeObjects tree haves (cm_tree c) (result @ [sha]) (sha # visited)
                  else Some (Inr (result @ [sha], sha # visited))) of
              None \<Rightarrow> None
            | Some (Inl e) \<Rightarrow> Some (Inl e)
            | Some (Inr (result, visited)) \<Rightarrow>
                collect_commits read tree haves
                  (commitQueue @ filter (\<lambda>p. p \<notin> set visited \<and> p \<notin> set haves) (cm_parents c)) result visited))"

definition collectReachableObjects ::
  "platform \<Rightarrow> git_db \<Rightarrow> bucket \<Rightarrow> jsstring \<Rightarrow> jsstring list \<Rightarrow> jsstring list \<Rightarrow> jsstring list run" where
  "collectReachableObjects pf db bucket repoId wants haves =
    collect_commits (getCommit pf db bucket repoId) (getTreeEntries pf bucket) haves wants [] []"

section \<open>Objects to keep\<close>

partial_function (option) live_trees ::
  "tree_reader \<Rightarrow> jsstring list \<Rightarrow> jsstring list \<Rightarrow> jsstring list \<Rightarrow> (jsstring list \<times> jsstring list) run" where
  "live_trees tree treeQueue reachable visitedTrees =
    (if treeQueue = [] then Some (Inr (reachable, visitedTrees))
     else let treeSha = hd treeQueue; treeQueue = tl treeQueue in
       if treeSha = [] \<or> treeSha \<in> set visitedTrees then live_trees tree treeQueue reachable visitedTrees
       else case tree treeSha of
         Inl e \<Rightarrow> Some (Inl e)
       | Inr None \<Rightarrow> live_trees tree treeQueue reachable (treeSha # visitedTrees)
       | Inr (Some entries) \<Rightarrow>
           live_trees tree
             (treeQueue @ map te_sha (filter (\<lambda>e. is_dir_mode (te_mode e) \<and> te_sha e \<notin> set (treeSha # visitedTrees)) entries))
             (map te_sha entries @ reachable) (treeSha # visitedTrees))"

partial_function (option) live_commits ::
  "reader \<Rightarrow> tree_reader \<Rightarrow> jsstring list \<Rightarrow> jsstring list \<Rightarrow> jsstring list \<Rightarrow> jsstring list \<Rightarrow> jsstring list run" where
  "live_commits read tree commitQueue reachable visitedCommits visitedTrees =
    (if commitQueue = [] then Some (Inr reachable)
     else let commitSha = hd commitQueue; commitQueue = tl commitQueue in
       if commitSha = [] \<or> commitSha \<in> set visitedCommits
       then live_commits read tree commitQueue reachable visitedCommits visitedTrees
       else case read commitSha of
         Inl e \<Rightarrow> Some (Inl e)
       | Inr None \<Rightarrow> live_commits read tree commitQueue reachable (commitSha # visitedCommits) visitedTrees
       | Inr (Some c) \<Rightarrow>
           (case live_trees tree [cm_tree c] (cm_parents c @ cm_tree c # reachable) visitedTrees of
              None \<Rightarrow> None
            | Some (Inl e) \<Rightarrow> Some (Inl e)
            | Some (Inr (reachable, visitedTrees)) \<Rightarrow>
                live_commits read tree
                  (commitQueue @ filter (\<lambda>p. p \<notin> set (commitSha # visitedCommits)) (cm_parents c))
                  reachable (commitSha # visitedCommits) visitedTrees))"

text \<open>The targets of the refs, each once.\<close>

definition collectReachableObjectShas ::
  "platform \<Rightarrow> adapter \<Rightarrow> git_db \<Rightarrow> bucket \<Rightarrow> jsstring \<Rightarrow> jsstring list run" where
  "collectReachableObjectShas pf adapter db bucket repoId =
    bind_run (Some (listAllRefs adapter db repoId)) (\<lambda>refs.
      live_commits (getCommit pf db bucket repoId) (getTreeEntries pf bucket) (js_set (map lr_target refs))
        (js_set (map lr_target refs)) [] [])"

section \<open>Readable commits\<close>

datatype readable_failure = RefNotFound | CommitNotFound | TreeNotFound

datatype readable_result =
    Readable (rd_refSha: jsstring) (rd_resolvedSha: jsstring) (rd_degraded: bool) (rd_commit: git_commit)
  | Unreadable readable_failure "jsstring option"

text \<open>The first commit of the history, other than the primary one, whose tree can be read.\<close>

fun fallback_commit ::
  "(jsstring \<Rightarrow> (jsstring \<times> tree_entry list) option res) \<Rightarrow> git_commit option \<Rightarrow> git_commit list \<Rightarrow> git_commit option res" where
  "fallback_commit getT primary [] = Inr None"
| "fallback_commit getT primary (candidate # rest) =
    (if map_option cm_sha primary = Some (cm_sha candidate) then fallback_commit getT primary rest
     else bind_res (getT (cm_tree candidate)) (\<lambda>tree.
       case tree of None \<Rightarrow> fallback_commit getT primary rest | Some _ \<Rightarrow> Inr (Some candidate)))"

definition resolveReadableCommitFromRef ::
  "platform \<Rightarrow> adapter \<Rightarrow> git_db \<Rightarrow> bucket \<Rightarrow> jsstring \<Rightarrow> jsstring \<Rightarrow> int option \<Rightarrow> readable_result res" where
  "resolveReadableCommitFromRef pf adapter db bucket repoId ref fallbackLimit =
    bind_res (resolveRef adapter db repoId ref) (\<lambda>refSha.
      case truthy refSha of
        None \<Rightarrow> Inr (Unreadable RefNotFound None)
      | Some refCommitSha \<Rightarrow>
          bind_res (getCommit pf db bucket repoId refCommitSha) (\<lambda>primary.
          bind_res (case primary of None \<Rightarrow> Inr None | Some c \<Rightarrow> getTree pf bucket (cm_tree c)) (\<lambda>primaryTree.
            case (primary, primaryTree) of
              (Some c, Some _) \<Rightarrow> Inr (Readable refCommitSha (cm_sha c) False c)
            | _ \<Rightarrow>
                bind_res (getCommitLog pf db bucket repoId refCommitSha
                    (max 1 (case fallbackLimit of None \<Rightarrow> 50 | Some n \<Rightarrow> n))) (\<lambda>history.
                bind_res (fallback_commit (getTree pf bucket) primary history) (\<lambda>found.
                  case found of
                    Some candidate \<Rightarrow> Inr (Readable refCommitSha (cm_sha candidate) True candidate)
                  | None \<Rightarrow> Inr (Unreadable (if primary = None then CommitNotFound else TreeNotFound) (Some refCommitSha)))))))"

end
