(* ===== verification/AccountDb.thy ===== *)
theory AccountDb
  imports SqlTable
begin

text \<open>
  Accounts and memberships (\<open>infra/db/schema-accounts.ts\<close>) and the check that a user belongs to a space
  (\<open>application/services/identity/space-access.ts\<close>, \<open>principals.ts\<close>, \<open>membership-resolver.ts\<close>). A space is
  an account; of its row only the columns that decide access are kept.
\<close>

section \<open>Rows\<close>

record account_row =
  ac_id :: jsstring
  ac_type :: jsstring
  ac_owner :: "jsstring option"
  ac_slug :: jsstring

record membership_row =
  mb_accountId :: jsstring
  mb_memberId :: jsstring
  mb_role :: jsstring
  mb_status :: jsstring

section \<open>Opaque ids\<close>

text \<open>\<open>/^[A-Za-z0-9_-]{1,128}$/\<close> on the trimmed text (\<open>shared/utils/db-guards.ts\<close>).\<close>

definition MAX_OPAQUE_ID_LENGTH :: nat where "MAX_OPAQUE_ID_LENGTH = 128"

definition opaque_id_char :: "unit16 \<Rightarrow> bool" where
  "opaque_id_char c \<longleftrightarrow> 48 \<le> unat c \<and> unat c \<le> 57 \<or> 65 \<le> unat c \<and> unat c \<le> 90 \<or>
    97 \<le> unat c \<and> unat c \<le> 122 \<or> unat c = 95 \<or> unat c = 45"

definition isValidOpaqueId :: "jsstring \<Rightarrow> bool" where
  "isValidOpaqueId v =
    (let normalized = js_trim v in
     normalized \<noteq> [] \<and> length normalized \<le> MAX_OPAQUE_ID_LENGTH \<and> list_all opaque_id_char normalized)"

section \<open>Access to a space\<close>

definition resolveUserPrincipalId :: "account_row list \<Rightarrow> jsstring \<Rightarrow> jsstring option" where
  "resolveUserPrincipalId accounts userId = truthy (map_option ac_id (sql_get (\<lambda>a. ac_id a = userId) accounts))"

definition loadSpace :: "account_row list \<Rightarrow> jsstring \<Rightarrow> jsstring \<Rightarrow> account_row option" where
  "loadSpace accounts spaceIdOrSlug userId =
    (if spaceIdOrSlug = js ''me'' then sql_get (\<lambda>a. ac_id a = userId \<and> ac_type a = js ''user'') accounts
     else sql_get (\<lambda>a. ac_id a = spaceIdOrSlug \<or> ac_slug a = spaceIdOrSlug) accounts)"

definition loadSpaceMembership :: "membership_row list \<Rightarrow> jsstring \<Rightarrow> jsstring \<Rightarrow> membership_row option" where
  "loadSpaceMembership memberships spaceId principalId =
    sql_get (\<lambda>m. mb_accountId m = spaceId \<and> mb_memberId m = principalId) memberships"

definition checkSpaceAccess ::
  "account_row list \<Rightarrow> membership_row list \<Rightarrow> jsstring \<Rightarrow> jsstring \<Rightarrow> jsstring list option \<Rightarrow>
    (account_row \<times> membership_row) option" where
  "checkSpaceAccess accounts memberships spaceIdOrSlug userId requiredRoles =
    (if \<not> isValidOpaqueId userId then None
     else case resolveUserPrincipalId accounts userId of
       None \<Rightarrow> None
     | Some principalId \<Rightarrow>
         (case loadSpace accounts spaceIdOrSlug userId of
            None \<Rightarrow> None
          | Some space \<Rightarrow>
              (case loadSpaceMembership memberships (ac_id space) principalId of
                 None \<Rightarrow> None
               | Some membership \<Rightarrow>
                   (case requiredRoles of
                      Some roles \<Rightarrow> if mb_role membership \<in> set roles then Some (space, membership) else None
                    | None \<Rightarrow> Some (space, membership)))))"

definition resolveAccessibleAccountIds :: "membership_row list \<Rightarrow> jsstring \<Rightarrow> bool \<Rightarrow> jsstring list" where
  "resolveAccessibleAccountIds memberships userId activeOnly =
    js_set (userId # map mb_accountId
      (filter (\<lambda>m. mb_memberId m = userId \<and> (activeOnly \<longrightarrow> mb_status m = js ''active'')) memberships))"

text \<open>What a granted access rests on: the user exists and has a membership row of the space that was found,
  with one of the required roles.\<close>

lemma checkSpaceAccess_Some:
  "checkSpaceAccess accounts memberships s u roles = Some (space, m) \<longleftrightarrow>
    isValidOpaqueId u \<and> resolveUserPrincipalId accounts u = Some u \<and> loadSpace accounts s u = Some space \<and>
    loadSpaceMembership memberships (ac_id space) u = Some m \<and> (\<forall>rs. roles = Some rs \<longrightarrow> mb_role m \<in> set rs)"
proof -
  have "p = u" if "resolveUserPrincipalId accounts u = Some p" for p
    using that by (auto simp: resolveUserPrincipalId_def truthy_Some dest: sql_get_Some)
  then show ?thesis by (auto simp: checkSpaceAccess_def split: option.splits if_splits)
qed

end
