(* ===== verification/GitSmartHttp.thy ===== *)
theory GitSmartHttp
  imports GitReach GitPackCommon AccountDb
begin

text \<open>
  The read-only git remote (\<open>server/routes/git-smart-http.ts\<close>): \<open>info/refs\<close> and \<open>git-upload-pack\<close> with the
  check of the repository's readers (\<open>application/services/source/repository-read.ts\<close>). The resolution of a
  bearer token to a user, which asks the accounts service, is a parameter \<open>bearer\<close>. A reply is its status,
  the code of its JSON error, and its body otherwise. A handler that throws is a failure.
\<close>

section \<open>Base64\<close>

text \<open>\<open>atob\<close>: white space is dropped, padding is optional, and bits left over at the end are discarded.\<close>

definition base64_val :: "unit16 \<Rightarrow> nat option" where
  "base64_val c =
    (let n = unat c in
     if 65 \<le> n \<and> n \<le> 90 then Some (n - 65) else if 97 \<le> n \<and> n \<le> 122 then Some (n - 71)
     else if 48 \<le> n \<and> n \<le> 57 then Some (n + 4) else if n = 43 then Some 62 else if n = 47 then Some 63 else None)"

fun base64_bytes :: "nat list \<Rightarrow> bytes" where
  "base64_bytes (a # b # c # d # rest) =
    of_nat (a * 4 + b div 16) # of_nat (b * 16 + c div 4) # of_nat (c * 64 + d) # base64_bytes rest"
| "base64_bytes [a, b, c] = [of_nat (a * 4 + b div 16), of_nat (b * 16 + c div 4)]"
| "base64_bytes [a, b] = [of_nat (a * 4 + b div 16)]"
| "base64_bytes _ = []"

definition strip_padding :: "jsstring \<Rightarrow> jsstring" where
  "strip_padding s =
    (if length s mod 4 \<noteq> 0 then s
     else if js_ends_with s (js ''=='') then take (length s - 2) s
     else if js_ends_with s (js ''='') then take (length s - 1) s else s)"

definition atob :: "jsstring \<Rightarrow> bytes option" where
  "atob txt =
    (let s = strip_padding (filter (\<lambda>c. c \<notin> set [9, 10, 12, 13, 32]) txt) in
     if length s mod 4 = 1 \<or> list_ex (\<lambda>c. base64_val c = None) s then None
     else Some (base64_bytes (map (\<lambda>c. the (base64_val c)) s)))"

section \<open>Readers of a repository\<close>

record app_db =
  app_accounts :: "account_row list"
  app_memberships :: "membership_row list"
  app_git :: git_db

record repo_access =
  ra_repo :: repo_row
  ra_spaceId :: jsstring
  ra_role :: jsstring

text \<open>Any visibility but \<open>public\<close> reads as private, so the test of \<open>toRepositoryVisibility\<close> is one of the column.\<close>

definition checkRepoAccess ::
  "app_db \<Rightarrow> jsstring \<Rightarrow> jsstring option \<Rightarrow> jsstring list option \<Rightarrow> bool \<Rightarrow> repo_access option" where
  "checkRepoAccess db repoId userId requiredRoles allowPublicRead =
    (if \<not> isValidOpaqueId repoId then None
     else
       let normalizedUserId = (case userId of Some u \<Rightarrow> if isValidOpaqueId u then Some u else None | None \<Rightarrow> None) in
       case sql_get (\<lambda>r. rp_id r = repoId) (gd_repos (app_git db)) of
         None \<Rightarrow> None
       | Some repo \<Rightarrow>
           let member = (case normalizedUserId of
                 None \<Rightarrow> None
               | Some u \<Rightarrow> checkSpaceAccess (app_accounts db) (app_memberships db) (rp_account repo) u requiredRoles) in
           (case member of
              Some (_, membership) \<Rightarrow>
                Some \<lparr>ra_repo = repo, ra_spaceId = rp_account repo, ra_role = mb_role membership\<rparr>
            | None \<Rightarrow>
                if allowPublicRead \<and> requiredRoles = None \<and> rp_visibility repo = js ''public''
                then Some \<lparr>ra_repo = repo, ra_spaceId = rp_account repo, ra_role = js ''viewer''\<rparr> else None))"

section \<open>The repository and the reader of a request\<close>

definition resolveRepo :: "app_db \<Rightarrow> jsstring \<Rightarrow> jsstring \<Rightarrow> repo_row option" where
  "resolveRepo db owner repoParam =
    (let name = (if js_ends_with repoParam (js ''.git'') then take (length repoParam - 4) repoParam else repoParam) in
     if owner = [] \<or> name = [] then None
     else case sql_get (\<lambda>a. ac_slug a = owner) (app_accounts db) of
       None \<Rightarrow> None
     | Some account \<Rightarrow> sql_get (\<lambda>r. rp_account r = ac_id account \<and> rp_name r = name) (gd_repos (app_git db)))"

definition basicPassword :: "jsstring option \<Rightarrow> jsstring option" where
  "basicPassword header =
    (case truthy header of
       None \<Rightarrow> None
     | Some h \<Rightarrow>
         (case js_split 32 h of
            scheme # encoded # _ \<Rightarrow>
              if to_lower scheme \<noteq> js ''basic'' \<or> encoded = [] then None
              else (case atob encoded of
                None \<Rightarrow> None
              | Some raw \<Rightarrow>
                  let decoded = utf8_decode raw in
                  (case index_of 58 decoded of None \<Rightarrow> Some decoded | Some colon \<Rightarrow> Some (drop (colon + 1) decoded)))
          | _ \<Rightarrow> None))"

record git_reply =
  gr_status :: nat
  gr_code :: "jsstring option"
  gr_body :: bytes

abbreviation "refused status code \<equiv> \<lparr>gr_status = status, gr_code = Some (js code), gr_body = []\<rparr>"
abbreviation "not_found_reply \<equiv> refused 404 ''git_repository_not_found''"
abbreviation "unauthorized_reply \<equiv> refused 401 ''git_unauthorized''"

datatype auth_outcome = Granted "jsstring option" | Denied git_reply

definition authenticateRead :: "(jsstring \<Rightarrow> jsstring option) \<Rightarrow> app_db \<Rightarrow> jsstring option \<Rightarrow> jsstring \<Rightarrow> auth_outcome" where
  "authenticateRead bearer db authHeader repoId =
    (let token = truthy (basicPassword authHeader);
         user = (case token of None \<Rightarrow> None | Some t \<Rightarrow> bearer (js ''Bearer '' @ t)) in
     if token \<noteq> None \<and> user = None then Denied unauthorized_reply
     else case checkRepoAccess db repoId user None True of
       Some _ \<Rightarrow> Granted user
     | None \<Rightarrow> Denied (if token = None then unauthorized_reply else not_found_reply))"

section \<open>The advertisement\<close>

definition AGENT :: jsstring where "AGENT = js ''agent=takos-git/0.1''"

text \<open>\<open>ZERO_OID\<close> of this module.\<close>

definition NO_OID :: jsstring where "NO_OID = replicate 40 48"

record advertised_refs =
  av_lines :: "(jsstring \<times> jsstring) list"
  av_tips :: "jsstring list"
  av_headSymref :: "jsstring option"
  av_headSha :: "jsstring option"

definition loadAdvertisedRefs :: "adapter \<Rightarrow> git_db \<Rightarrow> jsstring \<Rightarrow> advertised_refs res" where
  "loadAdvertisedRefs adapter db repoId =
    bind_res (listAllRefs adapter db repoId) (\<lambda>refs.
    bind_res (getDefaultBranch adapter db repoId) (\<lambda>defaultBranch.
      let head = (case defaultBranch of None \<Rightarrow> [] | Some b \<Rightarrow> [(b_sha b, js ''HEAD'')]);
          lines = head @ map (\<lambda>ref. (lr_target ref, lr_name ref)) refs in
      Inr \<lparr>av_lines = lines, av_tips = js_set (map fst lines),
        av_headSymref = map_option (\<lambda>b. js ''refs/heads/'' @ b_name b) defaultBranch,
        av_headSha = map_option b_sha defaultBranch\<rparr>))"

definition capabilities :: "advertised_refs \<Rightarrow> jsstring" where
  "capabilities refs =
    js_join (js '' '')
      ((case truthy (av_headSymref refs) of None \<Rightarrow> [] | Some s \<Rightarrow> [js ''symref=HEAD:'' @ s]) @
       [AGENT, js ''object-format=sha1''])"

definition ref_line :: "jsstring \<Rightarrow> nat \<times> jsstring \<times> jsstring \<Rightarrow> bytes res" where
  "ref_line caps x =
    (case x of (i, sha, name) \<Rightarrow>
       pktLineString (sha @ js '' '' @ name @ (if i = 0 then 0 # caps else []) @ [10]))"

definition buildUploadPackAdvertisement :: "advertised_refs \<Rightarrow> bytes res" where
  "buildUploadPackAdvertisement refs =
    bind_res (pktLineString (js ''# service=git-upload-pack'' @ [10])) (\<lambda>service.
    bind_res
      (if av_lines refs = [] then map_res pktLineString [NO_OID @ js '' capabilities^{}'' @ [0] @ capabilities refs @ [10]]
       else map_res (ref_line (capabilities refs)) (enumerate 0 (av_lines refs))) (\<lambda>lines.
      Inr (concatBytes ([service, PKT_FLUSH] @ lines @ [PKT_FLUSH]))))"

section \<open>The request\<close>

definition js_trim_end :: "jsstring \<Rightarrow> jsstring" where
  "js_trim_end s = rev (dropWhile js_ws (rev s))"

definition scan_request_line :: "bytes option \<Rightarrow> jsstring list \<times> jsstring list \<Rightarrow> jsstring list \<times> jsstring list" where
  "scan_request_line line st =
    (case line of
       None \<Rightarrow> st
     | Some payload \<Rightarrow>
         let txt = js_trim_end (utf8_decode payload); sha = js_slice txt 5 45; (wants, haves) = st in
         if js_starts_with txt (js ''want '') then (if isValidSha sha then (wants @ [sha], haves) else (wants, haves))
         else if js_starts_with txt (js ''have '') then (if isValidSha sha then (wants, haves @ [sha]) else (wants, haves))
         else (wants, haves))"

definition parseUploadPackRequest :: "bytes \<Rightarrow> (jsstring list \<times> jsstring list) res" where
  "parseUploadPackRequest body =
    bind_res (parsePktLines body) (\<lambda>lines. Inr (fold scan_request_line lines ([], [])))"

section \<open>Handlers\<close>

record git_request =
  gq_owner :: jsstring
  gq_repo :: jsstring
  gq_service :: "jsstring option"
  gq_authorization :: "jsstring option"
  gq_body :: bytes

abbreviation "served body \<equiv> \<lparr>gr_status = 200, gr_code = None, gr_body = body\<rparr>"

definition pushDisabled :: git_reply where
  "pushDisabled = refused 403 ''git_push_disabled''"

definition info_refs :: "(jsstring \<Rightarrow> jsstring option) \<Rightarrow> adapter \<Rightarrow> app_db \<Rightarrow> git_request \<Rightarrow> git_reply res" where
  "info_refs bearer adapter db q =
    (if gq_service q = Some (js ''git-receive-pack'') then Inr pushDisabled
     else if gq_service q \<noteq> Some (js ''git-upload-pack'') then Inr (refused 400 ''git_smart_http_service_required'')
     else case resolveRepo db (gq_owner q) (gq_repo q) of
       None \<Rightarrow> Inr not_found_reply
     | Some repo \<Rightarrow>
         (case authenticateRead bearer db (gq_authorization q) (rp_id repo) of
            Denied reply \<Rightarrow> Inr reply
          | Granted _ \<Rightarrow>
              bind_res (loadAdvertisedRefs adapter (app_git db) (rp_id repo)) (\<lambda>refs.
              bind_res (buildUploadPackAdvertisement refs) (\<lambda>body. Inr (served body)))))"

text \<open>The guarded part: building the pack. Whatever it throws is answered with a status of 500.\<close>

definition build_pack_reply :: "platform \<Rightarrow> git_db \<Rightarrow> bucket \<Rightarrow> jsstring \<Rightarrow> jsstring list \<Rightarrow> jsstring list \<Rightarrow> git_reply run" where
  "build_pack_reply pf db bucket repoId wants haves =
    (case (bind_run (collectReachableObjects pf db bucket repoId wants haves) (\<lambda>shas.
           bind_run (Some (writePackFromShas pf bucket shas)) (\<lambda>r.
             if pr_missing r \<noteq> [] then Some (Inr (refused 500 ''git_repository_incomplete''))
             else bind_run (Some (pktLineString (js ''NAK'' @ [10]))) (\<lambda>nak.
               Some (Inr (served (concatBytes [nak, pr_pack r]))))))) of
       None \<Rightarrow> None
     | Some (Inl _) \<Rightarrow> Some (Inr (refused 500 ''git_pack_failed''))
     | Some (Inr reply) \<Rightarrow> Some (Inr reply))"

definition upload_pack ::
  "platform \<Rightarrow> (jsstring \<Rightarrow> jsstring option) \<Rightarrow> adapter \<Rightarrow> app_db \<Rightarrow> bucket option \<Rightarrow> git_request \<Rightarrow> git_reply run" where
  "upload_pack pf bearer adapter db gitObjects q =
    (case resolveRepo db (gq_owner q) (gq_repo q) of
       None \<Rightarrow> Some (Inr not_found_reply)
     | Some repo \<Rightarrow>
         (case authenticateRead bearer db (gq_authorization q) (rp_id repo) of
            Denied reply \<Rightarrow> Some (Inr reply)
          | Granted _ \<Rightarrow>
              (case gitObjects of
                 None \<Rightarrow> Some (Inr (refused 501 ''git_storage_not_configured''))
               | Some bucket \<Rightarrow>
                   bind_run (Some (parseUploadPackRequest (gq_body q))) (\<lambda>(wants, haves).
                     if wants = [] then Some (Inr (refused 400 ''git_no_wants''))
                     else bind_run (Some (loadAdvertisedRefs adapter (app_git db) (rp_id repo))) (\<lambda>refs.
                       if list_ex (\<lambda>want. want \<notin> set (av_tips refs)) wants
                       then Some (Inr (refused 400 ''git_invalid_want''))
                       else build_pack_reply pf (app_git db) bucket (rp_id repo) wants haves)))))"

definition receive_pack :: "git_request \<Rightarrow> git_reply" where
  "receive_pack q = pushDisabled"

end
