(* ===== verification/GitOperations.thy ===== *)
theory GitOperations
  imports GitGraph
begin

text \<open>
  The operations on whole repositories (\<open>takos-git/local/operations.ts\<close>): initialisation, forks, the
  state of a fork against its upstream, and a commit of one file. Random ids and the clock are arguments.
  An operation that fails has still written what it wrote before.
\<close>

section \<open>Initialisation\<close>

definition initRepository ::
  "platform \<Rightarrow> adapter \<Rightarrow> jsstring \<Rightarrow> jsstring \<Rightarrow> int \<Rightarrow> jsstring \<Rightarrow> jsstring \<Rightarrow> git_signature option \<Rightarrow>
    git_db \<times> bucket \<Rightarrow> (git_commit \<times> git_branch) res \<times> git_db \<times> bucket" where
  "initRepository pf adapter commitId branchId now repoId defaultBranch author st =
    (let (db, bucket) = st;
         (emptyTreeSha, bucket) = createEmptyTree pf bucket;
         signature = makeSignature now author;
         (made, db, bucket) = createCommit pf commitId now repoId
           \<lparr>cp_tree = emptyTreeSha, cp_parents = [], cp_message = js ''Initial commit'', cp_author = Some signature,
            cp_committer = Some signature\<rparr> (db, bucket)
     in case made of
          Inl e \<Rightarrow> (Inl e, db, bucket)
        | Inr commit \<Rightarrow>
            (case createBranch adapter branchId now repoId defaultBranch (cm_sha commit) True db of
               Inl e \<Rightarrow> (Inl e, db, bucket)
             | Inr (result, db) \<Rightarrow>
                 (case getBranch adapter db repoId defaultBranch of
                    Inl e \<Rightarrow> (Inl e, db, bucket)
                  | Inr None \<Rightarrow> (Inl (Error ''Failed to create default branch''), db, bucket)
                  | Inr (Some branch) \<Rightarrow> (Inr (commit, branch), db, bucket))))"

section \<open>Forks\<close>

text \<open>One \<open>INSERT\<close> of several rows fails as a whole.\<close>

fun insert_all :: "('r \<Rightarrow> git_db \<Rightarrow> git_db res) \<Rightarrow> 'r list \<Rightarrow> git_db \<Rightarrow> git_db res" where
  "insert_all ins [] db = Inr db"
| "insert_all ins (r # rs) db = bind_res (ins r db) (insert_all ins rs)"

definition fork_branch :: "(nat \<Rightarrow> jsstring) \<Rightarrow> int \<Rightarrow> jsstring \<Rightarrow> nat \<times> git_branch \<Rightarrow> git_branch" where
  "fork_branch newId timestamp targetRepoId x =
    (let (i, branch) = x in
     \<lparr>b_id = newId i, b_repo = targetRepoId, b_name = b_name branch, b_sha = b_sha branch, b_default = b_default branch,
      b_protected = False, b_createdAt = timestamp, b_updatedAt = timestamp\<rparr>)"

definition fork_tag :: "(nat \<Rightarrow> jsstring) \<Rightarrow> jsstring \<Rightarrow> nat \<times> git_tag \<Rightarrow> git_tag" where
  "fork_tag newId targetRepoId x =
    (let (i, tag) = x in
     \<lparr>t_id = newId i, t_repo = targetRepoId, t_name = t_name tag, t_sha = t_sha tag, t_message = t_message tag,
      t_taggerName = t_taggerName tag, t_taggerEmail = t_taggerEmail tag, t_createdAt = t_createdAt tag\<rparr>)"

definition insert_fork :: "fork_row \<Rightarrow> git_db \<Rightarrow> git_db res" where
  "insert_fork f db =
    bind_res (sql_insert_unique (\<lambda>a b. fk_id a = fk_id b \<or> fk_repo a = fk_repo b) f (gd_forks db)) (\<lambda>rows.
      Inr (db\<lparr>gd_forks := rows\<rparr>))"

definition insert_remote :: "remote_row \<Rightarrow> git_db \<Rightarrow> git_db res" where
  "insert_remote r db =
    (if \<not> has_repo db (rt_repo r) then Inl (Error ''FOREIGN KEY constraint failed'')
     else bind_res (sql_insert_unique (\<lambda>a b. rt_id a = rt_id b \<or> (rt_repo a = rt_repo b \<and> rt_name a = rt_name b)) r (gd_remotes db))
       (\<lambda>rows. Inr (db\<lparr>gd_remotes := rows\<rparr>)))"

text \<open>A statement whose failure ends the operation: the state goes on unchanged with the failure.\<close>

definition then_write :: "(git_db \<Rightarrow> git_db res) \<Rightarrow> unit res \<times> git_db \<Rightarrow> unit res \<times> git_db" where
  "then_write stmt st =
    (case st of
       (Inl e, db) \<Rightarrow> (Inl e, db)
     | (Inr _, db) \<Rightarrow> (case stmt db of Inl e \<Rightarrow> (Inl e, db) | Inr db' \<Rightarrow> (Inr (), db')))"

record fork_ids =
  fi_branch :: "nat \<Rightarrow> jsstring"
  fi_tag :: "nat \<Rightarrow> jsstring"
  fi_fork :: jsstring
  fi_remote :: jsstring

definition forkRepository :: "fork_ids \<Rightarrow> int \<Rightarrow> jsstring \<Rightarrow> jsstring \<Rightarrow> git_db \<Rightarrow> unit res \<times> git_db" where
  "forkRepository ids timestamp sourceRepoId targetRepoId db =
    (let sourceBranches = filter (\<lambda>b. b_repo b = sourceRepoId) (gd_branches db);
         sourceTags = filter (\<lambda>t. t_repo t = sourceRepoId) (gd_tags db)
     in then_write (insert_remote \<lparr>rt_id = fi_remote ids, rt_repo = targetRepoId, rt_name = js ''upstream'',
          rt_upstream = sourceRepoId, rt_url = None, rt_lastFetchedAt = None, rt_createdAt = timestamp\<rparr>)
        (then_write (insert_fork \<lparr>fk_id = fi_fork ids, fk_repo = targetRepoId, fk_upstream = sourceRepoId, fk_createdAt = timestamp\<rparr>)
        (then_write (insert_all insert_tag (map (fork_tag (fi_tag ids) targetRepoId) (enumerate 0 sourceTags)))
        (then_write (insert_all insert_branch (map (fork_branch (fi_branch ids) timestamp targetRepoId) (enumerate 0 sourceBranches)))
        (Inr (), db)))))"

section \<open>Forks against their upstream\<close>

record sync_status =
  ss_canSync :: bool
  ss_canFastForward :: bool
  ss_behind :: nat
  ss_ahead :: nat
  ss_hasBase :: bool
  ss_hasConflict :: bool
  ss_upstream :: "jsstring option"

definition no_sync :: "bool \<Rightarrow> bool \<Rightarrow> jsstring option \<Rightarrow> sync_status" where
  "no_sync hasBase conflict upstream =
    \<lparr>ss_canSync = False, ss_canFastForward = False, ss_behind = 0, ss_ahead = 0, ss_hasBase = hasBase,
     ss_hasConflict = conflict, ss_upstream = upstream\<rparr>"

text \<open>The status from the heads of the two branches; \<open>read\<close> reads commits for the fork.\<close>

definition sync_heads :: "reader \<Rightarrow> jsstring \<Rightarrow> jsstring \<Rightarrow> jsstring \<Rightarrow> sync_status run" where
  "sync_heads read upstreamRepoId upstreamSha forkSha =
    bind_run (count_between read upstreamSha forkSha) (\<lambda>k.
      Some (Inr (if \<not> cc_hasBase k then no_sync False True (Some upstreamRepoId)
        else \<lparr>ss_canSync = 0 < cc_behind k, ss_canFastForward = cc_ahead k = 0 \<and> 0 < cc_behind k,
              ss_behind = cc_behind k, ss_ahead = cc_ahead k, ss_hasBase = True,
              ss_hasConflict = 0 < cc_ahead k \<and> 0 < cc_behind k, ss_upstream = Some upstreamRepoId\<rparr>)))"

text \<open>The branch to compare: the one asked for, else the fork's default branch, else \<open>main\<close>.\<close>

definition sync_branch_name :: "adapter \<Rightarrow> git_db \<Rightarrow> jsstring \<Rightarrow> jsstring option \<Rightarrow> jsstring res" where
  "sync_branch_name adapter db forkRepoId branchName =
    (case truthy branchName of
       Some n \<Rightarrow> Inr n
     | None \<Rightarrow> bind_res (getDefaultBranch adapter db forkRepoId) (\<lambda>b.
         Inr (case truthy (map_option b_name b) of Some n \<Rightarrow> n | None \<Rightarrow> js ''main'')))"

definition checkSyncStatus ::
  "platform \<Rightarrow> adapter \<Rightarrow> git_db \<Rightarrow> bucket \<Rightarrow> jsstring \<Rightarrow> jsstring option \<Rightarrow> sync_status run" where
  "checkSyncStatus pf adapter db bucket forkRepoId branchName =
    (case sql_get (\<lambda>f. fk_repo f = forkRepoId) (gd_forks db) of
       None \<Rightarrow> Some (Inr (no_sync True False None))
     | Some f \<Rightarrow>
         bind_run (Some (sync_branch_name adapter db forkRepoId branchName)) (\<lambda>name.
         bind_run (Some (getBranch adapter db forkRepoId name)) (\<lambda>forkBranch.
         bind_run (Some (getBranch adapter db (fk_upstream f) name)) (\<lambda>upstreamBranch.
           case (forkBranch, upstreamBranch) of
             (Some fb, Some ub) \<Rightarrow> sync_heads (getCommit pf db bucket forkRepoId) (fk_upstream f) (b_sha ub) (b_sha fb)
           | _ \<Rightarrow> Some (Inr (no_sync True False (Some (fk_upstream f))))))))"

section \<open>A commit of one file\<close>

definition commitFile ::
  "platform \<Rightarrow> adapter \<Rightarrow> jsstring \<Rightarrow> int \<Rightarrow> jsstring \<Rightarrow> jsstring \<Rightarrow> jsstring \<Rightarrow> jsstring \<Rightarrow> jsstring option \<Rightarrow>
    git_signature option \<Rightarrow> git_db \<times> bucket \<Rightarrow> git_commit res \<times> git_db \<times> bucket" where
  "commitFile pf adapter newId now repoId path content message branchOption author st =
    (let (db, bucket) = st;
         branchName = (case truthy branchOption of Some b \<Rightarrow> b | None \<Rightarrow> js ''main'')
     in case getBranch adapter db repoId branchName of
          Inl e \<Rightarrow> (Inl e, db, bucket)
        | Inr None \<Rightarrow> (Inl (Error ''Branch not found''), db, bucket)
        | Inr (Some branch) \<Rightarrow>
            (case getCommitData pf bucket (b_sha branch) of
               Inl e \<Rightarrow> (Inl e, db, bucket)
             | Inr None \<Rightarrow> (Inl (Error ''Current commit not found''), db, bucket)
             | Inr (Some currentCommit) \<Rightarrow>
                 let (blobSha, bucket) = putBlob pf (utf8_encode content) bucket in
                 (case applyTreeChanges pf (cm_tree currentCommit)
                     [\<lparr>tc_path = path, tc_operation = Add, tc_sha = Some blobSha, tc_mode = None\<rparr>] bucket of
                    Inl e \<Rightarrow> (Inl e, db, bucket)
                  | Inr (newTreeSha, bucket) \<Rightarrow>
                      let signature = makeSignature now author;
                          (made, db, bucket) = createCommit pf newId now repoId
                            \<lparr>cp_tree = newTreeSha, cp_parents = [b_sha branch], cp_message = message,
                             cp_author = Some signature, cp_committer = Some signature\<rparr> (db, bucket)
                      in (case made of
                            Inl e \<Rightarrow> (Inl e, db, bucket)
                          | Inr commit \<Rightarrow>
                              (case updateBranch adapter [] now repoId branchName (Some (b_sha branch)) (cm_sha commit) db of
                                 Inl e \<Rightarrow> (Inl e, db, bucket)
                               | Inr (result, db) \<Rightarrow>
                                   if rr_success result then (Inr commit, db, bucket)
                                   else (Inl (Error ''Failed to update branch''), db, bucket))))))"

end
