(* ===== verification/GitRefLife.thy ===== *)
theory GitRefLife
  imports GitRefs StepSystem
begin

text \<open>
  The refs of repositories as a system of steps: each statement the code issues on the ref tables is one
  event, so that a sequence of events is any interleaving of pushes, merges, tag and branch requests.
\<close>

section \<open>Events\<close>

datatype ref_event =
    RepoAdded repo_row
  | BranchInserted git_branch
  | BranchMoved jsstring jsstring jsstring jsstring int
  | BranchDeleted jsstring jsstring
  | DefaultCleared jsstring int
  | DefaultMarked jsstring jsstring int
  | TagInserted git_tag
  | TagDeleted jsstring jsstring

definition keep :: "'a \<Rightarrow> 'a res \<Rightarrow> 'a" where
  "keep s m = (case m of Inl _ \<Rightarrow> s | Inr t \<Rightarrow> t)"

lemma keep_cases: "P s \<Longrightarrow> (\<And>t. m = Inr t \<Longrightarrow> P t) \<Longrightarrow> P (keep s m)"
  by (cases m) (auto simp: keep_def)

fun ref_apply :: "ref_event \<Rightarrow> git_db \<Rightarrow> git_db" where
  "ref_apply (RepoAdded r) db = db\<lparr>gd_repos := r # gd_repos db\<rparr>"
| "ref_apply (BranchInserted b) db = keep db (insert_branch b db)"
| "ref_apply (BranchMoved r n old new t) db = snd (cas_branch r n old new t db)"
| "ref_apply (BranchDeleted r n) db = delete_branch_row r n db"
| "ref_apply (DefaultCleared r t) db = clear_default r t db"
| "ref_apply (DefaultMarked r n t) db = mark_default r n t db"
| "ref_apply (TagInserted x) db = keep db (insert_tag x db)"
| "ref_apply (TagDeleted r n) db = delete_tag_row r n db"

inductive ref_step :: "ref_event \<Rightarrow> git_db \<Rightarrow> git_db \<Rightarrow> bool" where
  ref_step: "ref_step e db (ref_apply e db)"

inductive_cases ref_stepE: "ref_step e s t"

definition refs_init :: "git_db \<Rightarrow> bool" where
  "refs_init db \<longleftrightarrow> gd_branches db = [] \<and> gd_tags db = []"

section \<open>Names stay unique\<close>

abbreviation "branch_key b \<equiv> (b_repo b, b_name b)"
abbreviation "tag_key t \<equiv> (t_repo t, t_name t)"

definition refs_unique :: "git_db \<Rightarrow> bool" where
  "refs_unique db \<longleftrightarrow> distinct (map branch_key (gd_branches db)) \<and> distinct (map tag_key (gd_tags db))"

lemma sql_insert_unique_Inr: "sql_insert_unique c r xs = Inr ys \<longleftrightarrow> ys = xs @ [r] \<and> (\<forall>x \<in> set xs. \<not> c r x)"
  by (auto simp: sql_insert_unique_def)

lemma insert_branch_Inr: "insert_branch b db = Inr t \<longleftrightarrow>
    has_repo db (b_repo b) \<and> (\<forall>x \<in> set (gd_branches db). \<not> branch_clash b x) \<and>
    t = db\<lparr>gd_branches := gd_branches db @ [b]\<rparr>"
  by (auto simp: insert_branch_def res_elims sql_insert_unique_Inr)

lemma insert_tag_Inr: "insert_tag x db = Inr t \<longleftrightarrow>
    has_repo db (t_repo x) \<and> (\<forall>y \<in> set (gd_tags db). \<not> tag_clash x y) \<and> t = db\<lparr>gd_tags := gd_tags db @ [x]\<rparr>"
  by (auto simp: insert_tag_def res_elims sql_insert_unique_Inr)

lemma insert_branch_unique: "refs_unique db \<Longrightarrow> refs_unique (keep db (insert_branch b db))"
  by (rule keep_cases) (auto simp: insert_branch_Inr refs_unique_def branch_clash_def)

lemma insert_tag_unique: "refs_unique db \<Longrightarrow> refs_unique (keep db (insert_tag x db))"
  by (rule keep_cases) (auto simp: insert_tag_Inr refs_unique_def tag_clash_def)

lemma distinct_sql_delete: "distinct (map k xs) \<Longrightarrow> distinct (map k (sql_delete P xs))"
  by (simp add: sql_delete_def distinct_map_filter)

lemma ref_apply_unique: "refs_unique db \<Longrightarrow> refs_unique (ref_apply e db)"
  by (cases e) (auto intro: insert_branch_unique insert_tag_unique,
    auto simp: refs_unique_def cas_branch_def delete_branch_row_def delete_tag_row_def clear_default_def mark_default_def
      map_sql_update intro: distinct_sql_delete)

interpretation refs: event_system refs_init ref_step refs_unique
proof
  show "refs_init db \<Longrightarrow> refs_unique db" for db by (simp add: refs_init_def refs_unique_def)
  show "refs_unique s \<Longrightarrow> ref_step e s t \<Longrightarrow> refs_unique t" for s e t by (auto elim!: ref_stepE intro: ref_apply_unique)
qed

section \<open>Lookups after a statement\<close>

lemma sql_get_update_where:
  assumes "\<And>r. P r \<Longrightarrow> R (f r) = R r"
  shows "sql_get R (sql_update P f rows) = map_option (\<lambda>r. if P r then f r else r) (sql_get R rows)"
  using assms by (induction rows) (auto simp: sql_get_def sql_update_def)

definition lookup_branch :: "git_db \<Rightarrow> jsstring \<Rightarrow> jsstring \<Rightarrow> git_branch option" where
  "lookup_branch db repoId name = sql_get (branch_at repoId name) (gd_branches db)"

lemma lookup_branch_Some: "lookup_branch db r n = Some b \<Longrightarrow> b \<in> set (gd_branches db) \<and> b_repo b = r \<and> b_name b = n"
  unfolding lookup_branch_def by (drule sql_get_Some) (simp add: branch_at_def)

lemma lookup_branch_unique:
  assumes "refs_unique db" and "b \<in> set (gd_branches db)"
  shows "lookup_branch db (b_repo b) (b_name b) = Some b"
proof (cases "lookup_branch db (b_repo b) (b_name b)")
  case None
  then show ?thesis using assms(2) by (auto simp: lookup_branch_def sql_get_None branch_at_def)
next
  case (Some c)
  then show ?thesis using assms lookup_branch_Some [OF Some]
    by (auto simp: refs_unique_def distinct_map inj_on_def)
qed

text \<open>What an event may do to the branch at a name: nothing touches it but an insertion, a deletion, a move
  that expects its commit, and the default flag.\<close>

fun replaces :: "jsstring \<Rightarrow> jsstring \<Rightarrow> ref_event \<Rightarrow> bool" where
  "replaces r n (BranchInserted b) \<longleftrightarrow> b_repo b = r \<and> b_name b = n"
| "replaces r n (BranchDeleted r' n') \<longleftrightarrow> r' = r \<and> n' = n"
| "replaces r n _ \<longleftrightarrow> False"

fun move_of :: "jsstring \<Rightarrow> jsstring \<Rightarrow> ref_event \<Rightarrow> git_db \<Rightarrow> (jsstring \<times> jsstring) list" where
  "move_of r n (BranchMoved r' n' old new t) db =
    (if r' = r \<and> n' = n \<and> 0 < fst (cas_branch r' n' old new t db) then [(old, new)] else [])"
| "move_of r n _ db = []"

fun moves :: "jsstring \<Rightarrow> jsstring \<Rightarrow> ref_event list \<Rightarrow> git_db \<Rightarrow> (jsstring \<times> jsstring) list" where
  "moves r n [] db = []"
| "moves r n (e # es) db = move_of r n e db @ moves r n es (ref_apply e db)"

fun chained :: "jsstring \<Rightarrow> (jsstring \<times> jsstring) list \<Rightarrow> jsstring \<Rightarrow> bool" where
  "chained x [] y \<longleftrightarrow> x = y"
| "chained x ((old, new) # ms) y \<longleftrightarrow> old = x \<and> chained new ms y"

lemma chained_append: "chained x ms y \<Longrightarrow> chained y ns z \<Longrightarrow> chained x (ms @ ns) z"
  by (induction x ms y rule: chained.induct) auto

lemma lookup_after_move:
  assumes "refs_unique db" and b: "lookup_branch db r n = Some b"
  shows "\<exists>b'. lookup_branch (snd (cas_branch r' n' old new t db)) r n = Some b' \<and>
    chained (b_sha b) (move_of r n (BranchMoved r' n' old new t) db) (b_sha b')"
proof -
  have pos: "0 < fst (cas_branch r n old new t db) \<longleftrightarrow> b_sha b = old"
  proof
    assume "0 < fst (cas_branch r n old new t db)"
    then obtain c where c: "c \<in> set (gd_branches db)" "cas_where r n old c" by (auto simp: cas_branch_def sql_count_pos)
    then have "c = b" using lookup_branch_unique [OF assms(1) c(1)] b by (simp add: cas_where_def)
    then show "b_sha b = old" using c(2) by (simp add: cas_where_def)
  next
    assume "b_sha b = old"
    then show "0 < fst (cas_branch r n old new t db)"
      unfolding cas_branch_def fst_conv sql_count_pos using lookup_branch_Some [OF b] by (auto simp: cas_where_def)
  qed
  have "lookup_branch (snd (cas_branch r' n' old new t db)) r n =
      Some (if cas_where r' n' old b then b\<lparr>b_sha := new, b_updatedAt := t\<rparr> else b)"
    using b unfolding lookup_branch_def cas_branch_def by (subst snd_conv) (simp add: sql_get_update_where branch_at_def)
  then show ?thesis using pos lookup_branch_Some [OF b] by (auto simp: cas_where_def)
qed

lemma lookup_after_step:
  assumes "refs_unique db" and b: "lookup_branch db r n = Some b" and "\<not> replaces r n e"
  shows "\<exists>b'. lookup_branch (ref_apply e db) r n = Some b' \<and> chained (b_sha b) (move_of r n e db) (b_sha b')"
proof (cases e)
  case (BranchMoved r' n' old new t)
  then show ?thesis using lookup_after_move [OF assms(1,2)] by simp
next
  case (BranchInserted x)
  have "lookup_branch (keep db (insert_branch x db)) r n = Some b"
    by (rule keep_cases [where P = "\<lambda>s. lookup_branch s r n = Some b", OF b])
      (use b in \<open>auto simp: insert_branch_Inr lookup_branch_def sql_get_append\<close>)
  then show ?thesis using BranchInserted by simp
next
  case (BranchDeleted r' n')
  have "sql_get (\<lambda>x. branch_at r n x \<and> \<not> branch_at r' n' x) (gd_branches db) = sql_get (branch_at r n) (gd_branches db)"
    using assms(3) BranchDeleted by (intro arg_cong [of _ _ "\<lambda>P. sql_get P _"]) (auto simp: branch_at_def fun_eq_iff)
  then show ?thesis using b BranchDeleted by (simp add: delete_branch_row_def lookup_branch_def sql_get_delete)
next
  case (DefaultCleared r' t)
  then show ?thesis using b by (simp add: clear_default_def lookup_branch_def sql_get_update_where branch_at_def)
next
  case (DefaultMarked r' n' t)
  then show ?thesis using b by (simp add: mark_default_def lookup_branch_def sql_get_update_where branch_at_def)
next
  case (TagInserted x)
  have "lookup_branch (keep db (insert_tag x db)) r n = Some b"
    by (rule keep_cases [where P = "\<lambda>s. lookup_branch s r n = Some b", OF b])
      (use b in \<open>auto simp: insert_tag_Inr lookup_branch_def\<close>)
  then show ?thesis using TagInserted by simp
next
  case (TagDeleted r' n')
  then show ?thesis using b by (simp add: delete_tag_row_def lookup_branch_def)
qed (use b in \<open>simp add: lookup_branch_def\<close>)

lemma steps_fold: "steps ref_step db es db' \<longleftrightarrow> db' = fold ref_apply es db"
  by (induction es arbitrary: db) (auto simp: steps_Cons_iff elim: ref_stepE intro: ref_step)

section \<open>Properties\<close>

text \<open>C15: No update of a branch is lost: however the requests interleave, as long as the branch is not
  deleted, the updates that succeeded form a chain. The first one started from the commit the branch had,
  each next one from the commit its predecessor wrote, and the branch now has the last one's.\<close>

theorem branch_updates_chain:
  assumes "reachable refs_init ref_step db" and "lookup_branch db r n = Some b"
    and "\<forall>e \<in> set es. \<not> replaces r n e" and "steps ref_step db es db'"
  shows "\<exists>b'. lookup_branch db' r n = Some b' \<and> chained (b_sha b) (moves r n es db) (b_sha b')"
  using refs.reachable_inv [OF assms(1)] assms(2,3,4) unfolding steps_fold
proof (induction es arbitrary: db b)
  case (Cons e es)
  obtain b1 where b1: "lookup_branch (ref_apply e db) r n = Some b1" "chained (b_sha b) (move_of r n e db) (b_sha b1)"
    using lookup_after_step [OF Cons.prems(1,2), of e] Cons.prems(3) by auto
  obtain b' where "lookup_branch db' r n = Some b'" "chained (b_sha b1) (moves r n es (ref_apply e db)) (b_sha b')"
    using Cons.IH [OF ref_apply_unique [OF Cons.prems(1)] b1(1)] Cons.prems(3,4) by auto
  then show ?case using chained_append [OF b1(2)] by auto
qed simp

definition demo_branch :: git_branch where
  "demo_branch = \<lparr>b_id = [105], b_repo = [114], b_name = js ''main'', b_sha = replicate 40 97, b_default = True,
     b_protected = False, b_createdAt = 0, b_updatedAt = 0\<rparr>"

definition demo_repo :: "jsstring \<Rightarrow> repo_row" where
  "demo_repo repoId = \<lparr>rp_id = repoId, rp_account = [97], rp_name = repoId, rp_description = None, rp_visibility = js ''private'',
    rp_defaultBranch = js ''main'', rp_forkedFrom = None, rp_remoteCloneUrl = None, rp_stars = 0, rp_forks = 0, rp_gitEnabled = True, rp_createdAt = 0,
    rp_updatedAt = 0\<rparr>"

lemma demo_repo_id [simp]: "rp_id (demo_repo r) = r"
  by (simp add: demo_repo_def)

definition demo_refs :: git_db where
  "demo_refs = \<lparr>gd_repos = [demo_repo [114]], gd_branches = [demo_branch], gd_tags = [], gd_commits = [], gd_forks = [], gd_remotes = []\<rparr>"

lemma demo_refs_reachable: "reachable refs_init ref_step demo_refs"
proof -
  let ?s = "demo_refs\<lparr>gd_branches := []\<rparr>"
  have "reachable refs_init ref_step ?s" by (rule reachable.initial) (simp add: refs_init_def demo_refs_def)
  moreover have "ref_step (BranchInserted demo_branch) ?s demo_refs"
    using ref_step [of "BranchInserted demo_branch" ?s]
    by (simp add: keep_def insert_branch_def has_repo_def sql_insert_unique_def demo_refs_def demo_branch_def)
  ultimately show ?thesis by (rule reachable.further)
qed

theorem branch_updates_chain_witness:
  "\<exists>b'. lookup_branch (fold ref_apply [BranchMoved [114] (js ''main'') (replicate 40 97) (replicate 40 98) 1,
      BranchMoved [114] (js ''main'') (replicate 40 97) (replicate 40 99) 2] demo_refs) [114] (js ''main'') = Some b' \<and>
    chained (replicate 40 97) [(replicate 40 97, replicate 40 98)] (b_sha b')"
proof -
  let ?es = "[BranchMoved [114] (js ''main'') (replicate 40 97) (replicate 40 98) 1,
      BranchMoved [114] (js ''main'') (replicate 40 97) (replicate 40 99) 2]"
  have l: "lookup_branch demo_refs [114] (js ''main'') = Some demo_branch"
    by (simp add: lookup_branch_def demo_refs_def demo_branch_def sql_get_def branch_at_def)
  have m: "moves [114] (js ''main'') ?es demo_refs = [(replicate 40 97, replicate 40 98)]"
    by (simp add: cas_branch_def sql_count_def sql_update_def demo_refs_def demo_branch_def cas_where_def)
  have s: "b_sha demo_branch = replicate 40 97" by (simp add: demo_branch_def)
  have "steps ref_step demo_refs ?es (fold ref_apply ?es demo_refs)" unfolding steps_fold by simp
  from branch_updates_chain [OF demo_refs_reachable l _ this] show ?thesis unfolding m s by simp
qed

lemma withDrizzleFallback_same: "withDrizzleFallback failure x x = Inr y \<Longrightarrow> x = y"
  by (auto simp: withDrizzleFallback_def split: option.splits if_splits)

lemma getBranch_Some: "getBranch adapter db r n = Inr (Some b) \<Longrightarrow> lookup_branch db r n = Some b"
  by (auto simp: getBranch_def lookup_branch_def Let_def split: if_splits dest: withDrizzleFallback_same)

lemma getTag_Some: "getTag adapter db r n = Inr (Some t) \<Longrightarrow> t \<in> set (gd_tags db) \<and> t_repo t = r \<and> t_name t = n"
  by (auto simp: getTag_def Let_def tag_at_def split: if_splits dest!: withDrizzleFallback_same sql_get_Some)

definition owned :: "git_db \<Rightarrow> jsstring \<Rightarrow> jsstring \<Rightarrow> bool" where
  "owned db repoId sha \<longleftrightarrow>
    (\<exists>b \<in> set (gd_branches db). b_repo b = repoId \<and> b_sha b = sha) \<or>
    (\<exists>t \<in> set (gd_tags db). t_repo t = repoId \<and> t_sha t = sha) \<or>
    (\<exists>c \<in> set (gd_commits db). cr_repo c = repoId \<and> cr_sha c = sha)"

text \<open>C16: A repository resolves only its own history: what \<open>resolveRef\<close> returns is the commit of a branch
  or tag of that repository, or a commit in that repository's index; so a caller cannot reach another
  tenant's commit by its id.\<close>

theorem resolveRef_scoped:
  assumes "resolveRef adapter db repoId ref = Inr (Some sha)"
  shows "owned db repoId sha"
proof -
  have b: "getBranch adapter db repoId n = Inr (Some x) \<Longrightarrow> owned db repoId (b_sha x)" for n x
    using lookup_branch_Some [OF getBranch_Some] unfolding owned_def by blast
  have t: "getTag adapter db repoId n = Inr (Some x) \<Longrightarrow> owned db repoId (t_sha x)" for n x
    using getTag_Some unfolding owned_def by blast
  have c: "commit_indexed db repoId x \<Longrightarrow> owned db repoId x" for x
    unfolding commit_indexed_def owned_def by (auto dest!: sql_get_Some)
  show ?thesis using assms
    by (auto simp: resolveRef_def res_elims branch_sha_def truthy_Some split: if_splits option.splits dest: b t c)
qed

theorem resolveRef_scoped_witness:
  "owned demo_refs [114] (replicate 40 97)"
  by (rule resolveRef_scoped [of "\<lambda>_. None" demo_refs "[114]" "js ''refs/heads/main''"])
    (simp add: resolveRef_def getBranch_def getTag_def demo_refs_def demo_branch_def isValidRepoId_def isValidRefName_def
      js_def js_trim_def js_ws_def repo_id_char_def MAX_REPO_ID_LENGTH_def MAX_REF_NAME_LENGTH_def ascii_printable_def
      invalid_ref_char_def js_includes_def js_starts_with_def js_ends_with_def withDrizzleFallback_def branch_at_def
      tag_at_def sql_get_def branch_sha_def truthy_Some Let_def)

text \<open>A request that deletes a branch spares the default branch and the protected ones.\<close>

lemma deleteBranch_spares:
  assumes "refs_unique db" and "deleteBranch adapter r n db = Inr (res, t)"
    and "b \<in> set (gd_branches db)" and "b_default b \<or> b_protected b"
  shows "b \<in> set (gd_branches t)"
proof (cases "t = db")
  case False
  then obtain x where x: "getBranch adapter db r n = Inr (Some x)" "\<not> b_default x" "\<not> b_protected x" "t = delete_branch_row r n db"
    using assms(2) by (auto simp: deleteBranch_def res_elims split: if_splits option.splits elim!: delete_check.elims)
  have "\<not> branch_at r n b"
    using lookup_branch_unique [OF assms(1,3)] getBranch_Some [OF x(1)] x(2,3) assms(4) by (auto simp: branch_at_def)
  then show ?thesis using assms(3) x(4) by (simp add: delete_branch_row_def set_sql_delete)
qed (use assms(3) in simp)

definition dev_branch :: git_branch where
  "dev_branch = \<lparr>b_id = [106], b_repo = [114], b_name = js ''dev'', b_sha = replicate 40 98, b_default = False,
     b_protected = False, b_createdAt = 0, b_updatedAt = 0\<rparr>"

definition two_refs :: git_db where
  "two_refs = \<lparr>gd_repos = [demo_repo [114]], gd_branches = [demo_branch, dev_branch], gd_tags = [], gd_commits = [], gd_forks = [], gd_remotes = []\<rparr>"

text \<open>The check of a deletion and the deletion are two statements, and the default branch can change in
  between: a deletion that found the branch not to be the default, followed by another request that makes
  it the default, still deletes it, and the repository is left without a default branch.\<close>

theorem default_branch_deleted:
  "delete_check (lookup_branch two_refs [114] (js ''dev'')) = None \<and>
   (\<exists>t. setDefaultBranch (\<lambda>_. None) 1 2 [114] (js ''dev'') two_refs = Inr (ref_ok, t) \<and>
     map_option b_default (lookup_branch t [114] (js ''dev'')) = Some True \<and>
     list_all (\<lambda>b. \<not> b_default b) (gd_branches (delete_branch_row [114] (js ''dev'') t)))"
  by (simp add: lookup_branch_def two_refs_def demo_branch_def dev_branch_def sql_get_def branch_at_def js_def
      setDefaultBranch_def getBranch_def isValidRepoId_def isValidRefName_def js_trim_def js_ws_def repo_id_char_def
      MAX_REPO_ID_LENGTH_def MAX_REF_NAME_LENGTH_def ascii_printable_def invalid_ref_char_def js_includes_def
      js_starts_with_def js_ends_with_def withDrizzleFallback_def mark_default_def clear_default_def sql_update_def
      delete_branch_row_def sql_delete_def Let_def)

end
