(* ===== verification/GitHistory.thy ===== *)
theory GitHistory
  imports GitOperations GitRefLife
begin

text \<open>
  What the walks over the commit graph tell the operations on repositories, and where they tell them
  something else than git would.
\<close>

section \<open>The walks return and are right\<close>


text \<open>C20: When no read fails, \<open>isAncestor\<close> answers whether the first commit can be reached from the second
  by parents.\<close>

theorem isAncestor_iff:
  assumes "isAncestor pf db bucket repoId a d = Some (Inr b)"
  shows "b \<longleftrightarrow> is_ancestor_of (getCommit pf db bucket repoId) a d"
  using assms commits.is_ancestor_spec [of pf db bucket repoId a d] unfolding isAncestor_def by auto

text \<open>C21: When no read fails, \<open>findMergeBase\<close> finds a common ancestor of the two commits if there is one,
  and none if there is none.\<close>

theorem findMergeBase_common:
  assumes "findMergeBase pf db bucket repoId a d = Some (Inr m)"
  shows "case m of
      Some x \<Rightarrow> is_ancestor_of (getCommit pf db bucket repoId) x a \<and> is_ancestor_of (getCommit pf db bucket repoId) x d
    | None \<Rightarrow> \<forall>x. \<not> (is_ancestor_of (getCommit pf db bucket repoId) x a \<and> is_ancestor_of (getCommit pf db bucket repoId) x d)"
  using assms commits.merge_base_spec [of pf db bucket repoId a d] unfolding findMergeBase_def by (auto split: option.split)

section \<open>Forks\<close>

context commit_graph begin

lemma sync_heads_fast_forward:
  assumes "sync_heads read up u f = Some (Inr st)" and "ss_canFastForward st"
  shows "is_ancestor_of read f u \<and> f \<noteq> u"
proof -
  obtain k where k: "count_between read u f = Some (Inr k)" "cc_hasBase k" "cc_ahead k = 0" "0 < cc_behind k"
    using assms by (auto simp: sync_heads_def res_elims no_sync_def split: if_splits)
  obtain m where m: "merge_base read u f = Some (Inr (Some m))" "cc_ahead k = card {z. leads (parent_of read) {m} f z}"
      "cc_behind k = card {z. leads (parent_of read) {m} u z}" "finite {z. leads (parent_of read) {m} f z}"
    using count_between_spec [of u f] k(1,2) by auto
  have none: "\<not> leads (parent_of read) {m} f z" for z using k(3) m(2,4) by auto
  have "f = m" using none leads_start [of f "{m}" "parent_of read"] by auto
  moreover have "is_ancestor_of read m u" using merge_base_spec [of u f] m(1) by auto
  moreover have "f \<noteq> u" using none k(4) m(3) by auto
  ultimately show ?thesis by simp
qed

end

text \<open>C17: A fork that may be fast-forwarded loses nothing: when the status of a fork allows it, the head of
  its branch is an ancestor of the head of the upstream's branch of that name, and another commit.\<close>

theorem fast_forward_safe:
  assumes "checkSyncStatus pf adapter db bucket forkRepoId branchName = Some (Inr st)" and "ss_canFastForward st"
  shows "\<exists>upstream name fb ub. ss_upstream st = Some upstream \<and>
    getBranch adapter db forkRepoId name = Inr (Some fb) \<and> getBranch adapter db upstream name = Inr (Some ub) \<and>
    is_ancestor_of (getCommit pf db bucket forkRepoId) (b_sha fb) (b_sha ub) \<and> b_sha fb \<noteq> b_sha ub"
proof -
  obtain f where f: "sql_get (\<lambda>f. fk_repo f = forkRepoId) (gd_forks db) = Some f"
    using assms by (auto simp: checkSyncStatus_def no_sync_def split: option.splits)
  then obtain name fb ub where b: "getBranch adapter db forkRepoId name = Inr (Some fb)"
    "getBranch adapter db (fk_upstream f) name = Inr (Some ub)"
    "sync_heads (getCommit pf db bucket forkRepoId) (fk_upstream f) (b_sha ub) (b_sha fb) = Some (Inr st)"
    using assms by (auto simp: checkSyncStatus_def no_sync_def res_elims split: option.splits)
  have "ss_upstream st = Some (fk_upstream f)"
    using b(3) by (auto simp: sync_heads_def res_elims no_sync_def split: if_splits)
  then show ?thesis using commits.sync_heads_fast_forward [OF b(3) assms(2)] b(1,2) by blast
qed

section \<open>A small history\<close>

text \<open>Commit 1; commit 2 on top of it, the head of the upstream; commit 3 of the fork, which merges 2 into 1.\<close>

definition demo_commit :: "jsstring \<Rightarrow> jsstring \<Rightarrow> jsstring list \<Rightarrow> commit_row" where
  "demo_commit repo sha parents =
    \<lparr>cr_id = sha, cr_repo = repo, cr_sha = sha, cr_tree = [116], cr_parents = parents_column parents, cr_authorName = [97],
     cr_authorEmail = [97], cr_authorDate = 0, cr_committerName = [97], cr_committerEmail = [97], cr_commitDate = 0,
     cr_message = []\<rparr>"

definition demo_head :: "jsstring \<Rightarrow> jsstring \<Rightarrow> git_branch" where
  "demo_head repo sha = \<lparr>b_id = repo, b_repo = repo, b_name = js ''main'', b_sha = sha, b_default = True,
     b_protected = False, b_createdAt = 0, b_updatedAt = 0\<rparr>"

definition demo_history :: "jsstring \<Rightarrow> git_db" where
  "demo_history forkHead = \<lparr>gd_repos = [demo_repo [102], demo_repo [117]], gd_branches = [demo_head [102] forkHead, demo_head [117] [2]], gd_tags = [],
     gd_commits = [demo_commit [102] [1] [], demo_commit [102] [2] [[1]], demo_commit [102] [3] [[1], [2]]],
     gd_forks = [\<lparr>fk_id = [102], fk_repo = [102], fk_upstream = [117], fk_createdAt = 0\<rparr>], gd_remotes = []\<rparr>"

lemma demo_get:
  "getCommit pf (demo_history h) bucket [102] [1] = Inr (Some (indexedToCommit (demo_commit [102] [1] [])))"
  "getCommit pf (demo_history h) bucket [102] [2] = Inr (Some (indexedToCommit (demo_commit [102] [2] [[1]])))"
  "getCommit pf (demo_history h) bucket [102] [3] = Inr (Some (indexedToCommit (demo_commit [102] [3] [[1], [2]])))"
  by (simp_all add: getCommit_def getCommitFromIndex_def demo_history_def sql_get_def commit_at_def demo_commit_def)

lemma demo_parents: "cm_parents (indexedToCommit (demo_commit r s ps)) = ps"
  by (simp add: indexedToCommit_def demo_commit_def parents_column_def)

lemmas demo_walk = ancestors_loop_Cons merge_base_loop_Cons count_loop_Cons ancestor_loop_Cons demo_get demo_parents

lemma demo_branch_reads:
  "getBranch (\<lambda>_. None) (demo_history h) [102] (js ''main'') = Inr (Some (demo_head [102] h))"
  "getBranch (\<lambda>_. None) (demo_history h) [117] (js ''main'') = Inr (Some (demo_head [117] [2]))"
  "getDefaultBranch (\<lambda>_. None) (demo_history h) [102] = Inr (Some (demo_head [102] h))"
  by (simp_all add: getBranch_def getDefaultBranch_def demo_history_def demo_head_def isValidRepoId_def isValidRefName_def js_def
      js_trim_def js_ws_def repo_id_char_def MAX_REPO_ID_LENGTH_def MAX_REF_NAME_LENGTH_def ascii_printable_def invalid_ref_char_def
      js_includes_def js_starts_with_def js_ends_with_def withDrizzleFallback_def branch_at_def sql_get_def Let_def)

lemma demo_status: "checkSyncStatus pf (\<lambda>_. None) (demo_history h) bucket [102] None =
  sync_heads (getCommit pf (demo_history h) bucket [102]) [117] [2] h"
proof -
  have "sql_get (\<lambda>f. fk_repo f = [102]) (gd_forks (demo_history h)) =
      Some \<lparr>fk_id = [102], fk_repo = [102], fk_upstream = [117], fk_createdAt = 0\<rparr>"
    by (simp add: demo_history_def sql_get_def)
  moreover have "sync_branch_name (\<lambda>_. None) (demo_history h) [102] None = Inr (js ''main'')"
    by (simp add: sync_branch_name_def demo_branch_reads demo_head_def truthy_def js_def)
  moreover have "b_sha (demo_head r x) = x" for r x by (simp add: demo_head_def)
  ultimately show ?thesis by (simp add: checkSyncStatus_def demo_branch_reads)
qed

theorem isAncestor_iff_witness:
  "is_ancestor_of (getCommit test_platform (demo_history [3]) [] [102]) [2] [3]"
proof -
  have "isAncestor test_platform (demo_history [3]) [] [102] [2] [3] = Some (Inr True)"
    by (simp add: isAncestor_def is_ancestor_def demo_walk)
  from isAncestor_iff [OF this] show ?thesis by simp
qed

theorem findMergeBase_common_witness:
  "is_ancestor_of (getCommit test_platform (demo_history [3]) [] [102]) [1] [2] \<and>
   is_ancestor_of (getCommit test_platform (demo_history [3]) [] [102]) [1] [3]"
proof -
  have "findMergeBase test_platform (demo_history [3]) [] [102] [2] [3] = Some (Inr (Some [1]))"
    by (simp add: findMergeBase_def merge_base_def demo_walk)
  from findMergeBase_common [OF this] show ?thesis by simp
qed

theorem fast_forward_safe_witness:
  "is_ancestor_of (getCommit test_platform (demo_history [1]) [] [102]) [1] [2]"
proof -
  let ?st = "\<lparr>ss_canSync = True, ss_canFastForward = True, ss_behind = 1, ss_ahead = 0, ss_hasBase = True,
     ss_hasConflict = False, ss_upstream = Some [117]\<rparr>"
  have "checkSyncStatus test_platform (\<lambda>_. None) (demo_history [1]) [] [102] None = Some (Inr ?st)"
    by (simp add: demo_status sync_heads_def count_between_def merge_base_def countCommitsTo_def truthy_def demo_walk)
  from fast_forward_safe [OF this] obtain name fb ub where
    "getBranch (\<lambda>_. None) (demo_history [1]) [102] name = Inr (Some fb)" "getBranch (\<lambda>_. None) (demo_history [1]) [117] name = Inr (Some ub)"
    "is_ancestor_of (getCommit test_platform (demo_history [1]) [] [102]) (b_sha fb) (b_sha ub)" by auto
  moreover have "b_sha b = [1]" if "getBranch (\<lambda>_. None) (demo_history [1]) [102] n = Inr (Some b)" for n b
    using lookup_branch_Some [OF getBranch_Some [OF that]] by (auto simp: demo_history_def demo_head_def)
  moreover have "b_sha b = [2]" if "getBranch (\<lambda>_. None) (demo_history [1]) [117] n = Inr (Some b)" for n b
    using lookup_branch_Some [OF getBranch_Some [OF that]] by (auto simp: demo_history_def demo_head_def)
  ultimately show ?thesis by auto
qed

text \<open>The merge base is the first common ancestor a breadth-first search meets, not the best one. After a
  fork has merged the head of its upstream (its commit 3 has the parents 1 and 2), the upstream's head 2
  is an ancestor of the fork's head; still the base is 1, and the fork is reported as one commit behind,
  two ahead and in conflict.\<close>

theorem merged_fork_reported_in_conflict:
  "is_ancestor_of (getCommit pf (demo_history [3]) bucket [102]) [2] [3] \<and>
   findMergeBase pf (demo_history [3]) bucket [102] [2] [3] = Some (Inr (Some [1])) \<and>
   checkSyncStatus pf (\<lambda>_. None) (demo_history [3]) bucket [102] None =
     Some (Inr \<lparr>ss_canSync = True, ss_canFastForward = False, ss_behind = 1, ss_ahead = 2, ss_hasBase = True,
       ss_hasConflict = True, ss_upstream = Some [117]\<rparr>)"
proof -
  have "parent_of (getCommit pf (demo_history [3]) bucket [102]) [3] [2]" by (simp add: parent_of_def demo_get demo_parents)
  then have "is_ancestor_of (getCommit pf (demo_history [3]) bucket [102]) [2] [3]" by (auto intro: leads.intros)
  moreover have "findMergeBase pf (demo_history [3]) bucket [102] [2] [3] = Some (Inr (Some [1]))"
    by (simp add: findMergeBase_def merge_base_def demo_walk)
  moreover have "checkSyncStatus pf (\<lambda>_. None) (demo_history [3]) bucket [102] None =
     Some (Inr \<lparr>ss_canSync = True, ss_canFastForward = False, ss_behind = 1, ss_ahead = 2, ss_hasBase = True,
       ss_hasConflict = True, ss_upstream = Some [117]\<rparr>)"
    by (simp add: demo_status sync_heads_def count_between_def merge_base_def countCommitsTo_def truthy_def demo_walk)
  ultimately show ?thesis by blast
qed

text \<open>The index forgets the time zone: a commit read from the index has the zone \<open>+0000\<close> for author and
  committer, whatever the stored commit says, and otherwise the fields it was indexed with.\<close>

theorem index_forgets_zone:
  assumes "indexCommit newId repoId c db = Inr db'" and "sql_get (commit_at repoId (cm_sha c)) (gd_commits db) = None"
  shows "getCommit pf db' bucket repoId (cm_sha c) =
    Inr (Some (c\<lparr>cm_author := (cm_author c)\<lparr>sig_tz := js ''+0000''\<rparr>, cm_committer := (cm_committer c)\<lparr>sig_tz := js ''+0000''\<rparr>\<rparr>))"
proof -
  obtain row where row: "commit_row_of newId repoId c = Inr row" "insert_commit row db = Inr db'"
    using assms by (auto simp: indexCommit_def res_elims)
  have db': "gd_commits db' = gd_commits db @ [row]"
    using row(2) by (auto simp: insert_commit_def res_elims sql_insert_unique_Inr split: if_splits)
  obtain a b where d: "sig_timestamp (cm_author c) = Num a" "sig_timestamp (cm_committer c) = Num b"
      "sigTimestampToIso (cm_author c) = Inr (a * 1000)" "sigTimestampToIso (cm_committer c) = Inr (b * 1000)"
    using row(1) by (auto simp: commit_row_of_def res_elims sigTimestampToIso_def split: js_num.splits if_splits)
  have r: "row = \<lparr>cr_id = newId, cr_repo = repoId, cr_sha = cm_sha c, cr_tree = cm_tree c,
      cr_parents = parents_column (cm_parents c), cr_authorName = sig_name (cm_author c), cr_authorEmail = sig_email (cm_author c),
      cr_authorDate = a * 1000, cr_committerName = sig_name (cm_committer c), cr_committerEmail = sig_email (cm_committer c),
      cr_commitDate = b * 1000, cr_message = cm_message c\<rparr>"
    using row(1) d(3,4) by (simp add: commit_row_of_def)
  have "commit_at repoId (cm_sha c) row" by (simp add: r commit_at_def)
  then have "getCommit pf db' bucket repoId (cm_sha c) = Inr (Some (indexedToCommit row))"
    using assms(2) by (simp add: getCommit_def getCommitFromIndex_def db' sql_get_append, simp add: sql_get_def)
  moreover have "indexedToCommit row =
      c\<lparr>cm_author := (cm_author c)\<lparr>sig_tz := js ''+0000''\<rparr>, cm_committer := (cm_committer c)\<lparr>sig_tz := js ''+0000''\<rparr>\<rparr>"
    using d(1,2) by (cases c, cases "cm_author c", cases "cm_committer c")
      (auto simp: r indexedToCommit_def sig_of_row_def parents_column_def)
  ultimately show ?thesis by simp
qed

definition tokyo_commit :: git_commit where
  "tokyo_commit = (let sig = \<lparr>sig_name = [97], sig_email = [97], sig_timestamp = Num 7, sig_tz = js ''+0900''\<rparr> in
    \<lparr>cm_tree = [116], cm_parents = [], cm_author = sig, cm_committer = sig, cm_message = [], cm_sha = [9]\<rparr>)"

theorem index_forgets_zone_witness:
  "\<exists>db' c. getCommit test_platform db' [] [102] [9] = Inr (Some c) \<and> sig_tz (cm_author tokyo_commit) = js ''+0900'' \<and>
    sig_tz (cm_author c) = js ''+0000''"
proof -
  let ?db = "demo_history [3]"
  have g: "sql_get (commit_at [102] (cm_sha tokyo_commit)) (gd_commits ?db) = None"
    by (simp add: demo_history_def demo_commit_def tokyo_commit_def sql_get_def commit_at_def Let_def)
  obtain db' where "indexCommit [9] [102] tokyo_commit ?db = Inr db'"
    by (simp add: indexCommit_def g) (simp add: commit_row_of_def sigTimestampToIso_def insert_commit_def has_repo_def sql_insert_unique_def
        commit_clash_def demo_history_def demo_commit_def tokyo_commit_def Let_def)
  from index_forgets_zone [OF this g, of test_platform "[]"]
  have "getCommit test_platform db' [] [102] [9] = Inr (Some (tokyo_commit\<lparr>cm_author := (cm_author tokyo_commit)\<lparr>sig_tz := js ''+0000''\<rparr>,
      cm_committer := (cm_committer tokyo_commit)\<lparr>sig_tz := js ''+0000''\<rparr>\<rparr>))" (is "_ = Inr (Some ?c)")
    by (simp add: tokyo_commit_def Let_def)
  moreover have "sig_tz (cm_author ?c) = js ''+0000''" by simp
  moreover have "sig_tz (cm_author tokyo_commit) = js ''+0900''" by (simp add: tokyo_commit_def Let_def)
  ultimately show ?thesis by blast
qed

end
