(* ===== verification/GitReachProps.thy ===== *)
theory GitReachProps
  imports GitReach GitHistory
begin

text \<open>
  Nothing that is needed is left out: the objects \<open>upload-pack\<close> sends are exactly those the client needs and
  does not have, and the garbage collection keeps everything the refs need.
\<close>

section \<open>What is needed\<close>

datatype role = CommitRole | TreeRole | FileRole

definition entry_role :: "tree_entry \<Rightarrow> role" where
  "entry_role e = (if is_dir_mode (te_mode e) then TreeRole else FileRole)"

inductive needed :: "reader \<Rightarrow> tree_reader \<Rightarrow> jsstring set \<Rightarrow> jsstring set \<Rightarrow> role \<Rightarrow> jsstring \<Rightarrow> bool"
  for read :: reader and tree :: tree_reader and H :: "jsstring set" and W :: "jsstring set" where
  needed_want: "w \<in> W \<Longrightarrow> w \<notin> H \<Longrightarrow> needed read tree H W CommitRole w"
| needed_parent: "needed read tree H W CommitRole c \<Longrightarrow> read c = Inr (Some x) \<Longrightarrow> p \<in> set (cm_parents x) \<Longrightarrow> p \<notin> H \<Longrightarrow>
    needed read tree H W CommitRole p"
| needed_tree: "needed read tree H W CommitRole c \<Longrightarrow> read c = Inr (Some x) \<Longrightarrow> cm_tree x \<notin> H \<Longrightarrow>
    needed read tree H W TreeRole (cm_tree x)"
| needed_entry: "needed read tree H W TreeRole t \<Longrightarrow> tree t = Inr (Some es) \<Longrightarrow> e \<in> set es \<Longrightarrow> te_sha e \<notin> H \<Longrightarrow>
    needed read tree H W (entry_role e) (te_sha e)"

text \<open>No id is needed in two roles: nobody refers to a tree as a file, or to a commit as a tree.\<close>

definition one_role :: "(role \<Rightarrow> jsstring \<Rightarrow> bool) \<Rightarrow> bool" where
  "one_role N \<longleftrightarrow> (\<forall>x r s. N r x \<longrightarrow> N s x \<longrightarrow> r = s)"

lemmas collect_tree_Nil = collect_tree.simps [of _ _ "[]", simplified]
lemmas collect_tree_Cons = collect_tree.simps [of _ _ "x # Q" for x Q, simplified Let_def list.sel, simplified]
lemmas collect_commits_Nil = collect_commits.simps [of _ _ _ "[]", simplified]
lemmas collect_commits_Cons = collect_commits.simps [of _ _ _ "x # Q" for x Q, simplified Let_def list.sel, simplified]
lemmas live_trees_Nil = live_trees.simps [of _ "[]", simplified]
lemmas live_trees_Cons = live_trees.simps [of _ "x # Q" for x Q, simplified Let_def list.sel, simplified]
lemmas live_commits_Nil = live_commits.simps [of _ _ "[]", simplified]
lemmas live_commits_Cons = live_commits.simps [of _ _ "x # Q" for x Q, simplified Let_def list.sel, simplified]

section \<open>Garbage collection\<close>

text \<open>The trees that were visited have their entries among the reachable objects, and their subtrees are
  visited or still in the queue.\<close>

definition trees_kept :: "tree_reader \<Rightarrow> jsstring list \<Rightarrow> jsstring list \<Rightarrow> jsstring list \<Rightarrow> bool" where
  "trees_kept tree R V Q \<longleftrightarrow> (\<forall>t es e. t \<in> set V \<longrightarrow> tree t = Inr (Some es) \<longrightarrow> e \<in> set es \<longrightarrow>
    te_sha e \<in> set R \<and> (is_dir_mode (te_mode e) \<longrightarrow> te_sha e = [] \<or> te_sha e \<in> set V \<or> te_sha e \<in> set Q))"

lemma trees_kept_mono: "trees_kept tree R V Q \<Longrightarrow> set R \<subseteq> set R' \<Longrightarrow> trees_kept tree R' V Q"
  unfolding trees_kept_def by blast

lemma trees_kept_drop: "trees_kept tree R V (s # Q) \<Longrightarrow> s = [] \<or> s \<in> set V \<Longrightarrow> trees_kept tree R V Q"
  unfolding trees_kept_def by auto

lemma trees_kept_skip: "trees_kept tree R V (s # Q) \<Longrightarrow> tree s = Inr None \<Longrightarrow> trees_kept tree R (s # V) Q"
  unfolding trees_kept_def by auto

lemma trees_kept_read:
  assumes "trees_kept tree R V (s # Q)" and "tree s = Inr (Some es)"
  shows "trees_kept tree (map te_sha es @ R) (s # V)
    (Q @ map te_sha (filter (\<lambda>e. is_dir_mode (te_mode e) \<and> te_sha e \<notin> set (s # V)) es))"
  using assms unfolding trees_kept_def by auto

definition trees_done :: "tree_reader \<Rightarrow> jsstring list \<Rightarrow> jsstring list \<Rightarrow> jsstring list \<Rightarrow> jsstring list \<times> jsstring list \<Rightarrow> bool" where
  "trees_done tree R V Q x \<longleftrightarrow> (let (R', V') = x in
    trees_kept tree R' V' [] \<and> set R \<subseteq> set R' \<and> set V \<subseteq> set V' \<and> (\<forall>q \<in> set Q. q = [] \<or> q \<in> set V'))"


lemma trees_done_seen: "s = [] \<or> s \<in> set V \<Longrightarrow> trees_done tree R V Q x \<Longrightarrow> trees_done tree R V (s # Q) x"
  by (auto simp: trees_done_def)

lemma trees_done_step: "trees_done tree R1 (s # V) Q1 x \<Longrightarrow> set R \<subseteq> set R1 \<Longrightarrow> set Q \<subseteq> set Q1 \<Longrightarrow> trees_done tree R V (s # Q) x"
  by (auto simp: trees_done_def)

locale tree_store = finite_reader tree for tree :: tree_reader
begin

lemma live_trees_spec:
  "trees_kept tree R V Q \<Longrightarrow> \<exists>r. live_trees tree Q R V = Some r \<and> (\<forall>x. r = Inr x \<longrightarrow> trees_done tree R V Q x)"
proof (induction V Q arbitrary: R rule: walk_induct)
  case (Nil V)
  then show ?case by (simp add: live_trees_Nil trees_done_def)
next
  case (Seen V s Q)
  show ?case using Seen(1) Seen(2) [OF trees_kept_drop [OF Seen(3) disjI2 [OF Seen(1)]]]
    by (auto simp: live_trees_Cons intro: trees_done_seen)
next
  case (Missing V s Q)
  show ?case
  proof (cases "s = []")
    case True
    then show ?thesis using Missing(3) [OF trees_kept_drop [OF Missing(5) disjI1]]
      by (auto simp: live_trees_Cons intro: trees_done_seen)
  next
    case False
    then show ?thesis using Missing(1,2) Missing(4) [OF trees_kept_skip [OF Missing(5,2)]]
      by (auto simp: live_trees_Cons intro: trees_done_step)
  qed
next
  case (Failed V s Q e)
  show ?case
  proof (cases "s = []")
    case True
    then show ?thesis using Failed(3) [OF trees_kept_drop [OF Failed(5) disjI1]]
      by (auto simp: live_trees_Cons intro: trees_done_seen)
  next
    case False
    then show ?thesis using Failed(1,2) by (simp add: live_trees_Cons)
  qed
next
  case (Read V s Q es)
  show ?case
  proof (cases "s = []")
    case True
    then show ?thesis using Read(3) [OF trees_kept_drop [OF Read(5) disjI1]]
      by (auto simp: live_trees_Cons intro: trees_done_seen)
  next
    case False
    let ?R = "map te_sha es @ R"
    let ?Q = "Q @ map te_sha (filter (\<lambda>e. is_dir_mode (te_mode e) \<and> te_sha e \<notin> set (s # V)) es)"
    obtain r where r: "live_trees tree ?Q ?R (s # V) = Some r" "\<forall>x. r = Inr x \<longrightarrow> trees_done tree ?R (s # V) ?Q x"
      using Read(4) [OF trees_kept_read [OF Read(5,2)]] by blast
    have "live_trees tree (s # Q) R V = Some r" using r(1) False Read(1,2) by (simp add: live_trees_Cons)
    moreover have "\<forall>x. r = Inr x \<longrightarrow> trees_done tree R V (s # Q) x"
      using r(2) trees_done_step [of tree ?R s V ?Q _ R Q] by simp
    ultimately show ?thesis by blast
  qed
qed

end

text \<open>The same for commits: a visited commit has its tree kept and visited, and its parents kept and visited
  or still in the queue.\<close>

definition commits_kept ::
  "reader \<Rightarrow> tree_reader \<Rightarrow> jsstring list \<Rightarrow> jsstring list \<Rightarrow> jsstring list \<Rightarrow> jsstring list \<Rightarrow> bool" where
  "commits_kept read tree R VC VT Q \<longleftrightarrow> trees_kept tree R VT [] \<and> (\<forall>c x. c \<in> set VC \<longrightarrow> read c = Inr (Some x) \<longrightarrow>
    cm_tree x \<in> set R \<and> (cm_tree x = [] \<or> cm_tree x \<in> set VT) \<and>
    (\<forall>p \<in> set (cm_parents x). p \<in> set R \<and> (p = [] \<or> p \<in> set VC \<or> p \<in> set Q)))"

lemma commits_kept_drop: "commits_kept read tree R VC VT (s # Q) \<Longrightarrow> s = [] \<or> s \<in> set VC \<Longrightarrow> commits_kept read tree R VC VT Q"
  unfolding commits_kept_def by auto

lemma commits_kept_skip: "commits_kept read tree R VC VT (s # Q) \<Longrightarrow> read s = Inr None \<Longrightarrow> commits_kept read tree R (s # VC) VT Q"
  unfolding commits_kept_def by auto

lemma commits_kept_read:
  assumes k: "commits_kept read tree R VC VT (s # Q)" and c: "read s = Inr (Some c)"
    and d: "trees_done tree (cm_parents c @ cm_tree c # R) VT [cm_tree c] (R', VT')"
  shows "commits_kept read tree R' (s # VC) VT' (Q @ filter (\<lambda>p. p \<notin> set (s # VC)) (cm_parents c))"
proof -
  have t: "trees_kept tree R' VT' []" "set (cm_parents c @ cm_tree c # R) \<subseteq> set R'" "set VT \<subseteq> set VT'"
      "cm_tree c = [] \<or> cm_tree c \<in> set VT'" using d by (auto simp: trees_done_def)
  then show ?thesis using k c unfolding commits_kept_def by auto
qed

definition commits_done ::
  "reader \<Rightarrow> tree_reader \<Rightarrow> jsstring list \<Rightarrow> jsstring list \<Rightarrow> jsstring list \<Rightarrow> jsstring list \<Rightarrow> bool" where
  "commits_done read tree R V Q R' \<longleftrightarrow> set R \<subseteq> set R' \<and>
    (\<exists>VC VT. commits_kept read tree R' VC VT [] \<and> set V \<subseteq> set VC \<and> (\<forall>q \<in> set Q. q = [] \<or> q \<in> set VC))"

lemma commits_done_seen: "s = [] \<or> s \<in> set V \<Longrightarrow> commits_done read tree R V Q R' \<Longrightarrow> commits_done read tree R V (s # Q) R'"
  unfolding commits_done_def by auto

lemma commits_done_step:
  "commits_done read tree R1 (s # V) Q1 R' \<Longrightarrow> set R \<subseteq> set R1 \<Longrightarrow> set Q \<subseteq> set Q1 \<Longrightarrow> commits_done read tree R V (s # Q) R'"
  unfolding commits_done_def by (auto, blast)

locale object_store = commits: commit_graph read + trees: tree_store tree for read :: reader and tree :: tree_reader
begin

lemma live_commits_spec:
  "commits_kept read tree R VC VT Q \<Longrightarrow> \<exists>r. live_commits read tree Q R VC VT = Some r \<and>
    (\<forall>R'. r = Inr R' \<longrightarrow> commits_done read tree R VC Q R')"
proof (induction VC Q arbitrary: R VT rule: commits.walk_induct)
  case (Nil V)
  then show ?case by (auto simp: live_commits_Nil commits_done_def)
next
  case (Seen V s Q)
  show ?case using Seen(1) Seen(2) [OF commits_kept_drop [OF Seen(3) disjI2 [OF Seen(1)]]]
    by (auto simp: live_commits_Cons intro: commits_done_seen)
next
  case (Missing V s Q)
  show ?case
  proof (cases "s = []")
    case True
    then show ?thesis using Missing(3) [OF commits_kept_drop [OF Missing(5) disjI1]]
      by (auto simp: live_commits_Cons intro: commits_done_seen)
  next
    case False
    then show ?thesis using Missing(1,2) Missing(4) [OF commits_kept_skip [OF Missing(5,2)]]
      by (auto simp: live_commits_Cons intro: commits_done_step)
  qed
next
  case (Failed V s Q e)
  show ?case
  proof (cases "s = []")
    case True
    then show ?thesis using Failed(3) [OF commits_kept_drop [OF Failed(5) disjI1]]
      by (auto simp: live_commits_Cons intro: commits_done_seen)
  next
    case False
    then show ?thesis using Failed(1,2) by (simp add: live_commits_Cons)
  qed
next
  case (Read V s Q c)
  show ?case
  proof (cases "s = []")
    case True
    then show ?thesis using Read(3) [OF commits_kept_drop [OF Read(5) disjI1]]
      by (auto simp: live_commits_Cons intro: commits_done_seen)
  next
    case False
    let ?R = "cm_parents c @ cm_tree c # R"
    let ?Q = "Q @ filter (\<lambda>p. p \<notin> set (s # V)) (cm_parents c)"
    have "trees_kept tree ?R VT [cm_tree c]"
      using Read(5) unfolding commits_kept_def trees_kept_def by auto
    then obtain t where t: "live_trees tree [cm_tree c] ?R VT = Some t"
      "\<forall>x. t = Inr x \<longrightarrow> trees_done tree ?R VT [cm_tree c] x"
      using trees.live_trees_spec by blast
    show ?thesis
    proof (cases t)
      case (Inl e)
      then show ?thesis using t(1) False Read(1,2) by (simp add: live_commits_Cons)
    next
      case (Inr x)
      obtain R1 VT1 where x: "x = (R1, VT1)" by (cases x)
      then have d: "trees_done tree ?R VT [cm_tree c] (R1, VT1)" using t(2) Inr by blast
      obtain r where r: "live_commits read tree ?Q R1 (s # V) VT1 = Some r" "\<forall>R'. r = Inr R' \<longrightarrow> commits_done read tree R1 (s # V) ?Q R'"
        using Read(4) [OF commits_kept_read [OF Read(5,2) d]] by blast
      have "live_commits read tree (s # Q) R V VT = Some r" using t(1) Inr x r(1) False Read(1,2) by (simp add: live_commits_Cons)
      moreover have "set R \<subseteq> set R1" using d by (auto simp: trees_done_def)
      then have "\<forall>R'. r = Inr R' \<longrightarrow> commits_done read tree R V (s # Q) R'"
        using r(2) commits_done_step [of read tree R1 s V ?Q _ R Q] by simp
      ultimately show ?thesis by blast
    qed
  qed
qed

lemma live_commits_keep:
  assumes "live_commits read tree Q T [] [] = Some (Inr R)" and "set T = W" "set Q = W" and "needed read tree {[]} W ro x"
  shows "x \<in> set R"
proof -
  have "commits_kept read tree T [] [] Q" by (simp add: commits_kept_def trees_kept_def)
  from live_commits_spec [OF this] obtain VC VT where R: "set T \<subseteq> set R" and k: "commits_kept read tree R VC VT []"
    and Q: "\<forall>q \<in> set Q. q = [] \<or> q \<in> set VC" using assms(1) unfolding commits_done_def by auto
  have tk: "trees_kept tree R VT []" using k by (simp add: commits_kept_def)
  have "x \<in> set R \<and> x \<noteq> [] \<and> (ro = CommitRole \<longrightarrow> x \<in> set VC) \<and> (ro = TreeRole \<longrightarrow> x \<in> set VT)"
    using assms(4)
  proof (induction rule: needed.induct)
    case (needed_want w)
    then show ?case using R Q assms(2,3) by auto
  next
    case (needed_parent c x p)
    then have "p \<in> set R \<and> (p = [] \<or> p \<in> set VC)" using k unfolding commits_kept_def by auto
    then show ?case using needed_parent by simp
  next
    case (needed_tree c x)
    then have "cm_tree x \<in> set R \<and> (cm_tree x = [] \<or> cm_tree x \<in> set VT)" using k unfolding commits_kept_def by auto
    then show ?case using needed_tree by simp
  next
    case (needed_entry t es e)
    then have "te_sha e \<in> set R \<and> (is_dir_mode (te_mode e) \<longrightarrow> te_sha e = [] \<or> te_sha e \<in> set VT)"
      using tk unfolding trees_kept_def by auto
    then show ?case using needed_entry by (simp add: entry_role_def)
  qed
  then show ?thesis by simp
qed

end

lemma getObject_key: "getObject pf bucket s = Inr (Some x) \<Longrightarrow> isValidSha s \<and> getObjectKey s \<in> fst ` set bucket"
  by (auto simp: getObject_def getRawObject_def res_elims r2_get_def map_get_def split: option.splits if_splits
      dest!: map_of_SomeD) force

lemma finite_trees: "finite {s. \<exists>es. getTreeEntries pf bucket s = Inr (Some es)}"
proof (rule finite_subset)
  have "inj_on getObjectKey {s. isValidSha s \<and> getObjectKey s \<in> fst ` set bucket}"
    by (rule inj_onI) (auto dest: getObjectKey_inj)
  then show "finite {s. isValidSha s \<and> getObjectKey s \<in> fst ` set bucket}"
    by (rule finite_imageD [rotated]) (rule finite_subset [of _ "fst ` set bucket"], auto)
  have "isValidSha s \<and> getObjectKey s \<in> fst ` set bucket" if that0: "getTreeEntries pf bucket s = Inr (Some es)" for s es
  proof -
    obtain x where "getObject pf bucket s = Inr (Some x)"
    proof (cases "getObject pf bucket s")
      case (Inl e)
      then show ?thesis using that0 by (simp add: getTreeEntries_def)
    next
      case (Inr ob)
      then show ?thesis using that that0 by (cases ob) (simp_all add: getTreeEntries_def)
    qed
    then show ?thesis by (rule getObject_key)
  qed
  then show "{s. \<exists>es. getTreeEntries pf bucket s = Inr (Some es)} \<subseteq> {s. isValidSha s \<and> getObjectKey s \<in> fst ` set bucket}"
    by blast
qed

interpretation store: object_store "getCommit pf db bucket repoId" "getTreeEntries pf bucket" for pf db bucket repoId
  by unfold_locales (rule finite_commits, rule finite_trees)

text \<open>C12: Garbage collection keeps what is needed: when the collection of the reachable ids succeeds, every
  commit that a branch or tag of the repository leads to is among them, with its tree, all subtrees and all
  files.\<close>

theorem gc_keeps_needed:
  assumes "collectReachableObjectShas pf adapter db bucket repoId = Some (Inr r)"
    and "listAllRefs adapter db repoId = Inr refs"
    and "needed (getCommit pf db bucket repoId) (getTreeEntries pf bucket) {[]} (lr_target ` set refs) ro x"
  shows "x \<in> set r"
  by (rule store.live_commits_keep [OF _ _ _ assms(3)]) (use assms(1,2) in \<open>auto simp: collectReachableObjectShas_def js_set_def\<close>)

lemma demo_tree: "getTreeEntries test_platform [] [116] = Inr None"
  by (simp add: getTreeEntries_def getObject_def getRawObject_def isValidSha_def)

lemma demo_tree_of: "cm_tree (indexedToCommit (demo_commit r s ps)) = [116]"
  by (simp add: indexedToCommit_def demo_commit_def)

lemma demo_refs_list: "listAllRefs (\<lambda>_. None) (demo_history [3]) [102] = Inr [branch_ref (demo_head [102] [3])]"
  by (simp add: listAllRefs_def listBranches_def listTags_def demo_history_def demo_head_def isValidRepoId_def js_trim_def js_ws_def
      repo_id_char_def MAX_REPO_ID_LENGTH_def withDrizzleFallback_def js_sort_def Let_def)

theorem gc_keeps_needed_witness:
  "\<exists>r. collectReachableObjectShas test_platform (\<lambda>_. None) (demo_history [3]) [] [102] = Some (Inr r) \<and> [1] \<in> set r"
proof -
  let ?read = "getCommit test_platform (demo_history [3]) [] [102]"
  obtain r where r: "collectReachableObjectShas test_platform (\<lambda>_. None) (demo_history [3]) [] [102] = Some (Inr r)"
    by (simp add: collectReachableObjectShas_def demo_refs_list branch_ref_def demo_head_def js_set_def live_commits_Cons
        live_commits_Nil live_trees_Cons live_trees_Nil demo_get demo_parents demo_tree_of demo_tree Let_def)
  have "needed ?read (getTreeEntries test_platform []) {[]} (lr_target ` set [branch_ref (demo_head [102] [3])]) CommitRole [3]"
    by (rule needed_want) (simp_all add: branch_ref_def demo_head_def Let_def)
  then have "needed ?read (getTreeEntries test_platform []) {[]} (lr_target ` set [branch_ref (demo_head [102] [3])]) CommitRole [1]"
    by (rule needed_parent [where x = "indexedToCommit (demo_commit [102] [3] [[1], [2]])"]) (simp_all add: demo_get demo_parents)
  from gc_keeps_needed [OF r demo_refs_list this] r show ?thesis by blast
qed

section \<open>Objects sent\<close>

type_synonym pending = "(role \<times> jsstring) set"

definition covered :: "jsstring set \<Rightarrow> jsstring list \<Rightarrow> pending \<Rightarrow> role \<Rightarrow> jsstring \<Rightarrow> bool" where
  "covered H V P r s \<longleftrightarrow> s \<in> H \<or> s \<in> set V \<or> (r, s) \<in> P"

text \<open>The invariant of the two loops: what was visited and what is pending is needed (or had); what the visited
  commits and trees refer to is visited, had or pending.\<close>

definition send_inv ::
  "reader \<Rightarrow> tree_reader \<Rightarrow> (role \<Rightarrow> jsstring \<Rightarrow> bool) \<Rightarrow> jsstring set \<Rightarrow> jsstring list \<Rightarrow> pending \<Rightarrow> bool" where
  "send_inv read tree N H V P \<longleftrightarrow>
    (\<forall>v \<in> set V. v \<notin> H \<and> (\<exists>r. N r v)) \<and> (\<forall>r s. (r, s) \<in> P \<longrightarrow> s \<in> H \<or> N r s) \<and>
    (\<forall>v es e. v \<in> set V \<longrightarrow> N TreeRole v \<longrightarrow> tree v = Inr (Some es) \<longrightarrow> e \<in> set es \<longrightarrow> covered H V P (entry_role e) (te_sha e)) \<and>
    (\<forall>v x. v \<in> set V \<longrightarrow> N CommitRole v \<longrightarrow> read v = Inr (Some x) \<longrightarrow>
      covered H V P TreeRole (cm_tree x) \<and> (\<forall>p \<in> set (cm_parents x). covered H V P CommitRole p))"

lemma send_inv_drop:
  assumes "send_inv read tree N H V P" and "Q \<subseteq> P" and "\<And>r s. (r, s) \<in> P \<Longrightarrow> (r, s) \<in> Q \<or> s \<in> H \<or> s \<in> set V"
  shows "send_inv read tree N H V Q"
proof -
  have c: "covered H V P r s \<Longrightarrow> covered H V Q r s" for r s using assms(3) unfolding covered_def by blast
  show ?thesis using assms(1,2) c unfolding send_inv_def by blast
qed

lemma send_inv_visit:
  assumes inv: "send_inv read tree N H V P" and one: "one_role N" and s: "(r, s) \<in> P" "s \<notin> H"
    and Q: "P - {(r, s)} \<subseteq> Q" "\<And>r' t. (r', t) \<in> Q \<Longrightarrow> (r', t) \<in> P \<or> t \<in> H \<or> N r' t"
    and tr: "\<And>es e. r = TreeRole \<Longrightarrow> tree s = Inr (Some es) \<Longrightarrow> e \<in> set es \<Longrightarrow> (entry_role e, te_sha e) \<in> Q"
    and cm: "\<And>x. r = CommitRole \<Longrightarrow> read s = Inr (Some x) \<Longrightarrow>
      (TreeRole, cm_tree x) \<in> Q \<and> (\<forall>p \<in> set (cm_parents x). (CommitRole, p) \<in> Q)"
  shows "send_inv read tree N H (s # V) Q"
proof -
  have c: "covered H V P r' t \<Longrightarrow> covered H (s # V) Q r' t" for r' t using Q(1) unfolding covered_def by auto
  have N: "N r s" using inv s unfolding send_inv_def by blast
  have role: "N r' s \<Longrightarrow> r' = r" for r' using one N unfolding one_role_def by blast
  have q: "(r', t) \<in> Q \<Longrightarrow> covered H (s # V) Q r' t" for r' t unfolding covered_def by blast
  have P: "(r', t) \<in> P \<Longrightarrow> t \<in> H \<or> N r' t" for r' t using inv unfolding send_inv_def by blast
  have 1: "\<forall>v \<in> set (s # V). v \<notin> H \<and> (\<exists>r. N r v)" using inv s N unfolding send_inv_def by auto
  have 2: "\<forall>r s. (r, s) \<in> Q \<longrightarrow> s \<in> H \<or> N r s" using Q(2) P by blast
  have 3: "covered H (s # V) Q (entry_role e) (te_sha e)"
    if "v \<in> set (s # V)" "N TreeRole v" "tree v = Inr (Some es)" "e \<in> set es" for v es e
  proof (cases "v = s")
    case True
    then show ?thesis using role [of TreeRole] tr [of es e] that q by simp
  next
    case False
    then have "covered H V P (entry_role e) (te_sha e)" using inv that unfolding send_inv_def by auto
    then show ?thesis by (rule c)
  qed
  have 4: "covered H (s # V) Q TreeRole (cm_tree x) \<and> (\<forall>p \<in> set (cm_parents x). covered H (s # V) Q CommitRole p)"
    if "v \<in> set (s # V)" "N CommitRole v" "read v = Inr (Some x)" for v x
  proof (cases "v = s")
    case True
    then show ?thesis using role [of CommitRole] cm [of x] that q by simp
  next
    case False
    then have "covered H V P TreeRole (cm_tree x) \<and> (\<forall>p \<in> set (cm_parents x). covered H V P CommitRole p)"
      using inv that unfolding send_inv_def by auto
    then show ?thesis using c by blast
  qed
  show ?thesis unfolding send_inv_def using 1 2 3 4 by blast
qed

definition agenda_roles :: "(jsstring \<times> bool) list \<Rightarrow> pending" where
  "agenda_roles A = (\<lambda>(s, isTree). (if isTree then TreeRole else FileRole, s)) ` set A"

definition queue_roles :: "jsstring list \<Rightarrow> pending" where
  "queue_roles Q = Pair CommitRole ` set Q"

lemma agenda_roles_simps [simp]:
  "agenda_roles [] = {}" "agenda_roles ((s, b) # A) = insert (if b then TreeRole else FileRole, s) (agenda_roles A)"
  "agenda_roles (A @ B) = agenda_roles A \<union> agenda_roles B"
  "agenda_roles (agenda_of es) = (\<lambda>e. (entry_role e, te_sha e)) ` set es"
  by (auto simp: agenda_roles_def agenda_of_def entry_role_def image_iff)

lemma queue_roles_simps [simp]:
  "queue_roles [] = {}" "queue_roles (s # Q) = insert (CommitRole, s) (queue_roles Q)"
  "queue_roles (Q @ R) = queue_roles Q \<union> queue_roles R" "(r, s) \<in> queue_roles Q \<longleftrightarrow> r = CommitRole \<and> s \<in> set Q"
  by (auto simp: queue_roles_def)

text \<open>Every id visited is pushed to the result at once.\<close>

definition in_step :: "jsstring list \<Rightarrow> jsstring list \<Rightarrow> bool" where
  "in_step R V \<longleftrightarrow> set R = set V \<and> distinct R"

lemma in_step_visit: "in_step R V \<Longrightarrow> s \<notin> set V \<Longrightarrow> in_step (R @ [s]) (s # V)"
  by (auto simp: in_step_def)

lemma send_inv_seen:
  assumes "send_inv read tree N H V (insert (r, s) P)" and "s \<in> H \<or> s \<in> set V"
  shows "send_inv read tree N H V P"
  by (rule send_inv_drop [OF assms(1)]) (use assms(2) in auto)

text \<open>A file, or anything that cannot be read.\<close>

lemma send_inv_leaf:
  assumes "send_inv read tree N H V (insert (r, s) P)" and "one_role N" and "s \<notin> H"
    and "r = TreeRole \<Longrightarrow> tree s = Inr None" and "r = CommitRole \<Longrightarrow> read s = Inr None"
  shows "send_inv read tree N H (s # V) P"
  by (rule send_inv_visit [OF assms(1,2) insertI1 assms(3)]) (use assms(4,5) in auto)

lemma send_inv_tree:
  assumes inv: "send_inv read tree N H V (insert (TreeRole, s) P)" and "one_role N" and "s \<notin> H" and t: "tree s = Inr (Some es)"
    and closed: "\<And>e. e \<in> set es \<Longrightarrow> te_sha e \<in> H \<or> N (entry_role e) (te_sha e)"
  shows "send_inv read tree N H (s # V) ((\<lambda>e. (entry_role e, te_sha e)) ` set es \<union> P)"
  by (rule send_inv_visit [OF inv assms(2) insertI1 assms(3)]) (use t closed in auto)

lemma send_inv_commit:
  assumes inv: "send_inv read tree N H V (insert (CommitRole, s) P)" and "one_role N" and "s \<notin> H" and c: "read s = Inr (Some x)"
    and closed: "cm_tree x \<in> H \<or> N TreeRole (cm_tree x)" "\<And>p. p \<in> set (cm_parents x) \<Longrightarrow> p \<in> H \<or> N CommitRole p"
  shows "send_inv read tree N H (s # V) (insert (TreeRole, cm_tree x) (P \<union> queue_roles (cm_parents x)))"
  by (rule send_inv_visit [OF inv assms(2) insertI1 assms(3)]) (use c closed in auto)

definition tree_post ::
  "reader \<Rightarrow> tree_reader \<Rightarrow> (role \<Rightarrow> jsstring \<Rightarrow> bool) \<Rightarrow> jsstring list \<Rightarrow> pending \<Rightarrow> jsstring list \<Rightarrow> (jsstring \<times> bool) list \<Rightarrow>
    jsstring list \<times> jsstring list \<Rightarrow> bool" where
  "tree_post read tree N H B V A x \<longleftrightarrow> (let (R', V') = x in
    send_inv read tree N (set H) V' B \<and> in_step R' V' \<and> set V \<subseteq> set V' \<and> fst ` set A \<subseteq> set V' \<union> set H)"

lemma tree_post_seen:
  "s \<in> set H \<or> s \<in> set V \<Longrightarrow> tree_post read tree N H B V A x \<Longrightarrow> tree_post read tree N H B V ((s, b) # A) x"
  unfolding tree_post_def by auto

lemma tree_post_visit:
  "tree_post read tree N H B (s # V) A' x \<Longrightarrow> set A \<subseteq> set A' \<Longrightarrow> tree_post read tree N H B V ((s, b) # A) x"
  unfolding tree_post_def by auto

context object_store begin

lemma collect_tree_spec:
  assumes one: "one_role N"
    and closed: "\<And>t es e. N TreeRole t \<Longrightarrow> tree t = Inr (Some es) \<Longrightarrow> e \<in> set es \<Longrightarrow> te_sha e \<in> set H \<or> N (entry_role e) (te_sha e)"
  shows "map fst A = Q \<Longrightarrow> send_inv read tree N (set H) V (agenda_roles A \<union> B) \<Longrightarrow> in_step R V \<Longrightarrow>
    \<exists>r. collect_tree tree H A R V = Some r \<and> (\<forall>x. r = Inr x \<longrightarrow> tree_post read tree N H B V A x)"
proof (induction V Q arbitrary: A R rule: trees.walk_induct)
  case (Nil V)
  then show ?case by (simp add: collect_tree_Nil tree_post_def)
next
  case (Seen V s Q)
  obtain b A' where A: "A = (s, b) # A'" "map fst A' = Q" using Seen(3) by (cases A) auto
  have "send_inv read tree N (set H) V (agenda_roles A' \<union> B)"
    by (rule send_inv_seen) (use Seen(1,4) A in auto)
  from Seen(2) [OF A(2) this Seen(5)] show ?case using A(1) Seen(1) by (auto simp: collect_tree_Cons intro: tree_post_seen)
next
  case (Missing V s Q)
  obtain b A' where A: "A = (s, b) # A'" "map fst A' = Q" using Missing(5) by (cases A) auto
  show ?case
  proof (cases "s \<in> set H")
    case True
    have "send_inv read tree N (set H) V (agenda_roles A' \<union> B)"
      by (rule send_inv_seen) (use True Missing(6) A in auto)
    from Missing(3) [OF A(2) this Missing(7)] show ?thesis using A(1) True by (auto simp: collect_tree_Cons intro: tree_post_seen)
  next
    case False
    have "send_inv read tree N (set H) (s # V) (agenda_roles A' \<union> B)"
      by (rule send_inv_leaf [OF _ one False]) (use Missing(2,6) A in \<open>auto split: if_splits\<close>)
    from Missing(4) [OF A(2) this in_step_visit [OF Missing(7,1)]]
    show ?thesis using A(1) False Missing(1,2) by (cases b) (auto simp: collect_tree_Cons intro: tree_post_visit)
  qed
next
  case (Failed V s Q e)
  obtain b A' where A: "A = (s, b) # A'" "map fst A' = Q" using Failed(5) by (cases A) auto
  show ?case
  proof (cases "s \<in> set H")
    case True
    have "send_inv read tree N (set H) V (agenda_roles A' \<union> B)"
      by (rule send_inv_seen) (use True Failed(6) A in auto)
    from Failed(3) [OF A(2) this Failed(7)] show ?thesis using A(1) True by (auto simp: collect_tree_Cons intro: tree_post_seen)
  next
    case False
    show ?thesis
    proof (cases b)
      case True
      then show ?thesis using A(1) False Failed(1,2) by (simp add: collect_tree_Cons)
    next
      case b: False
      have "send_inv read tree N (set H) (s # V) (agenda_roles A' \<union> B)"
        by (rule send_inv_leaf [OF _ one False, where r = FileRole]) (use Failed(6) A b in auto)
      from Failed(4) [OF A(2) this in_step_visit [OF Failed(7,1)]]
      show ?thesis using A(1) False b Failed(1) by (auto simp: collect_tree_Cons intro: tree_post_visit)
    qed
  qed
next
  case (Read V s Q es)
  obtain b A' where A: "A = (s, b) # A'" "map fst A' = Q" using Read(5) by (cases A) auto
  show ?case
  proof (cases "s \<in> set H")
    case True
    have "send_inv read tree N (set H) V (agenda_roles A' \<union> B)"
      by (rule send_inv_seen) (use True Read(6) A in auto)
    from Read(3) [OF A(2) this Read(7)] show ?thesis using A(1) True by (auto simp: collect_tree_Cons intro: tree_post_seen)
  next
    case False
    show ?thesis
    proof (cases b)
      case b: True
      have inv: "send_inv read tree N (set H) V (insert (TreeRole, s) (agenda_roles A' \<union> B))" using Read(6) A b by simp
      then have "N TreeRole s" using False unfolding send_inv_def by blast
      then have "send_inv read tree N (set H) (s # V) (agenda_roles (agenda_of es @ A') \<union> B)"
        using send_inv_tree [OF inv one False Read(2) closed [OF _ Read(2)]] by (simp add: Un_assoc)
      from Read(4) [OF refl this in_step_visit [OF Read(7,1)]]
      show ?thesis using A(1) False b Read(1,2)
        by (auto simp: collect_tree_Cons intro!: tree_post_visit [where A' = "agenda_of es @ A'"])
    next
      case b: False
      have "send_inv read tree N (set H) (s # V) (agenda_roles A' \<union> B)"
        by (rule send_inv_leaf [OF _ one False, where r = FileRole]) (use Read(6) A b in auto)
      from Read(4) [OF refl this in_step_visit [OF Read(7,1)]]
      show ?thesis using A(1) False b Read(1) by (auto simp: collect_tree_Cons intro: tree_post_visit)
    qed
  qed
qed

end

definition commit_post ::
  "reader \<Rightarrow> tree_reader \<Rightarrow> (role \<Rightarrow> jsstring \<Rightarrow> bool) \<Rightarrow> jsstring list \<Rightarrow> jsstring list \<Rightarrow> jsstring list \<Rightarrow> jsstring list \<Rightarrow> bool" where
  "commit_post read tree N H V Q R' \<longleftrightarrow> (\<exists>V'. send_inv read tree N (set H) V' {} \<and> in_step R' V' \<and> set V \<subseteq> set V' \<and>
    set Q \<subseteq> set V' \<union> set H)"

lemma commit_post_seen: "s \<in> set H \<or> s \<in> set V \<Longrightarrow> commit_post read tree N H V Q R \<Longrightarrow> commit_post read tree N H V (s # Q) R"
  unfolding commit_post_def by auto

lemma commit_post_visit:
  "commit_post read tree N H V1 Q' R \<Longrightarrow> set (s # V) \<subseteq> set V1 \<Longrightarrow> set Q \<subseteq> set Q' \<Longrightarrow> commit_post read tree N H V (s # Q) R"
  unfolding commit_post_def by (auto, blast)

context object_store begin

lemma collect_commits_spec:
  assumes one: "one_role N"
    and closed_tree: "\<And>t es e. N TreeRole t \<Longrightarrow> tree t = Inr (Some es) \<Longrightarrow> e \<in> set es \<Longrightarrow> te_sha e \<in> set H \<or> N (entry_role e) (te_sha e)"
    and closed_commit: "\<And>c x. N CommitRole c \<Longrightarrow> read c = Inr (Some x) \<Longrightarrow>
      (cm_tree x \<in> set H \<or> N TreeRole (cm_tree x)) \<and> (\<forall>p \<in> set (cm_parents x). p \<in> set H \<or> N CommitRole p)"
  shows "send_inv read tree N (set H) V (queue_roles Q) \<Longrightarrow> in_step R V \<Longrightarrow>
    \<exists>r. collect_commits read tree H Q R V = Some r \<and> (\<forall>R'. r = Inr R' \<longrightarrow> commit_post read tree N H V Q R')"
proof (induction V Q arbitrary: R rule: commits.walk_induct_further)
  case (Nil V)
  then show ?case by (auto simp: collect_commits_Nil commit_post_def)
next
  case (Seen V s Q)
  have "send_inv read tree N (set H) V (queue_roles Q)" by (rule send_inv_seen) (use Seen(1,3) in auto)
  from Seen(2) [OF this Seen(4)] show ?case using Seen(1) by (auto simp: collect_commits_Cons intro: commit_post_seen)
next
  case (Missing V s Q)
  show ?case
  proof (cases "s \<in> set H")
    case True
    have "send_inv read tree N (set H) V (queue_roles Q)" by (rule send_inv_seen) (use True Missing(5) in auto)
    from Missing(3) [OF this Missing(6)] show ?thesis using True by (auto simp: collect_commits_Cons intro: commit_post_seen)
  next
    case False
    have "send_inv read tree N (set H) (s # V) (queue_roles Q)"
      by (rule send_inv_leaf [OF _ one False, where r = CommitRole]) (use Missing(2,5) in auto)
    from Missing(4) [OF this in_step_visit [OF Missing(6,1)]]
    show ?thesis using False Missing(1,2) by (auto simp: collect_commits_Cons intro!: commit_post_visit [where Q' = Q])
  qed
next
  case (Failed V s Q e)
  show ?case
  proof (cases "s \<in> set H")
    case True
    have "send_inv read tree N (set H) V (queue_roles Q)" by (rule send_inv_seen) (use True Failed(5) in auto)
    from Failed(3) [OF this Failed(6)] show ?thesis using True by (auto simp: collect_commits_Cons intro: commit_post_seen)
  next
    case False
    then show ?thesis using Failed(1,2) by (simp add: collect_commits_Cons)
  qed
next
  case (Read V s Q c)
  show ?case
  proof (cases "s \<in> set H")
    case True
    have "send_inv read tree N (set H) V (queue_roles Q)" by (rule send_inv_seen) (use True Read(5) in auto)
    from Read(3) [OF this Read(6)] show ?thesis using True by (auto simp: collect_commits_Cons intro: commit_post_seen)
  next
    case False
    have inv: "send_inv read tree N (set H) V (insert (CommitRole, s) (queue_roles Q))" using Read(5) by simp
    then have "N CommitRole s" using False unfolding send_inv_def by blast
    note needs = closed_commit [OF this Read(2)]
    let ?P = "queue_roles Q \<union> queue_roles (cm_parents c)"
    have after: "send_inv read tree N (set H) (s # V) (insert (TreeRole, cm_tree c) ?P)"
      by (rule send_inv_commit [OF inv one False Read(2)]) (use needs in blast)+
    let ?t = "if cm_tree c \<notin> set (s # V) \<and> cm_tree c \<notin> set H
        then collectTreeObjects tree H (cm_tree c) (R @ [s]) (s # V) else Some (Inr (R @ [s], s # V))"
    note step = in_step_visit [OF Read(6,1)]
    have "\<exists>r. ?t = Some r \<and> (\<forall>x. r = Inr x \<longrightarrow> tree_post read tree N H ?P (s # V) [(cm_tree c, True)] x)"
    proof (cases "cm_tree c \<notin> set (s # V) \<and> cm_tree c \<notin> set H")
      case True
      have "\<exists>r. collect_tree tree H [(cm_tree c, True)] (R @ [s]) (s # V) = Some r \<and>
          (\<forall>x. r = Inr x \<longrightarrow> tree_post read tree N H ?P (s # V) [(cm_tree c, True)] x)"
        by (rule collect_tree_spec [OF one], rule closed_tree, assumption+, rule refl) (use after step in auto)
      then show ?thesis using True by (simp add: collectTreeObjects_def)
    next
      case tree: False
      have "send_inv read tree N (set H) (s # V) ?P" by (rule send_inv_seen [OF after]) (use tree in auto)
      then show ?thesis using tree step by (auto simp: tree_post_def)
    qed
    then obtain t where t: "?t = Some t" "\<forall>x. t = Inr x \<longrightarrow> tree_post read tree N H ?P (s # V) [(cm_tree c, True)] x" by blast
    show ?thesis
    proof (cases t)
      case (Inl e)
      then show ?thesis using t(1) False Read(1,2) by (simp add: collect_commits_Cons)
    next
      case (Inr x)
      obtain R1 V1 where x: "x = (R1, V1)" by (cases x)
      have post: "send_inv read tree N (set H) V1 ?P" "in_step R1 V1" "set (s # V) \<subseteq> set V1"
        using t(2) Inr x by (auto simp: tree_post_def)
      let ?Q = "Q @ filter (\<lambda>p. p \<notin> set V1 \<and> p \<notin> set H) (cm_parents c)"
      have "send_inv read tree N (set H) V1 (queue_roles ?Q)" by (rule send_inv_drop [OF post(1)]) auto
      from Read(4) [OF post(3) this post(2)] obtain r where r: "collect_commits read tree H ?Q R1 V1 = Some r"
        "\<forall>R'. r = Inr R' \<longrightarrow> commit_post read tree N H V1 ?Q R'" by blast
      have "collect_commits read tree H (s # Q) R V = Some r"
        using t(1) Inr x r(1) False Read(1,2) by (simp add: collect_commits_Cons)
      moreover have "\<forall>R'. r = Inr R' \<longrightarrow> commit_post read tree N H V (s # Q) R'"
        using r(2) commit_post_visit [OF _ post(3), of read tree N H ?Q _ Q] by auto
      ultimately show ?thesis by blast
    qed
  qed
qed

lemma collect_exact:
  assumes "collect_commits read tree H wants [] [] = Some (Inr r)" and one: "one_role (needed read tree (set H) (set wants))"
  shows "distinct r \<and> (\<forall>x. x \<in> set r \<longleftrightarrow> (\<exists>ro. needed read tree (set H) (set wants) ro x))"
proof -
  let ?N = "needed read tree (set H) (set wants)"
  have "send_inv read tree ?N (set H) [] (queue_roles wants)"
    by (auto simp: send_inv_def intro: needed.intros)
  moreover have "in_step [] []" by (simp add: in_step_def)
  ultimately have "\<exists>q. collect_commits read tree H wants [] [] = Some q \<and> (\<forall>R'. q = Inr R' \<longrightarrow> commit_post read tree ?N H [] wants R')"
    using collect_commits_spec [OF one] by (blast intro: needed.intros)
  then have "commit_post read tree ?N H [] wants r" using assms(1) by auto
  then obtain V where V: "send_inv read tree ?N (set H) V {}" "in_step r V" "set wants \<subseteq> set V \<union> set H"
    unfolding commit_post_def by blast
  have "needed read tree (set H) (set wants) ro x \<Longrightarrow> x \<in> set V" for ro x
  proof (induction rule: needed.induct)
    case (needed_want w)
    then show ?case using V(3) by auto
  next
    case (needed_parent c x p)
    then show ?case using V(1) unfolding send_inv_def covered_def by blast
  next
    case (needed_tree c x)
    then show ?case using V(1) unfolding send_inv_def covered_def by blast
  next
    case (needed_entry t es e)
    then show ?case using V(1) unfolding send_inv_def covered_def by blast
  qed
  then show ?thesis using V(1,2) unfolding send_inv_def in_step_def by blast
qed

end

text \<open>C13: What is sent is what is needed: the ids \<open>collectReachableObjects\<close> collects for the commits a client
  wants and has are, each once, exactly the wanted commits, their ancestors, trees, subtrees and files, as
  far as they can be reached without passing what the client has. No id may be needed in two roles.\<close>

theorem sent_is_needed:
  assumes "collectReachableObjects pf db bucket repoId wants haves = Some (Inr r)"
    and "one_role (needed (getCommit pf db bucket repoId) (getTreeEntries pf bucket) (set haves) (set wants))"
  shows "distinct r \<and>
    (\<forall>x. x \<in> set r \<longleftrightarrow> (\<exists>ro. needed (getCommit pf db bucket repoId) (getTreeEntries pf bucket) (set haves) (set wants) ro x))"
  by (rule store.collect_exact [OF _ assms(2)]) (use assms(1) in \<open>simp add: collectReachableObjects_def\<close>)

lemma demo_needed:
  "needed (getCommit test_platform (demo_history [3]) [] [102]) (getTreeEntries test_platform []) {} {[3]} ro x \<Longrightarrow>
    ro = CommitRole \<and> x \<in> {[1], [2], [3]} \<or> ro = TreeRole \<and> x = [116]"
  by (induction rule: needed.induct) (auto simp: demo_get demo_parents demo_tree_of demo_tree)

theorem sent_is_needed_witness:
  "\<exists>r. collectReachableObjects test_platform (demo_history [3]) [] [102] [[3]] [] = Some (Inr r) \<and> distinct r \<and> [1] \<in> set r"
proof -
  let ?N = "needed (getCommit test_platform (demo_history [3]) [] [102]) (getTreeEntries test_platform []) (set []) (set [[3]])"
  obtain r where r: "collectReachableObjects test_platform (demo_history [3]) [] [102] [[3]] [] = Some (Inr r)"
    by (simp add: collectReachableObjects_def collectTreeObjects_def collect_commits_Cons collect_commits_Nil collect_tree_Cons
        collect_tree_Nil demo_get demo_parents demo_tree_of demo_tree)
  have one: "one_role ?N" 
  proof -
    have "ro = (if x = [116] then TreeRole else CommitRole)" if "?N ro x" for ro x
      using demo_needed [of ro x] that by auto
    then show ?thesis unfolding one_role_def by blast
  qed
  have "?N CommitRole [3]" by (rule needed_want) simp_all
  then have "?N CommitRole [1]" by (rule needed_parent [where x = "indexedToCommit (demo_commit [102] [3] [[1], [2]])"]) (simp_all add: demo_get demo_parents)
  then show ?thesis using sent_is_needed [OF r one] r by blast
qed

end
