(* ===== verification/GitRemoteFetch.thy ===== *)
theory GitRemoteFetch
  imports GitObjectStore
begin

text \<open>
  The client side of git's smart HTTP protocol (\<open>takos-git/local/remote-fetch.ts\<close>): reading a remote's
  advertisement, asking for all of it, and storing the objects of the pack that comes back. The network
  (\<open>fetch\<close>), the parser of URLs and the classifier of private addresses, which is a module outside this
  repository, are parameters. A \<open>RemoteFetchError\<close> is an error with its code as the text.
\<close>

section \<open>Data\<close>

definition ZERO_OID :: jsstring where "ZERO_OID = replicate 40 48"
definition DEFAULT_MAX_PACK_BYTES :: int where "DEFAULT_MAX_PACK_BYTES = 500 * 1024 * 1024"

record remote_ref =
  rf_name :: jsstring
  rf_target :: jsstring

record url_parts =
  url_protocol :: jsstring
  url_host :: jsstring
  url_hostname :: jsstring
  url_origin :: jsstring
  url_pathname :: jsstring
  url_search :: jsstring

record http_request =
  hq_method :: jsstring
  hq_url :: jsstring
  hq_headers :: "(jsstring, jsstring) js_map"
  hq_body :: "bytes option"

text \<open>\<open>hr_length\<close> is the number in the \<open>content-length\<close> header, 0 without the header and \<open>NaN\<close> for anything
  that is not a finite number.\<close>

record http_response =
  hr_status :: nat
  hr_length :: js_num
  hr_body :: bytes

definition response_ok :: "http_response \<Rightarrow> bool" where
  "response_ok r \<longleftrightarrow> 200 \<le> hr_status r \<and> hr_status r < 300"

record fetch_input =
  fi_url :: jsstring
  fi_authHeader :: "jsstring option"
  fi_maxPackBytes :: "int option"
  fi_allowPrivateHosts :: "bool option"

record fetch_result =
  fr_refs :: "remote_ref list"
  fr_defaultBranch :: "jsstring option"
  fr_objects :: "unpacked_object list"

section \<open>Addresses\<close>

definition assertSafeRemoteUrl ::
  "(jsstring \<Rightarrow> url_parts option) \<Rightarrow> (jsstring \<Rightarrow> bool) \<Rightarrow> jsstring \<Rightarrow> bool \<Rightarrow> url_parts res" where
  "assertSafeRemoteUrl parseUrl isPrivateIP url allowPrivateHosts =
    (case parseUrl url of
       None \<Rightarrow> Inl (Error ''invalid_url'')
     | Some parsed \<Rightarrow>
         if url_protocol parsed \<noteq> js ''https:'' \<and> url_protocol parsed \<noteq> js ''http:''
         then Inl (Error ''unsupported_protocol'')
         else if \<not> allowPrivateHosts \<and> isPrivateIP (url_hostname parsed) then Inl (Error ''blocked_host'')
         else Inr parsed)"

text \<open>\<open>replace(/\/+$/, "")\<close> and \<open>replace(/\?.*$/, "")\<close>, whose dot stops at line terminators.\<close>

definition strip_trailing_slashes :: "jsstring \<Rightarrow> jsstring" where
  "strip_trailing_slashes s = rev (dropWhile (\<lambda>c. c = 47) (rev s))"

definition line_terminator :: "unit16 \<Rightarrow> bool" where
  "line_terminator c \<longleftrightarrow> c \<in> set [10, 13, 0x2028, 0x2029]"

fun strip_query :: "jsstring \<Rightarrow> jsstring" where
  "strip_query [] = []"
| "strip_query (c # cs) = (if c = 63 \<and> \<not> list_ex line_terminator cs then [] else c # strip_query cs)"

definition baseRepoUrl :: "url_parts \<Rightarrow> jsstring" where
  "baseRepoUrl parsed = strip_query (url_origin parsed @ strip_trailing_slashes (url_pathname parsed) @ url_search parsed)"

definition requestHeaders :: "jsstring option \<Rightarrow> (jsstring \<times> jsstring) list \<Rightarrow> (jsstring, jsstring) js_map" where
  "requestHeaders authHeader extra =
    (let headers = fold (\<lambda>(k, v). map_set k v) extra [(js ''User-Agent'', js ''git/takos-git'')]
     in case truthy authHeader of None \<Rightarrow> headers | Some a \<Rightarrow> map_set (js ''Authorization'') a headers)"

section \<open>The advertisement\<close>

record advertisement =
  ad_refs :: "remote_ref list"
  ad_defaultBranch :: "jsstring option"

record advert_scan =
  as_refs :: "remote_ref list"
  as_capabilities :: jsstring
  as_sawService :: bool

definition scan_advert_line :: "bytes option \<Rightarrow> advert_scan \<Rightarrow> advert_scan" where
  "scan_advert_line line st =
    (case line of
       None \<Rightarrow> st
     | Some payload \<Rightarrow>
         let txt = utf8_decode payload in
         if js_starts_with txt (js ''# service='') then st\<lparr>as_sawService := True\<rparr>
         else
           let nul = index_of 0 txt;
               refPart = js_trim (case nul of None \<Rightarrow> txt | Some n \<Rightarrow> take n txt);
               st = (case nul of
                       None \<Rightarrow> st
                     | Some n \<Rightarrow> if as_capabilities st = [] then st\<lparr>as_capabilities := drop (n + 1) txt\<rparr> else st)
           in case index_of 32 refPart of
                None \<Rightarrow> st
              | Some space \<Rightarrow>
                  let sha = take space refPart; name = js_trim (drop (space + 1) refPart) in
                  if \<not> isValidSha sha \<or> sha = ZERO_OID \<or> name = js ''HEAD'' then st
                  else st\<lparr>as_refs := as_refs st @ [\<lparr>rf_name = name, rf_target = sha\<rparr>]\<rparr>)"

text \<open>\<open>/symref=HEAD:refs\/heads\/([^\s]+)/\<close>: the first place where the prefix is followed by a name.\<close>

definition SYMREF :: jsstring where "SYMREF = js ''symref=HEAD:refs/heads/''"

fun find_symref :: "jsstring \<Rightarrow> jsstring option" where
  "find_symref [] = None"
| "find_symref (c # cs) =
    (let name = takeWhile (\<lambda>x. \<not> js_ws x) (drop (length SYMREF) (c # cs)) in
     if js_starts_with (c # cs) SYMREF \<and> name \<noteq> [] then Some name else find_symref cs)"

definition parseAdvertisement :: "bytes \<Rightarrow> advertisement res" where
  "parseAdvertisement data =
    bind_res (parsePktLines data) (\<lambda>lines.
      let st = fold scan_advert_line lines \<lparr>as_refs = [], as_capabilities = [], as_sawService = False\<rparr> in
      if \<not> as_sawService st then Inl (Error ''bad_advertisement'')
      else Inr \<lparr>ad_refs = as_refs st, ad_defaultBranch = find_symref (as_capabilities st)\<rparr>)"

section \<open>The request and the pack\<close>

definition want_line :: "nat \<times> jsstring \<Rightarrow> bytes res" where
  "want_line x =
    pktLineString (js ''want '' @ snd x @ (if fst x = 0 then js '' ofs-delta agent=takos-git/0.1'' else []) @ [10])"

definition buildUploadPackRequest :: "jsstring list \<Rightarrow> bytes res" where
  "buildUploadPackRequest wantShas =
    bind_res (map_res want_line (enumerate 0 wantShas)) (\<lambda>wants.
    bind_res (pktLineString (js ''done'' @ [10])) (\<lambda>fin.
      Inr (concatBytes (wants @ [PKT_FLUSH, fin]))))"

definition PACK_SIGNATURE :: bytes where "PACK_SIGNATURE = [0x50, 0x41, 0x43, 0x4b]"

definition extractPack :: "bytes \<Rightarrow> bytes res" where
  "extractPack body =
    (case js_find PACK_SIGNATURE body of None \<Rightarrow> Inl (Error ''no_pack'') | Some i \<Rightarrow> Inr (drop i body))"

definition is_peeled :: "remote_ref \<Rightarrow> bool" where
  "is_peeled r = js_ends_with (rf_name r) (js ''^{}'')"

section \<open>Fetching\<close>

definition unauthorized :: "nat \<Rightarrow> js_error" where
  "unauthorized status = Error (if status = 401 \<or> status = 403 then ''remote_unauthorized'' else ''remote_unavailable'')"

definition too_large :: "int \<Rightarrow> http_response \<Rightarrow> bool" where
  "too_large maxPackBytes r \<longleftrightarrow>
    (case hr_length r of NaN \<Rightarrow> False | Num declared \<Rightarrow> declared > maxPackBytes) \<or> int (length (hr_body r)) > maxPackBytes"

definition fetchRemoteRepository ::
  "platform \<Rightarrow> (jsstring \<Rightarrow> url_parts option) \<Rightarrow> (jsstring \<Rightarrow> bool) \<Rightarrow> (http_request \<Rightarrow> http_response res) \<Rightarrow> fetch_input \<Rightarrow>
    fetch_result res" where
  "fetchRemoteRepository pf parseUrl isPrivateIP fetch input =
    bind_res (assertSafeRemoteUrl parseUrl isPrivateIP (fi_url input) (fi_allowPrivateHosts input = Some True)) (\<lambda>parsed.
    let base = baseRepoUrl parsed;
        maxPackBytes = (case fi_maxPackBytes input of None \<Rightarrow> DEFAULT_MAX_PACK_BYTES | Some n \<Rightarrow> n) in
    bind_res (fetch \<lparr>hq_method = js ''GET'', hq_url = base @ js ''/info/refs?service=git-upload-pack'',
        hq_headers = requestHeaders (fi_authHeader input) [(js ''Accept'', js ''*/*'')], hq_body = None\<rparr>) (\<lambda>infoRes.
    if \<not> response_ok infoRes then Inl (unauthorized (hr_status infoRes))
    else bind_res (parseAdvertisement (hr_body infoRes)) (\<lambda>advert.
    if ad_refs advert = [] then Inr \<lparr>fr_refs = [], fr_defaultBranch = ad_defaultBranch advert, fr_objects = []\<rparr>
    else
      let refs = filter (\<lambda>r. \<not> is_peeled r) (ad_refs advert) in
      bind_res (buildUploadPackRequest (js_set (map rf_target refs))) (\<lambda>body.
      bind_res (fetch \<lparr>hq_method = js ''POST'', hq_url = base @ js ''/git-upload-pack'',
          hq_headers = requestHeaders (fi_authHeader input)
            [(js ''Content-Type'', js ''application/x-git-upload-pack-request''), (js ''Accept'', js ''application/x-git-upload-pack-result'')],
          hq_body = Some body\<rparr>) (\<lambda>packRes.
      if \<not> response_ok packRes then Inl (Error ''remote_unavailable'')
      else if too_large maxPackBytes packRes then Inl (Error ''pack_too_large'')
      else
        bind_res (extractPack (hr_body packRes)) (\<lambda>pack.
        bind_res (readPack (pf_digest pf) None pack) (\<lambda>objects.
          Inr \<lparr>fr_refs = refs, fr_defaultBranch = ad_defaultBranch advert, fr_objects = objects\<rparr>)))))))"

section \<open>Storing\<close>

definition toLooseObject :: "'a resolved_object_scheme \<Rightarrow> bytes" where
  "toLooseObject ob =
    concatBytes [utf8_encode (ro_type ob @ [32] @ nat_str (length (ro_content ob)) @ [0]), ro_content ob]"

definition ingestObjects :: "platform \<Rightarrow> 'a resolved_object_scheme list \<Rightarrow> bucket \<Rightarrow> nat \<times> bucket" where
  "ingestObjects pf objects b = fold (\<lambda>ob (written, b). (Suc written, snd (putRawObject pf (toLooseObject ob) b))) objects (0, b)"

definition resolveBaseFromStore :: "platform \<Rightarrow> bucket \<Rightarrow> jsstring \<Rightarrow> bytes option res" where
  "resolveBaseFromStore pf b sha =
    bind_res (getRawObject pf b sha) (\<lambda>raw.
      Inr (case raw of None \<Rightarrow> None | Some raw \<Rightarrow> (case index_of 0 raw of None \<Rightarrow> Some raw | Some nul \<Rightarrow> Some (drop (nul + 1) raw))))"

end
