(* ===== verification/GitTransfer.thy ===== *)
theory GitTransfer
  imports GitReachProps GitRemoteFetch
begin

text \<open>
  Moving objects from one store to another: what \<open>ingestObjects\<close> (\<open>takos-git/local/remote-fetch.ts\<close>) leaves
  in a store, and what arrives when a pack written from the ids of one store (\<open>core/pack.ts\<close>) is read and
  stored elsewhere.
\<close>

section \<open>Canonical stores\<close>

text \<open>Every stored object is a header of a plain type and its content, under the id of its bytes: what the
  writing operations of the store make of any content.\<close>

definition canonical_store :: "platform \<Rightarrow> bucket \<Rightarrow> bool" where
  "canonical_store pf b \<longleftrightarrow> content_addressed pf b \<and>
    (\<forall>raw \<in> stored_raws pf b. \<exists>t c. object_type_ok t \<and> raw = loose_object t c)"

lemma canonical_Nil [simp]: "canonical_store pf []"
  by (simp add: canonical_store_def stored_raws_def r2_get_def)

lemma store_raw_canonical:
  assumes "platform_ok pf" and "canonical_store pf b" and "object_type_ok t"
  shows "canonical_store pf (store_raw pf (loose_object t c) b)"
  using assms stored_raws_store [OF assms(1), of "loose_object t c" b] store_raw_addressed [OF assms(1)]
  unfolding canonical_store_def by blast

lemma stored_raw: "getRawObject pf b sha = Inr (Some raw) \<Longrightarrow> raw \<in> stored_raws pf b"
  by (auto simp: getRawObject_def stored_raws_def res_elims split: if_splits option.splits)

text \<open>In a canonical store an object read under an id has that id.\<close>

lemma canonical_object:
  assumes "platform_ok pf" and "canonical_store pf b" and "getObject pf b sha = Inr (Some (t, c))"
  shows "object_type_ok t \<and> hashObject (pf_digest pf) t c = sha \<and> getRawObject pf b sha = Inr (Some (loose_object t c))"
proof -
  obtain raw where raw: "getRawObject pf b sha = Inr (Some raw)" "decodeObject raw = Inr (t, c)"
    using assms(3) by (auto simp: getObject_def res_elims split: option.splits)
  obtain t' c' where tc: "object_type_ok t'" "raw = loose_object t' c'"
    using assms(2) stored_raw [OF raw(1)] unfolding canonical_store_def by blast
  then have "t' = t" "c' = c" using raw(2) by (simp_all add: decodeObject_loose)
  then show ?thesis
    using tc raw(1) getRawObject_sha [OF _ assms(1) raw(1)] assms(2) by (simp add: hashObject_loose canonical_store_def)
qed

section \<open>Storing unpacked objects\<close>

abbreviation loose :: "'a resolved_object_scheme \<Rightarrow> bytes" where
  "loose ob \<equiv> loose_object (ro_type ob) (ro_content ob)"

lemma toLooseObject_loose: "toLooseObject ob = loose ob"
  by (simp add: toLooseObject_def concatBytes_eq loose_object_def js_simps NUL_def)

lemma ingestObjects_fold:
  "ingestObjects pf obs b = (length obs, fold (\<lambda>ob. store_raw pf (loose ob)) obs b)"
proof -
  have "fold (\<lambda>ob (written, b). (Suc written, snd (putRawObject pf (toLooseObject ob) b))) obs (n, b) =
      (n + length obs, fold (\<lambda>ob. store_raw pf (loose ob)) obs b)" for n
    by (induction obs arbitrary: n b) (simp_all add: put_store_raw toLooseObject_loose)
  then show ?thesis by (simp add: ingestObjects_def)
qed

text \<open>What storing a list of objects leaves: the store stays canonical, what could be read stays readable, and
  every object can be read under its id.\<close>

definition stored_all :: "platform \<Rightarrow> 'a resolved_object_scheme list \<Rightarrow> bucket \<Rightarrow> bucket \<Rightarrow> bool" where
  "stored_all pf obs b b' \<longleftrightarrow> canonical_store pf b' \<and>
    (\<forall>sha raw. getRawObject pf b sha = Inr (Some raw) \<longrightarrow> getRawObject pf b' sha = Inr (Some raw)) \<and>
    (\<forall>ob \<in> set obs. getObject pf b' (hashObject (pf_digest pf) (ro_type ob) (ro_content ob)) =
      Inr (Some (ro_type ob, ro_content ob)))"

lemma no_collision_store:
  assumes "platform_ok pf" and "no_collision pf b R" and "raw \<in> R"
  shows "no_collision pf (store_raw pf raw b) R"
  using assms(2,3) stored_raws_store [OF assms(1), of raw b] unfolding no_collision_def
  by (rule_tac inj_on_subset) auto

lemma ingest_all:
  assumes "platform_ok pf" and "canonical_store pf b" and "no_collision pf b R"
    and "\<And>ob. ob \<in> set obs \<Longrightarrow> object_type_ok (ro_type ob) \<and> loose ob \<in> R"
  shows "stored_all pf obs b (snd (ingestObjects pf obs b))"
  unfolding ingestObjects_fold snd_conv using assms(2-4)
proof (induction obs arbitrary: b)
  case Nil
  then show ?case by (simp add: stored_all_def)
next
  case (Cons ob obs)
  let ?b = "store_raw pf (loose ob) b"
  have ob: "object_type_ok (ro_type ob)" "loose ob \<in> R" using Cons.prems(3) by auto
  have can: "canonical_store pf ?b" by (rule store_raw_canonical [OF assms(1) Cons.prems(1) ob(1)])
  have IH: "stored_all pf obs ?b (fold (\<lambda>ob. store_raw pf (loose ob)) obs ?b)"
    by (rule Cons.IH [OF can no_collision_store [OF assms(1) Cons.prems(2) ob(2)]]) (use Cons.prems(3) in auto)
  have "content_addressed pf b" using Cons.prems(1) by (simp add: canonical_store_def)
  then have "getRawObject pf ?b (sha1 (pf_digest pf) (loose ob)) = Inr (Some (loose ob))"
    by (rule store_raw_get [OF assms(1) _ Cons.prems(2) ob(2)])
  then have "getObject pf (fold (\<lambda>ob. store_raw pf (loose ob)) obs ?b)
      (hashObject (pf_digest pf) (ro_type ob) (ro_content ob)) = Inr (Some (ro_type ob, ro_content ob))"
    unfolding hashObject_loose using IH decodeObject_loose [OF ob(1)]
    by (intro getObject_raw) (auto simp: stored_all_def)
  then show ?case using IH store_raw_keeps [of pf b _ _ "loose ob"] by (simp add: stored_all_def)
qed

section \<open>From store to store\<close>

lemma found_all: "getObject pf b sha = Inr (Some (t, c)) \<Longrightarrow> sha \<in> set shas \<Longrightarrow> (t, c) \<in> set (found pf b shas)"
  by (force simp: found_def)

lemma found_loose:
  assumes "platform_ok pf" and "canonical_store pf b" and "(t, c) \<in> set (found pf b shas)"
  shows "object_type_ok t \<and> loose_object t c \<in> stored_raws pf b"
proof -
  obtain sha where "getObject pf b sha = Inr (Some (t, c))" using found_in [OF assms(3)] by blast
  from canonical_object [OF assms(1,2) this] show ?thesis using stored_raw by blast
qed

text \<open>What a pack of the ids \<open>shas\<close> carries.\<close>

lemma pack_carries:
  assumes "writePackFromShas pf A shas = Inr w" and "sha1_digest (pf_digest pf)"
    and "\<And>sha t c. sha \<in> set shas \<Longrightarrow> getObject pf A sha = Inr (Some (t, c)) \<Longrightarrow> deflates (pf_deflate pf) c"
    and "length shas < 2 ^ 32"
  shows "\<exists>objs. readPack (pf_digest pf) fetch (pr_pack w) = Inr objs \<and>
    map (\<lambda>ob. (ro_type ob, ro_content ob)) objs = found pf A shas \<and>
    pr_missing w = filter (\<lambda>sha. getObject pf A sha = Inr None) shas \<and> (\<exists>rest. pr_pack w = PACK_SIGNATURE @ rest)"
proof -
  obtain objects where "writePack (pf_digest pf) (pf_deflate pf) objects = Inr (pr_pack w)"
    using assms(1) by (auto simp: writePackFromShas_def res_elims)
  then have "\<exists>rest. pr_pack w = PACK_SIGNATURE @ rest"
    by (auto simp: writePack_def res_elims Let_def concatBytes_eq packHeader_bytes PACK_SIGNATURE_def dest!: sym [of _ "pr_pack w"])
  moreover obtain objs where "readPack (pf_digest pf) fetch (pr_pack w) = Inr objs"
      "map (\<lambda>ob. (ro_type ob, ro_content ob)) objs = found pf A shas"
      "pr_missing w = filter (\<lambda>sha. getObject pf A sha = Inr None) shas"
    using clone_pack_roundtrip [OF assms(1) _ assms(2,4), of fetch] assms(3) by blast
  ultimately show ?thesis by blast
qed

text \<open>Everything the pack carries can be read in the store that took it in, under the id it had.\<close>

lemma pack_arrives:
  assumes "platform_ok pf" and "canonical_store pf A" and "canonical_store pf B" and "no_collision pf B (stored_raws pf A)"
    and objs: "map (\<lambda>ob. (ro_type ob, ro_content ob)) objs = found pf A shas"
  shows "stored_all pf objs B (snd (ingestObjects pf objs B)) \<and>
    (\<forall>sha \<in> set shas. \<forall>ob. getObject pf A sha = Inr (Some ob) \<longrightarrow>
      getObject pf (snd (ingestObjects pf objs B)) sha = Inr (Some ob))"
proof -
  have mem: "ob \<in> set objs \<Longrightarrow> (ro_type ob, ro_content ob) \<in> set (found pf A shas)" for ob
    unfolding objs [symmetric] by auto
  have all: "stored_all pf objs B (snd (ingestObjects pf objs B))"
    by (rule ingest_all [OF assms(1,3,4)]) (use found_loose [OF assms(1,2) mem] in blast)
  moreover have "getObject pf (snd (ingestObjects pf objs B)) sha = Inr (Some ob)"
    if sha: "sha \<in> set shas" "getObject pf A sha = Inr (Some ob)" for sha ob
  proof -
    obtain t c where ob: "ob = (t, c)" by (cases ob)
    then have "(t, c) \<in> set (map (\<lambda>ob. (ro_type ob, ro_content ob)) objs)" using sha found_all unfolding objs by blast
    then obtain u where "u \<in> set objs" "ro_type u = t" "ro_content u = c" by auto
    then show ?thesis using all canonical_object [OF assms(1,2)] sha(2) ob unfolding stored_all_def by blast
  qed
  ultimately show ?thesis by blast
qed

end
