(* ===== verification/GitClone.thy ===== *)
theory GitClone
  imports GitSmartHttp GitTransfer
begin

text \<open>
  A clone from end to end: the advertisement and the request that server (\<open>server/routes/git-smart-http.ts\<close>)
  and client (\<open>takos-git/local/remote-fetch.ts\<close>) exchange read back as they were written, what the server
  serves belongs to the repository, and the objects the client stores are all it needs.
\<close>

section \<open>Lines of text\<close>

lemma pktLineString_frame:
  "pktLineString s = Inr x \<longleftrightarrow> pkt_fits (Some (utf8_encode s)) \<and> x = frame_pkt (Some (utf8_encode s))"
  by (simp add: pktLineString_def pktLine_frame)

lemma map_frames:
  assumes "\<And>x y. f x = Inr y \<longleftrightarrow> pkt_fits (g x) \<and> y = frame_pkt (g x)"
  shows "map_res f xs = Inr ys \<longleftrightarrow> ys = map frame_pkt (map g xs) \<and> (\<forall>x \<in> set xs. pkt_fits (g x))"
  by (induction xs arbitrary: ys) (auto simp: res_elims assms)

lemma frame_flush: "frame_pkt None = PKT_FLUSH"
  by (simp add: frame_pkt_def)

lemma flush_fits [simp]: "pkt_fits None"
  by (simp add: pkt_fits_def)

lemma decode_ascii: "ascii s \<Longrightarrow> utf8_decode (utf8_encode s) = s"
  by (simp add: utf8_encode_ascii utf8_decode_ascii_encode)

text \<open>Printable text has no white space and no NUL.\<close>

abbreviation "plain s \<equiv> list_all ascii_printable s"

lemma plain_ascii: "plain s \<Longrightarrow> ascii s"
  by (auto simp: ascii_def ascii_printable_def list_all_iff)

lemma plain_no: "plain s \<Longrightarrow> c \<in> set s \<Longrightarrow> \<not> js_ws c \<and> c \<noteq> 0 \<and> c \<noteq> 32 \<and> c \<noteq> 10"
  by (auto simp: ascii_printable_def list_all_iff js_ws_def)

lemma sha_plain: "isValidSha s \<Longrightarrow> plain s"
  by (auto simp: isValidSha_def is_lower_hex_def ascii_printable_def list_all_iff)

lemma sha_length: "isValidSha s \<Longrightarrow> length s = 40"
  by (simp add: isValidSha_def)

lemma sha_neq_Nil: "isValidSha s \<Longrightarrow> s \<noteq> []"
  by (auto simp: isValidSha_def)

lemma js_trim_plain: "plain s \<Longrightarrow> js_trim s = s"
  by (rule js_trim_id) (cases "s = []", simp, use plain_no in \<open>simp add: list_all_iff\<close>)

text \<open>A line of the advertisement, once trimmed and without capabilities.\<close>

lemma js_trim_ref:
  assumes "plain sha" "sha \<noteq> []" "plain name" "name \<noteq> []"
  shows "js_trim (sha @ 32 # name) = sha @ 32 # name"
proof (rule js_trim_id)
  show "sha @ 32 # name = [] \<or> \<not> js_ws (hd (sha @ 32 # name)) \<and> \<not> js_ws (last (sha @ 32 # name))"
    using assms plain_no [OF assms(1), of "hd sha"] plain_no [OF assms(3), of "last name"] by simp
qed

section \<open>The advertisement\<close>

lemma sha_no_prefix:
  assumes "isValidSha sha"
  shows "\<not> js_starts_with (sha @ rest) (js ''# service='')"
proof -
  obtain c cs where c: "sha = c # cs" using sha_length [OF assms] by (cases sha) auto
  then have "c \<noteq> 35" using assms by (auto simp: isValidSha_def is_lower_hex_def)
  then show ?thesis using c by (simp add: js_starts_with_def js_simps)
qed

definition listed :: "jsstring \<times> jsstring \<Rightarrow> remote_ref list" where
  "listed x = (if snd x = js ''HEAD'' then [] else [\<lparr>rf_name = snd x, rf_target = fst x\<rparr>])"

definition advert_ok :: "jsstring \<times> jsstring \<Rightarrow> bool" where
  "advert_ok x \<longleftrightarrow> isValidSha (fst x) \<and> fst x \<noteq> ZERO_OID \<and> snd x \<noteq> [] \<and> plain (snd x)"

text \<open>The part of a line before the capabilities, from which the ref is taken.\<close>

definition scan_part :: "jsstring \<Rightarrow> advert_scan \<Rightarrow> advert_scan" where
  "scan_part refPart st =
    (case index_of 32 refPart of
       None \<Rightarrow> st
     | Some space \<Rightarrow>
         let sha = take space refPart; name = js_trim (drop (space + 1) refPart) in
         if \<not> isValidSha sha \<or> sha = ZERO_OID \<or> name = js ''HEAD'' then st
         else st\<lparr>as_refs := as_refs st @ [\<lparr>rf_name = name, rf_target = sha\<rparr>]\<rparr>)"

lemma scan_ref_part:
  assumes "advert_ok x"
  shows "scan_part (fst x @ 32 # snd x) st = st\<lparr>as_refs := as_refs st @ listed x\<rparr>"
proof -
  have x: "isValidSha (fst x)" "fst x \<noteq> ZERO_OID" "plain (snd x)" using assms by (simp_all add: advert_ok_def)
  have "32 \<notin> set (fst x)" using plain_no [OF sha_plain [OF x(1)], of 32] by auto
  then have "index_of 32 (fst x @ 32 # snd x) = Some (length (fst x))" by simp
  then show ?thesis using x by (simp add: scan_part_def js_trim_plain listed_def)
qed

lemma scan_text:
  assumes "utf8_decode payload = txt" and "\<not> js_starts_with txt (js ''# service='')"
    and "js_trim (case index_of 0 txt of None \<Rightarrow> txt | Some n \<Rightarrow> take n txt) = refPart"
    and "(case index_of 0 txt of
        None \<Rightarrow> st
      | Some n \<Rightarrow> if as_capabilities st = [] then st\<lparr>as_capabilities := drop (n + 1) txt\<rparr> else st) = st'"
  shows "scan_advert_line (Some payload) st = scan_part refPart st'"
  by (simp only: scan_advert_line_def option.case Let_def assms if_False scan_part_def)

lemma scan_plain_line:
  assumes "advert_ok x"
  shows "scan_advert_line (Some (utf8_encode (fst x @ 32 # snd x @ [10]))) st = st\<lparr>as_refs := as_refs st @ listed x\<rparr>"
proof -
  let ?t = "fst x @ 32 # snd x @ [10]"
  have x: "isValidSha (fst x)" "plain (fst x)" "fst x \<noteq> []" "snd x \<noteq> []" "plain (snd x)"
    using assms sha_plain sha_neq_Nil by (simp_all add: advert_ok_def)
  have dec: "utf8_decode (utf8_encode ?t) = ?t" using plain_ascii x by (intro decode_ascii) auto
  have nul: "index_of 0 ?t = None" using plain_no [OF x(2), of 0] plain_no [OF x(5), of 0] by auto
  have trim: "js_trim ?t = fst x @ 32 # snd x"
    using js_trim_ws_snoc [of 10 "fst x @ 32 # snd x"] js_trim_ref [OF x(2,3,5,4)] by (simp add: js_ws_def)
  show ?thesis
    unfolding scan_ref_part [OF assms, symmetric]
    by (rule scan_text [OF dec sha_no_prefix [OF x(1)]]) (simp_all only: nul trim option.case)
qed

lemma scan_first_line:
  assumes "advert_ok x" and "ascii caps" and "as_capabilities st = []"
  shows "scan_advert_line (Some (utf8_encode (fst x @ 32 # snd x @ 0 # caps @ [10]))) st =
    st\<lparr>as_capabilities := caps @ [10], as_refs := as_refs st @ listed x\<rparr>"
proof -
  let ?r = "fst x @ 32 # snd x"
  let ?t = "?r @ 0 # caps @ [10]"
  have x: "isValidSha (fst x)" "plain (fst x)" "fst x \<noteq> []" "snd x \<noteq> []" "plain (snd x)"
    using assms sha_plain sha_neq_Nil by (simp_all add: advert_ok_def)
  have dec: "utf8_decode (utf8_encode ?t) = ?t" using plain_ascii x assms(2) by (intro decode_ascii) auto
  have nul: "index_of 0 ?t = Some (length ?r)"
    using plain_no [OF x(2), of 0] plain_no [OF x(5), of 0] by (intro index_of_append) auto
  have parts: "take (length ?r) ?t = ?r" "drop (length ?r + 1) ?t = caps @ [10]" by simp_all
  have "scan_advert_line (Some (utf8_encode ?t)) st = scan_part ?r (st\<lparr>as_capabilities := caps @ [10]\<rparr>)"
  proof (rule scan_text [OF dec])
    show "\<not> js_starts_with ?t (js ''# service='')"
      using sha_no_prefix [OF x(1), of "32 # snd x @ 0 # caps @ [10]"] by simp
  qed (simp_all only: nul option.case parts js_trim_ref [OF x(2,3,5,4)] assms(3) if_True simp_thms)
  then show ?thesis by (simp add: scan_ref_part [OF assms(1)])
qed

text \<open>An empty repository advertises no ref, only capabilities.\<close>

lemma scan_empty_line:
  assumes "ascii caps" and "as_capabilities st = []"
  shows "scan_advert_line (Some (utf8_encode (NO_OID @ js '' capabilities^{}'' @ [0] @ caps @ [10]))) st =
    st\<lparr>as_capabilities := caps @ [10]\<rparr>"
proof -
  let ?r = "NO_OID @ js '' capabilities^{}''"
  let ?t = "?r @ 0 # caps @ [10]"
  have valid: "isValidSha NO_OID" by (simp add: NO_OID_def isValidSha_def is_lower_hex_def list_all_iff)
  have nz: "0 \<notin> set ?r" by (simp add: NO_OID_def js_simps)
  have dec: "utf8_decode (utf8_encode ?t) = ?t"
    using assms(1) plain_ascii [OF sha_plain [OF valid]] by (intro decode_ascii) (simp add: js_simps)
  have parts: "take (length ?r) ?t = ?r" "drop (length ?r + 1) ?t = caps @ [10]" by simp_all
  have trim: "js_trim ?r = ?r" by (rule js_trim_id) (simp add: NO_OID_def js_simps js_ws_def)
  have "scan_advert_line (Some (utf8_encode ?t)) st = scan_part ?r (st\<lparr>as_capabilities := caps @ [10]\<rparr>)"
  proof (rule scan_text [OF dec])
    show "\<not> js_starts_with ?t (js ''# service='')"
      using sha_no_prefix [OF valid] by simp
  qed (simp_all only: index_of_append [OF nz] option.case parts trim assms(2) if_True simp_thms)
  moreover have "scan_part ?r st' = st'" for st'
  proof -
    have "32 \<notin> set NO_OID" by (simp add: NO_OID_def)
    then have "index_of 32 ?r = Some (length NO_OID)" by (simp add: js_simps)
    then show ?thesis by (simp add: scan_part_def ZERO_OID_def NO_OID_def)
  qed
  ultimately show ?thesis by simp
qed

definition ref_text :: "jsstring \<Rightarrow> nat \<Rightarrow> jsstring \<times> jsstring \<Rightarrow> jsstring" where
  "ref_text caps i x = fst x @ js '' '' @ snd x @ (if i = 0 then 0 # caps else []) @ [10]"

lemma ref_line_frame:
  "ref_line caps x = Inr y \<longleftrightarrow>
    pkt_fits (case x of (i, l) \<Rightarrow> Some (utf8_encode (ref_text caps i l))) \<and>
    y = frame_pkt (case x of (i, l) \<Rightarrow> Some (utf8_encode (ref_text caps i l)))"
  by (auto simp: ref_line_def ref_text_def pktLineString_frame split: prod.splits)

lemmas map_ref_line = map_frames [OF ref_line_frame]

lemma scan_later_lines:
  "(\<And>x. x \<in> set xs \<Longrightarrow> advert_ok x) \<Longrightarrow> 0 < n \<Longrightarrow>
    fold scan_advert_line (map (\<lambda>(i, x). Some (utf8_encode (ref_text caps i x))) (enumerate n xs)) st =
    st\<lparr>as_refs := as_refs st @ concat (map listed xs)\<rparr>"
  by (induction xs arbitrary: n st) (simp_all add: ref_text_def js_simps scan_plain_line)

lemma scan_service: "scan_advert_line (Some (utf8_encode (js ''# service=git-upload-pack'' @ [10]))) st = st\<lparr>as_sawService := True\<rparr>"
proof -
  have "utf8_decode (utf8_encode (js ''# service=git-upload-pack'' @ [10])) = js ''# service=git-upload-pack'' @ [10]"
    by (rule decode_ascii) (simp add: js_simps)
  moreover have "js_starts_with (js ''# service=git-upload-pack'' @ [10]) (js ''# service='')"
    by (simp add: js_starts_with_def js_simps)
  ultimately show ?thesis by (simp add: scan_advert_line_def Let_def)
qed

text \<open>The capabilities name the default branch.\<close>

definition symref_of :: "jsstring option \<Rightarrow> jsstring option" where
  "symref_of branch = map_option (\<lambda>b. js ''refs/heads/'' @ b) branch"

definition branch_ok :: "jsstring option \<Rightarrow> bool" where
  "branch_ok branch \<longleftrightarrow> (\<forall>b. branch = Some b \<longrightarrow> b \<noteq> [] \<and> plain b)"

lemma ascii_js: "(\<forall>c \<in> set (js s). unat c < 128) \<Longrightarrow> ascii (js s)"
  by (simp add: ascii_def)

lemma capabilities_ascii:
  assumes "av_headSymref refs = symref_of branch" and "branch_ok branch"
  shows "ascii (capabilities refs)"
  using assms plain_ascii
  by (cases branch) (auto simp: capabilities_def symref_of_def branch_ok_def AGENT_def truthy_def js_simps)

lemma find_symref_first:
  assumes "b \<noteq> []" and "plain b"
  shows "find_symref (SYMREF @ b @ 32 # rest) = Some b"
proof -
  obtain c cs where S: "SYMREF = c # cs" by (simp add: SYMREF_def js_simps)
  have "takeWhile (\<lambda>x. \<not> js_ws x) (b @ 32 # rest) = b"
    using plain_no [OF assms(2)] by (subst takeWhile_append2) (auto simp: js_ws_def)
  then have "takeWhile (\<lambda>x. \<not> js_ws x) (drop (length SYMREF) (SYMREF @ b @ 32 # rest)) = b" by simp
  moreover have "js_starts_with (SYMREF @ b @ 32 # rest) SYMREF" by (simp add: js_starts_with_def)
  ultimately show ?thesis using assms(1) unfolding S append_Cons find_symref.simps Let_def by (simp only: simp_thms if_True)
qed

lemma capabilities_symref:
  assumes "av_headSymref refs = symref_of branch" and "branch_ok branch"
  shows "find_symref (capabilities refs @ [10]) = branch"
proof (cases branch)
  case None
  have "find_symref (js ''agent=takos-git/0.1 object-format=sha1'' @ [10]) = None"
    by (simp add: js_simps js_starts_with_def SYMREF_def Let_def)
  then show ?thesis using None assms(1) by (simp add: capabilities_def symref_of_def truthy_def AGENT_def js_simps)
next
  case (Some b)
  then have "capabilities refs @ [10] = SYMREF @ b @ 32 # js ''agent=takos-git/0.1 object-format=sha1'' @ [10]"
    using assms by (simp add: capabilities_def symref_of_def truthy_def AGENT_def SYMREF_def js_simps)
  then show ?thesis using find_symref_first [of b] Some assms(2) by (simp add: branch_ok_def)
qed

lemma parse_advertised:
  assumes "buildUploadPackAdvertisement refs = Inr body"
    and lines: "\<And>x. x \<in> set (av_lines refs) \<Longrightarrow> advert_ok x"
    and head: "av_headSymref refs = symref_of branch" "branch_ok branch"
  shows "parseAdvertisement body = Inr \<lparr>ad_refs = concat (map listed (av_lines refs)), ad_defaultBranch = branch\<rparr>"
proof -
  let ?caps = "capabilities refs"
  let ?service = "Some (utf8_encode (js ''# service=git-upload-pack'' @ [10]))"
  let ?st = "\<lparr>as_refs = [], as_capabilities = [], as_sawService = True\<rparr>"
  note caps = capabilities_ascii [OF head]
  obtain ps where ps: "body = concat (map frame_pkt ([?service, None] @ ps @ [None]))"
      "\<forall>p \<in> set ([?service, None] @ ps @ [None]). pkt_fits p"
      "fold scan_advert_line ps ?st = ?st\<lparr>as_capabilities := ?caps @ [10], as_refs := concat (map listed (av_lines refs))\<rparr>"
  proof (cases "av_lines refs")
    case Nil
    let ?p = "Some (utf8_encode (NO_OID @ js '' capabilities^{}'' @ [0] @ ?caps @ [10]))"
    show ?thesis
      by (rule that [of "[?p]"])
        (use assms(1) Nil scan_empty_line [OF caps, of ?st] in
          \<open>auto simp: buildUploadPackAdvertisement_def res_elims pktLineString_frame concatBytes_eq frame_flush\<close>)
  next
    case (Cons x xs)
    let ?ps = "map (\<lambda>(i, l). Some (utf8_encode (ref_text ?caps i l))) (enumerate 0 (x # xs))"
    have "fold scan_advert_line ?ps ?st = ?st\<lparr>as_capabilities := ?caps @ [10], as_refs := concat (map listed (x # xs))\<rparr>"
      using scan_first_line [OF lines caps, of x ?st] scan_later_lines [of xs "Suc 0" ?caps] lines Cons
      by (simp add: ref_text_def js_simps)
    then show ?thesis
      by (intro that [of ?ps])
        (use assms(1) Cons in
          \<open>auto simp: buildUploadPackAdvertisement_def res_elims pktLineString_frame map_ref_line concatBytes_eq frame_flush
            simp del: enumerate_simps\<close>)
  qed
  have "parsePktLines body = Inr ([?service, None] @ ps @ [None])"
    unfolding ps(1) by (rule parse_frames) (use ps(2) in blast)
  moreover have "scan_advert_line None st = st" for st by (simp add: scan_advert_line_def)
  ultimately show ?thesis
    using ps(3) capabilities_symref [OF head] by (simp add: parseAdvertisement_def scan_service Let_def)
qed

section \<open>The request\<close>

definition want_text :: "nat \<times> jsstring \<Rightarrow> jsstring" where
  "want_text x = js ''want '' @ snd x @ (if fst x = 0 then js '' ofs-delta agent=takos-git/0.1'' else [])"

lemma want_line_frame:
  "want_line x = Inr y \<longleftrightarrow>
    pkt_fits (Some (utf8_encode (want_text x @ [10]))) \<and> y = frame_pkt (Some (utf8_encode (want_text x @ [10])))"
  by (simp add: want_line_def want_text_def pktLineString_frame)

lemma js_trim_end_line: "s \<noteq> [] \<Longrightarrow> \<not> js_ws (last s) \<Longrightarrow> js_trim_end (s @ [10]) = s"
  by (cases s rule: rev_cases) (simp_all add: js_trim_end_def js_ws_def)

lemma scan_want:
  assumes "isValidSha (snd x)"
  shows "scan_request_line (Some (utf8_encode (want_text x @ [10]))) st = (fst st @ [snd x], snd st)"
proof -
  have x: "plain (snd x)" "snd x \<noteq> []" "length (snd x) = 40"
    using assms sha_plain sha_neq_Nil sha_length by simp_all
  have dec: "utf8_decode (utf8_encode (want_text x @ [10])) = want_text x @ [10]"
    using plain_ascii [OF x(1)] by (intro decode_ascii) (simp add: want_text_def js_simps)
  have "\<not> js_ws (last (want_text x))"
    using plain_no [OF x(1), of "last (snd x)"] x(2) by (simp add: want_text_def js_simps) (simp add: js_ws_def)
  then have trim: "js_trim_end (want_text x @ [10]) = want_text x"
    by (intro js_trim_end_line) (simp_all add: want_text_def js_simps)
  have slice: "js_slice (want_text x) 5 45 = snd x"
    unfolding want_text_def using x(3) by (intro js_slice_append) (simp_all add: js_simps)
  have want: "js_starts_with (want_text x) (js ''want '')" by (simp add: js_starts_with_def want_text_def)
  show ?thesis
    by (cases st) (simp only: scan_request_line_def option.case Let_def dec trim slice want assms if_True prod.case fst_conv snd_conv)
qed

lemma scan_wants:
  "(\<And>x. x \<in> set xs \<Longrightarrow> isValidSha (snd x)) \<Longrightarrow>
    fold scan_request_line (map (\<lambda>x. Some (utf8_encode (want_text x @ [10]))) xs) st = (fst st @ map snd xs, snd st)"
  by (induction xs arbitrary: st) (simp_all add: scan_want)

lemma scan_done: "scan_request_line (Some (utf8_encode (js ''done'' @ [10]))) st = st"
proof -
  have dec: "utf8_decode (utf8_encode (js ''done'' @ [10])) = js ''done'' @ [10]"
    by (rule decode_ascii) (simp add: js_simps)
  have trim: "js_trim_end (js ''done'' @ [10]) = js ''done''"
    by (rule js_trim_end_line) (simp_all add: js_simps js_ws_def)
  show ?thesis
    by (cases st) (simp add: scan_request_line_def dec trim Let_def, simp add: js_starts_with_def js_simps)
qed

lemma parse_requested:
  assumes "buildUploadPackRequest wants = Inr body" and "\<And>w. w \<in> set wants \<Longrightarrow> isValidSha w"
  shows "parseUploadPackRequest body = Inr (wants, [])"
proof -
  let ?w = "map (\<lambda>x. Some (utf8_encode (want_text x @ [10]))) (enumerate 0 wants)"
  let ?ps = "?w @ [None, Some (utf8_encode (js ''done'' @ [10]))]"
  have body: "body = concat (map frame_pkt ?ps)" "\<forall>p \<in> set ?ps. pkt_fits p"
    using assms(1)
    by (auto simp: buildUploadPackRequest_def res_elims map_frames [OF want_line_frame] pktLineString_frame concatBytes_eq
        frame_flush)
  have "parsePktLines body = Inr ?ps" unfolding body(1) by (rule parse_frames) (use body(2) in blast)
  moreover have "fold scan_request_line ?w ([], []) = (wants, [])"
  proof -
    have "isValidSha (snd x)" if "x \<in> set (enumerate 0 wants)" for x
      using that assms(2) nth_mem [of "fst x" wants] by (simp add: in_set_enumerate_eq)
    then show ?thesis using scan_wants [of "enumerate 0 wants" "([], [])"] by simp
  qed
  moreover have "scan_request_line None st = st" for st by (simp add: scan_request_line_def)
  ultimately show ?thesis by (simp add: parseUploadPackRequest_def scan_done)
qed

section \<open>What the server advertises\<close>

text \<open>The commit of a branch or tag of the repository.\<close>

definition tip :: "git_db \<Rightarrow> jsstring \<Rightarrow> jsstring \<Rightarrow> bool" where
  "tip db repoId sha \<longleftrightarrow>
    (\<exists>b \<in> set (gd_branches db). b_repo b = repoId \<and> b_sha b = sha) \<or>
    (\<exists>t \<in> set (gd_tags db). t_repo t = repoId \<and> t_sha t = sha)"

definition own_branch :: "git_db \<Rightarrow> jsstring \<Rightarrow> git_branch \<Rightarrow> bool" where
  "own_branch db repoId b \<longleftrightarrow> b \<in> set (gd_branches db) \<and> b_repo b = repoId"

definition own_tag :: "git_db \<Rightarrow> jsstring \<Rightarrow> git_tag \<Rightarrow> bool" where
  "own_tag db repoId t \<longleftrightarrow> t \<in> set (gd_tags db) \<and> t_repo t = repoId"

lemma listBranches_own:
  "listBranches adapter db repoId = Inr bs \<Longrightarrow> b \<in> set bs \<longleftrightarrow> isValidRepoId repoId \<and> own_branch db repoId b"
  by (auto simp: listBranches_def own_branch_def Let_def split: if_splits dest!: withDrizzleFallback_same)

lemma listTags_own:
  "listTags adapter db repoId = Inr ts \<Longrightarrow> t \<in> set ts \<longleftrightarrow> isValidRepoId repoId \<and> own_tag db repoId t"
  by (auto simp: listTags_def own_tag_def Let_def split: if_splits dest!: withDrizzleFallback_same)

lemma default_own:
  "getDefaultBranch adapter db repoId = Inr (Some b) \<Longrightarrow> isValidRepoId repoId \<and> own_branch db repoId b"
  by (auto simp: getDefaultBranch_def own_branch_def Let_def split: if_splits dest!: withDrizzleFallback_same sql_get_Some)

definition line_of :: "listed_ref \<Rightarrow> jsstring \<times> jsstring" where
  "line_of ref = (lr_target ref, lr_name ref)"

lemma loaded_refs:
  assumes "loadAdvertisedRefs adapter db repoId = Inr refs"
  obtains d bs ts where
    "av_lines refs = (case d of None \<Rightarrow> [] | Some b \<Rightarrow> [(b_sha b, js ''HEAD'')]) @ map line_of (map branch_ref bs @ map tag_ref ts)"
    "av_tips refs = js_set (map fst (av_lines refs))" "av_headSymref refs = symref_of (map_option b_name d)"
    "\<forall>b \<in> set bs. own_branch db repoId b" "\<forall>t \<in> set ts. own_tag db repoId t" "\<forall>b. d = Some b \<longrightarrow> b \<in> set bs"
proof -
  obtain listed d where a: "listAllRefs adapter db repoId = Inr listed" "getDefaultBranch adapter db repoId = Inr d"
    and refs: "refs = \<lparr>av_lines = (case d of None \<Rightarrow> [] | Some b \<Rightarrow> [(b_sha b, js ''HEAD'')]) @ map line_of listed,
        av_tips = js_set (map fst ((case d of None \<Rightarrow> [] | Some b \<Rightarrow> [(b_sha b, js ''HEAD'')]) @ map line_of listed)),
        av_headSymref = map_option (\<lambda>b. js ''refs/heads/'' @ b_name b) d, av_headSha = map_option b_sha d\<rparr>"
    using assms unfolding loadAdvertisedRefs_def bind_res_Inr_iff Let_def sum.inject line_of_def by blast
  obtain bs ts where l: "listBranches adapter db repoId = Inr bs" "listTags adapter db repoId = Inr ts"
      "listed = map branch_ref bs @ map tag_ref ts"
    using a(1) unfolding listAllRefs_def bind_res_Inr_iff sum.inject by blast
  show thesis
  proof (rule that [of d bs ts])
    show "\<forall>b. d = Some b \<longrightarrow> b \<in> set bs"
      using default_own [of adapter db repoId] a(2) listBranches_own [OF l(1)] by simp
    show "\<forall>b \<in> set bs. own_branch db repoId b" using listBranches_own [OF l(1)] by simp
    show "\<forall>t \<in> set ts. own_tag db repoId t" using listTags_own [OF l(2)] by simp
  qed (simp_all add: refs l(3) symref_of_def option.map_comp comp_def)
qed

lemma target_simps [simp]: "lr_target (branch_ref b) = b_sha b" "lr_target (tag_ref t) = t_sha t"
  by (simp_all add: branch_ref_def tag_ref_def Let_def)

lemma advertised_tip:
  assumes "loadAdvertisedRefs adapter db repoId = Inr refs" and "sha \<in> set (av_tips refs)"
  shows "tip db repoId sha"
  by (rule loaded_refs [OF assms(1)])
    (use assms(2) in \<open>auto simp: tip_def own_branch_def own_tag_def line_of_def split: option.splits\<close>)

text \<open>Names as the services that create refs accept them, without outer white space.\<close>

definition ref_name_ok :: "jsstring \<Rightarrow> bool" where
  "ref_name_ok n \<longleftrightarrow> isValidRefName n \<and> js_trim n = n"

lemma ref_name_plain:
  assumes "ref_name_ok n"
  shows "n \<noteq> [] \<and> plain n \<and> 94 \<notin> set n"
proof -
  have t: "js_trim n = n" using assms by (simp add: ref_name_ok_def)
  have n: "n \<noteq> []" "plain n" "\<not> list_ex invalid_ref_char n"
    using assms unfolding ref_name_ok_def isValidRefName_def Let_def t by blast+
  have "invalid_ref_char 94" by (simp add: invalid_ref_char_def js_simps)
  then show ?thesis using n by (auto simp: list_ex_iff)
qed

definition refs_sendable :: "git_db \<Rightarrow> jsstring \<Rightarrow> bool" where
  "refs_sendable db repoId \<longleftrightarrow>
    (\<forall>b. own_branch db repoId b \<longrightarrow> isValidSha (b_sha b) \<and> b_sha b \<noteq> ZERO_OID \<and> ref_name_ok (b_name b)) \<and>
    (\<forall>t. own_tag db repoId t \<longrightarrow> isValidSha (t_sha t) \<and> t_sha t \<noteq> ZERO_OID \<and> ref_name_ok (t_name t))"

lemma not_peeled: "94 \<notin> set n \<Longrightarrow> \<not> js_ends_with n (js ''^{}'')"
proof
  assume n: "94 \<notin> set n" and e: "js_ends_with n (js ''^{}'')"
  then have "take (length (rev (js ''^{}''))) (rev n) = rev (js ''^{}'')"
    by (simp only: js_ends_with_def js_starts_with_def)
  then have "set (rev (js ''^{}'')) \<subseteq> set (rev n)" by (metis set_take_subset)
  then show False using n by (simp add: js_simps)
qed

text \<open>What the client makes of an advertisement.\<close>

lemma sendable_lines:
  assumes "loadAdvertisedRefs adapter db repoId = Inr refs" and "refs_sendable db repoId"
  obtains d where "\<And>x. x \<in> set (av_lines refs) \<Longrightarrow> advert_ok x" "av_headSymref refs = symref_of d" "branch_ok d"
    "\<And>r. r \<in> set (concat (map listed (av_lines refs))) \<Longrightarrow> \<not> is_peeled r"
    "set (map rf_target (concat (map listed (av_lines refs)))) = set (av_tips refs)"
proof -
  obtain d bs ts where l:
    "av_lines refs = (case d of None \<Rightarrow> [] | Some b \<Rightarrow> [(b_sha b, js ''HEAD'')]) @ map line_of (map branch_ref bs @ map tag_ref ts)"
    "av_tips refs = js_set (map fst (av_lines refs))" "av_headSymref refs = symref_of (map_option b_name d)"
    "\<forall>b \<in> set bs. own_branch db repoId b" "\<forall>t \<in> set ts. own_tag db repoId t" "\<forall>b. d = Some b \<longrightarrow> b \<in> set bs"
    by (rule loaded_refs [OF assms(1)])
  have b: "isValidSha (b_sha b)" "b_sha b \<noteq> ZERO_OID" "b_name b \<noteq> []" "plain (b_name b)" "94 \<notin> set (b_name b)" if "b \<in> set bs" for b
    using assms(2) bspec [OF l(4) that] ref_name_plain unfolding refs_sendable_def by blast+
  have t: "isValidSha (t_sha t)" "t_sha t \<noteq> ZERO_OID" "t_name t \<noteq> []" "plain (t_name t)" "94 \<notin> set (t_name t)" if "t \<in> set ts" for t
    using assms(2) bspec [OF l(5) that] ref_name_plain unfolding refs_sendable_def by blast+
  have pre: "plain (js ''refs/heads/'')" "plain (js ''refs/tags/'')" "plain (js ''refs/'')" "plain (js ''HEAD'')"
    "94 \<notin> set (js ''refs/heads/'')" "94 \<notin> set (js ''refs/tags/'')" "94 \<notin> set (js ''refs/'')"
    by (simp_all add: js_simps ascii_printable_def)
  have bl: "advert_ok (line_of (branch_ref x)) \<and> 94 \<notin> set (lr_name (branch_ref x)) \<and> lr_name (branch_ref x) \<noteq> js ''HEAD''" if "x \<in> set bs" for x
    using b [OF that] pre by (auto simp: advert_ok_def line_of_def branch_ref_def Let_def js_simps)
  have tl: "advert_ok (line_of (tag_ref x)) \<and> 94 \<notin> set (lr_name (tag_ref x)) \<and> lr_name (tag_ref x) \<noteq> js ''HEAD''" if "x \<in> set ts" for x
    using t [OF that] pre by (auto simp: advert_ok_def line_of_def tag_ref_def Let_def js_simps)
  have hl: "advert_ok (b_sha x, js ''HEAD'')" if "x \<in> set bs" for x
    using b [OF that] pre by (simp add: advert_ok_def) (simp add: js_simps)
  have heads: "set (case d of None \<Rightarrow> [] | Some b \<Rightarrow> [(b_sha b, js ''HEAD'')]) \<subseteq> (\<lambda>b. (b_sha b, js ''HEAD'')) ` set bs"
    using l(6) by (auto split: option.splits)
  show thesis
  proof (rule that [of "map_option b_name d"])
    show "advert_ok x" if "x \<in> set (av_lines refs)" for x
      using that heads bl tl hl unfolding l(1) by auto
    show "branch_ok (map_option b_name d)" using l(6) b unfolding branch_ok_def by auto
    show "\<not> is_peeled r" if "r \<in> set (concat (map listed (av_lines refs)))" for r
      using that heads bl tl unfolding l(1)
      by (auto simp: listed_def line_of_def is_peeled_def not_peeled split: if_splits)
    show "set (map rf_target (concat (map listed (av_lines refs)))) = set (av_tips refs)"
      unfolding l(1,2) using bl tl l(6) by (auto simp: listed_def line_of_def image_iff split: option.splits)
  qed (rule l(3))
qed

end
