(* ===== verification/GitServe.thy ===== *)
theory GitServe
  imports GitClone
begin

text \<open>
  What the git server (\<open>server/routes/git-smart-http.ts\<close>) gives away: the walk that collects the objects of a
  pack collects only what is needed, and a pack is served only to a caller who may read the repository.
\<close>

section \<open>The walk collects only what is needed\<close>

definition agenda_needed :: "(role \<Rightarrow> jsstring \<Rightarrow> bool) \<Rightarrow> jsstring list \<Rightarrow> jsstring \<times> bool \<Rightarrow> bool" where
  "agenda_needed N H x \<longleftrightarrow> fst x \<in> set H \<or> (\<exists>ro. N ro (fst x) \<and> (snd x \<longrightarrow> ro = TreeRole))"

definition all_needed :: "(role \<Rightarrow> jsstring \<Rightarrow> bool) \<Rightarrow> jsstring list \<Rightarrow> bool" where
  "all_needed N R \<longleftrightarrow> (\<forall>x \<in> set R. \<exists>ro. N ro x)"

lemma all_needed_simps [simp]:
  "all_needed N []" "all_needed N (R @ [x]) \<longleftrightarrow> all_needed N R \<and> (\<exists>ro. N ro x)"
  by (auto simp: all_needed_def)

definition closed_trees :: "tree_reader \<Rightarrow> jsstring list \<Rightarrow> (role \<Rightarrow> jsstring \<Rightarrow> bool) \<Rightarrow> bool" where
  "closed_trees tree H N \<longleftrightarrow> (\<forall>t es e. N TreeRole t \<longrightarrow> tree t = Inr (Some es) \<longrightarrow> e \<in> set es \<longrightarrow>
    te_sha e \<in> set H \<or> N (entry_role e) (te_sha e))"

lemma agenda_needed_entries:
  assumes "closed_trees tree H N" and "N TreeRole t" and "tree t = Inr (Some es)" and "x \<in> set (agenda_of es)"
  shows "agenda_needed N H x"
proof -
  obtain e where e: "e \<in> set es" "x = (te_sha e, is_dir_mode (te_mode e))" using assms(4) by (auto simp: agenda_of_def)
  then have "te_sha e \<in> set H \<or> N (entry_role e) (te_sha e)" using assms(1-3) unfolding closed_trees_def by blast
  then show ?thesis using e(2) by (auto simp: agenda_needed_def entry_role_def)
qed

text \<open>The walk of a tree keeps what was collected, and whatever it adds is needed, where its agenda was.\<close>

definition tree_sound ::
  "(role \<Rightarrow> jsstring \<Rightarrow> bool) \<Rightarrow> tree_reader \<Rightarrow> jsstring list \<Rightarrow> (jsstring \<times> bool) list \<Rightarrow> jsstring list \<Rightarrow>
    (jsstring list \<times> jsstring list) res \<Rightarrow> bool" where
  "tree_sound N tree H Q R r \<longleftrightarrow> (\<forall>x. r = Inr x \<longrightarrow> set R \<subseteq> set (fst x) \<and>
    (closed_trees tree H N \<longrightarrow> (\<forall>q \<in> set Q. agenda_needed N H q) \<longrightarrow> all_needed N R \<longrightarrow> all_needed N (fst x)))"

lemma tree_sound_skip: "tree_sound N tree H Q R r \<Longrightarrow> tree_sound N tree H (q # Q) R r"
  by (simp add: tree_sound_def)

lemma tree_sound_leaf: "tree_sound N tree H Q (R @ [s]) r \<Longrightarrow> s \<notin> set H \<Longrightarrow> tree_sound N tree H ((s, d) # Q) R r"
  by (auto simp: tree_sound_def agenda_needed_def)

lemma tree_sound_tree:
  assumes "tree_sound N tree H (agenda_of es @ Q) (R @ [s]) r" and "s \<notin> set H" and "tree s = Inr (Some es)"
  shows "tree_sound N tree H ((s, True) # Q) R r"
proof -
  have "\<forall>q \<in> set (agenda_of es). agenda_needed N H q" if "closed_trees tree H N" "agenda_needed N H (s, True)"
    using agenda_needed_entries [OF that(1) _ assms(3)] that(2) assms(2) by (auto simp: agenda_needed_def)
  then show ?thesis using assms(1,2) unfolding tree_sound_def by (auto simp: agenda_needed_def)
qed

lemma collect_tree_sound:
  assumes "collect_tree tree H Q R V = Some r"
  shows "tree_sound N tree H Q R r"
proof (rule collect_tree.raw_induct [where P = "\<lambda>tree H Q R V r. tree_sound N tree H Q R r", OF _ assms], goal_cases)
  case step: (1 f tree H Q R V r)
  show ?case
  proof (cases Q)
    case Nil
    then show ?thesis using step(2) by (auto simp: tree_sound_def)
  next
    case (Cons q Q')
    obtain s d where q: "q = (s, d)" by (cases q)
    note body = step(2) [unfolded Cons q list.sel fst_conv snd_conv Let_def]
    consider "f tree H Q' R V = Some r"
      | "s \<notin> set H" "f tree H Q' (R @ [s]) (s # V) = Some r"
      | e where "r = Inl e"
      | es where "s \<notin> set H" "d" "tree s = Inr (Some es)" "f tree H (agenda_of es @ Q') (R @ [s]) (s # V) = Some r"
      using body by (fastforce split: if_splits sum.splits option.splits)
    then show ?thesis
    proof cases
      case 1
      show ?thesis unfolding Cons by (rule tree_sound_skip) (rule step(1) [OF 1])
    next
      case 2
      show ?thesis unfolding Cons q by (rule tree_sound_leaf [OF step(1) [OF 2(2)] 2(1)])
    next
      case 3
      then show ?thesis by (simp add: tree_sound_def)
    next
      case 4
      then show ?thesis unfolding Cons q using tree_sound_tree [OF step(1) [OF 4(4)] 4(1,3)] by simp
    qed
  qed
qed

definition closed_commits :: "reader \<Rightarrow> jsstring list \<Rightarrow> (role \<Rightarrow> jsstring \<Rightarrow> bool) \<Rightarrow> bool" where
  "closed_commits read H N \<longleftrightarrow> (\<forall>c x. N CommitRole c \<longrightarrow> read c = Inr (Some x) \<longrightarrow>
    (cm_tree x \<in> set H \<or> N TreeRole (cm_tree x)) \<and> (\<forall>p \<in> set (cm_parents x). p \<in> set H \<or> N CommitRole p))"

definition commit_sound ::
  "(role \<Rightarrow> jsstring \<Rightarrow> bool) \<Rightarrow> reader \<Rightarrow> tree_reader \<Rightarrow> jsstring list \<Rightarrow> jsstring list \<Rightarrow> jsstring list \<Rightarrow> jsstring list res \<Rightarrow> bool" where
  "commit_sound N read tree H Q R r \<longleftrightarrow> (\<forall>x. r = Inr x \<longrightarrow> closed_trees tree H N \<longrightarrow> closed_commits read H N \<longrightarrow>
    (\<forall>q \<in> set Q. q \<in> set H \<or> N CommitRole q) \<longrightarrow> all_needed N R \<longrightarrow> all_needed N x)"

lemma commit_sound_skip: "commit_sound N read tree H Q R r \<Longrightarrow> commit_sound N read tree H (q # Q) R r"
  by (simp add: commit_sound_def)

lemma commit_sound_leaf: "commit_sound N read tree H Q (R @ [s]) r \<Longrightarrow> s \<notin> set H \<Longrightarrow> commit_sound N read tree H (s # Q) R r"
  by (auto simp: commit_sound_def)

lemma commit_sound_read:
  assumes "commit_sound N read tree H (Q @ filter P (cm_parents c)) R1 r" and "s \<notin> set H" and "read s = Inr (Some c)"
    and t: "(if X \<and> cm_tree c \<notin> set H then collectTreeObjects tree H (cm_tree c) (R @ [s]) V
        else Some (Inr (R @ [s], V))) = Some (Inr (R1, V1))"
  shows "commit_sound N read tree H (s # Q) R r"
proof -
  have "all_needed N R1 \<and> (\<forall>q \<in> set (filter P (cm_parents c)). q \<in> set H \<or> N CommitRole q)"
    if n: "closed_trees tree H N" "closed_commits read H N" "N CommitRole s" "all_needed N R"
  proof -
    have R: "all_needed N (R @ [s])" using n(3,4) by auto
    have c: "cm_tree c \<in> set H \<or> N TreeRole (cm_tree c)" "\<forall>p \<in> set (cm_parents c). p \<in> set H \<or> N CommitRole p"
      using n(2,3) assms(3) unfolding closed_commits_def by blast+
    have "all_needed N R1"
    proof (cases "X \<and> cm_tree c \<notin> set H")
      case True
      then have "tree_sound N tree H [(cm_tree c, True)] (R @ [s]) (Inr (R1, V1))"
        using t by (intro collect_tree_sound) (simp add: collectTreeObjects_def)
      then show ?thesis using n(1) c(1) True R unfolding tree_sound_def by (auto simp: agenda_needed_def)
    next
      case False
      then have "R1 = R @ [s]" using t by (simp only: if_False option.inject sum.inject prod.inject)
      then show ?thesis using R by simp
    qed
    then show ?thesis using c(2) by auto
  qed
  then show ?thesis using assms(1,2) unfolding commit_sound_def by auto
qed

lemma collect_commits_sound:
  assumes "collect_commits read tree H Q R V = Some r"
  shows "commit_sound N read tree H Q R r"
proof (rule collect_commits.raw_induct [where P = "\<lambda>read tree H Q R V r. commit_sound N read tree H Q R r", OF _ assms], goal_cases)
  case step: (1 f read tree H Q R V r)
  show ?case
  proof (cases Q)
    case Nil
    then show ?thesis using step(2) by (auto simp: commit_sound_def)
  next
    case (Cons s Q')
    let ?t = "\<lambda>c. if cm_tree c \<notin> set (s # V) \<and> cm_tree c \<notin> set H
      then collectTreeObjects tree H (cm_tree c) (R @ [s]) (s # V) else Some (Inr (R @ [s], s # V))"
    note body = step(2) [unfolded Cons list.sel Let_def]
    consider "f read tree H Q' R V = Some r"
      | "s \<notin> set H" "f read tree H Q' (R @ [s]) (s # V) = Some r"
      | e where "r = Inl e"
      | c R1 V1 where "s \<notin> set H" "read s = Inr (Some c)" "?t c = Some (Inr (R1, V1))"
          "f read tree H (Q' @ filter (\<lambda>p. p \<notin> set V1 \<and> p \<notin> set H) (cm_parents c)) R1 V1 = Some r"
    proof (cases "s \<in> set V \<or> s \<in> set H")
      case True
      then show ?thesis using body that(1) by simp
    next
      case new: False
      show ?thesis
      proof (cases "read s")
        case (Inl e)
        then show ?thesis using body new that(3) [of e] by auto
      next
        case (Inr x)
        show ?thesis
        proof (cases x)
          case None
          then show ?thesis using body new Inr that(2) by simp
        next
          case (Some c)
          show ?thesis
          proof (cases "?t c")
            case None
            then show ?thesis using body new Inr Some by simp
          next
            case t: (Some y)
            show ?thesis
            proof (cases y)
              case (Inl e)
              then show ?thesis using body new Inr Some t that(3) [of e] by auto
            next
              case y: (Inr z)
              obtain R1 V1 where "z = (R1, V1)" by (cases z)
              then show ?thesis using body new Inr Some t y that(4) [of c R1 V1] by simp
            qed
          qed
        qed
      qed
    qed
    then show ?thesis
    proof cases
      case 1
      show ?thesis unfolding Cons by (rule commit_sound_skip) (rule step(1) [OF 1])
    next
      case 2
      show ?thesis unfolding Cons by (rule commit_sound_leaf [OF step(1) [OF 2(2)] 2(1)])
    next
      case 3
      then show ?thesis by (simp add: commit_sound_def)
    next
      case 4
      show ?thesis unfolding Cons by (rule commit_sound_read [OF step(1) [OF 4(4)] 4(1,2,3)])
    qed
  qed
qed

lemma needed_mono: "needed read tree H W ro x \<Longrightarrow> W \<subseteq> W' \<Longrightarrow> needed read tree {} W' ro x"
  by (induction rule: needed.induct) (auto intro: needed.intros)

text \<open>What is collected for some wants is needed for any larger set of them.\<close>

lemma collected_needed:
  assumes "collectReachableObjects pf db bucket repoId wants haves = Some (Inr r)" and "set wants \<subseteq> W" and "x \<in> set r"
  shows "\<exists>ro. needed (getCommit pf db bucket repoId) (getTreeEntries pf bucket) {} W ro x"
proof -
  let ?N = "needed (getCommit pf db bucket repoId) (getTreeEntries pf bucket) (set haves) (set wants)"
  have "commit_sound ?N (getCommit pf db bucket repoId) (getTreeEntries pf bucket) haves wants [] (Inr r)"
    by (rule collect_commits_sound) (use assms(1) in \<open>simp add: collectReachableObjects_def\<close>)
  moreover have "closed_trees (getTreeEntries pf bucket) haves ?N" "closed_commits (getCommit pf db bucket repoId) haves ?N"
    unfolding closed_trees_def closed_commits_def by (blast intro: needed.intros)+
  moreover have "\<forall>q \<in> set wants. q \<in> set haves \<or> ?N CommitRole q" by (blast intro: needed.intros)
  ultimately have "all_needed ?N r" by (simp add: commit_sound_def)
  then obtain ro where "?N ro x" using assms(3) by (auto simp: all_needed_def)
  from needed_mono [OF this assms(2)] show ?thesis by blast
qed

section \<open>What is served\<close>

definition nak_frame :: bytes where
  "nak_frame = frame_pkt (Some (utf8_encode (js ''NAK'' @ [10])))"

lemma build_pack_served:
  assumes "build_pack_reply pf db bucket repoId wants haves = Some (Inr reply)" and "gr_status reply < 300"
  shows "\<exists>shas w. collectReachableObjects pf db bucket repoId wants haves = Some (Inr shas) \<and>
    writePackFromShas pf bucket shas = Inr w \<and> pr_missing w = [] \<and> gr_body reply = nak_frame @ pr_pack w"
proof (cases "collectReachableObjects pf db bucket repoId wants haves")
  case None
  then show ?thesis using assms by (simp add: build_pack_reply_def)
next
  case (Some c)
  show ?thesis
  proof (cases c)
    case (Inl e)
    then show ?thesis using assms Some by (auto simp: build_pack_reply_def)
  next
    case shas: (Inr shas)
    show ?thesis
    proof (cases "writePackFromShas pf bucket shas")
      case (Inl e)
      then show ?thesis using assms Some shas by (auto simp: build_pack_reply_def)
    next
      case w: (Inr w)
      have nak: "pktLineString (js ''NAK'' @ [10]) = Inr nak_frame"
        by (simp add: pktLineString_frame nak_frame_def pkt_fits_def utf8_encode_ascii js_simps)
      have "pr_missing w = [] \<and> reply = served (concatBytes [nak_frame, pr_pack w])"
        using assms Some shas w nak by (auto simp: build_pack_reply_def split: if_splits)
      then show ?thesis using Some shas w by (auto simp: concatBytes_eq)
    qed
  qed
qed

text \<open>Who reads: anybody what is public, and the members of the space a private repository is in.\<close>

definition may_read :: "app_db \<Rightarrow> jsstring \<Rightarrow> jsstring option \<Rightarrow> bool" where
  "may_read db repoId user \<longleftrightarrow> (\<exists>repo \<in> set (gd_repos (app_git db)). rp_id repo = repoId \<and>
    (rp_visibility repo = js ''public'' \<or>
     (\<exists>u space m. user = Some u \<and> loadSpace (app_accounts db) (rp_account repo) u = Some space \<and>
        m \<in> set (app_memberships db) \<and> mb_accountId m = ac_id space \<and> mb_memberId m = u)))"

lemma checkRepoAccess_may_read:
  assumes "checkRepoAccess db repoId user None True = Some access"
  shows "may_read db repoId user"
proof -
  obtain repo where repo: "sql_get (\<lambda>r. rp_id r = repoId) (gd_repos (app_git db)) = Some repo"
    using assms by (auto simp: checkRepoAccess_def Let_def split: if_splits option.splits)
  let ?u = "case user of Some u \<Rightarrow> if isValidOpaqueId u then Some u else None | None \<Rightarrow> None"
  let ?m = "case ?u of None \<Rightarrow> None | Some u \<Rightarrow> checkSpaceAccess (app_accounts db) (app_memberships db) (rp_account repo) u None"
  note r = sql_get_Some [OF repo]
  show ?thesis
  proof (cases ?m)
    case None
    then have "rp_visibility repo = js ''public''"
      using assms repo by (auto simp: checkRepoAccess_def Let_def split: if_splits)
    then show ?thesis using r unfolding may_read_def by blast
  next
    case (Some x)
    then obtain u space m where u: "user = Some u"
        "checkSpaceAccess (app_accounts db) (app_memberships db) (rp_account repo) u None = Some (space, m)"
      by (cases x) (auto split: option.splits if_splits)
    then have "loadSpace (app_accounts db) (rp_account repo) u = Some space"
        "loadSpaceMembership (app_memberships db) (ac_id space) u = Some m"
      by (simp_all add: checkSpaceAccess_Some)
    then show ?thesis using u(1) r unfolding may_read_def loadSpaceMembership_def by (blast dest: sql_get_Some)
  qed
qed

text \<open>A user is known by a token that the accounts service accepts.\<close>

definition known_by :: "(jsstring \<Rightarrow> jsstring option) \<Rightarrow> jsstring option \<Rightarrow> jsstring option \<Rightarrow> bool" where
  "known_by bearer authHeader user \<longleftrightarrow>
    (\<forall>u. user = Some u \<longrightarrow> (\<exists>token. basicPassword authHeader = Some token \<and> bearer (js ''Bearer '' @ token) = Some u))"

lemma authenticateRead_Granted:
  assumes "authenticateRead bearer db authHeader repoId = Granted user"
  shows "may_read db repoId user \<and> known_by bearer authHeader user"
proof -
  obtain access where "checkRepoAccess db repoId user None True = Some access"
    using assms by (auto simp: authenticateRead_def Let_def split: if_splits option.splits)
  moreover have "known_by bearer authHeader user"
    using assms by (auto simp: authenticateRead_def Let_def known_by_def truthy_Some split: if_splits option.splits)
  ultimately show ?thesis using checkRepoAccess_may_read by blast
qed

lemma authenticateRead_Denied:
  "authenticateRead bearer db authHeader repoId = Denied reply \<Longrightarrow> 300 \<le> gr_status reply"
  by (auto simp: authenticateRead_def Let_def split: if_splits option.splits)

lemma upload_pack_served:
  assumes "upload_pack pf bearer adapter db (Some bucket) q = Some (Inr reply)" and "gr_status reply < 300"
  obtains repo user wants haves refs shas w where
    "resolveRepo db (gq_owner q) (gq_repo q) = Some repo"
    "authenticateRead bearer db (gq_authorization q) (rp_id repo) = Granted user"
    "parseUploadPackRequest (gq_body q) = Inr (wants, haves)" "wants \<noteq> []"
    "loadAdvertisedRefs adapter (app_git db) (rp_id repo) = Inr refs" "set wants \<subseteq> set (av_tips refs)"
    "collectReachableObjects pf (app_git db) bucket (rp_id repo) wants haves = Some (Inr shas)"
    "writePackFromShas pf bucket shas = Inr w" "pr_missing w = []" "gr_body reply = nak_frame @ pr_pack w"
proof -
  obtain repo where repo: "resolveRepo db (gq_owner q) (gq_repo q) = Some repo"
    using assms by (cases "resolveRepo db (gq_owner q) (gq_repo q)") (auto simp: upload_pack_def)
  obtain user where user: "authenticateRead bearer db (gq_authorization q) (rp_id repo) = Granted user"
    using assms repo authenticateRead_Denied [of bearer db "gq_authorization q" "rp_id repo"]
    by (cases "authenticateRead bearer db (gq_authorization q) (rp_id repo)") (auto simp: upload_pack_def)
  obtain wants haves where wants: "parseUploadPackRequest (gq_body q) = Inr (wants, haves)"
    using assms repo user by (cases "parseUploadPackRequest (gq_body q)") (auto simp: upload_pack_def)
  have ne: "wants \<noteq> []" using assms repo user wants by (auto simp: upload_pack_def)
  obtain refs where refs: "loadAdvertisedRefs adapter (app_git db) (rp_id repo) = Inr refs"
    using assms repo user wants ne
    by (cases "loadAdvertisedRefs adapter (app_git db) (rp_id repo)") (auto simp: upload_pack_def)
  have tips: "\<not> list_ex (\<lambda>want. want \<notin> set (av_tips refs)) wants"
    using assms repo user wants ne refs by (auto simp: upload_pack_def)
  then have "build_pack_reply pf (app_git db) bucket (rp_id repo) wants haves = Some (Inr reply)"
    using assms(1) repo user wants ne refs by (simp add: upload_pack_def)
  from build_pack_served [OF this assms(2)] obtain shas w where
    "collectReachableObjects pf (app_git db) bucket (rp_id repo) wants haves = Some (Inr shas)"
    "writePackFromShas pf bucket shas = Inr w" "pr_missing w = []" "gr_body reply = nak_frame @ pr_pack w" by blast
  then show thesis using that [OF repo user wants ne refs] tips by (auto simp: list_ex_iff)
qed

text \<open>A tag object is no commit.\<close>

lemma getCommit_tag:
  assumes "getObject pf bucket sha = Inr (Some (js ''tag'', content))" and "getCommitFromIndex db repoId sha = None"
  shows "getCommit pf db bucket repoId sha = Inr None \<and> sha \<noteq> []"
proof -
  have "isValidSha sha" using assms(1) by (auto simp: getObject_def getRawObject_def res_elims split: if_splits)
  then show ?thesis using assms sha_neq_Nil by (simp add: getCommit_def getCommitData_def js_simps)
qed

lemma tag_reaches_itself:
  assumes "getObject pf bucket sha = Inr (Some (js ''tag'', content))" and "getCommitFromIndex db repoId sha = None"
    and "listAllRefs adapter db repoId = Inr [ref]" and "lr_target ref = sha"
  shows "collectReachableObjectShas pf adapter db bucket repoId = Some (Inr [sha])"
  using getCommit_tag [OF assms(1,2)] assms(3,4)
  by (simp add: collectReachableObjectShas_def js_set_def live_commits_Cons live_commits_Nil)

end
