(* ===== verification/GitServeProps.thy ===== *)
theory GitServeProps
  imports GitServe
begin

text \<open>
  The git server and its clients from end to end: what is served, what a client of this server gets by
  \<open>fetchRemoteRepository\<close> and \<open>ingestObjects\<close> (\<open>takos-git/local/remote-fetch.ts\<close>), and where the walks over the
  objects stop too early or go too far.
\<close>

section \<open>A server with one commit\<close>

text \<open>Short content is compressed as one stored block, anything longer is kept as it is behind a zero byte.\<close>

definition clone_platform :: platform where
  "clone_platform =
    \<lparr>pf_digest = len_digest, pf_deflate = (\<lambda>c. if length c < 65536 then store_deflate c else 0 # c),
     pf_inflate = (\<lambda>x. case x of
       [] \<Rightarrow> Inl TypeError
     | c # cs \<Rightarrow> if c = 0 then Inr cs else bind_res (inflateZlibAt x 0) (\<lambda>(output, _). Inr output))\<rparr>"

lemma inflate_store_deflate: "length c < 65536 \<Longrightarrow> inflateZlibAt (store_deflate c) 0 = Inr (c, length (store_deflate c))"
  using inflateZlibAt_ok [OF zlib_store_ok, of c "[]" "[]"] zlib_store_out by (simp add: store_deflate_def)

lemma store_deflate_hd: "\<exists>cs. store_deflate c = 0x78 # cs"
  by (simp add: store_deflate_def zlib_bytes_def zlib_store_def)

lemma clone_platform_ok [simp]: "platform_ok clone_platform"
proof -
  have "pf_inflate clone_platform (pf_deflate clone_platform c) = Inr c" for c
  proof (cases "length c < 65536")
    case True
    obtain cs where "store_deflate c = 0x78 # cs" using store_deflate_hd by blast
    then show ?thesis using True inflate_store_deflate [OF True] by (simp add: clone_platform_def)
  qed (simp add: clone_platform_def)
  then show ?thesis by (simp add: platform_ok_def clone_platform_def len_digest_ok)
qed

definition root_tree_sha :: jsstring where
  "root_tree_sha = hashObject len_digest (js ''tree'') []"

definition root_commit :: commit_body where
  "root_commit = \<lparr>cm_tree = root_tree_sha, cm_parents = [], cm_author = ada, cm_committer = ada, cm_message = js ''init''\<rparr>"

definition root_sha :: jsstring where
  "root_sha = hashObject len_digest (js ''commit'') (encodeCommitContent root_commit)"

definition root_store :: bucket where
  "root_store = snd (putCommit clone_platform root_commit (snd (putTree clone_platform [] [])))"

lemma root_shas [simp]: "isValidSha root_tree_sha" "isValidSha root_sha"
  by (simp_all add: root_tree_sha_def root_sha_def hashObject_loose sha1_valid len_digest_ok)

lemma root_commit_ok: "commit_ok root_commit"
proof -
  have "wf16 root_tree_sha" "wf16 (js ''init'')"
    using plain_ascii [OF sha_plain [OF root_shas(1)]] by (rule_tac [!] ascii_wf16) (simp_all add: ascii_def js_simps)
  moreover have "NL \<notin> set root_tree_sha" using plain_no [OF sha_plain [OF root_shas(1)], of NL] by (auto simp: NL_def)
  moreover have "root_tree_sha \<noteq> []" using sha_neq_Nil by simp
  ultimately show ?thesis by (simp add: commit_ok_def root_commit_def line_ok_def)
qed

lemma root_objects:
  "getObject clone_platform root_store root_tree_sha = Inr (Some (js ''tree'', []))"
  "getObject clone_platform root_store root_sha = Inr (Some (js ''commit'', encodeCommitContent root_commit))"
  "canonical_store clone_platform root_store"
proof -
  let ?t = "loose_object (js ''tree'') []" and ?c = "loose_object (js ''commit'') (encodeCommitContent root_commit)"
  let ?A = "store_raw clone_platform ?t []"
  have store: "root_store = store_raw clone_platform ?c ?A"
    by (simp add: root_store_def put_store_raw encodeTree_loose encodeCommit_loose encodeTreeContent_def concatBytes_eq)
  have inj: "inj_on len_digest {?t, ?c}"
    by (rule inj_onI) (elim insertE emptyE, simp_all only: type_digests type_digests [symmetric] not_False_eq_True)
  have dig: "pf_digest clone_platform = len_digest" by (simp add: clone_platform_def)
  have A: "canonical_store clone_platform ?A" by (rule store_raw_canonical) simp_all
  then have addr: "content_addressed clone_platform ?A" by (simp add: canonical_store_def)
  have nc: "no_collision clone_platform ?A {?t, ?c}"
    by (rule no_collision_store) (use inj dig in simp_all)
  show "canonical_store clone_platform root_store" unfolding store by (rule store_raw_canonical [OF _ A]) simp_all
  show "getObject clone_platform root_store root_sha = Inr (Some (js ''commit'', encodeCommitContent root_commit))"
    unfolding store root_sha_def dig [symmetric] by (rule store_loose_get [OF _ addr nc]) simp_all
  have "getObject clone_platform ?A root_tree_sha = Inr (Some (js ''tree'', []))"
    unfolding root_tree_sha_def dig [symmetric]
    by (rule store_loose_get [where raws = "{?t, ?c}"]) (use inj dig in simp_all)
  moreover have "getRawObject clone_platform ?A root_tree_sha = Inr (Some ?t)"
    using canonical_object [OF clone_platform_ok A calculation] by simp
  from store_raw_keeps [OF this, of ?c] show "getObject clone_platform root_store root_tree_sha = Inr (Some (js ''tree'', []))"
    unfolding store by (rule getObject_raw) (simp add: decodeObject_loose)
qed

lemma root_neq: "root_tree_sha \<noteq> root_sha" "root_sha \<noteq> root_tree_sha"
  using root_objects(1,2) by (auto simp: js_simps)

definition root_app :: app_db where
  "root_app = \<lparr>app_accounts = [\<lparr>ac_id = [97], ac_type = js ''user'', ac_owner = None, ac_slug = js ''ada''\<rparr>], app_memberships = [],
    app_git = \<lparr>gd_repos = [(demo_repo [114])\<lparr>rp_visibility := js ''public''\<rparr>], gd_branches = [demo_branch\<lparr>b_sha := root_sha\<rparr>],
      gd_tags = [], gd_commits = [], gd_forks = [], gd_remotes = []\<rparr>\<rparr>"

lemma root_reads:
  "getTreeEntries clone_platform root_store root_tree_sha = Inr (Some [])"
  "\<exists>c. getCommit clone_platform (app_git root_app) root_store [114] root_sha = Inr (Some c) \<and> cm_tree c = root_tree_sha \<and> cm_parents c = []"
proof -
  show "getTreeEntries clone_platform root_store root_tree_sha = Inr (Some [])"
    by (simp add: getTreeEntries_def root_objects decodeTree_def decode_tree_loop.simps)
  have "getCommitFromIndex (app_git root_app) [114] root_sha = None"
    by (simp add: getCommitFromIndex_def root_app_def sql_get_def)
  then show "\<exists>c. getCommit clone_platform (app_git root_app) root_store [114] root_sha = Inr (Some c) \<and>
      cm_tree c = root_tree_sha \<and> cm_parents c = []"
    by (simp add: getCommit_def getCommitData_def root_objects decode_encode_commit [OF root_commit_ok])
      (simp add: root_commit_def)
qed

lemma root_collected:
  "collectReachableObjects clone_platform (app_git root_app) root_store [114] [root_sha] [] = Some (Inr [root_sha, root_tree_sha])"
proof -
  obtain c where c: "getCommit clone_platform (app_git root_app) root_store [114] root_sha = Inr (Some c)"
      "cm_tree c = root_tree_sha" "cm_parents c = []" using root_reads(2) by blast
  show ?thesis
    by (simp add: collectReachableObjects_def collectTreeObjects_def collect_commits_Cons collect_commits_Nil collect_tree_Cons
        collect_tree_Nil agenda_of_def c root_reads(1) root_neq)
qed

lemma root_packed: "\<exists>w. writePackFromShas clone_platform root_store [root_sha, root_tree_sha] = Inr w \<and> pr_missing w = []"
  by (simp add: writePackFromShas_def root_objects writePack_def pack_chunk_def gitTypeToNumber_def TYPE_TO_NUMBER_def
      map_get_def js_simps Let_def)

lemma root_advertised:
  "loadAdvertisedRefs (\<lambda>_. None) (app_git root_app) [114] =
    Inr \<lparr>av_lines = [(root_sha, js ''HEAD''), (root_sha, js ''refs/heads/main'')], av_tips = [root_sha],
      av_headSymref = Some (js ''refs/heads/main''), av_headSha = Some root_sha\<rparr>"
  by (simp add: loadAdvertisedRefs_def js_starts_with_def js_set_def listAllRefs_def listBranches_def listTags_def getDefaultBranch_def root_app_def demo_branch_def
      isValidRepoId_def js_trim_def js_ws_def MAX_REPO_ID_LENGTH_def repo_id_char_def withDrizzleFallback_def sql_get_def
      branch_ref_def js_set_simps js_sort_def js_simps Let_def)

definition root_request :: "bytes \<Rightarrow> git_request" where
  "root_request body = \<lparr>gq_owner = js ''ada'', gq_repo = [114], gq_service = Some (js ''git-upload-pack''),
    gq_authorization = None, gq_body = body\<rparr>"

lemma root_resolved: "resolveRepo root_app (js ''ada'') [114] = Some ((demo_repo [114])\<lparr>rp_visibility := js ''public''\<rparr>)"
  by (simp add: resolveRepo_def root_app_def sql_get_def demo_repo_def js_ends_with_def js_starts_with_def js_simps Let_def)

lemma root_granted: "authenticateRead bearer root_app None [114] = Granted None"
  by (simp add: authenticateRead_def basicPassword_def truthy_def checkRepoAccess_def isValidOpaqueId_def js_trim_def js_ws_def
      MAX_OPAQUE_ID_LENGTH_def opaque_id_char_def root_app_def sql_get_def demo_repo_def Let_def)

lemma root_served:
  assumes "buildUploadPackRequest [root_sha] = Inr body"
  shows "\<exists>reply. upload_pack clone_platform bearer (\<lambda>_. None) root_app (Some root_store) (root_request body) = Some (Inr reply) \<and>
    gr_status reply = 200"
proof -
  have parsed: "parseUploadPackRequest body = Inr ([root_sha], [])" by (rule parse_requested [OF assms]) simp
  have nak: "\<exists>n. pktLineString (js ''NAK'' @ [10]) = Inr n"
    by (simp add: pktLineString_frame pkt_fits_def utf8_encode_ascii js_simps)
  show ?thesis using root_packed nak root_resolved root_granted [of bearer]
    by (auto simp: upload_pack_def root_request_def parsed root_advertised build_pack_reply_def root_collected)
qed

lemma pkt_ascii: "ascii s \<Longrightarrow> length s \<le> 65531 \<Longrightarrow> \<exists>line. pktLineString s = Inr line"
  by (simp add: pktLineString_frame pkt_fits_def utf8_encode_ascii)

lemma root_request_built: "\<exists>body. buildUploadPackRequest [root_sha] = Inr body"
proof -
  have a: "ascii (js ''want '' @ root_sha @ js '' ofs-delta agent=takos-git/0.1'' @ [10])" "ascii (js ''done'' @ [10])"
    using plain_ascii [OF sha_plain [OF root_shas(2)]] by (simp_all add: js_simps)
  have l: "length (js ''want '' @ root_sha @ js '' ofs-delta agent=takos-git/0.1'' @ [10]) \<le> 65531"
      "length (js ''done'' @ [10]) \<le> 65531"
    using sha_length [OF root_shas(2)] by (simp_all add: js_simps)
  obtain x y where "pktLineString (js ''want '' @ root_sha @ js '' ofs-delta agent=takos-git/0.1'' @ [10]) = Inr x"
      "pktLineString (js ''done'' @ [10]) = Inr y" using pkt_ascii [OF a(1) l(1)] pkt_ascii [OF a(2) l(2)] by blast
  then show ?thesis by (simp add: buildUploadPackRequest_def want_line_def del: js_simps)
qed

section \<open>What is served\<close>

text \<open>C4: The server gives away only what the repository needs: whenever an \<open>upload-pack\<close> request is answered
  with a pack, its caller may read the repository (which is public, or in a space of which the user that the
  token stands for is a member), and every object in the pack is needed by a commit that a branch or a tag of
  this repository points at, whatever the request asked for.\<close>

theorem only_own_objects_served:
  assumes "upload_pack pf bearer adapter db (Some bucket) q = Some (Inr reply)" and "gr_status reply = 200"
  shows "\<exists>repo user shas w. resolveRepo db (gq_owner q) (gq_repo q) = Some repo \<and>
    may_read db (rp_id repo) user \<and> known_by bearer (gq_authorization q) user \<and>
    writePackFromShas pf bucket shas = Inr w \<and> gr_body reply = nak_frame @ pr_pack w \<and>
    (\<forall>sha \<in> set shas. \<exists>ro. needed (getCommit pf (app_git db) bucket (rp_id repo)) (getTreeEntries pf bucket)
      {} {sha. tip (app_git db) (rp_id repo) sha} ro sha)"
proof -
  have "gr_status reply < 300" using assms(2) by simp
  then obtain repo user wants haves refs shas w where r: "resolveRepo db (gq_owner q) (gq_repo q) = Some repo"
    "authenticateRead bearer db (gq_authorization q) (rp_id repo) = Granted user"
    "loadAdvertisedRefs adapter (app_git db) (rp_id repo) = Inr refs" "set wants \<subseteq> set (av_tips refs)"
    "collectReachableObjects pf (app_git db) bucket (rp_id repo) wants haves = Some (Inr shas)"
    "writePackFromShas pf bucket shas = Inr w" "gr_body reply = nak_frame @ pr_pack w"
    using upload_pack_served [OF assms(1)] by metis
  have "set wants \<subseteq> {sha. tip (app_git db) (rp_id repo) sha}" using r(4) advertised_tip [OF r(3)] by blast
  then show ?thesis using r authenticateRead_Granted [OF r(2)] collected_needed [OF r(5)] by blast
qed

theorem only_own_objects_served_witness:
  "\<exists>body reply shas w. upload_pack clone_platform (\<lambda>_. None) (\<lambda>_. None) root_app (Some root_store) (root_request body) = Some (Inr reply) \<and>
    gr_status reply = 200 \<and> writePackFromShas clone_platform root_store shas = Inr w \<and> gr_body reply = nak_frame @ pr_pack w \<and>
    (\<forall>sha \<in> set shas. \<exists>ro. needed (getCommit clone_platform (app_git root_app) root_store [114]) (getTreeEntries clone_platform root_store)
      {} {sha. tip (app_git root_app) [114] sha} ro sha)"
proof -
  obtain body where body: "buildUploadPackRequest [root_sha] = Inr body" using root_request_built by blast
  obtain reply where reply: "upload_pack clone_platform (\<lambda>_. None) (\<lambda>_. None) root_app (Some root_store) (root_request body) = Some (Inr reply)"
      "gr_status reply = 200" using root_served [OF body] by blast
  have repo: "resolveRepo root_app (gq_owner (root_request body)) (gq_repo (root_request body)) = Some r \<Longrightarrow> rp_id r = [114]" for r
    using root_resolved by (auto simp: root_request_def)
  show ?thesis using only_own_objects_served [OF reply] repo reply by fastforce
qed

section \<open>A client of this server\<close>

text \<open>The network between \<open>fetchRemoteRepository\<close> and the routes: a request is answered by the route of its
  method, and a handler that throws answers with a status of 500.\<close>

definition request_of :: "jsstring \<Rightarrow> jsstring \<Rightarrow> http_request \<Rightarrow> git_request" where
  "request_of owner repo rq =
    \<lparr>gq_owner = owner, gq_repo = repo,
     gq_service = (if js_ends_with (hq_url rq) (js ''?service=git-upload-pack'') then Some (js ''git-upload-pack'') else None),
     gq_authorization = map_get (hq_headers rq) (js ''Authorization''),
     gq_body = (case hq_body rq of None \<Rightarrow> [] | Some body \<Rightarrow> body)\<rparr>"

definition git_remote ::
  "platform \<Rightarrow> (jsstring \<Rightarrow> jsstring option) \<Rightarrow> adapter \<Rightarrow> app_db \<Rightarrow> bucket \<Rightarrow> jsstring \<Rightarrow> jsstring \<Rightarrow> http_request \<Rightarrow> http_response res" where
  "git_remote pf bearer adapter db bucket owner repo rq =
    (let q = request_of owner repo rq in
     case (if hq_method rq = js ''GET'' then Some (info_refs bearer adapter db q)
           else upload_pack pf bearer adapter db (Some bucket) q) of
       Some (Inr reply) \<Rightarrow>
         Inr \<lparr>hr_status = gr_status reply, hr_length = Num (int (length (gr_body reply))), hr_body = gr_body reply\<rparr>
     | _ \<Rightarrow> Inr \<lparr>hr_status = 500, hr_length = Num 0, hr_body = []\<rparr>)"

lemma git_remote_get:
  assumes "git_remote pf bearer adapter db bucket owner repo rq = Inr r" and "response_ok r" and "hq_method rq = js ''GET''"
  obtains row refs where "resolveRepo db owner repo = Some row" "loadAdvertisedRefs adapter (app_git db) (rp_id row) = Inr refs"
    "buildUploadPackAdvertisement refs = Inr (hr_body r)"
proof -
  let ?q = "request_of owner repo rq"
  obtain reply where i: "info_refs bearer adapter db ?q = Inr reply"
    and r: "r = \<lparr>hr_status = gr_status reply, hr_length = Num (int (length (gr_body reply))), hr_body = gr_body reply\<rparr>"
    using assms by (auto simp: git_remote_def Let_def response_ok_def split: sum.splits)
  have st: "gr_status reply < 300" using assms(2) r by (simp add: response_ok_def)
  obtain row where row: "resolveRepo db owner repo = Some row"
    using i st by (auto simp: info_refs_def pushDisabled_def request_of_def split: if_splits option.splits)
  have "\<exists>user. authenticateRead bearer db (gq_authorization ?q) (rp_id row) = Granted user"
    using i st row authenticateRead_Denied [of bearer db "gq_authorization ?q" "rp_id row"]
    by (cases "authenticateRead bearer db (gq_authorization ?q) (rp_id row)")
      (auto simp: info_refs_def pushDisabled_def request_of_def split: if_splits)
  then obtain user where "authenticateRead bearer db (gq_authorization ?q) (rp_id row) = Granted user" by blast
  then have "bind_res (loadAdvertisedRefs adapter (app_git db) (rp_id row)) (\<lambda>refs.
      bind_res (buildUploadPackAdvertisement refs) (\<lambda>body. Inr (served body))) = Inr reply"
    using i st row by (auto simp: info_refs_def pushDisabled_def request_of_def split: if_splits)
  then obtain refs body where "loadAdvertisedRefs adapter (app_git db) (rp_id row) = Inr refs"
      "buildUploadPackAdvertisement refs = Inr body" "served body = reply"
    unfolding bind_res_Inr_iff sum.inject by blast
  then show thesis using that [OF row] r by auto
qed

lemma git_remote_post:
  assumes "git_remote pf bearer adapter db bucket owner repo rq = Inr r" and "response_ok r" and "hq_method rq \<noteq> js ''GET''"
  obtains reply where "upload_pack pf bearer adapter db (Some bucket) (request_of owner repo rq) = Some (Inr reply)"
    "gr_status reply < 300" "hr_body r = gr_body reply"
proof -
  obtain reply where i: "upload_pack pf bearer adapter db (Some bucket) (request_of owner repo rq) = Some (Inr reply)"
    and r: "r = \<lparr>hr_status = gr_status reply, hr_length = Num (int (length (gr_body reply))), hr_body = gr_body reply\<rparr>"
    using assms by (auto simp: git_remote_def Let_def response_ok_def split: sum.splits option.splits)
  then show thesis using that [OF i] assms(2) by (simp add: response_ok_def)
qed

lemma extract_nak:
  assumes "pack = PACK_SIGNATURE @ rest"
  shows "extractPack (nak_frame @ pack) = Inr pack"
proof -
  have "0x50 \<notin> set nak_frame"
    by (simp add: nak_frame_def frame_pkt_def utf8_encode_ascii toHex4_def pad_start_def js_simps radix_str.simps digit_char_def js_ch_def
        numeral_3_eq_3)
  then have "js_find PACK_SIGNATURE (nak_frame @ pack) = Some (length nak_frame)"
    using assms by (simp add: PACK_SIGNATURE_def js_find_skip js_starts_with_def)
  then show ?thesis by (simp add: extractPack_def)
qed

text \<open>Every object of a store has a key of its own.\<close>

lemma readable_key:
  assumes "getObject pf b sha = Inr (Some ob)"
  shows "isValidSha sha \<and> getObjectKey sha \<in> fst ` set b"
proof -
  have v: "isValidSha sha" "r2_get b (getObjectKey sha) \<noteq> None"
    using assms by (auto simp: getObject_def getRawObject_def res_elims split: if_splits option.splits)
  then obtain x where "r2_get b (getObjectKey sha) = Some x" by blast
  then have "(getObjectKey sha, x) \<in> set b" by (auto simp: r2_get_def dest: map_get_Some_in)
  then show ?thesis using v(1) by force
qed

lemma readable_count:
  assumes "distinct shas" and "\<forall>sha \<in> set shas. \<exists>ob. getObject pf b sha = Inr (Some ob)"
  shows "length shas \<le> length b"
proof -
  have "inj_on getObjectKey (set shas)" using assms(2) getObjectKey_inj readable_key by (intro inj_onI) blast
  then have "card (getObjectKey ` set shas) = length shas" using assms(1) by (simp add: card_image distinct_card)
  moreover have "card (getObjectKey ` set shas) \<le> card (fst ` set b)"
    using assms(2) readable_key by (intro card_mono) fast+
  moreover have "card (fst ` set b) \<le> length b" using card_image_le [of "set b" fst] card_length [of b] by simp
  ultimately show ?thesis by simp
qed

lemma packed_readable:
  assumes "writePackFromShas pf b shas = Inr w" and "pr_missing w = []"
  shows "\<forall>sha \<in> set shas. \<exists>ob. getObject pf b sha = Inr (Some ob)"
proof -
  obtain objects where "collect_pack_objects pf b shas = Inr (objects, [])"
    using assms by (auto simp: writePackFromShas_def res_elims)
  then show ?thesis
    by (induction shas arbitrary: objects) (auto simp: res_elims split: option.splits)
qed

lemma fetched:
  assumes "fetchRemoteRepository pf parseUrl isPrivateIP fetch input = Inr got"
  obtains get info advert where "fetch get = Inr info" "hq_method get = js ''GET''" "response_ok info"
    "parseAdvertisement (hr_body info) = Inr advert" "ad_refs advert = []" "fr_refs got = []" "fr_objects got = []" "fr_defaultBranch got = ad_defaultBranch advert"
  | get info advert body post packed pack where "fetch get = Inr info" "hq_method get = js ''GET''" "response_ok info"
    "parseAdvertisement (hr_body info) = Inr advert" "fr_refs got = filter (\<lambda>r. \<not> is_peeled r) (ad_refs advert)"
    "buildUploadPackRequest (js_set (map rf_target (fr_refs got))) = Inr body"
    "fetch post = Inr packed" "hq_method post = js ''POST''" "hq_body post = Some body" "response_ok packed"
    "extractPack (hr_body packed) = Inr pack" "readPack (pf_digest pf) None pack = Inr (fr_objects got)"
    "fr_defaultBranch got = ad_defaultBranch advert"
proof -
  have guard: "(if b then Inl e else m) = Inr y \<longleftrightarrow> \<not> b \<and> m = Inr y" for b e m and y :: fetch_result by simp
  let ?limit = "case fi_maxPackBytes input of None \<Rightarrow> DEFAULT_MAX_PACK_BYTES | Some n \<Rightarrow> n"
  let ?get = "\<lambda>parsed. \<lparr>hq_method = js ''GET'', hq_url = baseRepoUrl parsed @ js ''/info/refs?service=git-upload-pack'',
    hq_headers = requestHeaders (fi_authHeader input) [(js ''Accept'', js ''*/*'')], hq_body = None\<rparr>"
  let ?post = "\<lambda>parsed body. \<lparr>hq_method = js ''POST'', hq_url = baseRepoUrl parsed @ js ''/git-upload-pack'',
    hq_headers = requestHeaders (fi_authHeader input)
      [(js ''Content-Type'', js ''application/x-git-upload-pack-request''), (js ''Accept'', js ''application/x-git-upload-pack-result'')],
    hq_body = Some body\<rparr>"
  define pulled where "pulled parsed advert refs =
    bind_res (buildUploadPackRequest (js_set (map rf_target refs))) (\<lambda>body.
    bind_res (fetch (?post parsed body)) (\<lambda>packRes.
      if \<not> response_ok packRes then Inl (Error ''remote_unavailable'')
      else if too_large ?limit packRes then Inl (Error ''pack_too_large'')
      else bind_res (extractPack (hr_body packRes)) (\<lambda>pack.
        bind_res (readPack (pf_digest pf) None pack) (\<lambda>objects.
          Inr \<lparr>fr_refs = refs, fr_defaultBranch = ad_defaultBranch advert, fr_objects = objects\<rparr>))))" for parsed refs and advert :: advertisement
  have "fetchRemoteRepository pf parseUrl isPrivateIP fetch input =
    bind_res (assertSafeRemoteUrl parseUrl isPrivateIP (fi_url input) (fi_allowPrivateHosts input = Some True)) (\<lambda>parsed.
    bind_res (fetch (?get parsed)) (\<lambda>infoRes.
    if \<not> response_ok infoRes then Inl (unauthorized (hr_status infoRes))
    else bind_res (parseAdvertisement (hr_body infoRes)) (\<lambda>advert.
    if ad_refs advert = [] then Inr \<lparr>fr_refs = [], fr_defaultBranch = ad_defaultBranch advert, fr_objects = []\<rparr>
    else pulled parsed advert (filter (\<lambda>r. \<not> is_peeled r) (ad_refs advert)))))"
    by (simp only: fetchRemoteRepository_def pulled_def Let_def)
  note u = assms [unfolded this bind_res_Inr_iff guard not_not]
  obtain parsed info advert where i: "fetch (?get parsed) = Inr info" "response_ok info" "parseAdvertisement (hr_body info) = Inr advert"
    and rest: "(if ad_refs advert = [] then Inr \<lparr>fr_refs = [], fr_defaultBranch = ad_defaultBranch advert, fr_objects = []\<rparr>
      else pulled parsed advert (filter (\<lambda>r. \<not> is_peeled r) (ad_refs advert))) = Inr got" using u by blast
  show thesis
  proof (cases "ad_refs advert = []")
    case True
    then show thesis using that(1) [OF i(1) _ i(2,3) True] rest by auto
  next
    case False
    let ?refs = "filter (\<lambda>r. \<not> is_peeled r) (ad_refs advert)"
    have "pulled parsed advert ?refs = Inr got" using rest False by simp
    then obtain body packed pack objects where p: "buildUploadPackRequest (js_set (map rf_target ?refs)) = Inr body"
        "fetch (?post parsed body) = Inr packed" "response_ok packed" "extractPack (hr_body packed) = Inr pack"
        "readPack (pf_digest pf) None pack = Inr objects"
        "\<lparr>fr_refs = ?refs, fr_defaultBranch = ad_defaultBranch advert, fr_objects = objects\<rparr> = got"
      unfolding pulled_def bind_res_Inr_iff guard not_not sum.inject by blast
    show thesis
      by (rule that(2) [OF i(1) _ i(2,3) _ _ p(2) _ _ p(3,4)]) (use p(1,5,6) in auto)
  qed
qed

lemma advertised_all:
  assumes "loadAdvertisedRefs adapter db repoId = Inr refs" and "isValidRepoId repoId" and "tip db repoId sha"
  shows "sha \<in> set (av_tips refs)"
proof -
  obtain listed d bs ts where a: "listBranches adapter db repoId = Inr bs" "listTags adapter db repoId = Inr ts"
    and refs: "set (map fst (map line_of (map branch_ref bs @ map tag_ref ts))) \<subseteq> set (av_tips refs)"
    using assms(1) unfolding loadAdvertisedRefs_def listAllRefs_def bind_res_Inr_iff Let_def sum.inject line_of_def by fastforce
  have "\<exists>b \<in> set bs. b_sha b = sha \<or> (\<exists>t \<in> set ts. t_sha t = sha)" if "\<not> (\<exists>t \<in> set ts. t_sha t = sha)"
    using assms(2,3) that listBranches_own [OF a(1)] listTags_own [OF a(2)] unfolding tip_def own_branch_def own_tag_def by blast
  then have "sha \<in> b_sha ` set bs \<union> t_sha ` set ts" by blast
  then show ?thesis using refs by (auto simp: line_of_def)
qed

lemma needed_none: "needed read tree H {} ro x \<Longrightarrow> False"
  by (induction rule: needed.induct) auto

lemma tip_valid: "refs_sendable db repoId \<Longrightarrow> tip db repoId sha \<Longrightarrow> isValidSha sha"
  unfolding refs_sendable_def tip_def own_branch_def own_tag_def by blast

text \<open>What the client asks for are the tips of the repository.\<close>

lemma asked_for_tips:
  assumes "loadAdvertisedRefs adapter db repoId = Inr refs" and "buildUploadPackAdvertisement refs = Inr body"
    and "parseAdvertisement body = Inr advert" and "refs_sendable db repoId" and "isValidRepoId repoId"
  shows "set (map rf_target (ad_refs advert)) = {sha. tip db repoId sha} \<and> filter (\<lambda>r. \<not> is_peeled r) (ad_refs advert) = ad_refs advert"
proof (rule sendable_lines [OF assms(1,4)])
  fix d
  assume d: "\<And>x. x \<in> set (av_lines refs) \<Longrightarrow> advert_ok x" "av_headSymref refs = symref_of d" "branch_ok d"
    "\<And>r. r \<in> set (concat (map listed (av_lines refs))) \<Longrightarrow> \<not> is_peeled r"
    "set (map rf_target (concat (map listed (av_lines refs)))) = set (av_tips refs)"
  have ad: "ad_refs advert = concat (map listed (av_lines refs))"
    using parse_advertised [OF assms(2) d(1,2,3)] assms(3) by simp
  have "set (av_tips refs) = {sha. tip db repoId sha}"
    using advertised_tip [OF assms(1)] advertised_all [OF assms(1,5)] by blast
  then show ?thesis using d(4,5) unfolding ad by (simp add: filter_id_conv)
qed

lemma clone_core:
  assumes "platform_ok pf" and "canonical_store pf A" and "canonical_store pf B" and "no_collision pf B (stored_raws pf A)"
    and "length A < 2 ^ 32" and "\<And>sha t c. getObject pf A sha = Inr (Some (t, c)) \<Longrightarrow> deflates (pf_deflate pf) c"
    and "resolveRepo db owner name = Some repo" and "isValidRepoId (rp_id repo)" and "refs_sendable (app_git db) (rp_id repo)"
    and "one_role (needed (getCommit pf (app_git db) A (rp_id repo)) (getTreeEntries pf A) {} {sha. tip (app_git db) (rp_id repo) sha})"
    and "fetchRemoteRepository pf parseUrl isPrivateIP (git_remote pf bearer adapter db A owner name) input = Inr got"
  shows "set (map rf_target (fr_refs got)) = {sha. tip (app_git db) (rp_id repo) sha} \<and>
    (\<forall>ro sha. needed (getCommit pf (app_git db) A (rp_id repo)) (getTreeEntries pf A) {} {sha. tip (app_git db) (rp_id repo) sha} ro sha \<longrightarrow>
      (\<exists>ob. getObject pf A sha = Inr (Some ob) \<and>
        getObject pf (snd (ingestObjects pf (fr_objects got) B)) sha = Inr (Some ob))) \<and>
    (\<forall>sha raw. getRawObject pf B sha = Inr (Some raw) \<longrightarrow>
      getRawObject pf (snd (ingestObjects pf (fr_objects got) B)) sha = Inr (Some raw))"
proof (cases rule: fetched [OF assms(11)])
  case (1 get info advert)
  obtain row refs where r: "resolveRepo db owner name = Some row" "loadAdvertisedRefs adapter (app_git db) (rp_id row) = Inr refs"
    "buildUploadPackAdvertisement refs = Inr (hr_body info)" by (rule git_remote_get [OF 1(1,3,2)])
  have row: "row = repo" using r(1) assms(7) by simp
  have tips: "{sha. tip (app_git db) (rp_id repo) sha} = {}"
    using asked_for_tips [OF r(2,3) 1(4) assms(9,8) [folded row]] 1(5) row by simp
  show ?thesis unfolding tips using 1(6,7) by (auto simp: ingestObjects_fold dest: needed_none)
next
  case (2 get info advert body post packed pack)
  obtain row refs where r: "resolveRepo db owner name = Some row" "loadAdvertisedRefs adapter (app_git db) (rp_id row) = Inr refs"
    "buildUploadPackAdvertisement refs = Inr (hr_body info)" by (rule git_remote_get [OF 2(1,3,2)])
  have row: "row = repo" using r(1) assms(7) by simp
  let ?N = "needed (getCommit pf (app_git db) A (rp_id repo)) (getTreeEntries pf A) {} {sha. tip (app_git db) (rp_id repo) sha}"
  let ?wants = "js_set (map rf_target (fr_refs got))"
  have asked: "set (map rf_target (fr_refs got)) = {sha. tip (app_git db) (rp_id repo) sha}"
    using asked_for_tips [OF r(2,3) 2(4) assms(9,8) [folded row]] 2(5) row by simp
  have parsed: "parseUploadPackRequest body = Inr (?wants, [])"
    by (rule parse_requested [OF 2(6)]) (use asked tip_valid [OF assms(9)] in auto)
  have post: "hq_method post \<noteq> js ''GET''" using 2(8) by (simp add: js_simps)
  obtain reply where reply: "upload_pack pf bearer adapter db (Some A) (request_of owner name post) = Some (Inr reply)"
      "gr_status reply < 300" "hr_body packed = gr_body reply" by (rule git_remote_post [OF 2(7,10) post])
  obtain row' user wants haves refs' shas w where s: "resolveRepo db owner name = Some row'"
    "parseUploadPackRequest body = Inr (wants, haves)"
    "collectReachableObjects pf (app_git db) A (rp_id row') wants haves = Some (Inr shas)"
    "writePackFromShas pf A shas = Inr w" "pr_missing w = []" "gr_body reply = nak_frame @ pr_pack w"
    by (rule upload_pack_served [OF reply(1,2)]) (use 2(9) in \<open>simp add: request_of_def\<close>)
  have "wants = ?wants" "haves = []" "row' = repo" using s(1,2) parsed assms(7) by simp_all
  note collected = s(3) [unfolded this]
  have exact: "distinct shas \<and> (\<forall>x. x \<in> set shas \<longleftrightarrow> (\<exists>ro. ?N ro x))"
    using store.collect_exact [of pf "app_git db" A "rp_id repo" "[]" ?wants shas] collected asked assms(10)
    by (simp add: collectReachableObjects_def)
  note readable = packed_readable [OF s(4,5)]
  have "length shas < 2 ^ 32" using readable_count [OF conjunct1 [OF exact] readable] assms(5) by simp
  then obtain objs rest where objs: "readPack (pf_digest pf) None (pr_pack w) = Inr objs"
      "map (\<lambda>ob. (ro_type ob, ro_content ob)) objs = found pf A shas" "pr_pack w = PACK_SIGNATURE @ rest"
    using pack_carries [OF s(4), of None] assms(1,6) unfolding platform_ok_def by blast
  have "pack = pr_pack w" using extract_nak [OF objs(3)] 2(11) reply(3) s(6) by simp
  then have got: "fr_objects got = objs" using objs(1) 2(12) by simp
  have arrives: "stored_all pf objs B (snd (ingestObjects pf objs B)) \<and> (\<forall>sha \<in> set shas. \<forall>ob. getObject pf A sha = Inr (Some ob) \<longrightarrow>
      getObject pf (snd (ingestObjects pf objs B)) sha = Inr (Some ob))"
    by (rule pack_arrives [OF assms(1-4) objs(2)])
  show ?thesis unfolding got
    using asked arrives exact readable unfolding stored_all_def by blast
qed

text \<open>C1: A clone is complete: a client that fetches a repository from this server, over the advertisement, the
  request and the pack as bytes, asks for exactly the commits of its branches and tags, and when it has stored
  the objects it was sent, every commit, tree and file these need can be read in its own store under its id,
  with the type and content it has at the server; what the client had before is still there.\<close>

theorem clone_complete:
  assumes "platform_ok pf" and "canonical_store pf A" and "canonical_store pf B" and "no_collision pf B (stored_raws pf A)"
    and "length A < 2 ^ 32" and "\<And>sha t c. getObject pf A sha = Inr (Some (t, c)) \<Longrightarrow> deflates (pf_deflate pf) c"
    and "resolveRepo db owner name = Some repo" and "isValidRepoId (rp_id repo)" and "refs_sendable (app_git db) (rp_id repo)"
    and "one_role (needed (getCommit pf (app_git db) A (rp_id repo)) (getTreeEntries pf A) {} {sha. tip (app_git db) (rp_id repo) sha})"
    and "fetchRemoteRepository pf parseUrl isPrivateIP (git_remote pf bearer adapter db A owner name) input = Inr got"
  shows "set (map rf_target (fr_refs got)) = {sha. tip (app_git db) (rp_id repo) sha} \<and>
    (\<forall>ro sha. needed (getCommit pf (app_git db) A (rp_id repo)) (getTreeEntries pf A) {} {sha. tip (app_git db) (rp_id repo) sha} ro sha \<longrightarrow>
      (\<exists>ob. getObject pf A sha = Inr (Some ob) \<and>
        getObject pf (snd (ingestObjects pf (fr_objects got) B)) sha = Inr (Some ob))) \<and>
    (\<forall>sha raw. getRawObject pf B sha = Inr (Some raw) \<longrightarrow>
      getRawObject pf (snd (ingestObjects pf (fr_objects got) B)) sha = Inr (Some raw))"
  by (rule clone_core [OF assms])

lemma root_raws:
  "stored_raws clone_platform root_store \<subseteq>
    {loose_object (js ''tree'') [], loose_object (js ''commit'') (encodeCommitContent root_commit)}"
proof -
  let ?t = "loose_object (js ''tree'') []" and ?c = "loose_object (js ''commit'') (encodeCommitContent root_commit)"
  have store: "root_store = store_raw clone_platform ?c (store_raw clone_platform ?t [])"
    by (simp add: root_store_def put_store_raw encodeTree_loose encodeCommit_loose encodeTreeContent_def concatBytes_eq)
  have "stored_raws clone_platform (store_raw clone_platform ?t []) \<subseteq> {?t}"
    using stored_raws_store [OF clone_platform_ok, of ?t "[]"] by (simp add: stored_raws_def r2_get_def)
  then show ?thesis using stored_raws_store [OF clone_platform_ok, of ?c "store_raw clone_platform ?t []"] unfolding store by blast
qed

lemma root_no_collision: "no_collision clone_platform [] (stored_raws clone_platform root_store)"
proof -
  have "inj_on len_digest {loose_object (js ''tree'') [], loose_object (js ''commit'') (encodeCommitContent root_commit)}"
    by (rule inj_onI) (elim insertE emptyE, simp_all only: type_digests type_digests [symmetric] not_False_eq_True)
  then have "inj_on len_digest (stored_raws clone_platform root_store)" by (rule inj_on_subset [OF _ root_raws])
  then show ?thesis by (simp add: clone_platform_def)
qed

lemma root_commit_length: "length (encodeCommitContent root_commit) < 65536"
  using sha_length [OF root_shas(1)] plain_ascii [OF sha_plain [OF root_shas(1)]]
  by (simp add: encodeCommitContent_def commit_lines_def commit_header_lines_def root_commit_def formatSignature_def ada_def
      utf8_encode_ascii js_join_Cons js_simps NL_def int_str_def nat_str_def radix_str.simps digit_char_def)

lemma short_deflates: "length c < 65536 \<Longrightarrow> deflates (pf_deflate clone_platform) c"
  using store_deflate_ok [of c] by (simp add: deflates_def clone_platform_def)

lemma root_deflates:
  assumes "getObject clone_platform root_store sha = Inr (Some (t, c))"
  shows "deflates (pf_deflate clone_platform) c"
proof -
  have "object_type_ok t \<and> getRawObject clone_platform root_store sha = Inr (Some (loose_object t c))"
    using canonical_object [OF clone_platform_ok root_objects(3) assms] by blast
  then have raw: "object_type_ok t" "loose_object t c \<in> {loose_object (js ''tree'') [], loose_object (js ''commit'') (encodeCommitContent root_commit)}"
    using root_raws stored_raw by blast+
  then have "c = [] \<or> c = encodeCommitContent root_commit"
    using loose_object_inj [OF raw(1)] by auto
  then show ?thesis using short_deflates root_commit_length by auto
qed

lemma root_tips: "tip (app_git root_app) [114] sha \<longleftrightarrow> sha = root_sha"
  by (auto simp: tip_def root_app_def demo_branch_def)

lemma root_needed:
  "needed (getCommit clone_platform (app_git root_app) root_store [114]) (getTreeEntries clone_platform root_store) {} {root_sha} ro x \<Longrightarrow>
    ro = CommitRole \<and> x = root_sha \<or> ro = TreeRole \<and> x = root_tree_sha"
proof (induction rule: needed.induct)
  case (needed_parent c x p)
  then show ?case using root_reads(2) root_neq by auto
next
  case (needed_tree c x)
  then show ?case using root_reads(2) root_neq by auto
next
  case (needed_entry t es e)
  then show ?case using root_reads(1) root_neq by auto
qed simp

lemma root_not_zero: "root_sha \<noteq> ZERO_OID"
proof -
  have "ascii (js ''commit '' @ nat_str (length (encodeCommitContent root_commit)) @ [NUL])"
    by (simp add: js_simps NUL_def ascii_nat_str)
  from utf8_encode_ascii [OF this]
  obtain rest where "loose_object (js ''commit'') (encodeCommitContent root_commit) = 99 # rest"
    by (simp add: loose_object_def js_simps)
  then obtain r where "len_digest (loose_object (js ''commit'') (encodeCommitContent root_commit)) = 99 # r"
    by (simp add: len_digest_def take_Cons')
  then have "hd root_sha = 54"
    by (simp add: root_sha_def hashObject_loose sha1_def byte_hex_def radix_str.simps digit_char_def pad_start_def js_ch_def)
  moreover have "hd ZERO_OID = 48" by (simp add: ZERO_OID_def)
  ultimately show ?thesis by auto
qed

lemma root_refs_sendable: "refs_sendable (app_git root_app) [114]"
proof -
  have "ref_name_ok (js ''main'')"
    by (simp add: ref_name_ok_def isValidRefName_def js_def js_trim_def js_ws_def MAX_REF_NAME_LENGTH_def ascii_printable_def
        invalid_ref_char_def js_includes_def js_starts_with_def js_ends_with_def Let_def)
  then show ?thesis using root_not_zero by (auto simp: refs_sendable_def own_branch_def own_tag_def root_app_def demo_branch_def)
qed

lemma root_built:
  "\<exists>body. buildUploadPackAdvertisement \<lparr>av_lines = [(root_sha, js ''HEAD''), (root_sha, js ''refs/heads/main'')], av_tips = [root_sha],
      av_headSymref = Some (js ''refs/heads/main''), av_headSha = Some root_sha\<rparr> = Inr body"
proof -
  let ?refs = "\<lparr>av_lines = [(root_sha, js ''HEAD''), (root_sha, js ''refs/heads/main'')], av_tips = [root_sha],
      av_headSymref = Some (js ''refs/heads/main''), av_headSha = Some root_sha\<rparr>"
  have a: "ascii root_sha" by (rule plain_ascii [OF sha_plain [OF root_shas(2)]])
  have caps: "capabilities ?refs = js ''symref=HEAD:refs/heads/main agent=takos-git/0.1 object-format=sha1''"
    by (simp add: capabilities_def truthy_def AGENT_def js_simps)
  have lines: "ascii (js ''# service=git-upload-pack'' @ [10])" "length (js ''# service=git-upload-pack'' @ [10]) \<le> 65531"
      "ascii (root_sha @ js '' '' @ js ''HEAD'' @ (0 # capabilities ?refs) @ [10])"
      "length (root_sha @ js '' '' @ js ''HEAD'' @ (0 # capabilities ?refs) @ [10]) \<le> 65531"
      "ascii (root_sha @ js '' '' @ js ''refs/heads/main'' @ [] @ [10])"
      "length (root_sha @ js '' '' @ js ''refs/heads/main'' @ [] @ [10]) \<le> 65531"
    using a sha_length [OF root_shas(2)] unfolding caps by (simp_all add: js_simps)
  obtain x y z where "pktLineString (js ''# service=git-upload-pack'' @ [10]) = Inr x"
      "pktLineString (root_sha @ js '' '' @ js ''HEAD'' @ (0 # capabilities ?refs) @ [10]) = Inr y"
      "pktLineString (root_sha @ js '' '' @ js ''refs/heads/main'' @ [] @ [10]) = Inr z"
    using pkt_ascii [OF lines(1,2)] pkt_ascii [OF lines(3,4)] pkt_ascii [OF lines(5,6)] by blast
  then show ?thesis
    by (simp add: buildUploadPackAdvertisement_def ref_line_def enumerate_simps del: js_simps)
qed

lemma root_advertisement:
  "\<exists>body. info_refs bearer (\<lambda>_. None) root_app (request_of (js ''ada'') [114] \<lparr>hq_method = js ''GET'',
      hq_url = url @ js ''/info/refs?service=git-upload-pack'', hq_headers = [(js ''User-Agent'', ua), (js ''Accept'', acc)],
      hq_body = None\<rparr>) = Inr (served body) \<and>
    parseAdvertisement body = Inr \<lparr>ad_refs = [\<lparr>rf_name = js ''refs/heads/main'', rf_target = root_sha\<rparr>], ad_defaultBranch = Some (js ''main'')\<rparr>"
proof -
  let ?refs = "\<lparr>av_lines = [(root_sha, js ''HEAD''), (root_sha, js ''refs/heads/main'')], av_tips = [root_sha],
      av_headSymref = Some (js ''refs/heads/main''), av_headSha = Some root_sha\<rparr>"
  have branch: "av_headSymref ?refs = symref_of (Some (js ''main''))" "branch_ok (Some (js ''main''))"
    by (simp_all add: symref_of_def branch_ok_def js_simps ascii_printable_def)
  obtain body where body: "buildUploadPackAdvertisement ?refs = Inr body" using root_built by blast
  have "advert_ok x" if "x \<in> set (av_lines ?refs)" for x
    using that root_not_zero by (auto simp: advert_ok_def js_simps ascii_printable_def)
  from parse_advertised [OF body this branch]
  have "parseAdvertisement body = Inr \<lparr>ad_refs = [\<lparr>rf_name = js ''refs/heads/main'', rf_target = root_sha\<rparr>], ad_defaultBranch = Some (js ''main'')\<rparr>"
    by (simp add: listed_def js_simps)
  moreover have "info_refs bearer (\<lambda>_. None) root_app (request_of (js ''ada'') [114] \<lparr>hq_method = js ''GET'',
      hq_url = url @ js ''/info/refs?service=git-upload-pack'', hq_headers = [(js ''User-Agent'', ua), (js ''Accept'', acc)],
      hq_body = None\<rparr>) = Inr (served body)"
  proof -
    have "js_ends_with (url @ js ''/info/refs?service=git-upload-pack'') (js ''?service=git-upload-pack'')"
      by (simp add: js_ends_with_def js_starts_with_def js_simps)
    moreover have "map_get [(js ''User-Agent'', ua), (js ''Accept'', acc)] (js ''Authorization'') = None"
      by (simp add: map_get_def js_simps)
    moreover have "js ''git-upload-pack'' \<noteq> js ''git-receive-pack''" by (simp add: js_simps)
    ultimately show ?thesis
      using body root_resolved root_granted [of bearer] by (simp add: info_refs_def request_of_def root_advertised del: js_simps)
  qed
  ultimately show ?thesis by blast
qed

lemma header_size_length: "length (header_size_loop b sz) \<le> sz + 1"
proof (induction b sz rule: header_size_loop.induct)
  case (1 b sz)
  show ?case
  proof (cases "sz > 0")
    case True
    then have "length (header_size_loop (sz AND 127) (sz div 128)) \<le> sz div 128 + 1" using 1 by simp
    moreover have "sz div 128 + 1 \<le> sz" using True by (simp add: Suc_leI div_less_dividend)
    ultimately show ?thesis using True by (subst header_size_loop.simps) simp
  qed (subst header_size_loop.simps, simp)
qed

lemma object_header_length: "length (encodePackObjectHeader t n) \<le> n + 1"
  using header_size_length [of "push_bit 4 t OR (n AND 0x0f)" "n div 16"] by (simp add: encodePackObjectHeader_def)

lemma root_content_length: "length (encodeCommitContent root_commit) \<le> 1000"
proof -
  have "ascii root_tree_sha" using plain_ascii [OF sha_plain [OF root_shas(1)]] .
  moreover have "length root_tree_sha = 40" using root_shas(1) by (simp add: isValidSha_def)
  ultimately show ?thesis
    by (simp add: encodeCommitContent_def commit_lines_def commit_header_lines_def formatSignature_def int_str_def nat_str_def radix_str.simps root_commit_def ada_def js_simps ascii_def utf8_encode_ascii NL_def digit_char_def)
qed


lemma root_pack_small:
  assumes "writePackFromShas clone_platform root_store [root_sha, root_tree_sha] = Inr w"
  shows "int (length (nak_frame @ pr_pack w)) \<le> DEFAULT_MAX_PACK_BYTES"
proof -
  let ?c = "encodeCommitContent root_commit"
  have small: "length ?c < 65536" using root_content_length by simp
  have d: "pf_deflate clone_platform x = store_deflate x" if "length x < 65536" for x using that by (simp add: clone_platform_def)
  have len: "length (store_deflate x) = length x + 11" for x
    by (simp add: store_deflate_def zlib_bytes_def zlib_store_def le16_def)
  have hash: "length (sha1 (pf_digest clone_platform) x) \<le> 40" for x
    using sha1_valid [OF len_digest_ok, of x] by (simp add: clone_platform_def isValidSha_def)
  have nak: "length nak_frame \<le> 100"
    by (simp add: nak_frame_def frame_pkt_def toHex4_def radix_str.simps pad_start_def digit_char_def utf8_encode_ascii js_simps ascii_def numeral_3_eq_3 js_ch_def)
  obtain body where "pr_pack w = packHeader (Suc (Suc 0)) @ encodePackObjectHeader PACK_OBJ_COMMIT (length ?c) @ store_deflate ?c @
      encodePackObjectHeader PACK_OBJ_TREE 0 @ store_deflate [] @ hexToBytes (sha1 (pf_digest clone_platform) body)"
    using assms d [OF small] d [of "[]"]
    by (auto simp: writePackFromShas_def root_objects writePack_def pack_chunk_def gitTypeToNumber_def TYPE_TO_NUMBER_def
      map_get_def js_simps Let_def)
  moreover have "length (packHeader (Suc (Suc 0))) = 12" by (simp add: packHeader_bytes be32_bytes_def)
  ultimately show ?thesis using root_content_length hash [of body] nak object_header_length [of PACK_OBJ_COMMIT "length ?c"]
      object_header_length [of PACK_OBJ_TREE 0]
    by (simp add: DEFAULT_MAX_PACK_BYTES_def len)
qed

definition root_input :: fetch_input where
  "root_input = \<lparr>fi_url = js ''https://takos.jp/git/ada/r'', fi_authHeader = None, fi_maxPackBytes = None, fi_allowPrivateHosts = None\<rparr>"

definition root_url :: url_parts where
  "root_url = \<lparr>url_protocol = js ''https:'', url_host = js ''takos.jp'', url_hostname = js ''takos.jp'', url_origin = js ''https://takos.jp'',
    url_pathname = js ''/git/ada/r'', url_search = []\<rparr>"

abbreviation "root_remote \<equiv> git_remote clone_platform (\<lambda>_. None) (\<lambda>_. None) root_app root_store (js ''ada'') [114]"

lemma root_fetched:
  assumes "fi_authHeader input = None" and "fi_maxPackBytes input = None"
  shows "\<exists>got. fetchRemoteRepository clone_platform (\<lambda>_. Some root_url) (\<lambda>_. False) root_remote input = Inr got \<and>
    fr_refs got = [\<lparr>rf_name = js ''refs/heads/main'', rf_target = root_sha\<rparr>] \<and> fr_defaultBranch got = Some (js ''main'')"
proof -
  let ?base = "baseRepoUrl root_url"
  let ?get = "\<lparr>hq_method = js ''GET'', hq_url = ?base @ js ''/info/refs?service=git-upload-pack'',
    hq_headers = requestHeaders None [(js ''Accept'', js ''*/*'')], hq_body = None\<rparr>"
  have headers: "requestHeaders None [(js ''Accept'', x)] = [(js ''User-Agent'', js ''git/takos-git''), (js ''Accept'', x)]" for x
    by (simp add: requestHeaders_def truthy_def map_set_def js_simps)
  obtain adv where adv: "info_refs (\<lambda>_. None) (\<lambda>_. None) root_app (request_of (js ''ada'') [114] ?get) = Inr (served adv)"
      "parseAdvertisement adv = Inr \<lparr>ad_refs = [\<lparr>rf_name = js ''refs/heads/main'', rf_target = root_sha\<rparr>], ad_defaultBranch = Some (js ''main'')\<rparr>"
    using root_advertisement [of "\<lambda>_. None" ?base "js ''git/takos-git''" "js ''*/*''"] unfolding headers by blast
  obtain body where body: "buildUploadPackRequest [root_sha] = Inr body" using root_request_built by blast
  let ?post = "\<lparr>hq_method = js ''POST'', hq_url = ?base @ js ''/git-upload-pack'',
      hq_headers = requestHeaders None
        [(js ''Content-Type'', js ''application/x-git-upload-pack-request''), (js ''Accept'', js ''application/x-git-upload-pack-result'')],
      hq_body = Some body\<rparr>"
  have noauth: "map_get (hq_headers ?post) (js ''Authorization'') = None"
    by (simp add: requestHeaders_def truthy_def map_set_def map_get_def js_simps)
  obtain w where w: "writePackFromShas clone_platform root_store [root_sha, root_tree_sha] = Inr w" "pr_missing w = []"
    using root_packed by blast
  have nak: "pktLineString (js ''NAK'' @ [10]) = Inr nak_frame"
    by (simp add: pktLineString_frame nak_frame_def pkt_fits_def utf8_encode_ascii js_simps)
  have parsed: "parseUploadPackRequest body = Inr ([root_sha], [])" by (rule parse_requested [OF body]) simp
  have "upload_pack clone_platform (\<lambda>_. None) (\<lambda>_. None) root_app (Some root_store) (request_of (js ''ada'') [114] ?post) =
      Some (Inr (served (nak_frame @ pr_pack w)))"
    using w nak root_resolved root_granted [of "\<lambda>_. None"] noauth
    by (simp add: upload_pack_def request_of_def parsed root_advertised build_pack_reply_def root_collected concatBytes_eq del: js_simps)
  then have post: "root_remote ?post = Inr \<lparr>hr_status = 200, hr_length = Num (int (length (nak_frame @ pr_pack w))),
      hr_body = nak_frame @ pr_pack w\<rparr>"
    by (simp add: git_remote_def) (simp add: js_simps)
  have get: "root_remote ?get = Inr \<lparr>hr_status = 200, hr_length = Num (int (length adv)), hr_body = adv\<rparr>"
    using adv(1) by (simp add: git_remote_def)
  have sd: "sha1_digest (pf_digest clone_platform)" using clone_platform_ok by (simp add: platform_ok_def)
  obtain objs rest where objs: "readPack (pf_digest clone_platform) None (pr_pack w) = Inr objs" "pr_pack w = PACK_SIGNATURE @ rest"
    using pack_carries [OF w(1) sd, of None] root_deflates by auto
  have safe: "assertSafeRemoteUrl (\<lambda>_. Some root_url) (\<lambda>_. False) u p = Inr root_url" for u p
    by (simp add: assertSafeRemoteUrl_def root_url_def)
  have ref: "\<not> is_peeled \<lparr>rf_name = js ''refs/heads/main'', rf_target = root_sha\<rparr>"
    by (simp add: is_peeled_def js_ends_with_def js_starts_with_def js_simps)
  have ok: "response_ok \<lparr>hr_status = 200, hr_length = n, hr_body = b\<rparr>" for n b by (simp add: response_ok_def)
  have small: "\<not> too_large DEFAULT_MAX_PACK_BYTES
      \<lparr>hr_status = 200, hr_length = Num (int (length nak_frame) + int (length (pr_pack w))), hr_body = nak_frame @ pr_pack w\<rparr>"
    using root_pack_small [OF w(1)] by (simp add: too_large_def)
  have wants: "js_set (map rf_target [\<lparr>rf_name = js ''refs/heads/main'', rf_target = root_sha\<rparr>]) = [root_sha]"
    by (simp add: js_set_def)
  have "fetchRemoteRepository clone_platform (\<lambda>_. Some root_url) (\<lambda>_. False) root_remote input =
      Inr \<lparr>fr_refs = [\<lparr>rf_name = js ''refs/heads/main'', rf_target = root_sha\<rparr>], fr_defaultBranch = Some (js ''main''), fr_objects = objs\<rparr>"
    unfolding fetchRemoteRepository_def safe bind_res.simps Let_def assms option.case get http_response.simps ok not_True_eq_False if_False
      adv(2) advertisement.simps
    by (simp add: ref body post ok small extract_nak [OF objs(2)] objs(1) wants [simplified] list.distinct del: js_simps)
  then show ?thesis by (intro exI conjI, assumption) simp_all
qed

theorem clone_complete_witness:
  "\<exists>got. fetchRemoteRepository clone_platform (\<lambda>_. Some root_url) (\<lambda>_. False) root_remote root_input = Inr got \<and>
    getObject clone_platform (snd (ingestObjects clone_platform (fr_objects got) [])) root_tree_sha = Inr (Some (js ''tree'', []))"
proof -
  obtain got where got: "fetchRemoteRepository clone_platform (\<lambda>_. Some root_url) (\<lambda>_. False) root_remote root_input = Inr got"
    using root_fetched [of root_input] by (auto simp: root_input_def)
  let ?r = "(demo_repo [114])\<lparr>rp_visibility := js ''public''\<rparr>"
  have id: "rp_id ?r = [114]" by (simp add: demo_repo_def)
  have tips: "{sha. tip (app_git root_app) [114] sha} = {root_sha}" by (simp add: root_tips)
  let ?N = "needed (getCommit clone_platform (app_git root_app) root_store [114]) (getTreeEntries clone_platform root_store) {} {root_sha}"
  have one: "one_role ?N" unfolding one_role_def using root_needed root_neq by blast
  have small: "length root_store < 2 ^ 32"
    by (simp add: root_store_def put_store_raw store_raw_def r2.put_new_def r2_put_def map_set_def)
  have valid: "isValidRepoId [114]"
    by (simp add: isValidRepoId_def js_trim_def js_ws_def MAX_REPO_ID_LENGTH_def repo_id_char_def)
  obtain c where c: "getCommit clone_platform (app_git root_app) root_store [114] root_sha = Inr (Some c)" "cm_tree c = root_tree_sha"
    using root_reads(2) by blast
  have "?N CommitRole root_sha" by (rule needed_want) simp_all
  from needed_tree [OF this c(1)] have "?N TreeRole root_tree_sha" using c(2) by simp
  moreover have "\<forall>ro sha. ?N ro sha \<longrightarrow> (\<exists>ob. getObject clone_platform root_store sha = Inr (Some ob) \<and>
      getObject clone_platform (snd (ingestObjects clone_platform (fr_objects got) [])) sha = Inr (Some ob))"
    using clone_complete [OF clone_platform_ok root_objects(3) canonical_Nil root_no_collision small _ root_resolved _ _ _ got,
        unfolded id tips] root_deflates valid root_refs_sendable one by blast
  ultimately have "\<exists>ob. getObject clone_platform root_store root_tree_sha = Inr (Some ob) \<and>
      getObject clone_platform (snd (ingestObjects clone_platform (fr_objects got) [])) root_tree_sha = Inr (Some ob)" by blast
  then show ?thesis using got root_objects(1) by auto
qed

section \<open>The advertisement read back\<close>

lemma parsed_advertisement:
  assumes "loadAdvertisedRefs adapter db repoId = Inr refs" and "buildUploadPackAdvertisement refs = Inr body"
    and "listAllRefs adapter db repoId = Inr all" and "getDefaultBranch adapter db repoId = Inr dflt"
    and "refs_sendable db repoId"
  shows "parseAdvertisement body =
    Inr \<lparr>ad_refs = map (\<lambda>ref. \<lparr>rf_name = lr_name ref, rf_target = lr_target ref\<rparr>) all, ad_defaultBranch = map_option b_name dflt\<rparr>"
proof (rule sendable_lines [OF assms(1,5)])
  fix d
  assume d: "\<And>x. x \<in> set (av_lines refs) \<Longrightarrow> advert_ok x" "av_headSymref refs = symref_of d" "branch_ok d"
  have lines: "av_lines refs = (case dflt of None \<Rightarrow> [] | Some b \<Rightarrow> [(b_sha b, js ''HEAD'')]) @ map line_of all"
    and symref: "av_headSymref refs = symref_of (map_option b_name dflt)"
    using assms(1,3,4) by (auto simp: Let_def loadAdvertisedRefs_def line_of_def [abs_def] symref_of_def option.map_comp comp_def)
  have dd: "d = map_option b_name dflt" using d(2) symref by (cases d; cases dflt) (simp_all add: symref_of_def)
  have head: "listed (x, js ''HEAD'') = []" for x by (simp add: listed_def)
  have "lr_name ref \<noteq> js ''HEAD''" if "ref \<in> set all" for ref
  proof -
    obtain bs ts where "all = map branch_ref bs @ map tag_ref ts"
      using assms(3) unfolding listAllRefs_def bind_res_Inr_iff sum.inject by blast
    then show ?thesis using that by (auto simp: branch_ref_def tag_ref_def Let_def js_simps split: if_splits)
  qed
  then have "concat (map listed (map line_of all)) = map (\<lambda>ref. \<lparr>rf_name = lr_name ref, rf_target = lr_target ref\<rparr>) all"
    by (induction all) (simp_all add: listed_def line_of_def)
  then have "concat (map listed (av_lines refs)) = map (\<lambda>ref. \<lparr>rf_name = lr_name ref, rf_target = lr_target ref\<rparr>) all"
    by (cases dflt) (simp_all add: lines head)
  then show ?thesis using parse_advertised [OF assms(2) d] dd by simp
qed

text \<open>The client reads back what the server advertises: the refs of the repository in the server's order,
  each with the commit it points at, and the name of the default branch.\<close>

theorem advertisement_roundtrip:
  assumes "loadAdvertisedRefs adapter db repoId = Inr refs" and "buildUploadPackAdvertisement refs = Inr body"
    and "listAllRefs adapter db repoId = Inr all" and "getDefaultBranch adapter db repoId = Inr dflt"
    and "refs_sendable db repoId"
  shows "parseAdvertisement body =
    Inr \<lparr>ad_refs = map (\<lambda>ref. \<lparr>rf_name = lr_name ref, rf_target = lr_target ref\<rparr>) all, ad_defaultBranch = map_option b_name dflt\<rparr>"
  by (rule parsed_advertisement [OF assms])

lemma root_all_refs:
  "listAllRefs (\<lambda>_. None) (app_git root_app) [114] = Inr [branch_ref (demo_branch\<lparr>b_sha := root_sha\<rparr>)]"
  "getDefaultBranch (\<lambda>_. None) (app_git root_app) [114] = Inr (Some (demo_branch\<lparr>b_sha := root_sha\<rparr>))"
  by (simp_all add: listAllRefs_def listBranches_def listTags_def getDefaultBranch_def root_app_def demo_branch_def
      isValidRepoId_def js_trim_def js_ws_def MAX_REPO_ID_LENGTH_def repo_id_char_def withDrizzleFallback_def sql_get_def js_sort_def Let_def)

theorem advertisement_roundtrip_witness:
  "\<exists>refs body. buildUploadPackAdvertisement refs = Inr body \<and>
    parseAdvertisement body = Inr \<lparr>ad_refs = [\<lparr>rf_name = js ''refs/heads/main'', rf_target = root_sha\<rparr>], ad_defaultBranch = Some (js ''main'')\<rparr>"
proof -
  obtain body where body: "buildUploadPackAdvertisement \<lparr>av_lines = [(root_sha, js ''HEAD''), (root_sha, js ''refs/heads/main'')],
      av_tips = [root_sha], av_headSymref = Some (js ''refs/heads/main''), av_headSha = Some root_sha\<rparr> = Inr body"
    using root_built by blast
  have "lr_name (branch_ref (demo_branch\<lparr>b_sha := root_sha\<rparr>)) = js ''refs/heads/main''"
    by (simp add: branch_ref_def demo_branch_def Let_def js_simps js_starts_with_def)
  then show ?thesis
    using advertisement_roundtrip [OF root_advertised body root_all_refs root_refs_sendable] body by (auto simp: demo_branch_def)
qed

section \<open>Where the walks stop\<close>

text \<open>C35: The walks stop at annotated tags: a ref that points at a tag object, as the tags of an imported
  repository do, is followed no further. A clone that asks for it is sent the tag object alone, without the
  commit it names, and the objects that count as reachable from it are the tag object alone as well.\<close>

theorem tag_object_stops_walk:
  assumes "getObject pf bucket sha = Inr (Some (js ''tag'', content))" and "getCommitFromIndex db repoId sha = None"
  shows "collectReachableObjects pf db bucket repoId [sha] [] = Some (Inr [sha]) \<and>
    (listAllRefs adapter db repoId = Inr [ref] \<longrightarrow> lr_target ref = sha \<longrightarrow>
      collectReachableObjectShas pf adapter db bucket repoId = Some (Inr [sha]))"
proof -
  have "collectReachableObjects pf db bucket repoId [sha] [] = Some (Inr [sha])"
    using getCommit_tag [OF assms] by (simp add: collectReachableObjects_def collect_commits_Cons collect_commits_Nil)
  then show ?thesis using tag_reaches_itself [OF assms] by blast
qed

definition tag_content :: bytes where
  "tag_content = utf8_encode (js ''object '' @ root_sha)"

definition tag_store :: bucket where
  "tag_store = store_raw clone_platform (loose_object (js ''tag'') tag_content) []"

definition tag_sha :: jsstring where
  "tag_sha = hashObject len_digest (js ''tag'') tag_content"

theorem tag_object_stops_walk_witness:
  "collectReachableObjects clone_platform (app_git root_app) tag_store [114] [tag_sha] [] = Some (Inr [tag_sha])"
proof -
  have dig: "pf_digest clone_platform = len_digest" by (simp add: clone_platform_def)
  have "getObject clone_platform tag_store tag_sha = Inr (Some (js ''tag'', tag_content))"
    unfolding tag_store_def tag_sha_def dig [symmetric]
    by (rule store_loose_get [where raws = "{loose_object (js ''tag'') tag_content}"]) simp_all
  from tag_object_stops_walk [OF this, of "app_git root_app" "[114]" "\<lambda>_. None" undefined]
  show ?thesis by (simp add: getCommitFromIndex_def root_app_def sql_get_def)
qed

text \<open>C36: What an imported commit names is served, whoever it belongs to: objects of all repositories are in one
  store, and the import stores a pack without asking whether it is complete. When a remote sends a single
  commit whose tree it does not send, but which another repository has in the store, a later clone of the
  imported commit is sent that tree.\<close>

theorem foreign_tree_served:
  fixes cm :: commit_body
  assumes "platform_ok pf" and "content_addressed pf b" and "no_collision pf b {encodeCommit cm}"
    and "commit_ok cm" and "cm_parents cm = []" and "getTreeEntries pf b (cm_tree cm) = Inr (Some es)"
    and "ob = \<lparr>ro_type = js ''commit'', ro_content = encodeCommitContent cm\<rparr>"
    and "sha = hashObject (pf_digest pf) (js ''commit'') (encodeCommitContent cm)" and "getCommitFromIndex db repoId sha = None"
    and "collectReachableObjects pf db (snd (ingestObjects pf [ob] b)) repoId [sha] [] = Some (Inr sent)"
  shows "cm_tree cm \<in> set sent \<and> getTreeEntries pf (snd (ingestObjects pf [ob] b)) (cm_tree cm) = Inr (Some es)"
proof -
  let ?b = "store_raw pf (encodeCommit cm) b"
  have b: "snd (ingestObjects pf [ob] b) = ?b" by (simp add: ingestObjects_fold assms(7) encodeCommit_loose)
  have object: "getObject pf ?b sha = Inr (Some (js ''commit'', encodeCommitContent cm))"
    unfolding assms(8) encodeCommit_loose by (rule store_loose_get [OF assms(1,2,3)]) (simp_all add: encodeCommit_loose)
  have tree: "getTreeEntries pf ?b (cm_tree cm) = Inr (Some es)"
    using assms(6) store_raw_keeps [of pf b "cm_tree cm" _ "encodeCommit cm"]
    by (auto simp: getTreeEntries_def getObject_def res_elims split: option.splits if_splits)
  have "isValidSha sha" using object by (auto simp: getObject_def getRawObject_def res_elims split: if_splits)
  then obtain c where c: "getCommit pf db ?b repoId sha = Inr (Some c)" "cm_tree c = cm_tree cm" "cm_parents c = []"
    using assms(5,9) object decode_encode_commit [OF assms(4)] by (simp add: getCommit_def getCommitData_def)
  have ne: "cm_tree cm \<noteq> sha" using tree object by (auto simp: getTreeEntries_def js_simps)
  have "collect_commits (getCommit pf db ?b repoId) (getTreeEntries pf ?b) [] [sha] [] [] = Some (Inr sent)"
    using assms(10) b by (simp add: collectReachableObjects_def)
  then obtain R V where "collect_tree (getTreeEntries pf ?b) [] (agenda_of es) [sha, cm_tree cm] [cm_tree cm, sha] = Some (Inr (R, V))" "sent = R"
    using ne by (auto simp: collect_commits_Cons collect_commits_Nil collectTreeObjects_def collect_tree_Cons c tree split: option.splits sum.splits)
  then have "cm_tree cm \<in> set sent"
    using collect_tree_sound [of "getTreeEntries pf ?b" "[]" "agenda_of es" "[sha, cm_tree cm]"] unfolding tree_sound_def by fastforce
  then show ?thesis using tree b by simp
qed

theorem foreign_tree_served_witness:
  "\<exists>(ob :: resolved_object) sent. ro_type ob = js ''commit'' \<and>
    collectReachableObjects clone_platform (app_git root_app)
      (snd (ingestObjects clone_platform [ob] (snd (putTree clone_platform [] [])))) [114] [root_sha] [] = Some (Inr sent) \<and>
    root_tree_sha \<in> set sent"
proof -
  let ?A = "snd (putTree clone_platform [] [])" and ?ob = "\<lparr>ro_type = js ''commit'', ro_content = encodeCommitContent root_commit\<rparr>"
  let ?t = "loose_object (js ''tree'') []"
  have A: "?A = store_raw clone_platform ?t []" by (simp add: put_store_raw encodeTree_loose encodeTreeContent_def concatBytes_eq)
  have store: "snd (ingestObjects clone_platform [?ob] ?A) = root_store"
    by (simp add: ingestObjects_fold root_store_def put_store_raw encodeCommit_loose)
  have dig: "pf_digest clone_platform = len_digest" by (simp add: clone_platform_def)
  have addr: "content_addressed clone_platform ?A" unfolding A by (rule store_raw_addressed) simp_all
  have raws: "stored_raws clone_platform ?A \<subseteq> {?t}"
    using stored_raws_store [OF clone_platform_ok, of ?t "[]"] unfolding A by (simp add: stored_raws_def r2_get_def)
  have "inj_on len_digest {?t, encodeCommit root_commit}" unfolding encodeCommit_loose
    by (rule inj_onI) (elim insertE emptyE, simp_all only: type_digests type_digests [symmetric] not_False_eq_True)
  then have nc: "no_collision clone_platform ?A {encodeCommit root_commit}"
    unfolding no_collision_def dig by (rule inj_on_subset) (use raws in blast)
  have inj: "no_collision clone_platform [] {?t}" by simp
  have "getObject clone_platform ?A root_tree_sha = Inr (Some (js ''tree'', []))"
    unfolding A root_tree_sha_def dig [symmetric] by (rule store_loose_get [OF _ _ inj]) simp_all
  then have tree: "getTreeEntries clone_platform ?A (cm_tree root_commit) = Inr (Some [])"
    by (simp add: getTreeEntries_def root_commit_def decodeTree_def decode_tree_loop.simps)
  have index: "getCommitFromIndex (app_git root_app) [114] root_sha = None"
    by (simp add: getCommitFromIndex_def root_app_def sql_get_def)
  have sha: "root_sha = hashObject (pf_digest clone_platform) (js ''commit'') (encodeCommitContent root_commit)"
    by (simp add: root_sha_def dig)
  have parents: "cm_parents root_commit = []" by (simp add: root_commit_def)
  have sent: "collectReachableObjects clone_platform (app_git root_app) (snd (ingestObjects clone_platform [?ob] ?A)) [114] [root_sha] [] =
      Some (Inr [root_sha, root_tree_sha])" unfolding store by (rule root_collected)
  have "cm_tree root_commit = root_tree_sha" by (simp add: root_commit_def)
  then have "root_tree_sha \<in> set [root_sha, root_tree_sha]"
    using foreign_tree_served [OF clone_platform_ok addr nc root_commit_ok parents tree refl sha index sent] by simp
  moreover have "ro_type ?ob = js ''commit''" by simp
  ultimately show ?thesis using sent by blast
qed

end
