(* ===== verification/RepoDeletion.thy ===== *)
theory RepoDeletion
  imports GitServeProps
begin

text \<open>
  Deleting a repository: the route (\<open>server/routes/repos/routes.ts\<close>) and the cleanup of its objects
  (\<open>server/routes/repos/repo-utils.ts\<close>). The objects of all repositories are in one store, so an object goes
  only if no other repository reaches it. The rows that refer to a repository go with it
  (\<open>ON DELETE CASCADE\<close>), but a fork or a remote that names it as its upstream forbids the deletion
  (\<open>ON DELETE RESTRICT\<close>), as the migrations declare. Release assets, workflow secrets and caches are left out.
\<close>

section \<open>Objects\<close>

definition MAX_REPO_OBJECT_CLEANUP_CANDIDATES :: nat where "MAX_REPO_OBJECT_CLEANUP_CANDIDATES = 25000"

definition collectCleanupCandidates ::
  "platform \<Rightarrow> adapter \<Rightarrow> git_db \<Rightarrow> bucket \<Rightarrow> jsstring \<Rightarrow> jsstring list option option" where
  "collectCleanupCandidates pf adapter db bucket repoId =
    map_option (\<lambda>r. case r of
        Inl _ \<Rightarrow> None
      | Inr shas \<Rightarrow>
          let reachable = js_set shas in
          if length reachable \<le> MAX_REPO_OBJECT_CLEANUP_CANDIDATES then Some reachable else None)
      (collectReachableObjectShas pf adapter db bucket repoId)"

text \<open>The candidates that other repositories reach; the loop ends early when all are.\<close>

fun shared_oids :: "(jsstring \<Rightarrow> jsstring list run) \<Rightarrow> jsstring list \<Rightarrow> jsstring list \<Rightarrow> jsstring list \<Rightarrow> jsstring list run" where
  "shared_oids reach candidates [] shared = Some (Inr shared)"
| "shared_oids reach candidates (repo # repos) shared =
    (if length shared = length candidates then Some (Inr shared)
     else bind_run (reach repo) (\<lambda>reachable.
       shared_oids reach candidates repos
         (shared @ filter (\<lambda>oid. oid \<notin> set shared \<and> oid \<in> set reachable) candidates)))"

text \<open>\<open>undeleted\<close> are the ids whose deletion the store refuses, which \<open>allSettled\<close> passes over.\<close>

definition delete_oid :: "(jsstring \<Rightarrow> bool) \<Rightarrow> jsstring \<Rightarrow> bucket \<Rightarrow> bucket" where
  "delete_oid undeleted oid b = (if undeleted oid then b else deleteObject oid b)"

function delete_chunks :: "(jsstring \<Rightarrow> bool) \<Rightarrow> jsstring list \<Rightarrow> bucket \<Rightarrow> bucket" where
  "delete_chunks undeleted oids b =
    (if oids = [] then b
     else delete_chunks undeleted (drop 100 oids) (fold (delete_oid undeleted) (take 100 oids) b))"
  by pat_completeness auto
termination by (relation "measure (\<lambda>(_, oids, _). length oids)") auto

declare delete_chunks.simps [simp del]

definition cleanupRepoGitObjects ::
  "platform \<Rightarrow> adapter \<Rightarrow> git_db \<Rightarrow> (jsstring \<Rightarrow> bool) \<Rightarrow> jsstring \<Rightarrow> jsstring list \<Rightarrow> bucket \<Rightarrow> bucket run" where
  "cleanupRepoGitObjects pf adapter db undeleted deletedRepoId candidates bucket =
    (if candidates = [] then Some (Inr bucket)
     else
       let otherRepos = map rp_id (filter (\<lambda>r. rp_id r \<noteq> deletedRepoId) (gd_repos db)) in
       bind_run (shared_oids (collectReachableObjectShas pf adapter db bucket) candidates otherRepos []) (\<lambda>shared.
         Some (Inr (delete_chunks undeleted (filter (\<lambda>oid. oid \<notin> set shared) candidates) bucket))))"

section \<open>Rows\<close>

definition names_upstream :: "git_db \<Rightarrow> jsstring \<Rightarrow> bool" where
  "names_upstream db repoId \<longleftrightarrow>
    list_ex (\<lambda>f. fk_upstream f = repoId) (gd_forks db) \<or> list_ex (\<lambda>r. rt_upstream r = repoId) (gd_remotes db)"

definition cascade_delete :: "jsstring \<Rightarrow> git_db \<Rightarrow> git_db" where
  "cascade_delete repoId db =
    \<lparr>gd_repos = sql_update (\<lambda>r. rp_forkedFrom r = Some repoId) (\<lambda>r. r\<lparr>rp_forkedFrom := None\<rparr>)
       (sql_delete (\<lambda>r. rp_id r = repoId) (gd_repos db)),
     gd_branches = sql_delete (\<lambda>b. b_repo b = repoId) (gd_branches db),
     gd_tags = sql_delete (\<lambda>t. t_repo t = repoId) (gd_tags db),
     gd_commits = sql_delete (\<lambda>c. cr_repo c = repoId) (gd_commits db),
     gd_forks = sql_delete (\<lambda>f. fk_repo f = repoId) (gd_forks db),
     gd_remotes = sql_delete (\<lambda>r. rt_repo r = repoId) (gd_remotes db)\<rparr>"

definition delete_repo_row :: "jsstring \<Rightarrow> git_db \<Rightarrow> git_db res" where
  "delete_repo_row repoId db =
    (if names_upstream db repoId then Inl (Error ''FOREIGN KEY constraint failed'') else Inr (cascade_delete repoId db))"

text \<open>The statements of the route, each one by itself.\<close>

definition delete_repo_statements :: "jsstring \<Rightarrow> jsstring option \<Rightarrow> git_db \<Rightarrow> unit res \<times> git_db" where
  "delete_repo_statements repoId forkedFrom db =
    (let db = db\<lparr>gd_branches := sql_delete (\<lambda>b. b_repo b = repoId) (gd_branches db)\<rparr>;
         db = db\<lparr>gd_forks := sql_delete (\<lambda>f. fk_repo f = repoId) (gd_forks db)\<rparr>;
         db = db\<lparr>gd_remotes := sql_delete (\<lambda>r. rt_repo r = repoId) (gd_remotes db)\<rparr> in
     case delete_repo_row repoId db of
       Inl e \<Rightarrow> (Inl e, db)
     | Inr db \<Rightarrow>
         (Inr (), case truthy forkedFrom of
            None \<Rightarrow> db
          | Some upstream \<Rightarrow>
              db\<lparr>gd_repos := sql_update (\<lambda>r. rp_id r = upstream) (\<lambda>r. r\<lparr>rp_forks := rp_forks r - 1\<rparr>) (gd_repos db)\<rparr>))"

section \<open>The route\<close>

definition ADMIN_ROLES :: "jsstring list" where "ADMIN_ROLES = [js ''owner'', js ''admin'']"

definition requireRepoAdmin :: "app_db \<Rightarrow> jsstring \<Rightarrow> jsstring option \<Rightarrow> repo_access res" where
  "requireRepoAdmin db repoId userId =
    (case checkRepoAccess db repoId userId (Some ADMIN_ROLES) False of
       None \<Rightarrow> Inl (Error ''Repository not found'')
     | Some access \<Rightarrow> Inr access)"

text \<open>What the route has done once its background work is over: a failure of the cleanup is logged only.\<close>

definition delete_repository ::
  "platform \<Rightarrow> adapter \<Rightarrow> (jsstring \<Rightarrow> bool) \<Rightarrow> jsstring \<Rightarrow> jsstring \<Rightarrow> app_db \<Rightarrow> bucket \<Rightarrow> (unit res \<times> git_db \<times> bucket) option" where
  "delete_repository pf adapter undeleted userId repoId db bucket =
    (case requireRepoAdmin db repoId (Some userId) of
       Inl e \<Rightarrow> Some (Inl e, app_git db, bucket)
     | Inr access \<Rightarrow>
         (case collectCleanupCandidates pf adapter (app_git db) bucket repoId of
            None \<Rightarrow> None
          | Some candidates \<Rightarrow>
              (case delete_repo_statements repoId (rp_forkedFrom (ra_repo access)) (app_git db) of
                 (Inl e, git) \<Rightarrow> Some (Inl e, git, bucket)
               | (Inr _, git) \<Rightarrow>
                   (case candidates of
                      None \<Rightarrow> Some (Inr (), git, bucket)
                    | Some oids \<Rightarrow>
                        (case cleanupRepoGitObjects pf adapter git undeleted repoId oids bucket of
                           None \<Rightarrow> None
                         | Some (Inl _) \<Rightarrow> Some (Inr (), git, bucket)
                         | Some (Inr bucket') \<Rightarrow> Some (Inr (), git, bucket'))))))"

section \<open>What the cleanup removes\<close>

lemma getRawObject_delete:
  "getRawObject pf (delete_oid undeleted oid b) x = (if x = oid \<and> \<not> undeleted oid then Inr None else getRawObject pf b x)"
proof -
  have "getRawObject pf (deleteObject oid b) oid = Inr None"
    using delete_only_that [where sha = oid and b = b and sha' = oid and pf = pf] by (simp add: getRawObject_def objectExists_def r2.head_get split: option.splits)
  moreover have "x \<noteq> oid \<Longrightarrow> getRawObject pf (deleteObject oid b) x = getRawObject pf b x"
    using delete_only_that [where sha = oid and b = b and sha' = x and pf = pf] by blast
  ultimately show ?thesis by (simp add: delete_oid_def)
qed

lemma getRawObject_deletes:
  "getRawObject pf (fold (delete_oid undeleted) oids b) x =
    (if x \<in> set oids \<and> \<not> undeleted x then Inr None else getRawObject pf b x)"
  by (induction oids arbitrary: b) (auto simp: getRawObject_delete)

lemma delete_chunks_fold: "delete_chunks undeleted oids b = fold (delete_oid undeleted) oids b"
proof (induction undeleted oids b rule: delete_chunks.induct)
  case (1 undeleted oids b)
  show ?case
  proof (cases "oids = []")
    case False
    have "fold (delete_oid undeleted) oids b = fold (delete_oid undeleted) (take 100 oids @ drop 100 oids) b" by simp
    also have "\<dots> = fold (delete_oid undeleted) (drop 100 oids) (fold (delete_oid undeleted) (take 100 oids) b)"
      by (simp only: fold_append comp_apply)
    finally show ?thesis using 1 False by (simp add: delete_chunks.simps [of undeleted oids])
  qed (simp add: delete_chunks.simps)
qed

definition reaches :: "platform \<Rightarrow> adapter \<Rightarrow> git_db \<Rightarrow> bucket \<Rightarrow> jsstring \<Rightarrow> jsstring \<Rightarrow> bool" where
  "reaches pf adapter db bucket repoId x \<longleftrightarrow>
    (\<exists>shas. collectReachableObjectShas pf adapter db bucket repoId = Some (Inr shas) \<and> x \<in> set shas)"

lemma shared_oids_exact:
  "shared_oids reach candidates repos S = Some (Inr T) \<Longrightarrow> distinct candidates \<Longrightarrow> distinct S \<Longrightarrow> set S \<subseteq> set candidates \<Longrightarrow>
    x \<in> set candidates \<Longrightarrow>
    x \<in> set T \<longleftrightarrow> x \<in> set S \<or> (\<exists>repo \<in> set repos. \<exists>shas. reach repo = Some (Inr shas) \<and> x \<in> set shas)"
proof (induction repos arbitrary: S)
  case (Cons repo repos)
  show ?case
  proof (cases "length S = length candidates")
    case True
    then have "set S = set candidates"
      using Cons.prems(2-4) by (metis card_subset_eq distinct_card finite_set)
    then show ?thesis using Cons.prems(1,5) True by auto
  next
    case False
    then obtain shas where shas: "reach repo = Some (Inr shas)"
        "shared_oids reach candidates repos (S @ filter (\<lambda>oid. oid \<notin> set S \<and> oid \<in> set shas) candidates) = Some (Inr T)"
      using Cons.prems(1) by (auto simp: res_elims)
    then show ?thesis using Cons.IH [OF shas(2)] Cons.prems(2-5) by auto
  qed
qed simp

lemma cleanup_removes:
  assumes "cleanupRepoGitObjects pf adapter db undeleted deletedRepoId candidates bucket = Some (Inr bucket')"
    and "distinct candidates"
  shows "getRawObject pf bucket' x =
    (if x \<in> set candidates \<and> \<not> undeleted x \<and>
        (\<forall>repo \<in> set (gd_repos db). rp_id repo \<noteq> deletedRepoId \<longrightarrow> \<not> reaches pf adapter db bucket (rp_id repo) x)
     then Inr None else getRawObject pf bucket x)"
proof (cases "candidates = []")
  case True
  then show ?thesis using assms(1) by (simp add: cleanupRepoGitObjects_def)
next
  case False
  then obtain shared where s: "shared_oids (collectReachableObjectShas pf adapter db bucket) candidates
        (map rp_id (filter (\<lambda>r. rp_id r \<noteq> deletedRepoId) (gd_repos db))) [] = Some (Inr shared)"
      "bucket' = delete_chunks undeleted (filter (\<lambda>oid. oid \<notin> set shared) candidates) bucket"
    using assms(1) by (auto simp: cleanupRepoGitObjects_def Let_def res_elims)
  have "x \<in> set candidates \<Longrightarrow> x \<in> set shared \<longleftrightarrow>
      (\<exists>repo \<in> set (gd_repos db). rp_id repo \<noteq> deletedRepoId \<and> reaches pf adapter db bucket (rp_id repo) x)"
    using shared_oids_exact [OF s(1) assms(2), of x] by (auto simp: reaches_def)
  then show ?thesis by (auto simp: s(2) delete_chunks_fold getRawObject_deletes)
qed

text \<open>When the walk of a repository fails, the cleanup removes nothing, if it does not fail as well.\<close>

lemma shared_oids_failed:
  "shared_oids reach candidates repos S = Some (Inr T) \<Longrightarrow> distinct candidates \<Longrightarrow> distinct S \<Longrightarrow> set S \<subseteq> set candidates \<Longrightarrow>
    repo \<in> set repos \<Longrightarrow> \<not> (\<exists>shas. reach repo = Some (Inr shas)) \<Longrightarrow> set candidates \<subseteq> set T"
proof (induction repos arbitrary: S)
  case (Cons r repos)
  show ?case
  proof (cases "length S = length candidates")
    case True
    then have "set S = set candidates"
      using Cons.prems(2-4) by (metis card_subset_eq distinct_card finite_set)
    then show ?thesis using Cons.prems(1) True by auto
  next
    case False
    then obtain shas where shas: "reach r = Some (Inr shas)"
        "shared_oids reach candidates repos (S @ filter (\<lambda>oid. oid \<notin> set S \<and> oid \<in> set shas) candidates) = Some (Inr T)"
      using Cons.prems(1) by (auto simp: res_elims)
    then have "repo \<in> set repos" using Cons.prems(5,6) by auto
    then show ?thesis by (intro Cons.IH [OF shas(2)]) (use Cons.prems in auto)
  qed
qed simp

lemma cleanup_failed_walk:
  assumes "cleanupRepoGitObjects pf adapter db undeleted deletedRepoId candidates bucket = Some (Inr bucket')"
    and "distinct candidates" and "repo \<in> set (gd_repos db)" and "rp_id repo \<noteq> deletedRepoId"
    and "\<not> (\<exists>shas. collectReachableObjectShas pf adapter db bucket (rp_id repo) = Some (Inr shas))"
  shows "bucket' = bucket"
proof (cases "candidates = []")
  case True
  then show ?thesis using assms(1) by (simp add: cleanupRepoGitObjects_def)
next
  case False
  then obtain shared where s: "shared_oids (collectReachableObjectShas pf adapter db bucket) candidates
        (map rp_id (filter (\<lambda>r. rp_id r \<noteq> deletedRepoId) (gd_repos db))) [] = Some (Inr shared)"
      "bucket' = delete_chunks undeleted (filter (\<lambda>oid. oid \<notin> set shared) candidates) bucket"
    using assms(1) by (auto simp: cleanupRepoGitObjects_def Let_def res_elims)
  have "set candidates \<subseteq> set shared"
    by (rule shared_oids_failed [OF s(1) assms(2) _ _ _ assms(5)]) (use assms(3,4) in auto)
  then have "filter (\<lambda>oid. oid \<notin> set shared) candidates = []" by (auto simp: filter_empty_conv)
  then show ?thesis by (simp add: s(2) delete_chunks_fold)
qed

text \<open>The cleanup after a deletion removes exactly what nobody else reaches: an object goes from the store if
  and only if it was a candidate, no other repository reaches it and the store does not refuse; everything
  else reads as before.\<close>

theorem cleanup_exact:
  assumes "cleanupRepoGitObjects pf adapter db undeleted deletedRepoId candidates bucket = Some (Inr bucket')"
    and "distinct candidates"
  shows "getRawObject pf bucket' x =
    (if x \<in> set candidates \<and> \<not> undeleted x \<and>
        (\<forall>repo \<in> set (gd_repos db). rp_id repo \<noteq> deletedRepoId \<longrightarrow> \<not> reaches pf adapter db bucket (rp_id repo) x)
     then Inr None else getRawObject pf bucket x)"
  using cleanup_removes [OF assms] .

section \<open>Other repositories\<close>

text \<open>The statements leave the rows of other repositories alone, but for the count of forks.\<close>

lemma filter_other: "(\<And>r. Q r \<Longrightarrow> k r \<noteq> i) \<Longrightarrow> filter Q (sql_delete (\<lambda>r. k r = i) rows) = filter Q rows"
  by (induction rows) (auto simp: sql_delete_def)

lemma get_other: "(\<And>r. Q r \<Longrightarrow> k r \<noteq> i) \<Longrightarrow> sql_get Q (sql_delete (\<lambda>r. k r = i) rows) = sql_get Q rows"
  by (induction rows) (auto simp: sql_delete_def sql_get_def)

definition other_rows :: "git_db \<Rightarrow> git_db \<Rightarrow> jsstring \<Rightarrow> bool" where
  "other_rows git db repo \<longleftrightarrow>
    filter (\<lambda>b. b_repo b = repo) (gd_branches git) = filter (\<lambda>b. b_repo b = repo) (gd_branches db) \<and>
    filter (\<lambda>t. t_repo t = repo) (gd_tags git) = filter (\<lambda>t. t_repo t = repo) (gd_tags db) \<and>
    (\<forall>sha. sql_get (commit_at repo sha) (gd_commits git) = sql_get (commit_at repo sha) (gd_commits db)) \<and>
    (repo \<in> rp_id ` set (gd_repos db) \<longrightarrow> repo \<in> rp_id ` set (gd_repos git))"

lemma other_rows_reads:
  assumes "other_rows git db repo"
  shows "listAllRefs adapter git repo = listAllRefs adapter db repo" "getCommit pf git bucket repo = getCommit pf db bucket repo"
proof -
  have "listBranches adapter git repo = listBranches adapter db repo" "listTags adapter git repo = listTags adapter db repo"
    using assms by (simp_all add: other_rows_def listBranches_def listTags_def)
  then show "listAllRefs adapter git repo = listAllRefs adapter db repo" by (simp add: listAllRefs_def)
  show "getCommit pf git bucket repo = getCommit pf db bucket repo"
  proof (rule HOL.ext)
    fix sha
    have "sql_get (commit_at repo sha) (gd_commits git) = sql_get (commit_at repo sha) (gd_commits db)"
      using assms unfolding other_rows_def by blast
    then show "getCommit pf git bucket repo sha = getCommit pf db bucket repo sha"
      by (simp add: getCommit_def getCommitFromIndex_def)
  qed
qed

lemma ids_update: "(\<And>r. k (f r) = k r) \<Longrightarrow> k ` set (sql_update P f rows) = k ` set rows"
  unfolding sql_update_def set_map image_image by (rule image_cong) simp_all

lemma other_rows_forks:
  assumes "other_rows git db repo"
  shows "other_rows (git\<lparr>gd_repos := sql_update P (\<lambda>r. r\<lparr>rp_forks := rp_forks r - 1\<rparr>) (gd_repos git)\<rparr>) db repo"
proof -
  have "rp_id ` set (sql_update P (\<lambda>r. r\<lparr>rp_forks := rp_forks r - 1\<rparr>) (gd_repos git)) = rp_id ` set (gd_repos git)"
    by (rule ids_update) simp
  then show ?thesis using assms unfolding other_rows_def by simp
qed

lemma statements_other:
  assumes "delete_repo_statements repoId forkedFrom db = (r, git)" and "repo \<noteq> repoId"
  shows "other_rows git db repo"
proof -
  let ?db = "db\<lparr>gd_branches := sql_delete (\<lambda>b. b_repo b = repoId) (gd_branches db),
    gd_forks := sql_delete (\<lambda>f. fk_repo f = repoId) (gd_forks db), gd_remotes := sql_delete (\<lambda>r. rt_repo r = repoId) (gd_remotes db)\<rparr>"
  have branches: "filter (\<lambda>b. b_repo b = repo) (sql_delete (\<lambda>b. b_repo b = repoId) bs) = filter (\<lambda>b. b_repo b = repo) bs" for bs
    using assms(2) by (intro filter_other) auto
  have tags: "filter (\<lambda>t. t_repo t = repo) (sql_delete (\<lambda>t. t_repo t = repoId) ts) = filter (\<lambda>t. t_repo t = repo) ts" for ts
    using assms(2) by (intro filter_other) auto
  have commits: "sql_get (commit_at repo sha) (sql_delete (\<lambda>c. cr_repo c = repoId) cs) = sql_get (commit_at repo sha) cs" for sha cs
    using assms(2) by (intro get_other) (auto simp: commit_at_def)
  have repos: "repo \<in> rp_id ` set (gd_repos db) \<Longrightarrow> repo \<in> rp_id ` set (gd_repos (cascade_delete repoId ?db))"
  proof -
    have "rp_id ` set (gd_repos (cascade_delete repoId ?db)) = rp_id ` set (sql_delete (\<lambda>r. rp_id r = repoId) (gd_repos db))"
      by (simp add: cascade_delete_def ids_update)
    then show "repo \<in> rp_id ` set (gd_repos db) \<Longrightarrow> repo \<in> rp_id ` set (gd_repos (cascade_delete repoId ?db))"
      using assms(2) by (auto simp: set_sql_delete)
  qed
  have cascaded: "other_rows (cascade_delete repoId ?db) db repo"
    using repos by (simp add: other_rows_def cascade_delete_def branches tags commits)
  show ?thesis
  proof (cases "names_upstream ?db repoId")
    case True
    then have "git = ?db" using assms(1) by (simp add: delete_repo_statements_def delete_repo_row_def Let_def)
    then show ?thesis by (simp add: other_rows_def branches)
  next
    case False
    let ?cas = "cascade_delete repoId ?db"
    have "git = ?cas \<or> (\<exists>P. git = ?cas\<lparr>gd_repos := sql_update P (\<lambda>r. r\<lparr>rp_forks := rp_forks r - 1\<rparr>) (gd_repos ?cas)\<rparr>)"
      using assms(1) False by (cases "truthy forkedFrom") (auto simp: delete_repo_statements_def delete_repo_row_def Let_def)
    then show ?thesis using cascaded other_rows_forks [OF cascaded] by auto
  qed
qed

lemma walk_returns: "collectReachableObjectShas pf adapter db bucket repoId \<noteq> None"
proof -
  have "\<exists>r. live_commits (getCommit pf db bucket repoId) (getTreeEntries pf bucket) Q Q [] [] = Some r" for Q
    using store.live_commits_spec [of pf db bucket repoId Q "[]" "[]" Q] by (auto simp: commits_kept_def trees_kept_def)
  then show ?thesis unfolding collectReachableObjectShas_def by (intro bind_run_returns) simp_all
qed

lemma candidates_return: "collectCleanupCandidates pf adapter db bucket repoId \<noteq> None"
  using walk_returns [of pf adapter db bucket repoId] by (simp add: collectCleanupCandidates_def)

lemma candidates_distinct: "collectCleanupCandidates pf adapter db bucket repoId = Some (Some oids) \<Longrightarrow> distinct oids"
  by (cases "collectReachableObjectShas pf adapter db bucket repoId")
    (auto simp: collectCleanupCandidates_def Let_def split: sum.splits if_splits)

lemma shared_oids_return: "(\<And>repo. reach repo \<noteq> None) \<Longrightarrow> shared_oids reach candidates repos S \<noteq> None"
proof (induction repos arbitrary: S)
  case (Cons repo repos)
  then show ?case unfolding shared_oids.simps by (auto simp: bind_run_returns simp del: not_None_eq)
qed simp

lemma cleanup_returns: "cleanupRepoGitObjects pf adapter db undeleted deletedRepoId candidates bucket \<noteq> None"
  unfolding cleanupRepoGitObjects_def Let_def
  using shared_oids_return [of "collectReachableObjectShas pf adapter db bucket", OF walk_returns]
  by (auto simp: bind_run_returns simp del: not_None_eq)

lemma delete_repository_returns: "delete_repository pf adapter undeleted userId repoId db bucket \<noteq> None"
  using candidates_return cleanup_returns
  by (fastforce simp: delete_repository_def split: sum.splits option.splits prod.splits simp del: not_None_eq)

lemma delete_repository_cases:
  assumes "delete_repository pf adapter undeleted userId repoId db bucket = Some (result, git, bucket')"
  obtains "git = app_git db" "bucket' = bucket"
  | forkedFrom r where "delete_repo_statements repoId forkedFrom (app_git db) = (r, git)" "bucket' = bucket"
  | forkedFrom r oids where "delete_repo_statements repoId forkedFrom (app_git db) = (r, git)" "distinct oids"
      "cleanupRepoGitObjects pf adapter git undeleted repoId oids bucket = Some (Inr bucket')"
proof (cases "requireRepoAdmin db repoId (Some userId)")
  case (Inl e)
  then show thesis using assms that(1) by (simp add: delete_repository_def)
next
  case access: (Inr access)
  obtain candidates where c: "collectCleanupCandidates pf adapter (app_git db) bucket repoId = Some candidates"
    using candidates_return by blast
  obtain r git' where s: "delete_repo_statements repoId (rp_forkedFrom (ra_repo access)) (app_git db) = (r, git')" by fastforce
  show thesis
  proof (cases r)
    case (Inl e)
    then show thesis using assms access c s that(2) [of "rp_forkedFrom (ra_repo access)"] by (simp add: delete_repository_def)
  next
    case r: (Inr u)
    show thesis
    proof (cases candidates)
      case None
      then show thesis using assms access c s r that(2) [of "rp_forkedFrom (ra_repo access)"] by (simp add: delete_repository_def)
    next
      case (Some oids)
      have d: "distinct oids" using c Some candidates_distinct by blast
      obtain k where k: "cleanupRepoGitObjects pf adapter git' undeleted repoId oids bucket = Some k"
        using cleanup_returns by blast
      show thesis
      proof (cases k)
        case (Inl e)
        then show thesis using assms access c s r Some k that(2) [of "rp_forkedFrom (ra_repo access)"] by (simp add: delete_repository_def)
      next
        case (Inr b)
        then show thesis using assms access c s r Some k that(3) [of "rp_forkedFrom (ra_repo access)" r oids] d by (simp add: delete_repository_def)
      qed
    qed
  qed
qed

text \<open>C5: Deleting a repository harms no other one: the route returns, and whatever it did, every other repository
  has the refs it had, and every object these need reads as before, although all repositories share one
  store. (A failed walk of another repository keeps everything.)\<close>

theorem deletion_keeps_others:
  "delete_repository pf adapter undeleted userId repoId db bucket \<noteq> None \<and>
   (\<forall>result git bucket' repo. delete_repository pf adapter undeleted userId repoId db bucket = Some (result, git, bucket') \<longrightarrow>
      repo \<in> set (gd_repos (app_git db)) \<longrightarrow> rp_id repo \<noteq> repoId \<longrightarrow>
      listAllRefs adapter git (rp_id repo) = listAllRefs adapter (app_git db) (rp_id repo) \<and>
      (\<forall>refs ro x. listAllRefs adapter (app_git db) (rp_id repo) = Inr refs \<longrightarrow>
        needed (getCommit pf (app_git db) bucket (rp_id repo)) (getTreeEntries pf bucket) {[]} (lr_target ` set refs) ro x \<longrightarrow>
        getRawObject pf bucket' x = getRawObject pf bucket x))"
proof (intro conjI allI impI)
  show "delete_repository pf adapter undeleted userId repoId db bucket \<noteq> None" by (rule delete_repository_returns)
  fix result git bucket' and repo :: repo_row
  assume run: "delete_repository pf adapter undeleted userId repoId db bucket = Some (result, git, bucket')"
    and repo: "repo \<in> set (gd_repos (app_git db))" "rp_id repo \<noteq> repoId"
  show "listAllRefs adapter git (rp_id repo) = listAllRefs adapter (app_git db) (rp_id repo)"
    by (rule delete_repository_cases [OF run]) (simp_all add: other_rows_reads statements_other [OF _ repo(2)])
  fix refs ro x
  assume refs: "listAllRefs adapter (app_git db) (rp_id repo) = Inr refs"
    and n: "needed (getCommit pf (app_git db) bucket (rp_id repo)) (getTreeEntries pf bucket) {[]} (lr_target ` set refs) ro x"
  show "getRawObject pf bucket' x = getRawObject pf bucket x"
  proof (rule delete_repository_cases [OF run])
    fix forkedFrom r oids
    assume s: "delete_repo_statements repoId forkedFrom (app_git db) = (r, git)" and d: "distinct oids"
      and c: "cleanupRepoGitObjects pf adapter git undeleted repoId oids bucket = Some (Inr bucket')"
    have o: "other_rows git (app_git db) (rp_id repo)" by (rule statements_other [OF s repo(2)])
    then obtain repo' where repo': "repo' \<in> set (gd_repos git)" "rp_id repo' = rp_id repo"
      using repo(1) unfolding other_rows_def by (metis imageE imageI)
    show ?thesis
    proof (cases "\<exists>shas. collectReachableObjectShas pf adapter git bucket (rp_id repo) = Some (Inr shas)")
      case True
      then obtain shas where shas: "collectReachableObjectShas pf adapter git bucket (rp_id repo) = Some (Inr shas)" by blast
      have "x \<in> set shas"
        by (rule store.live_commits_keep [OF _ _ _ n])
          (use shas refs in \<open>auto simp: collectReachableObjectShas_def js_set_def other_rows_reads [OF o]\<close>)
      then have "reaches pf adapter git bucket (rp_id repo') x" using shas repo'(2) by (auto simp: reaches_def)
      then show ?thesis using cleanup_removes [OF c d, of x] repo' repo(2) by auto
    next
      case False
      then have "bucket' = bucket" using cleanup_failed_walk [OF c d repo'(1)] repo' repo(2) by simp
      then show ?thesis by simp
    qed
  qed simp_all
qed

text \<open>C37: A repository that has been forked loses its branches when its deletion fails: the statements of the route
  are no transaction, the fork forbids to delete the row of its upstream, and by then the branches are gone.
  The repository is still there, without a branch.\<close>

theorem forked_upstream_loses_branches:
  assumes "requireRepoAdmin db repoId (Some userId) = Inr access"
    and "f \<in> set (gd_forks (app_git db))" and "fk_upstream f = repoId" and "fk_repo f \<noteq> repoId"
  shows "\<exists>e git. delete_repository pf adapter undeleted userId repoId db bucket = Some (Inl e, git, bucket) \<and>
    gd_repos git = gd_repos (app_git db) \<and> (\<forall>b. \<not> own_branch git repoId b)"
proof -
  let ?git = "app_git db\<lparr>gd_branches := sql_delete (\<lambda>b. b_repo b = repoId) (gd_branches (app_git db)),
    gd_forks := sql_delete (\<lambda>f. fk_repo f = repoId) (gd_forks (app_git db)),
    gd_remotes := sql_delete (\<lambda>r. rt_repo r = repoId) (gd_remotes (app_git db))\<rparr>"
  have "f \<in> set (gd_forks ?git)" using assms(2,4) by (simp add: set_sql_delete)
  then have "names_upstream ?git repoId" using assms(3) by (auto simp: names_upstream_def list_ex_iff)
  then have s: "delete_repo_statements repoId from (app_git db) = (Inl (Error ''FOREIGN KEY constraint failed''), ?git)" for "from"
    by (simp add: delete_repo_statements_def delete_repo_row_def Let_def)
  obtain candidates where "collectCleanupCandidates pf adapter (app_git db) bucket repoId = Some candidates"
    using candidates_return by blast
  then have "delete_repository pf adapter undeleted userId repoId db bucket =
      Some (Inl (Error ''FOREIGN KEY constraint failed''), ?git, bucket)"
    using assms(1) s by (simp add: delete_repository_def)
  moreover have "gd_repos ?git = gd_repos (app_git db)" "\<forall>b. \<not> own_branch ?git repoId b"
    by (simp_all add: own_branch_def set_sql_delete)
  ultimately show ?thesis by blast
qed

text \<open>The history behind an annotated tag does not count as shared. When the only ref of another repository is a
  tag object, as import leaves them, a commit that the tag names is removed from the store with the deleted
  repository, and the other one keeps a tag of a commit that is no more.\<close>

theorem tagged_history_removed:
  assumes "getObject pf bucket sha = Inr (Some (js ''tag'', content))" and "getCommitFromIndex db (rp_id repo) sha = None"
    and "listAllRefs adapter db (rp_id repo) = Inr [ref]" and "lr_target ref = sha"
    and "filter (\<lambda>r. rp_id r \<noteq> deletedRepoId) (gd_repos db) = [repo]"
    and "cleanupRepoGitObjects pf adapter db undeleted deletedRepoId candidates bucket = Some (Inr bucket')"
    and "distinct candidates" and "x \<in> set candidates" and "x \<noteq> sha" and "\<not> undeleted x"
  shows "getRawObject pf bucket' sha = getRawObject pf bucket sha \<and> getRawObject pf bucket' x = Inr None"
proof -
  have only: "r = repo" if "r \<in> set (gd_repos db)" "rp_id r \<noteq> deletedRepoId" for r
  proof -
    have "r \<in> set (filter (\<lambda>r. rp_id r \<noteq> deletedRepoId) (gd_repos db))" using that by simp
    then show ?thesis by (simp add: assms(5))
  qed
  have "repo \<in> set (filter (\<lambda>r. rp_id r \<noteq> deletedRepoId) (gd_repos db))" unfolding assms(5) by simp
  then have repo: "repo \<in> set (gd_repos db)" "rp_id repo \<noteq> deletedRepoId" by simp_all
  have reach: "reaches pf adapter db bucket (rp_id repo) y \<longleftrightarrow> y = sha" for y
    using tag_reaches_itself [OF assms(1-4)] by (simp add: reaches_def)
  have "getRawObject pf bucket' x = Inr None"
    using cleanup_removes [OF assms(6,7), of x] assms(8-10) only reach by auto
  moreover have "getRawObject pf bucket' sha = getRawObject pf bucket sha"
    using cleanup_removes [OF assms(6,7), of sha] repo reach by auto
  ultimately show ?thesis by blast
qed

section \<open>Two repositories\<close>

definition two_app :: app_db where
  "two_app = \<lparr>app_accounts = [\<lparr>ac_id = [97], ac_type = js ''user'', ac_owner = None, ac_slug = js ''ada''\<rparr>],
    app_memberships = [\<lparr>mb_accountId = [97], mb_memberId = [97], mb_role = js ''owner'', mb_status = js ''active''\<rparr>],
    app_git = \<lparr>gd_repos = [demo_repo [114], demo_repo [115]],
      gd_branches = [demo_branch\<lparr>b_sha := root_sha\<rparr>, demo_branch\<lparr>b_id := [106], b_repo := [115], b_sha := root_sha\<rparr>],
      gd_tags = [], gd_commits = [], gd_forks = [], gd_remotes = []\<rparr>\<rparr>"

definition forked_app :: app_db where
  "forked_app = two_app\<lparr>app_git := app_git two_app\<lparr>gd_forks := [\<lparr>fk_id = [1], fk_repo = [115], fk_upstream = [114], fk_createdAt = 0\<rparr>]\<rparr>\<rparr>"

lemma forked_admin: "\<exists>access. requireRepoAdmin forked_app [114] (Some [97]) = Inr access"
  by (simp add: requireRepoAdmin_def checkRepoAccess_def forked_app_def two_app_def sql_get_def isValidOpaqueId_def js_trim_def js_ws_def
      MAX_OPAQUE_ID_LENGTH_def opaque_id_char_def demo_repo_def checkSpaceAccess_def resolveUserPrincipalId_def truthy_def
      loadSpace_def loadSpaceMembership_def ADMIN_ROLES_def js_simps Let_def)

lemma two_refs_listed:
  "listAllRefs (\<lambda>_. None) (app_git two_app) [115] =
    Inr [branch_ref (demo_branch\<lparr>b_id := [106], b_repo := [115], b_sha := root_sha\<rparr>)]"
  by (simp add: listAllRefs_def listBranches_def listTags_def two_app_def demo_branch_def
      isValidRepoId_def js_trim_def js_ws_def MAX_REPO_ID_LENGTH_def repo_id_char_def withDrizzleFallback_def js_sort_def Let_def)

theorem deletion_keeps_others_witness:
  "\<exists>result git bucket'. delete_repository clone_platform (\<lambda>_. None) (\<lambda>_. False) [97] [114] two_app root_store = Some (result, git, bucket') \<and>
    getRawObject clone_platform bucket' root_sha = getRawObject clone_platform root_store root_sha"
proof -
  note keeps = deletion_keeps_others [of clone_platform "\<lambda>_. None" "\<lambda>_. False" "[97]" "[114]" two_app root_store]
  obtain result git bucket' where d: "delete_repository clone_platform (\<lambda>_. None) (\<lambda>_. False) [97] [114] two_app root_store =
      Some (result, git, bucket')" using conjunct1 [OF keeps] by (metis not_None_eq prod_cases3)
  have repo: "demo_repo [115] \<in> set (gd_repos (app_git two_app))" "rp_id (demo_repo [115]) = [115]"
    by (simp_all add: two_app_def)
  let ?W = "lr_target ` set [branch_ref (demo_branch\<lparr>b_id := [106], b_repo := [115], b_sha := root_sha\<rparr>)]"
  have "root_sha \<noteq> []" by (rule sha_neq_Nil [OF root_shas(2)])
  then have "needed (getCommit clone_platform (app_git two_app) root_store [115]) (getTreeEntries clone_platform root_store) {[]} ?W CommitRole root_sha"
    by (intro needed_want) (simp_all add: demo_branch_def)
  then show ?thesis using conjunct2 [OF keeps] d repo two_refs_listed by fastforce
qed

lemma root_cleaned:
  "cleanupRepoGitObjects clone_platform (\<lambda>_. None) (app_git root_app) (\<lambda>_. False) [114] [root_sha] root_store =
    Some (Inr (delete_chunks (\<lambda>_. False) [root_sha] root_store))"
  by (simp add: cleanupRepoGitObjects_def root_app_def)

theorem cleanup_exact_witness:
  "\<exists>bucket'. cleanupRepoGitObjects clone_platform (\<lambda>_. None) (app_git root_app) (\<lambda>_. False) [114] [root_sha] root_store =
      Some (Inr bucket') \<and>
    getRawObject clone_platform bucket' root_sha = Inr None \<and>
    getRawObject clone_platform bucket' root_tree_sha = getRawObject clone_platform root_store root_tree_sha"
  using cleanup_exact [OF root_cleaned, of root_sha] cleanup_exact [OF root_cleaned, of root_tree_sha] root_cleaned root_neq
  by (simp add: root_app_def)

theorem forked_upstream_loses_branches_witness:
  "\<exists>e git. delete_repository clone_platform (\<lambda>_. None) (\<lambda>_. False) [97] [114] forked_app root_store = Some (Inl e, git, root_store) \<and>
    gd_repos git = [demo_repo [114], demo_repo [115]] \<and> (\<forall>b. \<not> own_branch git [114] b) \<and>
    own_branch (app_git forked_app) [114] (demo_branch\<lparr>b_sha := root_sha\<rparr>)"
proof -
  obtain access where a: "requireRepoAdmin forked_app [114] (Some [97]) = Inr access"
    using forked_admin by blast
  have f: "\<lparr>fk_id = [1], fk_repo = [115], fk_upstream = [114], fk_createdAt = 0\<rparr> \<in> set (gd_forks (app_git forked_app))"
    by (simp add: forked_app_def)
  have "gd_repos (app_git forked_app) = [demo_repo [114], demo_repo [115]]" by (simp add: forked_app_def two_app_def)
  moreover have "own_branch (app_git forked_app) [114] (demo_branch\<lparr>b_sha := root_sha\<rparr>)"
    by (simp add: own_branch_def forked_app_def two_app_def demo_branch_def)
  ultimately show ?thesis
    using forked_upstream_loses_branches [OF a f, of clone_platform "\<lambda>_. None" "\<lambda>_. False" root_store] by simp
qed

definition tagged_store :: bucket where
  "tagged_store = store_raw clone_platform (loose_object (js ''tag'') tag_content) root_store"

definition tagged_db :: git_db where
  "tagged_db = \<lparr>gd_repos = [demo_repo [114], demo_repo [115]], gd_branches = [demo_branch\<lparr>b_sha := root_sha\<rparr>],
    gd_tags = [\<lparr>t_id = [107], t_repo = [115], t_name = js ''v1'', t_sha = tag_sha, t_message = None, t_taggerName = None,
      t_taggerEmail = None, t_createdAt = 0\<rparr>],
    gd_commits = [], gd_forks = [], gd_remotes = []\<rparr>"

lemma tagged_objects:
  "getObject clone_platform tagged_store tag_sha = Inr (Some (js ''tag'', tag_content))"
  "getObject clone_platform tagged_store root_sha = Inr (Some (js ''commit'', encodeCommitContent root_commit))"
proof -
  let ?t = "loose_object (js ''tree'') []" and ?c = "loose_object (js ''commit'') (encodeCommitContent root_commit)"
    and ?g = "loose_object (js ''tag'') tag_content"
  have dig: "pf_digest clone_platform = len_digest" by (simp add: clone_platform_def)
  have neq: "len_digest ?g \<noteq> len_digest ?t" "len_digest ?g \<noteq> len_digest ?c" "len_digest ?t \<noteq> len_digest ?c"
    by (rule loose_digest_neq; simp add: utf8_encode_ascii js_simps hi_surr_def lo_surr_def)+
  have "inj_on len_digest {?t, ?c, ?g}"
    by (rule inj_onI) (elim insertE emptyE, simp_all only: neq neq [symmetric] not_False_eq_True)
  then have nc: "no_collision clone_platform root_store {?g}"
    unfolding no_collision_def dig by (rule inj_on_subset) (use root_raws in auto)
  have addr: "content_addressed clone_platform root_store" using root_objects(3) by (simp add: canonical_store_def)
  show "getObject clone_platform tagged_store tag_sha = Inr (Some (js ''tag'', tag_content))"
    unfolding tagged_store_def tag_sha_def dig [symmetric] by (rule store_loose_get [OF _ addr nc]) simp_all
  have "getRawObject clone_platform root_store root_sha = Inr (Some ?c)"
    using canonical_object [OF clone_platform_ok root_objects(3,2)] by simp
  from store_raw_keeps [OF this, of ?g] show "getObject clone_platform tagged_store root_sha = Inr (Some (js ''commit'', encodeCommitContent root_commit))"
    unfolding tagged_store_def by (rule getObject_raw) (simp add: decodeObject_loose)
qed

theorem tagged_history_removed_witness:
  "\<exists>bucket'. cleanupRepoGitObjects clone_platform (\<lambda>_. None) tagged_db (\<lambda>_. False) [114] [root_sha] tagged_store = Some (Inr bucket') \<and>
    getObject clone_platform tagged_store root_sha = Inr (Some (js ''commit'', encodeCommitContent root_commit)) \<and>
    getRawObject clone_platform bucket' root_sha = Inr None"
proof -
  let ?tag = "hd (gd_tags tagged_db)"
  have tag: "lr_target (tag_ref ?tag) = tag_sha" by (simp add: tagged_db_def)
  have refs: "listAllRefs (\<lambda>_. None) tagged_db (rp_id (demo_repo [115])) = Inr [tag_ref ?tag]"
    by (simp add: listAllRefs_def listBranches_def listTags_def tagged_db_def demo_branch_def
      isValidRepoId_def js_trim_def js_ws_def MAX_REPO_ID_LENGTH_def repo_id_char_def withDrizzleFallback_def js_sort_def Let_def)
  have index: "getCommitFromIndex tagged_db (rp_id (demo_repo [115])) tag_sha = None"
    by (simp add: getCommitFromIndex_def tagged_db_def sql_get_def)
  have others: "filter (\<lambda>r. rp_id r \<noteq> [114]) (gd_repos tagged_db) = [demo_repo [115]]" by (simp add: tagged_db_def)
  have ne: "root_sha \<noteq> tag_sha" using tagged_objects by (auto simp: js_simps)
  note reach = tag_reaches_itself [OF tagged_objects(1) index refs tag]
  have clean: "cleanupRepoGitObjects clone_platform (\<lambda>_. None) tagged_db (\<lambda>_. False) [114] [root_sha] tagged_store =
      Some (Inr (delete_chunks (\<lambda>_. False) [root_sha] tagged_store))"
    unfolding cleanupRepoGitObjects_def others using reach ne by simp
  show ?thesis
    using tagged_history_removed [OF tagged_objects(1) index refs tag others clean] clean tagged_objects(2) ne by simp
qed

end
