(* ===== verification/ExternalImport.thy ===== *)
theory ExternalImport
  imports RepoDeletion
begin

text \<open>
  Import of repositories from other git servers (\<open>application/services/source/external-import.ts\<close> and
  \<open>external-import-utils.ts\<close>). The network, the URL parser, the ids and the clock are parameters as in the
  remote fetch. The foreign key of the accounts table is outside; whether the foreign key of a remote's
  upstream is checked is the parameter \<open>upstreamChecked\<close>.
\<close>

section \<open>Addresses, names and credentials\<close>

record git_url =
  gu_host :: jsstring
  gu_path :: jsstring
  gu_owner :: jsstring
  gu_repo :: jsstring

definition strip_git :: "jsstring \<Rightarrow> jsstring" where
  "strip_git s = (if js_ends_with s (js ''.git'') then take (length s - 4) s else s)"

definition parseGitUrl :: "(jsstring \<Rightarrow> url_parts option) \<Rightarrow> jsstring \<Rightarrow> git_url res" where
  "parseGitUrl parseUrl url =
    (case parseUrl (strip_git (strip_trailing_slashes (js_trim url))) of
       None \<Rightarrow> Inl (Error ''Invalid Git URL'')
     | Some parsed \<Rightarrow>
         if url_protocol parsed \<noteq> js ''https:'' \<and> url_protocol parsed \<noteq> js ''http:''
         then Inl (Error ''Unsupported protocol'')
         else
           let pathParts = filter (\<lambda>p. p \<noteq> []) (js_split 47 (url_pathname parsed)) in
           if length pathParts < 2 then Inl (Error ''Git URL must include owner and repository'')
           else Inr \<lparr>gu_host = url_host parsed, gu_path = url_pathname parsed,
             gu_owner = js_join [47] (butlast pathParts), gu_repo = last pathParts\<rparr>)"

definition inferRepoName :: "(jsstring \<Rightarrow> url_parts option) \<Rightarrow> jsstring \<Rightarrow> jsstring res" where
  "inferRepoName parseUrl url = bind_res (parseGitUrl parseUrl url) (\<lambda>u. Inr (gu_repo u))"

definition normalizeGitUrl :: "jsstring \<Rightarrow> jsstring" where
  "normalizeGitUrl url =
    (let normalized = strip_trailing_slashes (js_trim url) in
     if js_ends_with normalized (js ''.git'') then normalized else normalized @ js ''.git'')"

text \<open>\<open>btoa\<close> throws on units above 255.\<close>

definition base64_char :: "nat \<Rightarrow> unit16" where
  "base64_char n =
    (if n < 26 then of_nat (n + 65) else if n < 52 then of_nat (n + 71) else if n < 62 then of_nat (n - 4)
     else if n = 62 then 43 else 47)"

fun base64_units :: "nat list \<Rightarrow> jsstring" where
  "base64_units [] = []"
| "base64_units [a] = [base64_char (a div 4), base64_char (a mod 4 * 16), 61, 61]"
| "base64_units [a, b] = [base64_char (a div 4), base64_char (a mod 4 * 16 + b div 16), base64_char (b mod 16 * 4), 61]"
| "base64_units (a # b # c # rest) =
    base64_char (a div 4) # base64_char (a mod 4 * 16 + b div 16) # base64_char (b mod 16 * 4 + c div 64) #
    base64_char (c mod 64) # base64_units rest"

definition btoa :: "jsstring \<Rightarrow> jsstring res" where
  "btoa s = (if list_ex (\<lambda>c. unat c > 255) s then Inl (Error ''InvalidCharacterError'') else Inr (base64_units (map unat s)))"

definition buildBasicAuthHeader :: "jsstring \<Rightarrow> jsstring \<Rightarrow> jsstring res" where
  "buildBasicAuthHeader username password =
    bind_res (btoa (username @ js '':'' @ password)) (\<lambda>encoded. Inr (js ''Basic '' @ encoded))"

definition buildBearerAuthHeader :: "jsstring \<Rightarrow> jsstring" where
  "buildBearerAuthHeader token = js ''Bearer '' @ token"

record import_auth =
  ia_token :: "jsstring option"
  ia_username :: "jsstring option"
  ia_password :: "jsstring option"

definition buildAuthHeader :: "import_auth option \<Rightarrow> jsstring option res" where
  "buildAuthHeader auth =
    (case auth of
       None \<Rightarrow> Inr None
     | Some a \<Rightarrow>
         (case truthy (ia_token a) of
            Some token \<Rightarrow> Inr (Some (buildBearerAuthHeader token))
          | None \<Rightarrow>
              (case (truthy (ia_username a), truthy (ia_password a)) of
                 (Some username, Some password) \<Rightarrow> bind_res (buildBasicAuthHeader username password) (\<lambda>h. Inr (Some h))
               | _ \<Rightarrow> Inr None)))"

text \<open>\<open>toLowerCase\<close> as far as the next steps see it: besides the capitals, the Kelvin sign becomes a \<open>k\<close> and
  the dotted capital I an \<open>i\<close> with a combining dot; what else lies outside ASCII stays outside, and is
  replaced alike.\<close>

definition lower_unit :: "unit16 \<Rightarrow> jsstring" where
  "lower_unit c =
    (if 65 \<le> unat c \<and> unat c \<le> 90 then [c + 32] else if c = 0x212A then [107] else if c = 0x130 then [105, 0x307] else [c])"

definition import_char :: "unit16 \<Rightarrow> bool" where
  "import_char c \<longleftrightarrow>
    (let n = unat c in 97 \<le> n \<and> n \<le> 122 \<or> 48 \<le> n \<and> n \<le> 57 \<or> n = 46 \<or> n = 95 \<or> n = 45)"

text \<open>\<open>-+\<close> by one dash.\<close>

fun join_dashes :: "jsstring \<Rightarrow> jsstring" where
  "join_dashes (c # d # cs) = (if c = 45 \<and> d = 45 then join_dashes (d # cs) else c # join_dashes (d # cs))"
| "join_dashes cs = cs"

text \<open>\<open>/^-|-$/g\<close>: a dash at the start, then one at the end of what is left.\<close>

definition drop_dashes :: "jsstring \<Rightarrow> jsstring" where
  "drop_dashes s =
    (let t = (if js_starts_with s [45] then tl s else s) in if js_ends_with t [45] then butlast t else t)"

definition sanitizeImportName :: "jsstring \<Rightarrow> jsstring" where
  "sanitizeImportName name =
    take 100 (drop_dashes (join_dashes (map (\<lambda>c. if import_char c then c else 45) (concat (map lower_unit name)))))"

section \<open>Refs\<close>

definition HEADS :: jsstring where "HEADS = js ''refs/heads/''"
definition TAGS :: jsstring where "TAGS = js ''refs/tags/''"

definition is_head :: "remote_ref \<Rightarrow> bool" where "is_head ref \<longleftrightarrow> js_starts_with (rf_name ref) HEADS"
definition is_tag :: "remote_ref \<Rightarrow> bool" where
  "is_tag ref \<longleftrightarrow> js_starts_with (rf_name ref) TAGS \<and> \<not> js_ends_with (rf_name ref) (js ''^{}'')"
definition head_name :: "remote_ref \<Rightarrow> jsstring" where "head_name ref = drop (length HEADS) (rf_name ref)"
definition tag_name :: "remote_ref \<Rightarrow> jsstring" where "tag_name ref = drop (length TAGS) (rf_name ref)"

definition resolveDefaultBranch :: "remote_ref list \<Rightarrow> jsstring option \<Rightarrow> jsstring" where
  "resolveDefaultBranch refs advertised =
    (case truthy advertised of
       Some branch \<Rightarrow> branch
     | None \<Rightarrow>
         let heads = map head_name (filter is_head refs) in
         if js ''main'' \<in> set heads then js ''main'' else if js ''master'' \<in> set heads then js ''master''
         else (case heads of h # _ \<Rightarrow> h | [] \<Rightarrow> js ''main''))"

definition countBranches :: "remote_ref list \<Rightarrow> nat" where "countBranches refs = length (filter is_head refs)"
definition countTags :: "remote_ref list \<Rightarrow> nat" where "countTags refs = length (filter is_tag refs)"

text \<open>The ids that the operations draw: one function for each table, by the position of the row.\<close>

record import_ids =
  im_repo :: jsstring
  im_branch :: "nat \<Rightarrow> jsstring"
  im_tag :: "nat \<Rightarrow> jsstring"
  im_commit :: "nat \<Rightarrow> jsstring"
  im_remote :: jsstring

definition import_branch :: "import_ids \<Rightarrow> int \<Rightarrow> jsstring \<Rightarrow> jsstring \<Rightarrow> nat \<times> remote_ref \<Rightarrow> git_branch" where
  "import_branch ids timestamp repoId defaultBranch x =
    (let (i, ref) = x in
     \<lparr>b_id = im_branch ids i, b_repo = repoId, b_name = head_name ref, b_sha = rf_target ref,
      b_default = (head_name ref = defaultBranch), b_protected = False, b_createdAt = timestamp, b_updatedAt = timestamp\<rparr>)"

definition import_tag :: "import_ids \<Rightarrow> int \<Rightarrow> jsstring \<Rightarrow> nat \<times> remote_ref \<Rightarrow> git_tag" where
  "import_tag ids timestamp repoId x =
    (let (i, ref) = x in
     \<lparr>t_id = im_tag ids i, t_repo = repoId, t_name = tag_name ref, t_sha = rf_target ref, t_message = None,
      t_taggerName = None, t_taggerEmail = None, t_createdAt = timestamp\<rparr>)"

text \<open>The statements of a loop, one by one: the first failure ends it, what came before stays.\<close>

definition write_each :: "('r \<Rightarrow> git_db \<Rightarrow> git_db res) \<Rightarrow> 'r list \<Rightarrow> unit res \<times> git_db \<Rightarrow> unit res \<times> git_db" where
  "write_each ins rows st = fold (\<lambda>r. then_write (ins r)) rows st"

definition clear_refs :: "jsstring \<Rightarrow> git_db \<Rightarrow> git_db" where
  "clear_refs repoId db =
    db\<lparr>gd_branches := sql_delete (\<lambda>b. b_repo b = repoId) (gd_branches db),
       gd_tags := sql_delete (\<lambda>t. t_repo t = repoId) (gd_tags db)\<rparr>"

definition replaceStoredRefs ::
  "import_ids \<Rightarrow> int \<Rightarrow> jsstring \<Rightarrow> remote_ref list \<Rightarrow> jsstring \<Rightarrow> git_db \<Rightarrow> unit res \<times> git_db" where
  "replaceStoredRefs ids timestamp repoId refs defaultBranch db =
    write_each insert_tag (map (import_tag ids timestamp repoId) (enumerate 0 (filter is_tag refs)))
      (write_each insert_branch (map (import_branch ids timestamp repoId defaultBranch) (enumerate 0 (filter is_head refs)))
        (Inr (), clear_refs repoId db))"

text \<open>A commit that cannot be decoded or indexed is logged and passed over.\<close>

definition index_object :: "import_ids \<Rightarrow> jsstring \<Rightarrow> nat \<times> unpacked_object \<Rightarrow> nat \<times> git_db \<Rightarrow> nat \<times> git_db" where
  "index_object ids repoId x st =
    (let (i, ob) = x; (indexed, db) = st in
     if ro_type ob \<noteq> js ''commit'' then st
     else
       case bind_res (decodeCommit (ro_content ob)) (\<lambda>commit.
           indexCommit (im_commit ids i) repoId (commit\<lparr>cm_sha := uo_sha ob\<rparr>) db) of
         Inl _ \<Rightarrow> st
       | Inr db' \<Rightarrow> (indexed + 1, db'))"

definition indexCommitObjects :: "import_ids \<Rightarrow> jsstring \<Rightarrow> unpacked_object list \<Rightarrow> git_db \<Rightarrow> nat \<times> git_db" where
  "indexCommitObjects ids repoId objects db = fold (index_object ids repoId) (enumerate 0 objects) (0, db)"

section \<open>Import\<close>

record import_input =
  ii_accountId :: jsstring
  ii_url :: jsstring
  ii_name :: "jsstring option"
  ii_authHeader :: "jsstring option"
  ii_description :: "jsstring option"
  ii_visibility :: "jsstring option"

record import_result =
  ir_repositoryId :: jsstring
  ir_name :: jsstring
  ir_defaultBranch :: jsstring
  ir_branchCount :: nat
  ir_tagCount :: nat
  ir_commitCount :: nat
  ir_remoteUrl :: jsstring

definition repo_clash :: "repo_row \<Rightarrow> repo_row \<Rightarrow> bool" where
  "repo_clash a b \<longleftrightarrow> rp_id a = rp_id b \<or> (rp_account a = rp_account b \<and> rp_name a = rp_name b)"

definition insert_repo :: "repo_row \<Rightarrow> git_db \<Rightarrow> git_db res" where
  "insert_repo r db = bind_res (sql_insert_unique repo_clash r (gd_repos db)) (\<lambda>rows. Inr (db\<lparr>gd_repos := rows\<rparr>))"

definition insert_origin :: "bool \<Rightarrow> remote_row \<Rightarrow> git_db \<Rightarrow> git_db res" where
  "insert_origin upstreamChecked r db =
    (if upstreamChecked \<and> \<not> has_repo db (rt_upstream r) then Inl (Error ''FOREIGN KEY constraint failed'')
     else insert_remote r db)"

text \<open>The body of the \<open>try\<close>, and what the \<open>catch\<close> makes of a failure: its own failure is logged only.\<close>

definition import_metadata ::
  "import_ids \<Rightarrow> int \<Rightarrow> bool \<Rightarrow> jsstring \<Rightarrow> fetch_result \<Rightarrow> jsstring \<Rightarrow> git_db \<Rightarrow> unit res \<times> git_db" where
  "import_metadata ids timestamp upstreamChecked gitUrl fetched defaultBranch db =
    (case replaceStoredRefs ids timestamp (im_repo ids) (fr_refs fetched) defaultBranch db of
       (Inl e, db) \<Rightarrow> (Inl e, db)
     | (Inr _, db) \<Rightarrow>
         then_write (insert_origin upstreamChecked \<lparr>rt_id = im_remote ids, rt_repo = im_repo ids, rt_name = js ''origin'',
             rt_upstream = [], rt_url = Some gitUrl, rt_lastFetchedAt = Some timestamp, rt_createdAt = timestamp\<rparr>)
           (Inr (), snd (indexCommitObjects ids (im_repo ids) (fr_objects fetched) db)))"

definition undo_import :: "jsstring \<Rightarrow> git_db \<Rightarrow> git_db" where
  "undo_import repoId db = (case delete_repo_row repoId db of Inl _ \<Rightarrow> db | Inr db' \<Rightarrow> db')"

definition import_row :: "import_ids \<Rightarrow> int \<Rightarrow> import_input \<Rightarrow> jsstring \<Rightarrow> jsstring \<Rightarrow> jsstring \<Rightarrow> repo_row" where
  "import_row ids timestamp input gitUrl localName defaultBranch =
    \<lparr>rp_id = im_repo ids, rp_account = ii_accountId input, rp_name = localName,
     rp_description = Some (case truthy (ii_description input) of Some d \<Rightarrow> d | None \<Rightarrow> js ''Imported from '' @ gitUrl),
     rp_visibility = (case truthy (ii_visibility input) of Some v \<Rightarrow> v | None \<Rightarrow> js ''private''),
     rp_defaultBranch = defaultBranch, rp_forkedFrom = None, rp_remoteCloneUrl = Some gitUrl,
     rp_stars = 0, rp_forks = 0, rp_gitEnabled = True, rp_createdAt = timestamp, rp_updatedAt = timestamp\<rparr>"

text \<open>What follows the fetch.\<close>

definition import_fetched ::
  "platform \<Rightarrow> bool \<Rightarrow> import_ids \<Rightarrow> int \<Rightarrow> import_input \<Rightarrow> jsstring \<Rightarrow> jsstring \<Rightarrow> fetch_result \<Rightarrow> git_db \<Rightarrow> bucket \<Rightarrow>
    import_result res \<times> git_db \<times> bucket" where
  "import_fetched pf upstreamChecked ids timestamp input gitUrl localName fetched db bucket =
    (let defaultBranch = resolveDefaultBranch (fr_refs fetched) (fr_defaultBranch fetched);
         bucket = snd (ingestObjects pf (fr_objects fetched) bucket) in
     case insert_repo (import_row ids timestamp input gitUrl localName defaultBranch) db of
       Inl e \<Rightarrow> (Inl e, db, bucket)
     | Inr db \<Rightarrow>
         (case import_metadata ids timestamp upstreamChecked gitUrl fetched defaultBranch db of
            (Inl e, db) \<Rightarrow> (Inl e, undo_import (im_repo ids) db, bucket)
          | (Inr _, db) \<Rightarrow>
              (Inr \<lparr>ir_repositoryId = im_repo ids, ir_name = localName, ir_defaultBranch = defaultBranch,
                 ir_branchCount = countBranches (fr_refs fetched), ir_tagCount = countTags (fr_refs fetched),
                 ir_commitCount = length (filter (\<lambda>ob. ro_type ob = js ''commit'') (fr_objects fetched)),
                 ir_remoteUrl = gitUrl\<rparr>, db, bucket)))"

definition import_name :: "(jsstring \<Rightarrow> url_parts option) \<Rightarrow> import_input \<Rightarrow> jsstring res" where
  "import_name parseUrl input =
    map_sum id sanitizeImportName
      (case truthy (ii_name input) of Some name \<Rightarrow> Inr name | None \<Rightarrow> inferRepoName parseUrl (ii_url input))"

definition importExternalRepository ::
  "platform \<Rightarrow> (jsstring \<Rightarrow> url_parts option) \<Rightarrow> (jsstring \<Rightarrow> bool) \<Rightarrow> (http_request \<Rightarrow> http_response res) \<Rightarrow> bool \<Rightarrow>
    import_ids \<Rightarrow> int \<Rightarrow> import_input \<Rightarrow> git_db \<Rightarrow> bucket \<Rightarrow> import_result res \<times> git_db \<times> bucket" where
  "importExternalRepository pf parseUrl isPrivateIP fetch upstreamChecked ids timestamp input db bucket =
    (let gitUrl = normalizeGitUrl (ii_url input) in
     case import_name parseUrl input of
       Inl e \<Rightarrow> (Inl e, db, bucket)
     | Inr localName \<Rightarrow>
         if localName = [] then (Inl (Error ''Could not determine a valid repository name from the URL''), db, bucket)
         else if sql_get (\<lambda>r. rp_account r = ii_accountId input \<and> rp_name r = localName) (gd_repos db) \<noteq> None
         then (Inl (Error ''Repository already exists in this space''), db, bucket)
         else
           case fetchRemoteRepository pf parseUrl isPrivateIP fetch
               \<lparr>fi_url = gitUrl, fi_authHeader = ii_authHeader input, fi_maxPackBytes = None, fi_allowPrivateHosts = None\<rparr> of
             Inl e \<Rightarrow> (Inl e, db, bucket)
           | Inr fetched \<Rightarrow> import_fetched pf upstreamChecked ids timestamp input gitUrl localName fetched db bucket)"

section \<open>Updates\<close>

record fetch_remote_result =
  fu_newCommits :: nat
  fu_updatedBranches :: "jsstring list"
  fu_newTags :: "jsstring list"

text \<open>The two updates of rows after the refs.\<close>

definition touch_origin :: "jsstring \<Rightarrow> jsstring \<Rightarrow> int \<Rightarrow> remote_row option \<Rightarrow> git_db \<Rightarrow> git_db" where
  "touch_origin repoId defaultBranch timestamp remote db =
    (let db = db\<lparr>gd_repos := sql_update (\<lambda>r. rp_id r = repoId)
         (\<lambda>r. r\<lparr>rp_defaultBranch := defaultBranch, rp_updatedAt := timestamp\<rparr>) (gd_repos db)\<rparr> in
     case remote of
       None \<Rightarrow> db
     | Some x \<Rightarrow> db\<lparr>gd_remotes := sql_update (\<lambda>r. rt_id r = rt_id x) (\<lambda>r. r\<lparr>rt_lastFetchedAt := Some timestamp\<rparr>) (gd_remotes db)\<rparr>)"

definition updated_branches :: "git_branch list \<Rightarrow> remote_ref list \<Rightarrow> jsstring list" where
  "updated_branches existing refs =
    (let before = map_from (map (\<lambda>b. (b_name b, b_sha b)) existing) in
     map head_name (filter (\<lambda>ref. is_head ref \<and> map_get before (head_name ref) \<noteq> Some (rf_target ref)) refs))"

definition new_tags :: "git_tag list \<Rightarrow> remote_ref list \<Rightarrow> jsstring list" where
  "new_tags existing refs = map tag_name (filter (\<lambda>ref. is_tag ref \<and> tag_name ref \<notin> t_name ` set existing) refs)"

definition fetchRemoteUpdates ::
  "platform \<Rightarrow> (jsstring \<Rightarrow> url_parts option) \<Rightarrow> (jsstring \<Rightarrow> bool) \<Rightarrow> (http_request \<Rightarrow> http_response res) \<Rightarrow>
    import_ids \<Rightarrow> int \<Rightarrow> jsstring \<Rightarrow> git_db \<Rightarrow> bucket \<Rightarrow> fetch_remote_result res \<times> git_db \<times> bucket" where
  "fetchRemoteUpdates pf parseUrl isPrivateIP fetch ids timestamp repoId db bucket =
    (case Option.bind (sql_get (\<lambda>r. rp_id r = repoId) (gd_repos db)) (\<lambda>r. truthy (rp_remoteCloneUrl r)) of
       None \<Rightarrow> (Inl (Error ''Repository does not have a remote clone URL''), db, bucket)
     | Some remoteCloneUrl \<Rightarrow>
         let existingBranches = filter (\<lambda>b. b_repo b = repoId) (gd_branches db);
             existingTags = filter (\<lambda>t. t_repo t = repoId) (gd_tags db);
             remote = sql_get (\<lambda>r. rt_repo r = repoId \<and> rt_name r = js ''origin'') (gd_remotes db) in
         case fetchRemoteRepository pf parseUrl isPrivateIP fetch
             \<lparr>fi_url = remoteCloneUrl, fi_authHeader = None, fi_maxPackBytes = None, fi_allowPrivateHosts = None\<rparr> of
           Inl e \<Rightarrow> (Inl e, db, bucket)
         | Inr fetched \<Rightarrow>
             let defaultBranch = resolveDefaultBranch (fr_refs fetched) (fr_defaultBranch fetched);
                 bucket = snd (ingestObjects pf (fr_objects fetched) bucket);
                 (newCommits, db) = indexCommitObjects ids repoId (fr_objects fetched) db in
             case replaceStoredRefs ids timestamp repoId (fr_refs fetched) defaultBranch db of
               (Inl e, db) \<Rightarrow> (Inl e, db, bucket)
             | (Inr _, db) \<Rightarrow>
                 (Inr \<lparr>fu_newCommits = newCommits, fu_updatedBranches = updated_branches existingBranches (fr_refs fetched),
                    fu_newTags = new_tags existingTags (fr_refs fetched)\<rparr>,
                  touch_origin repoId defaultBranch timestamp remote db, bucket))"

end
