(* ===== verification/ImportText.thy ===== *)
theory ImportText
  imports ExternalImport
begin

text \<open>
  The texts of the import (\<open>external-import-utils.ts\<close>): the names it gives to repositories are well formed, and the
  basic header it sends is what the git server reads (\<open>server/routes/git-smart-http.ts\<close>).
\<close>

section \<open>Names\<close>

definition no_double :: "jsstring \<Rightarrow> bool" where
  "no_double s \<longleftrightarrow> (\<forall>i. Suc i < length s \<longrightarrow> \<not> (s ! i = 45 \<and> s ! Suc i = 45))"

lemma no_double_simps [simp]:
  "no_double []" "no_double [c]"
  "no_double (c # d # cs) \<longleftrightarrow> \<not> (c = 45 \<and> d = 45) \<and> no_double (d # cs)"
proof -
  show "no_double (c # d # cs) \<longleftrightarrow> \<not> (c = 45 \<and> d = 45) \<and> no_double (d # cs)"
  proof
    assume l: "no_double (c # d # cs)"
    have "\<not> (c = 45 \<and> d = 45)" using l [unfolded no_double_def, rule_format, of 0] by simp
    moreover have "no_double (d # cs)" unfolding no_double_def
      using l [unfolded no_double_def, rule_format, of "Suc i" for i] by simp
    ultimately show "\<not> (c = 45 \<and> d = 45) \<and> no_double (d # cs)" by blast
  next
    assume "\<not> (c = 45 \<and> d = 45) \<and> no_double (d # cs)"
    then show "no_double (c # d # cs)" by (auto simp: no_double_def nth_Cons split: nat.splits)
  qed
qed (simp_all add: no_double_def)

lemma no_double_append: "no_double (s @ t) \<Longrightarrow> no_double s \<and> no_double t"
proof -
  assume st: "no_double (s @ t)"
  have "no_double s" unfolding no_double_def
  proof (intro allI impI)
    fix i assume "Suc i < length s"
    then show "\<not> (s ! i = 45 \<and> s ! Suc i = 45)"
      using st [unfolded no_double_def, rule_format, of i] by (simp add: nth_append)
  qed
  moreover have "no_double t" unfolding no_double_def
  proof (intro allI impI)
    fix i assume "Suc i < length t"
    then show "\<not> (t ! i = 45 \<and> t ! Suc i = 45)"
      using st [unfolded no_double_def, rule_format, of "length s + i"] by (simp add: nth_append)
  qed
  ultimately show ?thesis by blast
qed

lemma join_dashes_shape: "no_double (join_dashes s) \<and> set (join_dashes s) \<subseteq> set s \<and> (s \<noteq> [] \<longrightarrow> join_dashes s \<noteq> [] \<and> hd (join_dashes s) = hd s)"
proof (induction s rule: join_dashes.induct)
  case (1 c d cs)
  show ?case
  proof (cases "c = 45 \<and> d = 45")
    case True
    then show ?thesis using 1(1) by auto
  next
    case False
    then obtain e es where "join_dashes (d # cs) = e # es" "e = d" using 1(2) by (cases "join_dashes (d # cs)") auto
    then show ?thesis using 1(2) False by auto
  qed
qed simp_all

lemma join_dashes_id: "no_double s \<Longrightarrow> join_dashes s = s"
  by (induction s rule: join_dashes.induct) auto

definition well_named :: "jsstring \<Rightarrow> bool" where
  "well_named s \<longleftrightarrow> (\<forall>c \<in> set s. import_char c) \<and> length s \<le> 100 \<and> no_double s \<and> \<not> js_starts_with s [45]"

lemma starts_with_dash: "js_starts_with s [45] \<longleftrightarrow> s \<noteq> [] \<and> hd s = (45 :: unit16)"
  by (cases s) (auto simp: js_starts_with_def)

lemma ends_with_dash: "js_ends_with s [45] \<longleftrightarrow> s \<noteq> [] \<and> last s = (45 :: unit16)"
  by (auto simp: js_ends_with_def starts_with_dash hd_rev)

lemma drop_dashes_shape:
  assumes "no_double s"
  shows "no_double (drop_dashes s) \<and> set (drop_dashes s) \<subseteq> set s \<and> \<not> js_starts_with (drop_dashes s) [45]"
proof -
  define t where "t = (if js_starts_with s [45] then tl s else s)"
  have t: "no_double t \<and> set t \<subseteq> set s \<and> \<not> js_starts_with t [45]"
  proof (cases s)
    case (Cons c cs)
    then show ?thesis using assms by (cases cs) (auto simp: t_def starts_with_dash)
  qed (simp add: t_def starts_with_dash)
  have "no_double (butlast t)" using t no_double_append [of "butlast t" "[last t]"] by (cases "t = []") auto
  moreover have "\<not> js_starts_with (butlast t) [45]" using t by (cases t; cases "tl t") (auto simp: starts_with_dash)
  moreover have "drop_dashes s = t \<or> drop_dashes s = butlast t" by (simp add: drop_dashes_def t_def Let_def)
  moreover have "set (butlast t) \<subseteq> set s" using t in_set_butlastD by (metis subset_iff)
  ultimately show ?thesis using t by (elim disjE) simp_all
qed

lemma sanitize_well_named: "well_named (sanitizeImportName n)"
proof -
  define s where "s = map (\<lambda>c. if import_char c then c else 45) (concat (map lower_unit n))"
  have "import_char 45" by (simp add: import_char_def)
  then have "\<forall>c \<in> set s. import_char c" by (auto simp: s_def)
  then have j: "\<forall>c \<in> set (join_dashes s). import_char c" "no_double (join_dashes s)" using join_dashes_shape [of s] by blast+
  define d where "d = drop_dashes (join_dashes s)"
  have d: "\<forall>c \<in> set d. import_char c" "no_double d" "\<not> js_starts_with d [45]"
    using drop_dashes_shape [OF j(2)] j(1) by (auto simp: d_def)
  have "no_double (take 100 d)" using no_double_append [of "take 100 d" "drop 100 d"] d(2) by simp
  moreover have "\<not> js_starts_with (take 100 d) [45]" using d(3) by (cases d) (auto simp: starts_with_dash)
  ultimately show ?thesis using d(1)
    by (auto simp: sanitizeImportName_def well_named_def s_def [symmetric] d_def [symmetric] dest: in_set_takeD)
qed

lemma lower_import_char: "import_char c \<Longrightarrow> lower_unit c = [c]"
  by (auto simp: import_char_def lower_unit_def Let_def)

lemma sanitize_keeps:
  assumes "well_named s" and "\<not> js_ends_with s [45]"
  shows "sanitizeImportName s = s"
proof -
  have "\<forall>c \<in> set s. import_char c \<Longrightarrow> concat (map lower_unit s) = s"
    by (induction s) (simp_all add: lower_import_char)
  then have "concat (map lower_unit s) = s" using assms(1) by (simp add: well_named_def)
  moreover have "map (\<lambda>c. if import_char c then c else 45) s = s" using assms(1) by (auto simp: well_named_def map_idI)
  moreover have "drop_dashes s = s" using assms by (simp add: drop_dashes_def well_named_def)
  ultimately show ?thesis using assms(1) by (simp add: sanitizeImportName_def join_dashes_id well_named_def)
qed


text \<open>C39: The name of an imported repository is well formed whatever it is made from: at most a hundred lower-case
  letters, digits, dots, underscores and dashes, no two dashes in a row and none at the start; and a name that
  is well formed already, and does not end with a dash, is kept as it is.\<close>

theorem sanitized_name_type:
  "well_named (sanitizeImportName n) \<and> (well_named s \<longrightarrow> \<not> js_ends_with s [45] \<longrightarrow> sanitizeImportName s = s)"
  using sanitize_well_named sanitize_keeps by blast

theorem sanitized_name_type_witness:
  "sanitizeImportName (js ''my-repo.v2'') = js ''my-repo.v2'' \<and> well_named (sanitizeImportName (js ''--Big  Repo--''))"
proof -
  have "well_named (js ''my-repo.v2'')"
    by (simp add: well_named_def import_char_def starts_with_dash js_simps)
  moreover have "\<not> js_ends_with (js ''my-repo.v2'') [45]" by (simp add: ends_with_dash js_simps)
  ultimately show ?thesis using sanitized_name_type by blast
qed

section \<open>Credentials\<close>

fun sextets :: "nat list \<Rightarrow> nat list" where
  "sextets [] = []"
| "sextets [a] = [a div 4, a mod 4 * 16]"
| "sextets [a, b] = [a div 4, a mod 4 * 16 + b div 16, b mod 16 * 4]"
| "sextets (a # b # c # rest) = [a div 4, a mod 4 * 16 + b div 16, b mod 16 * 4 + c div 64, c mod 64] @ sextets rest"

fun padding :: "nat list \<Rightarrow> jsstring" where
  "padding [] = []"
| "padding [a] = [61, 61]"
| "padding [a, b] = [61]"
| "padding (a # b # c # rest) = padding rest"

lemma base64_units_eq: "base64_units ns = map base64_char (sextets ns) @ padding ns"
  by (induction ns rule: sextets.induct) simp_all

lemma sextets_small: "\<forall>n \<in> set ns. n < 256 \<Longrightarrow> \<forall>x \<in> set (sextets ns). x < 64"
  by (induction ns rule: sextets.induct) auto

lemma base64_char_val:
  assumes "n < 64"
  shows "base64_val (base64_char n) = Some n"
proof -
  have u: "unat (of_nat m :: unit16) = m" if "m < 65536" for m using that by (simp add: unat_of_nat)
  consider "n < 26" | "26 \<le> n" "n < 52" | "52 \<le> n" "n < 62" | "n = 62" | "n = 63" using assms by linarith
  then show ?thesis
  proof cases
    case 1
    then show ?thesis using u [of "n + 65"] by (simp add: base64_val_def base64_char_def Let_def del: of_nat_add)
  next
    case 2
    then show ?thesis using u [of "n + 71"] by (simp add: base64_val_def base64_char_def Let_def del: of_nat_add)
  next
    case 3
    then have "n = 52 + (n - 52)" "n - 52 < 10" by simp_all
    then obtain m where "n = 52 + m" "m < 10" by blast
    then show ?thesis using u [of "48 + m"] by (simp add: base64_val_def base64_char_def Let_def del: of_nat_add)
  qed (simp_all add: base64_val_def base64_char_def)
qed

lemma base64_char_plain: "n < 64 \<Longrightarrow> base64_char n \<noteq> 61 \<and> base64_char n \<notin> set [9, 10, 12, 13, 32]"
  using base64_char_val [of n] by (auto simp: base64_val_def)

lemma padding_length: "(length (sextets ns) + length (padding ns)) mod 4 = 0 \<and> length (sextets ns) mod 4 \<noteq> 1 \<and>
    (padding ns = [] \<or> padding ns = [61] \<or> padding ns = [61, 61])"
  by (induction ns rule: sextets.induct) (auto simp: mod_Suc)

lemma byte_shift: "(of_nat (k * 256 + b) :: byte) = of_nat b"
proof -
  have "(of_nat 256 :: byte) = 0" by simp
  then have "(of_nat (k * 256) :: byte) = 0" by (metis mult_zero_right of_nat_mult)
  then show ?thesis by (metis add_0 of_nat_add)
qed

lemma join_sextets:
  assumes "b < 256" and "c < 256"
  shows "a div 4 * 4 + (a mod 4 * 16 + b div 16) div 16 = (a :: nat)"
    and "(a mod 4 * 16 + b div 16) * 16 + (b mod 16 * 4 + c div 64) div 4 = a mod 4 * 256 + (b :: nat)"
    and "(b mod 16 * 4 + c div 64) * 64 + c mod 64 = b mod 16 * 256 + (c :: nat)"
proof -
  have "b div 16 < 16" "c div 64 < 4" using assms by auto
  then have d: "(a mod 4 * 16 + b div 16) div 16 = a mod 4" "(b mod 16 * 4 + c div 64) div 4 = b mod 16" by simp_all
  show "a div 4 * 4 + (a mod 4 * 16 + b div 16) div 16 = a" unfolding d by simp
  show "(b mod 16 * 4 + c div 64) * 64 + c mod 64 = b mod 16 * 256 + c"
    using div_mult_mod_eq [of c 64] by (simp add: add_mult_distrib)
  show "(a mod 4 * 16 + b div 16) * 16 + (b mod 16 * 4 + c div 64) div 4 = a mod 4 * 256 + b" unfolding d
    using div_mult_mod_eq [of b 16] by (simp add: add_mult_distrib)
qed

lemma sextets_bytes: "\<forall>n \<in> set ns. n < 256 \<Longrightarrow> base64_bytes (sextets ns) = map of_nat ns"
proof (induction ns rule: sextets.induct)
  case (2 a)
  then show ?case using join_sextets(1) [of 0 0 a] by simp
next
  case (3 a b)
  then show ?case using join_sextets(1,2) [of b 0 a] byte_shift [of "a mod 4" b]
    by (simp add: ac_simps del: of_nat_add of_nat_mult)
next
  case (4 a b c rest)
  then show ?case using join_sextets(1,2) [of b c a] join_sextets(3) [of b c] byte_shift [of "a mod 4" b]
      byte_shift [of "b mod 16" c]
    by (simp add: ac_simps del: of_nat_add of_nat_mult)
qed simp

lemma strip_padded:
  assumes "\<forall>c \<in> set u. c \<noteq> 61" and "(length u + length p) mod 4 = 0" and "p = [] \<or> p = [61] \<or> p = [61, 61]"
  shows "strip_padding (u @ p) = u"
proof -
  have "\<not> js_ends_with u [61]" "\<not> js_ends_with u [61, 61]" "\<not> js_ends_with (u @ [61]) [61, 61]"
    using assms(1) by (cases u rule: rev_cases; auto simp: js_ends_with_def js_starts_with_def)+
  then show ?thesis using assms(2,3) by (auto simp: strip_padding_def js_simps js_ends_with_def js_starts_with_def)
qed

lemma atob_btoa:
  assumes "\<forall>n \<in> set ns. n < 256"
  shows "atob (base64_units ns) = Some (map of_nat ns)"
proof -
  let ?u = "map base64_char (sextets ns)"
  have small: "\<forall>x \<in> set (sextets ns). x < 64" by (rule sextets_small [OF assms])
  then have plain: "\<forall>c \<in> set ?u. c \<noteq> 61 \<and> c \<notin> set [9, 10, 12, 13, 32]" using base64_char_plain by auto
  note pad = padding_length [of ns]
  have "filter (\<lambda>c. c \<notin> set [9, 10, 12, 13, 32]) (base64_units ns) = base64_units ns"
    unfolding base64_units_eq using plain pad by (auto simp: filter_id_conv)
  moreover have "strip_padding (base64_units ns) = ?u"
    unfolding base64_units_eq by (rule strip_padded) (use plain pad in auto)
  moreover have "\<not> list_ex (\<lambda>c. base64_val c = None) ?u" using small base64_char_val by (auto simp: list_ex_iff)
  moreover have "map (\<lambda>c. the (base64_val c)) ?u = sextets ns" using small base64_char_val by (auto intro: map_idI)
  ultimately show ?thesis using pad sextets_bytes [OF assms] by (simp add: atob_def Let_def)
qed


lemma basic_header:
  assumes "buildBasicAuthHeader u p = Inr h" and "ascii (u @ p)"
  obtains encoded where "h = js ''Basic '' @ encoded" "32 \<notin> set encoded" "encoded \<noteq> []" "atob encoded = Some (map ucast (u @ js '':'' @ p))"
proof -
  let ?s = "u @ js '':'' @ p"
  let ?ns = "map unat ?s"
  have asc: "ascii ?s" using assms(2) by (auto simp: ascii_def js_simps)
  have small: "\<forall>n \<in> set ?ns. n < 256"
  proof
    fix n assume "n \<in> set ?ns"
    then obtain c where "n = unat c" "c \<in> set ?s" by auto
    then show "n < 256" using asc by (auto simp: ascii_def dest: bspec)
  qed
  have h: "h = js ''Basic '' @ base64_units ?ns" using assms(1) by (auto simp: buildBasicAuthHeader_def btoa_def res_elims split: if_splits)
  have "32 \<notin> set (map base64_char (sextets ?ns))" using sextets_small [OF small] base64_char_plain by fastforce
  moreover have "32 \<notin> set (padding ?ns)" using padding_length [of ?ns] by auto
  ultimately have "32 \<notin> set (base64_units ?ns)" unfolding base64_units_eq by simp
  moreover have "base64_units ?ns \<noteq> []" by (cases ?ns rule: base64_units.cases) (simp_all add: js_simps)
  moreover have "map of_nat ?ns = (map ucast ?s :: bytes)" by (simp add: of_nat_unat)
  ultimately show thesis using that h atob_btoa [OF small] by simp
qed

text \<open>C40: The server reads the credentials the importer sends: from a basic header built from a user name without
  colon and a password, in ASCII, the server takes the password.\<close>

theorem credentials_roundtrip:
  assumes "buildBasicAuthHeader u p = Inr h" and "ascii (u @ p)" and "58 \<notin> set u"
  shows "basicPassword (Some h) = Some p"
proof (rule basic_header [OF assms(1,2)])
  fix encoded assume e: "h = js ''Basic '' @ encoded" "32 \<notin> set encoded" "encoded \<noteq> []" "atob encoded = Some (map ucast (u @ js '':'' @ p))"
  have "ascii (u @ js '':'' @ p)" using assms(2) by (auto simp: ascii_def js_simps)
  then have dec: "utf8_decode (map ucast (u @ js '':'' @ p)) = u @ 58 # p"
    using utf8_decode_ascii_encode [of "u @ js '':'' @ p"] by (simp add: js_simps)
  have "js_split 32 h = [js ''Basic'', encoded]"
    using js_split_append [of 32 "js ''Basic''" encoded] js_split_single [OF e(2)] unfolding e(1) by (simp add: js_simps)
  moreover have "to_lower (js ''Basic'') = js ''basic''" by (simp add: to_lower_def js_simps)
  moreover have "truthy (Some h) = Some h" unfolding e(1) by (simp add: truthy_def js_simps)
  ultimately show ?thesis using e(3,4) dec assms(3) by (simp add: basicPassword_def Let_def)
qed

theorem credentials_roundtrip_witness:
  "\<exists>h. buildBasicAuthHeader (js ''ada'') (js ''s:cret'') = Inr h \<and> basicPassword (Some h) = Some (js ''s:cret'')"
proof -
  obtain h where h: "buildBasicAuthHeader (js ''ada'') (js ''s:cret'') = Inr h"
    by (simp add: buildBasicAuthHeader_def btoa_def js_simps)
  moreover have "ascii (js ''ada'' @ js ''s:cret'')" "58 \<notin> set (js ''ada'')" by (simp_all add: ascii_def js_simps)
  ultimately show ?thesis using credentials_roundtrip [OF h] by blast
qed

end
