(* ===== verification/ImportProps.thy ===== *)
theory ImportProps
  imports ImportText
begin

text \<open>
  What an import and an update (\<open>external-import.ts\<close>) leave in the tables and in the store: nothing when they fail
  before the row of the repository is final, a copy of the remote otherwise. When the remote is the git server of
  this service, the copy is the repository of the server.
\<close>

section \<open>Undoing an import\<close>

text \<open>\<open>undone\<close>: only rows of the repository have been added, so deleting its row brings back the tables.\<close>

definition undone :: "jsstring \<Rightarrow> git_db \<Rightarrow> git_db \<Rightarrow> bool" where
  "undone repoId db db' \<longleftrightarrow> cascade_delete repoId db' = db \<and> \<not> names_upstream db' repoId"

lemma undone_undo: "undone repoId db db' \<Longrightarrow> undo_import repoId db' = db"
  by (simp add: undone_def undo_import_def delete_repo_row_def)

definition unknown_repo :: "jsstring \<Rightarrow> git_db \<Rightarrow> bool" where
  "unknown_repo repoId db \<longleftrightarrow> cascade_delete repoId db = db \<and> \<not> names_upstream db repoId"

lemma sql_delete_append [simp]: "sql_delete P (xs @ ys) = sql_delete P xs @ sql_delete P ys"
  by (simp add: sql_delete_def)

lemma sql_delete_single [simp]: "sql_delete P [x] = (if P x then [] else [x])"
  by (simp add: sql_delete_def)

lemma sql_delete_twice [simp]: "sql_delete P (sql_delete P xs) = sql_delete P xs"
  by (simp add: sql_delete_def)

lemma undone_insert_repo:
  assumes "unknown_repo (rp_id r) db" and "insert_repo r db = Inr db'"
  shows "undone (rp_id r) db db'"
  using assms by (cases db) (auto simp: undone_def unknown_repo_def insert_repo_def cascade_delete_def names_upstream_def res_elims sql_insert_unique_Inr)

lemma undone_clear: "undone repoId db db' \<Longrightarrow> undone repoId db (clear_refs repoId db')"
  by (simp add: undone_def clear_refs_def cascade_delete_def names_upstream_def)

lemma undone_insert_branch:
  "undone (b_repo b) db db' \<Longrightarrow> insert_branch b db' = Inr db2 \<Longrightarrow> undone (b_repo b) db db2"
  by (auto simp: undone_def insert_branch_Inr cascade_delete_def names_upstream_def)

lemma undone_insert_tag:
  "undone (t_repo t) db db' \<Longrightarrow> insert_tag t db' = Inr db2 \<Longrightarrow> undone (t_repo t) db db2"
  by (auto simp: undone_def insert_tag_Inr cascade_delete_def names_upstream_def)

lemma insert_commit_Inr: "insert_commit row db = Inr db' \<Longrightarrow> db' = db\<lparr>gd_commits := gd_commits db @ [row]\<rparr>"
  by (auto simp: insert_commit_def res_elims sql_insert_unique_Inr split: if_splits)

lemma commit_row_of_repo: "commit_row_of newId repoId c = Inr row \<Longrightarrow> cr_repo row = repoId \<and> cr_sha row = cm_sha c \<and> cr_id row = newId"
  by (auto simp: commit_row_of_def res_elims)

lemma indexCommit_Inr:
  "indexCommit newId repoId c db = Inr db' \<Longrightarrow>
    db' = db \<or> (\<exists>row. cr_repo row = repoId \<and> cr_id row = newId \<and> db' = db\<lparr>gd_commits := gd_commits db @ [row]\<rparr>)"
  by (auto simp: indexCommit_def res_elims split: option.splits dest!: insert_commit_Inr dest: commit_row_of_repo)

lemma undone_index:
  "undone repoId db db' \<Longrightarrow> indexCommit newId repoId c db' = Inr db2 \<Longrightarrow> undone repoId db db2"
  by (drule indexCommit_Inr) (auto simp: undone_def cascade_delete_def names_upstream_def)

lemma write_each_keeps:
  assumes "\<And>r db. r \<in> set rows \<Longrightarrow> P db \<Longrightarrow> (case ins r db of Inl _ \<Rightarrow> True | Inr db' \<Rightarrow> P db')" and "P (snd st)"
  shows "P (snd (write_each ins rows st))"
  using assms
proof (induction rows arbitrary: st)
  case (Cons r rows)
  have "P (snd (then_write (ins r) st))" using Cons.prems(1) [of r "snd st"] Cons.prems(2)
    by (cases st) (auto simp: then_write_def split: sum.splits)
  then show ?case using Cons.IH Cons.prems(1) by (simp add: write_each_def)
qed (simp add: write_each_def)

lemma undone_tags:
  assumes "undone repoId db (snd st)"
  shows "undone repoId db (snd (write_each insert_tag (map (import_tag ids timestamp repoId) xs) st))"
proof (rule write_each_keeps [where P = "undone repoId db", OF _ assms])
  fix t db2 assume "t \<in> set (map (import_tag ids timestamp repoId) xs)" "undone repoId db db2"
  moreover from this have "t_repo t = repoId" by (auto simp: import_tag_def)
  ultimately show "case insert_tag t db2 of Inl _ \<Rightarrow> True | Inr db' \<Rightarrow> undone repoId db db'"
    using undone_insert_tag [of t db db2] by (simp split: sum.splits)
qed

lemma undone_branches:
  assumes "undone repoId db (snd st)"
  shows "undone repoId db (snd (write_each insert_branch (map (import_branch ids timestamp repoId defaultBranch) xs) st))"
proof (rule write_each_keeps [where P = "undone repoId db", OF _ assms])
  fix b db2 assume "b \<in> set (map (import_branch ids timestamp repoId defaultBranch) xs)" "undone repoId db db2"
  moreover from this have "b_repo b = repoId" by (auto simp: import_branch_def)
  ultimately show "case insert_branch b db2 of Inl _ \<Rightarrow> True | Inr db' \<Rightarrow> undone repoId db db'"
    using undone_insert_branch [of b db db2] by (simp split: sum.splits)
qed

lemma undone_replace: "undone repoId db db' \<Longrightarrow> undone repoId db (snd (replaceStoredRefs ids timestamp repoId refs defaultBranch db'))"
  by (simp add: replaceStoredRefs_def undone_tags undone_branches undone_clear)

lemma undone_index_all: "undone repoId db (snd st) \<Longrightarrow> undone repoId db (snd (fold (index_object ids repoId) obs st))"
proof (induction obs arbitrary: st)
  case (Cons x obs)
  have "undone repoId db (snd (index_object ids repoId x st))" using Cons.prems
    by (auto simp: index_object_def res_elims split: prod.splits sum.splits intro: undone_index)
  then show ?case using Cons.IH by simp
qed simp

lemma import_metadata_fails:
  assumes "import_metadata ids timestamp chk gitUrl fetched dflt db1 = (Inl e, db2)" and "undone (im_repo ids) db db1"
  shows "undone (im_repo ids) db db2"
proof -
  obtain r db3 where r: "replaceStoredRefs ids timestamp (im_repo ids) (fr_refs fetched) dflt db1 = (r, db3)" by fastforce
  then have u: "undone (im_repo ids) db db3" using undone_replace [OF assms(2), of ids timestamp "fr_refs fetched" dflt] by simp
  then have "undone (im_repo ids) db (snd (indexCommitObjects ids (im_repo ids) (fr_objects fetched) db3))"
    unfolding indexCommitObjects_def by (intro undone_index_all) simp
  then show ?thesis using assms(1) u by (auto simp: import_metadata_def r then_write_def split: sum.splits)
qed


section \<open>What an import does\<close>

lemma import_cases:
  assumes "importExternalRepository pf parseUrl isPrivateIP fetch chk ids timestamp input db bucket = (r, db', bucket')"
  obtains e where "r = Inl e" "db' = db" "bucket' = bucket"
  | localName fetched where "import_name parseUrl input = Inr localName"
    "sql_get (\<lambda>r. rp_account r = ii_accountId input \<and> rp_name r = localName) (gd_repos db) = None"
    "fetchRemoteRepository pf parseUrl isPrivateIP fetch
      \<lparr>fi_url = normalizeGitUrl (ii_url input), fi_authHeader = ii_authHeader input, fi_maxPackBytes = None, fi_allowPrivateHosts = None\<rparr> = Inr fetched"
    "import_fetched pf chk ids timestamp input (normalizeGitUrl (ii_url input)) localName fetched db bucket = (r, db', bucket')"
  using assms by (auto simp: importExternalRepository_def Let_def split: sum.splits if_splits)

lemma fetched_cases:
  assumes "import_fetched pf chk ids timestamp input gitUrl localName fetched db bucket = (r, db', bucket')"
  obtains e where "insert_repo (import_row ids timestamp input gitUrl localName (resolveDefaultBranch (fr_refs fetched) (fr_defaultBranch fetched))) db = Inl e"
    "r = Inl e" "db' = db"
  | db1 db2 e where "insert_repo (import_row ids timestamp input gitUrl localName (resolveDefaultBranch (fr_refs fetched) (fr_defaultBranch fetched))) db = Inr db1"
    "import_metadata ids timestamp chk gitUrl fetched (resolveDefaultBranch (fr_refs fetched) (fr_defaultBranch fetched)) db1 = (Inl e, db2)"
    "r = Inl e" "db' = undo_import (im_repo ids) db2"
  | db1 where "insert_repo (import_row ids timestamp input gitUrl localName (resolveDefaultBranch (fr_refs fetched) (fr_defaultBranch fetched))) db = Inr db1"
    "import_metadata ids timestamp chk gitUrl fetched (resolveDefaultBranch (fr_refs fetched) (fr_defaultBranch fetched)) db1 = (Inr (), db')"
    "bucket' = snd (ingestObjects pf (fr_objects fetched) bucket)"
    "r = Inr \<lparr>ir_repositoryId = im_repo ids, ir_name = localName,
      ir_defaultBranch = resolveDefaultBranch (fr_refs fetched) (fr_defaultBranch fetched),
      ir_branchCount = countBranches (fr_refs fetched), ir_tagCount = countTags (fr_refs fetched),
      ir_commitCount = length (filter (\<lambda>ob. ro_type ob = js ''commit'') (fr_objects fetched)), ir_remoteUrl = gitUrl\<rparr>"
  using assms by (auto simp: import_fetched_def Let_def split: sum.splits prod.splits)

lemma import_row_id [simp]: "rp_id (import_row ids timestamp input gitUrl localName dflt) = im_repo ids"
  by (simp add: import_row_def)

lemma import_fails:
  assumes "unknown_repo (im_repo ids) db"
    and "importExternalRepository pf parseUrl isPrivateIP fetch chk ids timestamp input db bucket = (Inl e, db', bucket')"
  shows "db' = db"
proof (cases rule: import_cases [OF assms(2)])
  case (2 localName fetched)
  show ?thesis
  proof (cases rule: fetched_cases [OF 2(4)])
    case (2 db1 db2 e')
    have "undone (im_repo ids) db db1" using undone_insert_repo [OF _ 2(1)] assms(1) by simp
    from import_metadata_fails [OF 2(2) this] show ?thesis using 2(4) undone_undo by simp
  qed simp_all
qed simp

section \<open>What an import leaves\<close>

lemma then_write_Inr: "then_write stmt st = (Inr (), db') \<longleftrightarrow> (\<exists>db. st = (Inr (), db) \<and> stmt db = Inr db')"
  by (cases st; cases "fst st") (auto simp: then_write_def split: sum.splits)

lemma write_each_Inr: "write_each ins rows st = (Inr (), db') \<longleftrightarrow> (\<exists>db. st = (Inr (), db) \<and> insert_all ins rows db = Inr db')"
proof (induction rows arbitrary: st)
  case (Cons r rows)
  then show ?case by (auto simp: write_each_def then_write_Inr res_elims)
qed (auto simp: write_each_def)

lemma insert_all_branches: "insert_all insert_branch rows db = Inr db' \<Longrightarrow> db' = db\<lparr>gd_branches := gd_branches db @ rows\<rparr>"
proof (induction rows arbitrary: db)
  case (Cons r rows)
  then obtain db1 where "insert_branch r db = Inr db1" "insert_all insert_branch rows db1 = Inr db'" by (auto simp: res_elims)
  then show ?case using Cons.IH [of db1] by (auto simp: insert_branch_Inr)
qed simp

lemma insert_all_tags: "insert_all insert_tag rows db = Inr db' \<Longrightarrow> db' = db\<lparr>gd_tags := gd_tags db @ rows\<rparr>"
proof (induction rows arbitrary: db)
  case (Cons r rows)
  then obtain db1 where "insert_tag r db = Inr db1" "insert_all insert_tag rows db1 = Inr db'" by (auto simp: res_elims)
  then show ?case using Cons.IH [of db1] by (auto simp: insert_tag_Inr)
qed simp

lemma replaced_refs:
  assumes "replaceStoredRefs ids timestamp repoId refs dflt db = (Inr (), db')"
  shows "db' = db\<lparr>gd_branches := sql_delete (\<lambda>b. b_repo b = repoId) (gd_branches db) @
      map (import_branch ids timestamp repoId dflt) (enumerate 0 (filter is_head refs)),
    gd_tags := sql_delete (\<lambda>t. t_repo t = repoId) (gd_tags db) @
      map (import_tag ids timestamp repoId) (enumerate 0 (filter is_tag refs))\<rparr>"
  using assms by (auto simp: replaceStoredRefs_def write_each_Inr clear_refs_def dest!: insert_all_branches insert_all_tags)


text \<open>Indexing adds rows of the repository only, and one for every commit that can have a row.\<close>

definition indexable :: "unpacked_object \<Rightarrow> bool" where
  "indexable ob \<longleftrightarrow> ro_type ob = js ''commit'' \<and>
    (\<exists>c a d. decodeCommit (ro_content ob) = Inr c \<and> sigTimestampToIso (cm_author c) = Inr a \<and> sigTimestampToIso (cm_committer c) = Inr d)"

definition fresh_commits :: "import_ids \<Rightarrow> nat \<Rightarrow> git_db \<Rightarrow> bool" where
  "fresh_commits ids n db \<longleftrightarrow> (\<forall>i \<ge> n. im_commit ids i \<notin> cr_id ` set (gd_commits db))"

lemma indexed_iff: "commit_indexed db repoId sha \<longleftrightarrow> (\<exists>c \<in> set (gd_commits db). cr_repo c = repoId \<and> cr_sha c = sha)"
  by (auto simp: commit_indexed_def sql_get_def find_None_iff)

lemma indexCommit_indexed: "indexCommit newId repoId c db = Inr db' \<Longrightarrow> commit_indexed db' repoId (cm_sha c)"
  by (auto simp: indexCommit_def res_elims indexed_iff commit_at_def [abs_def] split: option.splits
      dest!: insert_commit_Inr sql_get_Some dest: commit_row_of_repo)

lemma indexCommit_ok:
  assumes "newId \<notin> cr_id ` set (gd_commits db)" and "has_repo db repoId"
    and "sigTimestampToIso (cm_author c) = Inr a" and "sigTimestampToIso (cm_committer c) = Inr d"
  shows "\<exists>db'. indexCommit newId repoId c db = Inr db'"
proof (cases "sql_get (commit_at repoId (cm_sha c)) (gd_commits db)")
  case None
  then have none: "\<forall>x \<in> set (gd_commits db). \<not> (cr_repo x = repoId \<and> cr_sha x = cm_sha c)"
    by (auto simp: sql_get_def find_None_iff commit_at_def)
  obtain row where row: "commit_row_of newId repoId c = Inr row" using assms(3,4) by (simp add: commit_row_of_def)
  note r = commit_row_of_repo [OF this]
  have "\<not> (\<exists>x \<in> set (gd_commits db). commit_clash row x)" using none r assms(1) by (auto simp: commit_clash_def)
  then show ?thesis using None r assms(2) by (simp add: indexCommit_def row insert_commit_def sql_insert_unique_def)
qed (simp add: indexCommit_def)

lemma fresh_Suc: "fresh_commits ids i db \<Longrightarrow> fresh_commits ids (Suc i) db"
  unfolding fresh_commits_def using Suc_leD by blast

lemma index_object_step:
  assumes "inj (im_commit ids)" and "fresh_commits ids i db" and "has_repo db repoId"
  shows "\<exists>n' rows. index_object ids repoId (i, ob) (n, db) = (n', db\<lparr>gd_commits := gd_commits db @ rows\<rparr>) \<and>
    (\<forall>row \<in> set rows. cr_repo row = repoId) \<and> fresh_commits ids (Suc i) (db\<lparr>gd_commits := gd_commits db @ rows\<rparr>) \<and>
    (indexable ob \<longrightarrow> commit_indexed (db\<lparr>gd_commits := gd_commits db @ rows\<rparr>) repoId (uo_sha ob))"
proof -
  let ?index = "bind_res (decodeCommit (ro_content ob)) (\<lambda>c. indexCommit (im_commit ids i) repoId (c\<lparr>cm_sha := uo_sha ob\<rparr>) db)"
  have skip: ?thesis if "index_object ids repoId (i, ob) (n, db) = (n, db)" and "\<not> indexable ob"
    using that fresh_Suc [OF assms(2)] by (auto intro!: exI [of _ n] exI [of _ "[]"])
  show ?thesis
  proof (cases "ro_type ob = js ''commit''")
    case False
    then show ?thesis by (intro skip) (simp_all add: index_object_def indexable_def)
  next
    case True
    show ?thesis
    proof (cases ?index)
      case (Inl e)
      have "\<not> indexable ob"
      proof
        assume "indexable ob"
        then obtain c a d where c: "decodeCommit (ro_content ob) = Inr c" "sigTimestampToIso (cm_author c) = Inr a"
          "sigTimestampToIso (cm_committer c) = Inr d" by (auto simp: indexable_def)
        have "\<exists>db'. indexCommit (im_commit ids i) repoId (c\<lparr>cm_sha := uo_sha ob\<rparr>) db = Inr db'"
          by (rule indexCommit_ok) (use assms(2,3) c(2,3) in \<open>auto simp: fresh_commits_def\<close>)
        then show False using Inl c(1) by auto
      qed
      then show ?thesis using True Inl by (intro skip) (simp_all add: index_object_def)
    next
      case (Inr db')
      then obtain c where c: "indexCommit (im_commit ids i) repoId (c\<lparr>cm_sha := uo_sha ob\<rparr>) db = Inr db'" by (auto simp: res_elims)
      from indexCommit_Inr [OF c] obtain rows where rows: "db' = db\<lparr>gd_commits := gd_commits db @ rows\<rparr>"
        "\<forall>row \<in> set rows. cr_repo row = repoId \<and> cr_id row = im_commit ids i"
        by (elim disjE exE) (auto intro: that [of "[]"] that [of "[row]" for row])
      have "fresh_commits ids (Suc i) db'" unfolding rows(1) fresh_commits_def
      proof (intro allI impI)
        fix j assume j: "Suc i \<le> j"
        then have "im_commit ids j \<noteq> im_commit ids i" using assms(1) by (auto dest: injD)
        then have "im_commit ids j \<notin> cr_id ` set rows" using rows(2) by auto
        moreover have "im_commit ids j \<notin> cr_id ` set (gd_commits db)" using assms(2) j by (simp add: fresh_commits_def)
        ultimately show "im_commit ids j \<notin> cr_id ` set (gd_commits (db\<lparr>gd_commits := gd_commits db @ rows\<rparr>))" by auto
      qed
      moreover have "commit_indexed db' repoId (uo_sha ob)" using indexCommit_indexed [OF c] by simp
      ultimately show ?thesis using True Inr rows by (auto simp: index_object_def)
    qed
  qed
qed

lemma index_objects:
  assumes "inj (im_commit ids)" and "fresh_commits ids i db" and "has_repo db repoId"
  shows "\<exists>n' rows. fold (index_object ids repoId) (enumerate i obs) (n, db) = (n', db\<lparr>gd_commits := gd_commits db @ rows\<rparr>) \<and>
    (\<forall>row \<in> set rows. cr_repo row = repoId) \<and>
    (\<forall>ob \<in> set obs. indexable ob \<longrightarrow> commit_indexed (db\<lparr>gd_commits := gd_commits db @ rows\<rparr>) repoId (uo_sha ob))"
  using assms(2,3)
proof (induction obs arbitrary: i n db)
  case Nil
  then show ?case by (auto intro!: exI [of _ n] exI [of _ "[]"])
next
  case (Cons ob obs)
  obtain m rows where s: "index_object ids repoId (i, ob) (n, db) = (m, db\<lparr>gd_commits := gd_commits db @ rows\<rparr>)"
    "\<forall>row \<in> set rows. cr_repo row = repoId" "fresh_commits ids (Suc i) (db\<lparr>gd_commits := gd_commits db @ rows\<rparr>)"
    "indexable ob \<longrightarrow> commit_indexed (db\<lparr>gd_commits := gd_commits db @ rows\<rparr>) repoId (uo_sha ob)"
    using index_object_step [OF assms(1) Cons.prems] by blast
  have "has_repo (db\<lparr>gd_commits := gd_commits db @ rows\<rparr>) repoId" using Cons.prems(2) by (simp add: has_repo_def)
  from Cons.IH [OF s(3) this, of m] obtain n' more where m:
    "fold (index_object ids repoId) (enumerate (Suc i) obs) (m, db\<lparr>gd_commits := gd_commits db @ rows\<rparr>) =
      (n', db\<lparr>gd_commits := gd_commits db @ rows @ more\<rparr>)" "\<forall>row \<in> set more. cr_repo row = repoId"
    "\<forall>ob \<in> set obs. indexable ob \<longrightarrow> commit_indexed (db\<lparr>gd_commits := gd_commits db @ rows @ more\<rparr>) repoId (uo_sha ob)"
    by auto
  have "indexable ob \<longrightarrow> commit_indexed (db\<lparr>gd_commits := gd_commits db @ rows @ more\<rparr>) repoId (uo_sha ob)"
    using s(4) by (auto simp: indexed_iff)
  then show ?case using m s(1,2) by (auto intro!: exI [of _ n'] exI [of _ "rows @ more"])
qed


lemma insert_origin_Inr: "insert_origin chk r db = Inr db' \<Longrightarrow>
    (chk \<longrightarrow> has_repo db (rt_upstream r)) \<and> db' = db\<lparr>gd_remotes := gd_remotes db @ [r]\<rparr>"
  by (auto simp: insert_origin_def insert_remote_def res_elims sql_insert_unique_Inr split: if_splits)

text \<open>The refs of a repository as the clients of the service lists them.\<close>

definition branches_of :: "git_db \<Rightarrow> jsstring \<Rightarrow> git_branch list" where
  "branches_of db repoId = filter (\<lambda>b. b_repo b = repoId) (gd_branches db)"

definition tags_of :: "git_db \<Rightarrow> jsstring \<Rightarrow> git_tag list" where
  "tags_of db repoId = filter (\<lambda>t. t_repo t = repoId) (gd_tags db)"

definition mirrors :: "git_db \<Rightarrow> jsstring \<Rightarrow> remote_ref list \<Rightarrow> jsstring \<Rightarrow> bool" where
  "mirrors db repoId refs dflt \<longleftrightarrow>
    map (\<lambda>b. (b_name b, b_sha b, b_default b, b_protected b)) (branches_of db repoId) =
      map (\<lambda>ref. (head_name ref, rf_target ref, head_name ref = dflt, False)) (filter is_head refs) \<and>
    map (\<lambda>t. (t_name t, t_sha t)) (tags_of db repoId) = map (\<lambda>ref. (tag_name ref, rf_target ref)) (filter is_tag refs)"

lemma map_enumerate_snd: "(\<And>i x. f (i, x) = g x) \<Longrightarrow> map f (enumerate n xs) = map g xs"
  by (induction xs arbitrary: n) simp_all

lemma replaced_mirrors:
  assumes "replaceStoredRefs ids timestamp repoId refs dflt db = (Inr (), db')"
  shows "mirrors db' repoId refs dflt"
proof -
  have all: "\<forall>b \<in> set (map (import_branch ids timestamp repoId dflt) (enumerate 0 (filter is_head refs))). b_repo b = repoId"
    "\<forall>t \<in> set (map (import_tag ids timestamp repoId) (enumerate 0 (filter is_tag refs))). t_repo t = repoId"
    by (auto simp: import_branch_def import_tag_def)
  have "branches_of db' repoId = map (import_branch ids timestamp repoId dflt) (enumerate 0 (filter is_head refs))"
    "tags_of db' repoId = map (import_tag ids timestamp repoId) (enumerate 0 (filter is_tag refs))"
    using all unfolding replaced_refs [OF assms] by (simp_all add: branches_of_def tags_of_def sql_delete_def filter_id_conv)
  then show ?thesis by (auto simp: mirrors_def import_branch_def import_tag_def intro!: map_enumerate_snd)
qed

definition origin :: "import_ids \<Rightarrow> int \<Rightarrow> jsstring \<Rightarrow> remote_row" where
  "origin ids timestamp gitUrl = \<lparr>rt_id = im_remote ids, rt_repo = im_repo ids, rt_name = js ''origin'', rt_upstream = [],
    rt_url = Some gitUrl, rt_lastFetchedAt = Some timestamp, rt_createdAt = timestamp\<rparr>"

lemma metadata_Inr:
  assumes "import_metadata ids timestamp chk gitUrl fetched dflt db = (Inr (), db')"
  obtains db2 db3 n where "replaceStoredRefs ids timestamp (im_repo ids) (fr_refs fetched) dflt db = (Inr (), db2)"
    "indexCommitObjects ids (im_repo ids) (fr_objects fetched) db2 = (n, db3)"
    "then_write (insert_origin chk (origin ids timestamp gitUrl)) (Inr (), db3) = (Inr (), db')"
proof -
  obtain r db2 where r: "replaceStoredRefs ids timestamp (im_repo ids) (fr_refs fetched) dflt db = (r, db2)" by fastforce
  obtain n db3 where i: "indexCommitObjects ids (im_repo ids) (fr_objects fetched) db2 = (n, db3)" by fastforce
  show thesis using assms by (cases r) (auto simp: import_metadata_def r i origin_def intro: that [OF _ i])
qed

lemma imported:
  assumes "importExternalRepository pf parseUrl isPrivateIP fetch chk ids timestamp input db bucket = (Inr result, db', bucket')"
    and "unknown_repo (im_repo ids) db" and "inj (im_commit ids)" and "fresh_commits ids 0 db"
  obtains fetched where "fetchRemoteRepository pf parseUrl isPrivateIP fetch
      \<lparr>fi_url = normalizeGitUrl (ii_url input), fi_authHeader = ii_authHeader input, fi_maxPackBytes = None, fi_allowPrivateHosts = None\<rparr> = Inr fetched"
    "bucket' = snd (ingestObjects pf (fr_objects fetched) bucket)"
    "ir_repositoryId result = im_repo ids" "ir_defaultBranch result = resolveDefaultBranch (fr_refs fetched) (fr_defaultBranch fetched)"
    "mirrors db' (im_repo ids) (fr_refs fetched) (ir_defaultBranch result)"
    "\<forall>ob \<in> set (fr_objects fetched). indexable ob \<longrightarrow> commit_indexed db' (im_repo ids) (uo_sha ob)"
    "cascade_delete (im_repo ids) db' = db" "chk \<longrightarrow> has_repo db' []"
proof (cases rule: import_cases [OF assms(1)])
  case (2 localName fetched)
  let ?dflt = "resolveDefaultBranch (fr_refs fetched) (fr_defaultBranch fetched)"
  show ?thesis
  proof (cases rule: fetched_cases [OF 2(4)])
    case (3 db1)
    obtain db2 db3 n where r: "replaceStoredRefs ids timestamp (im_repo ids) (fr_refs fetched) ?dflt db1 = (Inr (), db2)"
        "indexCommitObjects ids (im_repo ids) (fr_objects fetched) db2 = (n, db3)"
        "then_write (insert_origin chk (origin ids timestamp (normalizeGitUrl (ii_url input)))) (Inr (), db3) = (Inr (), db')"
      by (rule metadata_Inr [OF 3(2)])
    have db1: "has_repo db1 (im_repo ids)" "gd_commits db1 = gd_commits db" using 3(1)
      by (auto simp: insert_repo_def res_elims sql_insert_unique_Inr has_repo_def)
    have db2: "has_repo db2 (im_repo ids)" "fresh_commits ids 0 db2" using db1 assms(4)
      unfolding replaced_refs [OF r(1)] by (simp_all add: has_repo_def fresh_commits_def)
    obtain rows where rows: "db3 = db2\<lparr>gd_commits := gd_commits db2 @ rows\<rparr>"
        "\<forall>ob \<in> set (fr_objects fetched). indexable ob \<longrightarrow> commit_indexed db3 (im_repo ids) (uo_sha ob)"
      using index_objects [OF assms(3) db2(2,1), of "fr_objects fetched" 0] r(2) by (auto simp: indexCommitObjects_def)
    have db': "db' = db3\<lparr>gd_remotes := gd_remotes db3 @ [origin ids timestamp (normalizeGitUrl (ii_url input))]\<rparr>"
        "chk \<longrightarrow> has_repo db3 []"
      using r(3) by (auto simp: then_write_def origin_def dest!: insert_origin_Inr split: sum.splits)
    have "undone (im_repo ids) db db1" using undone_insert_repo [OF _ 3(1)] assms(2) by simp
    from undone_replace [OF this, of ids timestamp "fr_refs fetched" ?dflt] have "undone (im_repo ids) db db2" by (simp add: r(1))
    then have "undone (im_repo ids) db db3" using undone_index_all [where st = "(0, db2)" and obs = "enumerate 0 (fr_objects fetched)" and ids = ids and repoId = "im_repo ids" and db = db]
      by (simp add: r(2) [unfolded indexCommitObjects_def])
    then have casc: "cascade_delete (im_repo ids) db' = db" unfolding db'(1)
      by (simp add: undone_def cascade_delete_def origin_def)
    have mirr: "mirrors db' (im_repo ids) (fr_refs fetched) ?dflt" using replaced_mirrors [OF r(1)] unfolding db'(1) rows(1)
      by (simp add: mirrors_def branches_of_def tags_of_def)
    show ?thesis
      by (rule that [OF 2(3)]) (use 3(3,4) casc mirr rows(2) db' in \<open>simp_all add: commit_indexed_def has_repo_def\<close>)
  qed simp_all
qed simp_all


section \<open>Import from this server\<close>

lemma all_refs_own:
  assumes "listAllRefs adapter db repoId = Inr all" and "isValidRepoId repoId"
  shows "set all = branch_ref ` {b. own_branch db repoId b} \<union> tag_ref ` {t. own_tag db repoId t}"
proof -
  obtain bs ts where l: "listBranches adapter db repoId = Inr bs" "listTags adapter db repoId = Inr ts"
      "all = map branch_ref bs @ map tag_ref ts"
    using assms(1) unfolding listAllRefs_def bind_res_Inr_iff sum.inject by blast
  then show ?thesis using listBranches_own [OF l(1)] listTags_own [OF l(2)] assms(2) by auto
qed

lemma loaded_lists:
  assumes "loadAdvertisedRefs adapter db repoId = Inr refs"
  obtains all d where "listAllRefs adapter db repoId = Inr all" "getDefaultBranch adapter db repoId = Inr d"
  using assms unfolding loadAdvertisedRefs_def bind_res_Inr_iff by blast

lemma served_refs:
  assumes "resolveRepo db owner name = Some repo" and "isValidRepoId (rp_id repo)" and "refs_sendable (app_git db) (rp_id repo)"
    and "fetchRemoteRepository pf parseUrl isPrivateIP (git_remote pf bearer adapter db A owner name) input = Inr got"
  shows "\<exists>all d. listAllRefs adapter (app_git db) (rp_id repo) = Inr all \<and> getDefaultBranch adapter (app_git db) (rp_id repo) = Inr d \<and>
    fr_refs got = map (\<lambda>ref. \<lparr>rf_name = lr_name ref, rf_target = lr_target ref\<rparr>) all \<and> fr_defaultBranch got = map_option b_name d"
proof -
  have main: ?thesis if get: "git_remote pf bearer adapter db A owner name get = Inr info" "hq_method get = js ''GET''" "response_ok info"
    and p: "parseAdvertisement (hr_body info) = Inr advert"
    and r: "fr_refs got = filter (\<lambda>r. \<not> is_peeled r) (ad_refs advert)" "fr_defaultBranch got = ad_defaultBranch advert" for get info advert
  proof -
    obtain row refs where s: "resolveRepo db owner name = Some row" "loadAdvertisedRefs adapter (app_git db) (rp_id row) = Inr refs"
      "buildUploadPackAdvertisement refs = Inr (hr_body info)" by (rule git_remote_get [OF get(1,3,2)])
    have row: "row = repo" using s(1) assms(1) by simp
    note l = s(2) [unfolded row]
    obtain all d where a: "listAllRefs adapter (app_git db) (rp_id repo) = Inr all" "getDefaultBranch adapter (app_git db) (rp_id repo) = Inr d"
      by (rule loaded_lists [OF l])
    have "advert = \<lparr>ad_refs = map (\<lambda>ref. \<lparr>rf_name = lr_name ref, rf_target = lr_target ref\<rparr>) all, ad_defaultBranch = map_option b_name d\<rparr>"
      using parsed_advertisement [OF l s(3) a assms(3)] p by simp
    moreover have "filter (\<lambda>r. \<not> is_peeled r) (ad_refs advert) = ad_refs advert"
      using asked_for_tips [OF l s(3) p assms(3,2)] by blast
    ultimately show ?thesis using r a by simp
  qed
  show ?thesis
  proof (cases rule: fetched [OF assms(4)])
    case (1 get info advert)
    show ?thesis by (rule main [OF 1(1-4)]) (simp_all add: 1)
  next
    case (2 get info advert body post packed pack)
    show ?thesis by (rule main [OF 2(1-5,13)])
  qed
qed

text \<open>Branches and tags as pairs of name and commit.\<close>

lemma head_of_branch: "\<not> js_starts_with (b_name b) (js ''remotes/'') \<Longrightarrow>
    is_head \<lparr>rf_name = lr_name (branch_ref b), rf_target = x\<rparr> \<and> head_name \<lparr>rf_name = lr_name (branch_ref b), rf_target = x\<rparr> = b_name b"
  by (simp add: is_head_def head_name_def branch_ref_def HEADS_def js_starts_with_def)

lemma starts_both:
  assumes "js_starts_with s p" and "js_starts_with s q"
  shows "take (length q) p = take (length p) q"
proof -
  have "take (length q) p = take (length q) (take (length p) s)" using assms(1) by (simp only: js_starts_with_def)
  also have "\<dots> = take (length p) (take (length q) s)" by (simp only: take_take min.commute)
  also have "\<dots> = take (length p) q" using assms(2) by (simp only: js_starts_with_def)
  finally show ?thesis .
qed

lemma branch_name_cases:
  obtains "\<not> js_starts_with (b_name b) (js ''remotes/'')" "lr_name (branch_ref b) = HEADS @ b_name b"
  | "js_starts_with (b_name b) (js ''remotes/'')" "lr_name (branch_ref b) = js ''refs/'' @ b_name b"
    "\<not> js_starts_with (b_name b) (js ''heads/'')" "\<not> js_starts_with (b_name b) (js ''tags/'')"
proof (cases "js_starts_with (b_name b) (js ''remotes/'')")
  case True
  then show ?thesis using that(2) starts_both [OF True, of "js ''heads/''"] starts_both [OF True, of "js ''tags/''"]
    by (auto simp: branch_ref_def js_simps)
next
  case False
  then show ?thesis using that(1) by (simp add: branch_ref_def HEADS_def)
qed

lemma starts_refs:
  "js_starts_with (js ''refs/'' @ n) HEADS \<longleftrightarrow> js_starts_with n (js ''heads/'')"
  "js_starts_with (js ''refs/'' @ n) TAGS \<longleftrightarrow> js_starts_with n (js ''tags/'')"
  "\<not> js_starts_with (HEADS @ n) TAGS" "\<not> js_starts_with (TAGS @ n) HEADS"
  by (simp_all add: HEADS_def TAGS_def js_starts_with_def js_simps)

lemma remote_no_head:
  "js_starts_with (b_name b) (js ''remotes/'') \<Longrightarrow> \<not> is_head \<lparr>rf_name = lr_name (branch_ref b), rf_target = x\<rparr>"
  by (rule branch_name_cases [of b]) (simp_all add: is_head_def starts_refs)

lemma tag_no_head: "\<not> is_head \<lparr>rf_name = lr_name (tag_ref t), rf_target = x\<rparr>"
  using starts_refs(4) by (simp add: is_head_def tag_ref_def TAGS_def)

lemma branch_no_tag: "\<not> is_tag \<lparr>rf_name = lr_name (branch_ref b), rf_target = x\<rparr>"
  by (rule branch_name_cases [of b]) (simp_all add: is_tag_def starts_refs)

lemma tag_of_tag:
  assumes "94 \<notin> set (t_name t)"
  shows "is_tag \<lparr>rf_name = lr_name (tag_ref t), rf_target = x\<rparr> \<and> tag_name \<lparr>rf_name = lr_name (tag_ref t), rf_target = x\<rparr> = t_name t"
proof -
  have "94 \<notin> set (js ''refs/tags/'' @ t_name t)" using assms by (simp add: js_simps)
  from not_peeled [OF this] show ?thesis by (simp add: is_tag_def tag_name_def tag_ref_def TAGS_def js_starts_with_def)
qed


lemma mirrored_refs:
  assumes "mirrors db' repoId refs dflt" and "set refs = (\<lambda>ref. \<lparr>rf_name = lr_name ref, rf_target = lr_target ref\<rparr>) ` (branch_ref ` B \<union> tag_ref ` T)"
    and "\<forall>t \<in> T. 94 \<notin> set (t_name t)"
  shows "(\<lambda>b. (b_name b, b_sha b)) ` set (branches_of db' repoId) = (\<lambda>b. (b_name b, b_sha b)) ` {b \<in> B. \<not> js_starts_with (b_name b) (js ''remotes/'')}"
    and "(\<lambda>t. (t_name t, t_sha t)) ` set (tags_of db' repoId) = (\<lambda>t. (t_name t, t_sha t)) ` T"
proof -
  have "map (\<lambda>b. (b_name b, b_sha b)) (branches_of db' repoId) =
      map (\<lambda>(n, sha, _). (n, sha)) (map (\<lambda>b. (b_name b, b_sha b, b_default b, b_protected b)) (branches_of db' repoId))" by simp
  also have "\<dots> = map (\<lambda>ref. (head_name ref, rf_target ref)) (filter is_head refs)"
    using assms(1) unfolding mirrors_def by simp
  finally have "set (map (\<lambda>b. (b_name b, b_sha b)) (branches_of db' repoId)) = set (map (\<lambda>ref. (head_name ref, rf_target ref)) (filter is_head refs))"
    by (rule arg_cong)
  then have b: "(\<lambda>b. (b_name b, b_sha b)) ` set (branches_of db' repoId) = (\<lambda>ref. (head_name ref, rf_target ref)) ` {ref \<in> set refs. is_head ref}"
    by simp
  have "(\<lambda>t. (t_name t, t_sha t)) ` set (tags_of db' repoId) = set (map (\<lambda>t. (t_name t, t_sha t)) (tags_of db' repoId))" by simp
  then have t: "(\<lambda>t. (t_name t, t_sha t)) ` set (tags_of db' repoId) = (\<lambda>ref. (tag_name ref, rf_target ref)) ` {ref \<in> set refs. is_tag ref}"
    using assms(1) unfolding mirrors_def by simp
  let ?ref = "\<lambda>ref. \<lparr>rf_name = lr_name ref, rf_target = lr_target ref\<rparr>"
  have "{ref \<in> set refs. is_head ref} = (\<lambda>b. ?ref (branch_ref b)) ` {b \<in> B. \<not> js_starts_with (b_name b) (js ''remotes/'')}"
    unfolding assms(2) using head_of_branch remote_no_head tag_no_head by (auto simp: image_iff)
  then show "(\<lambda>b. (b_name b, b_sha b)) ` set (branches_of db' repoId) = (\<lambda>b. (b_name b, b_sha b)) ` {b \<in> B. \<not> js_starts_with (b_name b) (js ''remotes/'')}"
    unfolding b using head_of_branch by (auto simp: image_image intro!: image_eqI)
  have "{ref \<in> set refs. is_tag ref} = (\<lambda>t. ?ref (tag_ref t)) ` T"
    unfolding assms(2) using tag_of_tag branch_no_tag assms(3) by (auto simp: image_iff)
  then show "(\<lambda>t. (t_name t, t_sha t)) ` set (tags_of db' repoId) = (\<lambda>t. (t_name t, t_sha t)) ` T"
    unfolding t using tag_of_tag assms(3) by (auto simp: image_image intro!: image_eqI)
qed


section \<open>The properties of an import\<close>

lemma store_raw_keeps_all: "getRawObject pf b sha = Inr (Some raw) \<Longrightarrow>
    getRawObject pf (snd (ingestObjects pf obs b)) sha = Inr (Some raw)"
proof -
  have "getRawObject pf b sha = Inr (Some raw) \<Longrightarrow> getRawObject pf (fold (\<lambda>ob. store_raw pf (loose ob)) obs b) sha = Inr (Some raw)"
    by (induction obs arbitrary: b) (simp_all add: store_raw_keeps)
  then show "getRawObject pf b sha = Inr (Some raw) \<Longrightarrow> ?thesis" by (simp add: ingestObjects_fold)
qed

lemma import_bucket:
  assumes "importExternalRepository pf parseUrl isPrivateIP fetch chk ids timestamp input db bucket = (r, db', bucket')"
  shows "bucket' = bucket \<or> (\<exists>obs :: unpacked_object list. bucket' = snd (ingestObjects pf obs bucket))"
proof (cases rule: import_cases [OF assms])
  case (2 localName fetched)
  then have "bucket' = snd (ingestObjects pf (fr_objects fetched) bucket)"
    by (auto simp: import_fetched_def Let_def split: sum.splits prod.splits)
  then show ?thesis by blast
qed simp

text \<open>C23: A failed import leaves no rows: whatever fails (the address, the name, the remote, a ref that is listed
  twice, the row of the remote), the tables are as they were before, and every object that could be read in the
  store still can. (Objects of the pack may stay behind.)\<close>

theorem failed_import_leaves_rows:
  assumes "unknown_repo (im_repo ids) db"
    and "importExternalRepository pf parseUrl isPrivateIP fetch chk ids timestamp input db bucket = (Inl e, db', bucket')"
  shows "db' = db \<and> (\<forall>sha raw. getRawObject pf bucket sha = Inr (Some raw) \<longrightarrow> getRawObject pf bucket' sha = Inr (Some raw))"
  using import_fails [OF assms] import_bucket [OF assms(2)] store_raw_keeps_all by blast

lemma index_repos: "gd_repos (snd (fold (index_object ids repoId) obs st)) = gd_repos (snd st)"
proof (induction obs arbitrary: st)
  case (Cons x obs)
  have "gd_repos (snd (index_object ids repoId x st)) = gd_repos (snd st)"
    by (auto simp: index_object_def res_elims split: prod.splits sum.splits dest!: indexCommit_Inr)
  then show ?case using Cons.IH by simp
qed simp

lemma origin_checked:
  assumes "importExternalRepository pf parseUrl isPrivateIP fetch True ids timestamp input db bucket = (Inr result, db', bucket')"
  shows "has_repo db [] \<or> im_repo ids = []"
proof (cases rule: import_cases [OF assms])
  case (2 localName fetched)
  show ?thesis
  proof (cases rule: fetched_cases [OF 2(4)])
    case (3 db1)
    obtain db2 db3 n where r: "replaceStoredRefs ids timestamp (im_repo ids) (fr_refs fetched)
          (resolveDefaultBranch (fr_refs fetched) (fr_defaultBranch fetched)) db1 = (Inr (), db2)"
        "indexCommitObjects ids (im_repo ids) (fr_objects fetched) db2 = (n, db3)"
        "then_write (insert_origin True (origin ids timestamp (normalizeGitUrl (ii_url input)))) (Inr (), db3) = (Inr (), db')"
      by (rule metadata_Inr [OF 3(2)])
    have "gd_repos db3 = gd_repos db2"
      using index_repos [of ids "im_repo ids" "enumerate 0 (fr_objects fetched)" "(0, db2)"] r(2) by (simp add: indexCommitObjects_def)
    moreover have "gd_repos db2 = gd_repos db1" unfolding replaced_refs [OF r(1)] by simp
    moreover have "has_repo db3 []" using r(3) by (auto simp: then_write_Inr origin_def dest: insert_origin_Inr)
    ultimately show ?thesis using 3(1) by (auto simp: insert_repo_def res_elims sql_insert_unique_Inr has_repo_def)
  qed simp_all
qed simp_all

text \<open>C38: Where the foreign key of a remote's upstream is checked, as the migrations declare it, no import
  succeeds: the row of the origin names the repository with the empty id, which there is not.\<close>

theorem import_needs_unchecked_upstream:
  assumes "\<not> has_repo db []" and "im_repo ids \<noteq> []"
  shows "\<exists>e. fst (importExternalRepository pf parseUrl isPrivateIP fetch True ids timestamp input db bucket) = Inl e"
proof (cases "fst (importExternalRepository pf parseUrl isPrivateIP fetch True ids timestamp input db bucket)")
  case (Inr result)
  then obtain db' bucket' where "importExternalRepository pf parseUrl isPrivateIP fetch True ids timestamp input db bucket = (Inr result, db', bucket')"
    by (metis prod.collapse)
  from origin_checked [OF this] show ?thesis using assms by blast
qed blast




section \<open>An import that succeeds\<close>

definition no_rows :: git_db where
  "no_rows = \<lparr>gd_repos = [], gd_branches = [], gd_tags = [], gd_commits = [], gd_forks = [], gd_remotes = []\<rparr>"

definition new_ids :: import_ids where
  "new_ids = \<lparr>im_repo = js ''x'', im_branch = (\<lambda>i. replicate i 98), im_tag = (\<lambda>i. replicate i 116), im_commit = (\<lambda>i. replicate i 99),
    im_remote = js ''o''\<rparr>"

definition root_import :: import_input where
  "root_import = \<lparr>ii_accountId = [97], ii_url = js ''https://takos.jp/git/ada/r'', ii_name = Some (js ''copy''), ii_authHeader = None,
    ii_description = None, ii_visibility = None\<rparr>"

lemma unknown_no_rows [simp]: "unknown_repo r no_rows"
  by (simp add: unknown_repo_def no_rows_def cascade_delete_def names_upstream_def sql_delete_def)

lemma new_ids_fresh: "inj (im_commit new_ids)" "fresh_commits new_ids 0 no_rows"
  by (auto simp: new_ids_def fresh_commits_def no_rows_def inj_on_def replicate_eq_replicate)

lemma copy_named: "import_name parseUrl root_import = Inr (js ''copy'')"
proof -
  have "sanitizeImportName (js ''copy'') = js ''copy''"
    by (rule sanitize_keeps) (simp_all add: well_named_def import_char_def starts_with_dash ends_with_dash js_simps)
  moreover have "truthy (ii_name root_import) = Some (js ''copy'')" by (simp add: root_import_def truthy_def js_simps)
  ultimately show ?thesis by (simp add: import_name_def)
qed

lemma main_head: "is_head \<lparr>rf_name = js ''refs/heads/main'', rf_target = x\<rparr>" "\<not> is_tag \<lparr>rf_name = js ''refs/heads/main'', rf_target = x\<rparr>"
    "head_name \<lparr>rf_name = js ''refs/heads/main'', rf_target = x\<rparr> = js ''main''"
  by (simp_all add: is_head_def is_tag_def head_name_def HEADS_def TAGS_def js_starts_with_def js_simps)

lemma insert_origin_ok: "gd_remotes db = [] \<Longrightarrow> has_repo db (rt_repo r) \<Longrightarrow> \<exists>db'. insert_origin False r db = Inr db'"
  by (simp add: insert_origin_def insert_remote_def sql_insert_unique_def)

lemma root_imported:
  "\<exists>result db' B'. importExternalRepository clone_platform (\<lambda>_. Some root_url) (\<lambda>_. False) root_remote False new_ids 0 root_import no_rows [] =
    (Inr result, db', B')"
proof -
  let ?input = "\<lparr>fi_url = normalizeGitUrl (ii_url root_import), fi_authHeader = ii_authHeader root_import, fi_maxPackBytes = None,
    fi_allowPrivateHosts = None\<rparr>"
  obtain got where got: "fetchRemoteRepository clone_platform (\<lambda>_. Some root_url) (\<lambda>_. False) root_remote ?input = Inr got"
      "fr_refs got = [\<lparr>rf_name = js ''refs/heads/main'', rf_target = root_sha\<rparr>]" "fr_defaultBranch got = Some (js ''main'')"
    using root_fetched [of ?input] by (auto simp: root_import_def)
  let ?url = "normalizeGitUrl (ii_url root_import)" and ?dflt = "js ''main''"
  have dflt: "resolveDefaultBranch (fr_refs got) (fr_defaultBranch got) = ?dflt"
    by (simp add: resolveDefaultBranch_def got truthy_def js_simps)
  let ?row = "import_row new_ids 0 root_import ?url (js ''copy'') ?dflt"
  have insert: "insert_repo ?row no_rows = Inr (no_rows\<lparr>gd_repos := [?row]\<rparr>)"
    by (simp add: insert_repo_def no_rows_def sql_insert_unique_def)
  obtain db2 where db2: "replaceStoredRefs new_ids 0 (im_repo new_ids) (fr_refs got) ?dflt (no_rows\<lparr>gd_repos := [?row]\<rparr>) = (Inr (), db2)"
    by (simp add: replaceStoredRefs_def got main_head write_each_def then_write_def clear_refs_def insert_branch_def import_branch_def
        no_rows_def has_repo_def sql_insert_unique_def sql_delete_def)
  have db2_rows: "has_repo db2 (im_repo new_ids)" "gd_remotes db2 = []" "fresh_commits new_ids 0 db2"
    using new_ids_fresh(2) unfolding replaced_refs [OF db2] by (simp_all add: has_repo_def no_rows_def fresh_commits_def)
  obtain n rows where index: "indexCommitObjects new_ids (im_repo new_ids) (fr_objects got) db2 = (n, db2\<lparr>gd_commits := gd_commits db2 @ rows\<rparr>)"
    using index_objects [OF new_ids_fresh(1) db2_rows(3,1), of "fr_objects got" 0] by (auto simp: indexCommitObjects_def)
  obtain db' where "insert_origin False (origin new_ids 0 ?url) (db2\<lparr>gd_commits := gd_commits db2 @ rows\<rparr>) = Inr db'"
    using insert_origin_ok [of "db2\<lparr>gd_commits := gd_commits db2 @ rows\<rparr>" "origin new_ids 0 ?url"] db2_rows(1,2)
    by (auto simp: has_repo_def origin_def)
  then have meta: "import_metadata new_ids 0 False ?url got ?dflt (no_rows\<lparr>gd_repos := [?row]\<rparr>) = (Inr (), db')"
    by (simp add: import_metadata_def db2 index then_write_def origin_def del: js_simps)
  obtain result where f: "import_fetched clone_platform False new_ids 0 root_import ?url (js ''copy'') got no_rows [] =
      (Inr result, db', snd (ingestObjects clone_platform (fr_objects got) []))"
    unfolding import_fetched_def Let_def dflt insert sum.case meta prod.case by blast
  have free: "sql_get P (gd_repos no_rows) = None" for P by (simp add: sql_get_def no_rows_def)
  have "js ''copy'' \<noteq> []" by (simp add: js_simps)
  then have "importExternalRepository clone_platform (\<lambda>_. Some root_url) (\<lambda>_. False) root_remote False new_ids 0 root_import no_rows [] =
      (Inr result, db', snd (ingestObjects clone_platform (fr_objects got) []))"
    unfolding importExternalRepository_def Let_def copy_named sum.case got(1) free f by simp
  then show ?thesis by blast
qed


section \<open>Failures\<close>

lemma refused_import:
  "\<exists>e. importExternalRepository pf (\<lambda>_. None) (\<lambda>_. False) fetch chk new_ids 0 root_import no_rows [] = (Inl e, no_rows, [])"
proof -
  have free: "sql_get P (gd_repos no_rows) = None" for P by (simp add: sql_get_def no_rows_def)
  have "js ''copy'' \<noteq> []" by (simp add: js_simps)
  moreover have "\<exists>e. fetchRemoteRepository pf (\<lambda>_. None) (\<lambda>_. False) fetch \<lparr>fi_url = normalizeGitUrl (ii_url root_import),
      fi_authHeader = ii_authHeader root_import, fi_maxPackBytes = None, fi_allowPrivateHosts = None\<rparr> = Inl e"
    by (simp add: fetchRemoteRepository_def assertSafeRemoteUrl_def)
  ultimately show ?thesis unfolding importExternalRepository_def Let_def copy_named sum.case free by auto
qed

theorem failed_import_leaves_rows_witness:
  "\<exists>e db'. importExternalRepository clone_platform (\<lambda>_. None) (\<lambda>_. False) (\<lambda>_. Inl TypeError) False new_ids 0 root_import no_rows [] =
    (Inl e, db', []) \<and> db' = no_rows"
proof -
  obtain e where e: "importExternalRepository clone_platform (\<lambda>_. None) (\<lambda>_. False) (\<lambda>_. Inl TypeError) False new_ids 0 root_import no_rows [] =
      (Inl e, no_rows, [])" using refused_import by blast
  have "unknown_repo (im_repo new_ids) no_rows" by simp
  from failed_import_leaves_rows [OF this e] e show ?thesis by blast
qed

theorem import_needs_unchecked_upstream_witness:
  "\<exists>e. fst (importExternalRepository clone_platform (\<lambda>_. Some root_url) (\<lambda>_. False) root_remote True new_ids 0 root_import no_rows []) = Inl e"
proof -
  have "\<not> has_repo no_rows []" by (simp add: has_repo_def no_rows_def)
  moreover have "im_repo new_ids \<noteq> []" by (simp add: new_ids_def js_simps)
  ultimately show ?thesis by (rule import_needs_unchecked_upstream)
qed

section \<open>Updates\<close>

lemma index_keeps_refs:
  "gd_branches (snd (fold (index_object ids repoId) obs st)) = gd_branches (snd st) \<and>
   gd_tags (snd (fold (index_object ids repoId) obs st)) = gd_tags (snd st)"
proof (induction obs arbitrary: st)
  case (Cons x obs)
  have "gd_branches (snd (index_object ids repoId x st)) = gd_branches (snd st) \<and> gd_tags (snd (index_object ids repoId x st)) = gd_tags (snd st)"
    by (auto simp: index_object_def res_elims split: prod.splits sum.splits dest!: indexCommit_Inr)
  then show ?case using Cons.IH by simp
qed simp

lemma updated:
  assumes "fetchRemoteUpdates pf parseUrl isPrivateIP fetch ids timestamp repoId db bucket = (Inr result, db', bucket')"
  obtains url fetched n db1 db2 remote where
    "fetchRemoteRepository pf parseUrl isPrivateIP fetch \<lparr>fi_url = url, fi_authHeader = None, fi_maxPackBytes = None, fi_allowPrivateHosts = None\<rparr> = Inr fetched"
    "indexCommitObjects ids repoId (fr_objects fetched) db = (n, db1)"
    "replaceStoredRefs ids timestamp repoId (fr_refs fetched) (resolveDefaultBranch (fr_refs fetched) (fr_defaultBranch fetched)) db1 = (Inr (), db2)"
    "db' = touch_origin repoId (resolveDefaultBranch (fr_refs fetched) (fr_defaultBranch fetched)) timestamp remote db2"
    "result = \<lparr>fu_newCommits = n, fu_updatedBranches = updated_branches (branches_of db repoId) (fr_refs fetched),
      fu_newTags = new_tags (tags_of db repoId) (fr_refs fetched)\<rparr>"
    "bucket' = snd (ingestObjects pf (fr_objects fetched) bucket)"
  using assms unfolding fetchRemoteUpdates_def Let_def branches_of_def [symmetric] tags_of_def [symmetric]
  by (auto split: option.splits sum.splits prod.splits)

lemma touch_refs [simp]: "gd_branches (touch_origin repoId dflt timestamp remote db) = gd_branches db"
  "gd_tags (touch_origin repoId dflt timestamp remote db) = gd_tags db"
  by (simp_all add: touch_origin_def Let_def split: option.splits)

lemma updated_exact:
  assumes "refs_unique db"
  shows "updated_branches (branches_of db repoId) refs =
    map head_name (filter (\<lambda>ref. is_head ref \<and> (head_name ref, rf_target ref) \<notin> (\<lambda>b. (b_name b, b_sha b)) ` set (branches_of db repoId)) refs)"
proof -
  let ?ps = "map (\<lambda>b. (b_name b, b_sha b)) (branches_of db repoId)"
  have "distinct (map branch_key (branches_of db repoId))"
    using assms by (simp add: refs_unique_def branches_of_def distinct_map_filter)
  moreover have "map branch_key (branches_of db repoId) = map (\<lambda>n. (repoId, n)) (map fst ?ps)"
    by (simp add: branches_of_def)
  ultimately have "distinct (map (\<lambda>n. (repoId, n)) (map fst ?ps))" by simp
  then have d: "distinct (map fst ?ps)" using distinct_map by blast
  have "map_get (map_from ?ps) n \<noteq> Some x \<longleftrightarrow> (n, x) \<notin> set ?ps" for n x
    unfolding map_get_from_distinct [OF d] using d map_of_eq_Some_iff [OF d] by blast
  then have "map_get (map_from ?ps) n \<noteq> Some x \<longleftrightarrow> (n, x) \<notin> (\<lambda>b. (b_name b, b_sha b)) ` set (branches_of db repoId)" for n x by simp
  then show ?thesis unfolding updated_branches_def Let_def by simp
qed


definition tracked_db :: git_db where
  "tracked_db = no_rows\<lparr>gd_repos := [(demo_repo (js ''x''))\<lparr>rp_remoteCloneUrl := Some (js ''https://takos.jp/git/ada/r.git'')\<rparr>],
    gd_branches := [demo_branch\<lparr>b_repo := js ''x'', b_protected := True\<rparr>]\<rparr>"

lemma root_update:
  "\<exists>result db' B'. fetchRemoteUpdates clone_platform (\<lambda>_. Some root_url) (\<lambda>_. False) root_remote new_ids 0 (js ''x'') tracked_db [] = (Inr result, db', B')"
proof -
  let ?url = "js ''https://takos.jp/git/ada/r.git''"
  let ?input = "\<lparr>fi_url = ?url, fi_authHeader = None, fi_maxPackBytes = None, fi_allowPrivateHosts = None\<rparr>"
  obtain got where got: "fetchRemoteRepository clone_platform (\<lambda>_. Some root_url) (\<lambda>_. False) root_remote ?input = Inr got"
      "fr_refs got = [\<lparr>rf_name = js ''refs/heads/main'', rf_target = root_sha\<rparr>]"
    using root_fetched [of ?input] by auto
  have url: "Option.bind (sql_get (\<lambda>r. rp_id r = js ''x'') (gd_repos tracked_db)) (\<lambda>r. truthy (rp_remoteCloneUrl r)) = Some ?url"
    by (simp add: tracked_db_def sql_get_def truthy_def) (simp add: js_simps)
  have fresh: "fresh_commits new_ids 0 tracked_db" "has_repo tracked_db (js ''x'')"
    by (simp_all add: fresh_commits_def tracked_db_def no_rows_def has_repo_def)
  obtain n rows where index: "indexCommitObjects new_ids (js ''x'') (fr_objects got) tracked_db = (n, tracked_db\<lparr>gd_commits := gd_commits tracked_db @ rows\<rparr>)"
    using index_objects [OF new_ids_fresh(1) fresh, of "fr_objects got" 0] by (auto simp: indexCommitObjects_def)
  let ?dflt = "resolveDefaultBranch (fr_refs got) (fr_defaultBranch got)"
  obtain db2 where db2: "replaceStoredRefs new_ids 0 (js ''x'') (fr_refs got) ?dflt (tracked_db\<lparr>gd_commits := gd_commits tracked_db @ rows\<rparr>) = (Inr (), db2)"
    by (simp add: replaceStoredRefs_def got main_head write_each_def then_write_def clear_refs_def insert_branch_def import_branch_def
        tracked_db_def no_rows_def has_repo_def sql_insert_unique_def sql_delete_def demo_branch_def)
  show ?thesis unfolding fetchRemoteUpdates_def url option.case Let_def got(1) sum.case index prod.case db2 by blast
qed


end
