(* ===== verification/RateLimit.thy ===== *)
theory RateLimit
  imports JsString Complex_Main
begin

text \<open>
  The rate limiters (\<open>shared/utils/rate-limiter.ts\<close>): the sliding window and the token
  bucket as functions of their state and the clock, and the in-memory limiter with its key
  limit and clean-up. Times and limits are rational numbers, so the token arithmetic is
  exact where the source rounds to doubles; a configuration is finite, as JSON numbers are.
\<close>

section \<open>Sliding window\<close>

record window_result =
  wr_remaining :: rat
  wr_reset :: rat
  wr_total :: rat
  wr_allowed :: bool

record window_config =
  wc_maxRequests :: rat
  wc_windowMs :: rat

definition hitSlidingWindow :: "rat list \<Rightarrow> window_config \<Rightarrow> rat \<Rightarrow> bool \<Rightarrow> rat list \<times> window_result" where
  "hitSlidingWindow timestamps config now dryRun =
     (let windowStart = now - wc_windowMs config;
          validTimestamps = filter (\<lambda>t. t > windowStart) timestamps;
          allowed = of_nat (length validTimestamps) < wc_maxRequests config;
          validTimestamps' = (if allowed \<and> \<not> dryRun then validTimestamps @ [now] else validTimestamps);
          remaining = max 0 (wc_maxRequests config - of_nat (length validTimestamps'));
          reset = (if length validTimestamps' > 0 then validTimestamps' ! 0 + wc_windowMs config
            else now + wc_windowMs config) in
      (validTimestamps', \<lparr>wr_remaining = remaining, wr_reset = reset, wr_total = wc_maxRequests config,
         wr_allowed = allowed\<rparr>))"

text \<open>Deleting or resetting the present key does not disturb the iteration over the map.\<close>

definition cleanup_entry :: "rat \<Rightarrow> jsstring \<times> rat list \<Rightarrow> (jsstring, rat list) js_map \<Rightarrow> (jsstring, rat list) js_map" where
  "cleanup_entry windowStart kv entries =
     (let valid = filter (\<lambda>t. t > windowStart) (snd kv) in
      if length valid = 0 then map_del (fst kv) entries else map_set (fst kv) valid entries)"

definition cleanupExpiredEntries :: "(jsstring, rat list) js_map \<Rightarrow> rat \<Rightarrow> rat \<Rightarrow> (jsstring, rat list) js_map" where
  "cleanupExpiredEntries entries windowMs now = fold (cleanup_entry (now - windowMs)) entries entries"

definition KEY_EVICTION_BUFFER :: int where "KEY_EVICTION_BUFFER = 100"

text \<open>The first keys of the map are the oldest.\<close>

definition evict_first :: "nat \<Rightarrow> (jsstring, 'v) js_map \<Rightarrow> (jsstring, 'v) js_map" where
  "evict_first n m = fold map_del (take n (map_keys m)) m"

definition enforceKeyLimit :: "(jsstring, 'v) js_map \<Rightarrow> int \<Rightarrow> (jsstring, 'v) js_map \<times> nat" where
  "enforceKeyLimit entries maxKeys =
     (let sz = int (length entries) in
      if sz < maxKeys then (entries, 0)
      else let entriesToRemove = nat (max 0 (min (sz - maxKeys + KEY_EVICTION_BUFFER) sz)) in
        (evict_first entriesToRemove entries, min entriesToRemove (length entries)))"

section \<open>Token bucket\<close>

record token_bucket =
  tb_tokens :: rat
  tb_lastRefillMs :: rat

definition getCapacity :: "window_config \<Rightarrow> rat" where
  "getCapacity config = max 0 (of_int \<lfloor>wc_maxRequests config\<rfloor>)"

definition getRatePerMs :: "window_config \<Rightarrow> rat" where
  "getRatePerMs config = (if wc_windowMs config \<le> 0 then 0 else getCapacity config / wc_windowMs config)"

definition refill :: "token_bucket option \<Rightarrow> window_config \<Rightarrow> rat \<Rightarrow> token_bucket" where
  "refill state config now =
     (let capacity = getCapacity config; ratePerMs = getRatePerMs config;
          lastRefillMs = (case state of None \<Rightarrow> now | Some s \<Rightarrow> tb_lastRefillMs s);
          tokens = (case state of None \<Rightarrow> capacity | Some s \<Rightarrow> tb_tokens s) in
      if capacity = 0 \<or> ratePerMs = 0 then \<lparr>tb_tokens = 0, tb_lastRefillMs = now\<rparr>
      else let deltaMs = max 0 (now - lastRefillMs) in
        \<lparr>tb_tokens = min capacity (tokens + deltaMs * ratePerMs), tb_lastRefillMs = now\<rparr>)"

definition computeResetMs :: "rat \<Rightarrow> window_config \<Rightarrow> rat \<Rightarrow> rat" where
  "computeResetMs tokens config now =
     (let capacity = getCapacity config; ratePerMs = getRatePerMs config in
      if capacity = 0 \<or> ratePerMs = 0 then now + max 0 (wc_windowMs config)
      else if tokens < 1 then now + max 0 (of_int \<lceil>(1 - tokens) / ratePerMs\<rceil>)
      else now + max 0 (of_int \<lceil>(capacity - tokens) / ratePerMs\<rceil>))"

definition hitTokenBucket :: "token_bucket option \<Rightarrow> window_config \<Rightarrow> rat \<Rightarrow> bool \<Rightarrow> token_bucket \<times> window_result" where
  "hitTokenBucket state config now dryRun =
     (let nxt = refill state config now; capacity = getCapacity config;
          allowed = (capacity > 0 \<and> tb_tokens nxt \<ge> 1);
          nxt' = (if allowed \<and> \<not> dryRun then nxt\<lparr>tb_tokens := max 0 (tb_tokens nxt - 1)\<rparr> else nxt);
          remaining = max 0 (of_int \<lfloor>tb_tokens nxt'\<rfloor>) in
      (nxt', \<lparr>wr_remaining = remaining, wr_reset = computeResetMs (tb_tokens nxt') config now,
         wr_total = capacity, wr_allowed = allowed\<rparr>))"

section \<open>In-memory limiter\<close>

definition MS_PER_SECOND :: rat where "MS_PER_SECOND = 1000"
definition MAX_KEYS :: int where "MAX_KEYS = 100000"
definition CLEANUP_INTERVAL_MS :: rat where "CLEANUP_INTERVAL_MS = 60000"

record memory_limiter =
  ml_requests :: "(jsstring, rat list) js_map"
  ml_config :: window_config
  ml_lastCleanup :: rat

record limit_info =
  li_remaining :: rat
  li_reset :: rat
  li_total :: rat

definition info_of :: "window_result \<Rightarrow> limit_info" where
  "info_of r = \<lparr>li_remaining = wr_remaining r, li_reset = wr_reset r, li_total = wr_total r\<rparr>"

definition ml_new :: "window_config \<Rightarrow> rat \<Rightarrow> memory_limiter" where
  "ml_new config now = \<lparr>ml_requests = [], ml_config = config, ml_lastCleanup = now\<rparr>"

definition ml_cleanup :: "rat \<Rightarrow> memory_limiter \<Rightarrow> memory_limiter" where
  "ml_cleanup now l = l\<lparr>ml_requests := cleanupExpiredEntries (ml_requests l) (wc_windowMs (ml_config l)) now\<rparr>"

definition ml_maybeCleanup :: "rat \<Rightarrow> memory_limiter \<Rightarrow> memory_limiter" where
  "ml_maybeCleanup now l =
     (if now - ml_lastCleanup l > CLEANUP_INTERVAL_MS then (ml_cleanup now l)\<lparr>ml_lastCleanup := now\<rparr> else l)"

definition ml_checkKeyLimit :: "rat \<Rightarrow> memory_limiter \<Rightarrow> memory_limiter" where
  "ml_checkKeyLimit now l =
     (if int (length (ml_requests l)) \<ge> MAX_KEYS then
        let l' = ml_cleanup now l in
        if int (length (ml_requests l')) \<ge> MAX_KEYS
        then l'\<lparr>ml_requests := fst (enforceKeyLimit (ml_requests l') MAX_KEYS)\<rparr> else l'
      else l)"

definition timestamps_of :: "(jsstring, rat list) js_map \<Rightarrow> jsstring \<Rightarrow> rat list" where
  "timestamps_of entries key = (case map_get entries key of None \<Rightarrow> [] | Some ts \<Rightarrow> ts)"

definition ml_check :: "rat \<Rightarrow> jsstring \<Rightarrow> memory_limiter \<Rightarrow> limit_info \<times> memory_limiter" where
  "ml_check now key l =
     (let l1 = ml_maybeCleanup now l;
          result = snd (hitSlidingWindow (timestamps_of (ml_requests l1) key) (ml_config l1) now True) in
      (info_of result, l1))"

definition ml_hit :: "rat \<Rightarrow> jsstring \<Rightarrow> memory_limiter \<Rightarrow> limit_info \<times> memory_limiter" where
  "ml_hit now key l =
     (let l1 = ml_checkKeyLimit now (ml_maybeCleanup now l);
          (newTimestamps, result) = hitSlidingWindow (timestamps_of (ml_requests l1) key) (ml_config l1) now False in
      (info_of result, l1\<lparr>ml_requests := map_set key newTimestamps (ml_requests l1)\<rparr>))"

text \<open>
  The middleware: what it sets as headers and whether it answers 429 with a delay or passes
  the request on. Its \<open>skip\<close> and \<open>keyGenerator\<close> are what they return for the request.
\<close>

datatype middleware_outcome =
  Passed "(rat \<times> rat \<times> int) option" | TooManyRequests "rat \<times> rat \<times> int" int

definition ml_middleware :: "rat \<Rightarrow> bool \<Rightarrow> jsstring \<Rightarrow> memory_limiter \<Rightarrow> middleware_outcome \<times> memory_limiter" where
  "ml_middleware now skip key l =
     (if skip then (Passed None, l)
      else let (info, l1) = ml_check now key l;
               headers = (li_total info, li_remaining info, \<lceil>li_reset info / MS_PER_SECOND\<rceil>) in
        if li_remaining info \<le> 0 then
          (TooManyRequests headers (max 1 \<lceil>(li_reset info - now) / MS_PER_SECOND\<rceil>), l1)
        else (Passed (Some headers), snd (ml_hit now key l1)))"

section \<open>The sliding window bounds every window\<close>

definition in_window :: "window_config \<Rightarrow> rat \<Rightarrow> rat \<Rightarrow> bool" where
  "in_window config x t \<longleftrightarrow> x - wc_windowMs config < t \<and> t \<le> x"

definition window_cap :: "window_config \<Rightarrow> nat" where
  "window_cap config = nat \<lceil>wc_maxRequests config\<rceil>"

definition live :: "window_config \<Rightarrow> rat \<Rightarrow> rat list \<Rightarrow> rat list" where
  "live config now ts = filter (\<lambda>t. t > now - wc_windowMs config) ts"

lemma live_twice [simp]: "live config now (live config now ts) = live config now ts"
  by (simp add: live_def conj_commute)

lemma live_window: "now \<le> x \<Longrightarrow> filter (in_window config x) (live config now ts) = filter (in_window config x) ts"
  by (auto simp: live_def in_window_def intro: filter_cong)

lemma live_filter:
  "filter (\<lambda>t. t > now - wc_windowMs config) (live config now ts) = filter (\<lambda>t. t > now - wc_windowMs config) ts"
  by (simp add: live_def)

lemma hit_live:
  "hitSlidingWindow (live config now ts) config now dry = hitSlidingWindow ts config now dry"
  by (simp only: hitSlidingWindow_def live_filter Let_def)

lemma hit_allowed_iff:
  "wr_allowed (snd (hitSlidingWindow ts config now dry)) \<longleftrightarrow>
    of_nat (length (live config now ts)) < wc_maxRequests config"
  by (simp add: hitSlidingWindow_def live_def Let_def)

lemma hit_timestamps:
  "fst (hitSlidingWindow ts config now False) = live config now ts @
    (if of_nat (length (live config now ts)) < wc_maxRequests config then [now] else [])"
  by (simp add: hitSlidingWindow_def live_def Let_def)

lemma hit_remaining:
  "wr_remaining (snd (hitSlidingWindow ts config now True)) \<le> 0 \<longleftrightarrow>
    \<not> of_nat (length (live config now ts)) < wc_maxRequests config"
  by (auto simp: hitSlidingWindow_def live_def Let_def)

lemma live_cap:
  "of_nat (length (live config now ts)) < wc_maxRequests config \<Longrightarrow> Suc (length (live config now ts)) \<le> window_cap config"
proof -
  assume "of_nat (length (live config now ts)) < wc_maxRequests config"
  then have "int (length (live config now ts)) < \<lceil>wc_maxRequests config\<rceil>" by (simp add: less_ceiling_iff)
  then show ?thesis unfolding window_cap_def by linarith
qed

lemma length_map_set: "length (map_set k v m) = (if map_get m k = None then Suc (length m) else length m)"
  by (induction m) (auto simp: map_set_def map_get_def)

lemma cleanup_fold:
  "map_ok (m :: (jsstring, rat list) js_map) \<Longrightarrow> distinct (map fst kvs) \<Longrightarrow> \<forall>(k, ts) \<in> set kvs. map_get m k = Some ts \<Longrightarrow>
    (let m' = fold (cleanup_entry ws) kvs m in map_ok m' \<and> length m' \<le> length m \<and>
      (\<forall>k. timestamps_of m' k = (if k \<in> set (map fst kvs) then filter (\<lambda>t. t > ws) (timestamps_of m k) else timestamps_of m k)))"
proof (induction kvs arbitrary: m)
  case (Cons kv kvs)
  let ?m = "cleanup_entry ws kv m"
  have in_m: "map_get m (fst kv) = Some (snd kv)" using Cons.prems(3) by (cases kv) simp
  have m: "map_ok ?m" "length ?m \<le> length m"
    using Cons.prems(1) in_m by (simp_all add: cleanup_entry_def Let_def length_map_set) (simp add: map_del_def length_delete_le)
  have get: "timestamps_of ?m k = (if k = fst kv then filter (\<lambda>t. t > ws) (timestamps_of m k) else timestamps_of m k)" for k
    using in_m by (auto simp: cleanup_entry_def Let_def timestamps_of_def)
  have "\<forall>(k, ts) \<in> set kvs. map_get ?m k = Some ts"
    using Cons.prems(2,3) by (force simp: cleanup_entry_def Let_def)
  from Cons.IH [OF m(1) _ this] show ?case using Cons.prems(2) m(2) get by (auto simp: Let_def)
qed (simp add: Let_def)

lemma cleanup_ok:
  assumes "map_ok m"
  shows "map_ok (cleanupExpiredEntries m w now)" "length (cleanupExpiredEntries m w now) \<le> length m"
    "timestamps_of (cleanupExpiredEntries m w now) k = filter (\<lambda>t. t > now - w) (timestamps_of m k)"
proof -
  have "\<forall>(k, ts) \<in> set m. map_get m k = Some ts" using assms by (auto simp: map_get_iff)
  note c = cleanup_fold [OF assms _ this, of "now - w"]
  show "map_ok (cleanupExpiredEntries m w now)" "length (cleanupExpiredEntries m w now) \<le> length m"
    using c assms by (simp_all add: cleanupExpiredEntries_def map_ok_def Let_def)
  have "k \<notin> set (map fst m) \<Longrightarrow> timestamps_of m k = []"
    by (cases "map_of m k") (force simp: timestamps_of_def map_get_def dest: map_of_SomeD)+
  then show "timestamps_of (cleanupExpiredEntries m w now) k = filter (\<lambda>t. t > now - w) (timestamps_of m k)"
    using c assms by (auto simp: cleanupExpiredEntries_def map_ok_def Let_def)
qed

text \<open>What a clean-up leaves to be counted is what there was.\<close>

definition same_live :: "rat \<Rightarrow> memory_limiter \<Rightarrow> memory_limiter \<Rightarrow> bool" where
  "same_live now l l' \<longleftrightarrow> map_ok (ml_requests l') \<and> ml_config l' = ml_config l \<and>
     length (ml_requests l') \<le> length (ml_requests l) \<and>
     (\<forall>k. live (ml_config l) now (timestamps_of (ml_requests l') k) = live (ml_config l) now (timestamps_of (ml_requests l) k) \<and>
       set (timestamps_of (ml_requests l') k) \<subseteq> set (timestamps_of (ml_requests l) k))"

lemma maybeCleanup_same: "map_ok (ml_requests l) \<Longrightarrow> same_live now l (ml_maybeCleanup now l)"
  using cleanup_ok [of "ml_requests l" "wc_windowMs (ml_config l)" now]
  by (auto simp: same_live_def ml_maybeCleanup_def ml_cleanup_def live_def conj_commute)

lemma same_live_trans: "same_live now l l' \<Longrightarrow> same_live now l' l'' \<Longrightarrow> same_live now l l''"
  by (auto simp: same_live_def)

definition passed :: "middleware_outcome \<Rightarrow> bool" where
  "passed outcome = (case outcome of Passed _ \<Rightarrow> True | TooManyRequests _ _ \<Rightarrow> False)"

lemma timestamps_of_set: "timestamps_of (map_set key v m) k = (if k = key then v else timestamps_of m k)"
  by (simp add: timestamps_of_def)

lemma middleware_step:
  assumes "map_ok (ml_requests l)" and "int (length (ml_requests l)) < MAX_KEYS"
    and "ml_middleware now False key l = (outcome, l')"
  shows "map_ok (ml_requests l')" and "ml_config l' = ml_config l"
    and "length (ml_requests l') \<le> Suc (length (ml_requests l))"
    and "passed outcome \<Longrightarrow> Suc (length (live (ml_config l) now (timestamps_of (ml_requests l) key))) \<le> window_cap (ml_config l)"
    and "set (timestamps_of (ml_requests l') k) \<subseteq> insert now (set (timestamps_of (ml_requests l) k))"
    and "now \<le> x \<Longrightarrow> filter (in_window (ml_config l) x) (timestamps_of (ml_requests l') k) =
      filter (in_window (ml_config l) x) (timestamps_of (ml_requests l) k @ (if passed outcome \<and> k = key then [now] else []))"
proof -
  let ?c = "ml_config l"
  define l1 l2 where "l1 = ml_maybeCleanup now l" and "l2 = ml_checkKeyLimit now (ml_maybeCleanup now l1)"
  let ?ts = "timestamps_of (ml_requests l1) key"
  have s1: "same_live now l l1" unfolding l1_def by (rule maybeCleanup_same [OF assms(1)])
  have s2: "same_live now l1 (ml_maybeCleanup now l1)" using s1 by (intro maybeCleanup_same) (simp add: same_live_def)
  have "int (length (ml_requests (ml_maybeCleanup now l1))) < MAX_KEYS"
    using same_live_trans [OF s1 s2] assms(2) by (auto simp: same_live_def)
  then have l2: "l2 = ml_maybeCleanup now l1" by (simp add: l2_def ml_checkKeyLimit_def)
  have s: "same_live now l l2" using same_live_trans [OF s1 s2] by (simp only: l2)
  have c: "ml_config l1 = ?c" "ml_config l2 = ?c" using s1 s by (auto simp: same_live_def)
  have lv: "live ?c now ?ts = live ?c now (timestamps_of (ml_requests l) key)"
    "live ?c now (timestamps_of (ml_requests l2) key) = live ?c now (timestamps_of (ml_requests l) key)"
    using s1 s by (auto simp: same_live_def)
  let ?ok = "of_nat (length (live ?c now (timestamps_of (ml_requests l) key))) < wc_maxRequests ?c"
  have out: "passed outcome = ?ok" and l': "l' = (if ?ok then l2\<lparr>ml_requests :=
      map_set key (live ?c now (timestamps_of (ml_requests l) key) @ [now]) (ml_requests l2)\<rparr> else l1)"
    using assms(3) hit_remaining [of ?ts ?c now] hit_timestamps [of "timestamps_of (ml_requests l2) key" ?c now]
    by (auto simp: ml_middleware_def ml_check_def ml_hit_def Let_def info_of_def passed_def c lv l1_def [symmetric]
        l2_def [symmetric] case_prod_beta split: if_splits)
  show "map_ok (ml_requests l')" "ml_config l' = ?c" "length (ml_requests l') \<le> Suc (length (ml_requests l))"
    using s1 s by (auto simp: l' same_live_def length_map_set)
  show "Suc (length (live ?c now (timestamps_of (ml_requests l) key))) \<le> window_cap ?c" if "passed outcome"
    using live_cap that out by blast
  show "set (timestamps_of (ml_requests l') k) \<subseteq> insert now (set (timestamps_of (ml_requests l) k))"
    using s1 s by (auto simp: l' same_live_def timestamps_of_set live_def)
  assume x: "now \<le> x"
  have w: "filter (in_window ?c x) (timestamps_of (ml_requests l1) k) = filter (in_window ?c x) (timestamps_of (ml_requests l) k)"
    "filter (in_window ?c x) (timestamps_of (ml_requests l2) k) = filter (in_window ?c x) (timestamps_of (ml_requests l) k)"
    using s1 s live_window [OF x, of ?c] unfolding same_live_def by metis+
  show "filter (in_window ?c x) (timestamps_of (ml_requests l') k) =
      filter (in_window ?c x) (timestamps_of (ml_requests l) k @ (if passed outcome \<and> k = key then [now] else []))"
    using w live_window [OF x, of ?c] by (auto simp: l' out timestamps_of_set)
qed

fun ml_serve :: "memory_limiter \<Rightarrow> (rat \<times> jsstring) list \<Rightarrow> (rat \<times> jsstring) list" where
  "ml_serve l [] = []"
| "ml_serve l ((now, key) # rs) =
     (let (outcome, l') = ml_middleware now False key l in
      (if passed outcome then [(now, key)] else []) @ ml_serve l' rs)"

lemma ml_serve_subset: "set (ml_serve l rs) \<subseteq> set rs"
proof (induction l rs rule: ml_serve.induct)
  case (2 l now key rs)
  obtain outcome l' where h: "ml_middleware now False key l = (outcome, l')" by fastforce
  show ?case using "2.IH" [OF h [symmetric] refl] by (auto simp: h)
qed simp

definition served :: "jsstring \<Rightarrow> (rat \<times> jsstring) list \<Rightarrow> rat list" where
  "served k ps = map fst (filter (\<lambda>p. snd p = k) ps)"

lemma ml_serve_bound:
  "sorted (map fst rs) \<Longrightarrow> map_ok (ml_requests l) \<Longrightarrow> int (length (ml_requests l) + length rs) \<le> MAX_KEYS \<Longrightarrow>
    \<forall>r \<in> set rs. \<forall>t \<in> set (timestamps_of (ml_requests l) k). t \<le> fst r \<Longrightarrow>
    length (filter (in_window (ml_config l) x) (timestamps_of (ml_requests l) k)) \<le> window_cap (ml_config l) \<Longrightarrow>
    length (filter (in_window (ml_config l) x) (timestamps_of (ml_requests l) k @ served k (ml_serve l rs))) \<le>
      window_cap (ml_config l)"
proof (induction l rs rule: ml_serve.induct)
  case (1 l)
  then show ?case by (simp add: served_def)
next
  case (2 l now key rs)
  let ?c = "ml_config l" and ?ts = "\<lambda>l. timestamps_of (ml_requests l) k"
  obtain outcome l' where h: "ml_middleware now False key l = (outcome, l')" by fastforce
  have size: "int (length (ml_requests l)) < MAX_KEYS" using "2.prems"(3) by simp
  note st = middleware_step [OF "2.prems"(2) size h]
  show ?case
  proof (cases "x < now")
    case True
    have "\<forall>t \<in> set (served k (ml_serve l ((now, key) # rs))). now \<le> t"
      using "2.prems"(1) ml_serve_subset [of l "(now, key) # rs"] by (fastforce simp: served_def)
    with True have "filter (in_window ?c x) (served k (ml_serve l ((now, key) # rs))) = []"
      by (auto simp: filter_empty_conv in_window_def)
    with "2.prems"(5) show ?thesis by (simp del: ml_serve.simps)
  next
    case False
    let ?new = "if passed outcome \<and> k = key then [now] else []"
    have eq: "filter (in_window ?c x) (?ts l') = filter (in_window ?c x) (?ts l @ ?new)"
      using st(6) [of x k] False by simp
    have "length (filter (in_window ?c x) (?ts l')) \<le> window_cap ?c"
    proof (cases "passed outcome \<and> k = key")
      case True
      have "length (filter (in_window ?c x) (?ts l)) \<le> length (live ?c now (?ts l))"
        using False by (subst live_window [of now x, symmetric]) simp_all
      then show ?thesis using st(4) True eq by (auto split: if_splits)
    qed (use eq "2.prems"(5) in auto)
    moreover have "\<forall>r \<in> set rs. \<forall>t \<in> set (?ts l'). t \<le> fst r"
    proof (intro ballI)
      fix r t assume "r \<in> set rs" "t \<in> set (?ts l')"
      moreover have "now \<le> fst r" using "2.prems"(1) \<open>r \<in> set rs\<close> by simp
      ultimately show "t \<le> fst r" using "2.prems"(4) st(5) [of k] by (auto simp: subset_iff)
    qed
    ultimately have ih: "length (filter (in_window ?c x) (?ts l' @ served k (ml_serve l' rs))) \<le> window_cap ?c"
      using "2.IH" [OF h [symmetric] refl] "2.prems"(1,3) st(1-3) by simp
    have "served k (ml_serve l ((now, key) # rs)) = ?new @ served k (ml_serve l' rs)" by (simp add: h served_def)
    with ih eq show ?thesis by simp
  qed
qed

section \<open>The token bucket bounds every interval\<close>

definition bucket_ok :: "window_config \<Rightarrow> token_bucket \<Rightarrow> bool" where
  "bucket_ok config tb \<longleftrightarrow> 0 \<le> tb_tokens tb \<and> tb_tokens tb \<le> getCapacity config"

definition bucket_state_ok :: "window_config \<Rightarrow> token_bucket option \<Rightarrow> bool" where
  "bucket_state_ok config state = (case state of None \<Rightarrow> True | Some tb \<Rightarrow> bucket_ok config tb)"

lemma rate_nonneg: "0 \<le> getRatePerMs config" "0 \<le> getCapacity config"
  by (auto simp: getRatePerMs_def getCapacity_def)

lemma refill_ok: "bucket_state_ok config state \<Longrightarrow> bucket_ok config (refill state config now)"
  using rate_nonneg [of config]
  by (auto simp: bucket_state_ok_def bucket_ok_def refill_def Let_def split: option.splits)

lemma hit_bucket:
  "fst (hitTokenBucket state config now False) = (if wr_allowed (snd (hitTokenBucket state config now False))
     then (refill state config now)\<lparr>tb_tokens := tb_tokens (refill state config now) - 1\<rparr>
     else refill state config now)"
  "wr_allowed (snd (hitTokenBucket state config now dry)) \<Longrightarrow> 1 \<le> tb_tokens (refill state config now)"
  by (auto simp: hitTokenBucket_def Let_def max_def)

lemma hit_bucket_dry: "fst (hitTokenBucket state config now True) = refill state config now"
  by (simp add: hitTokenBucket_def Let_def)

lemma hit_bucket_ok: "bucket_state_ok config state \<Longrightarrow> bucket_ok config (fst (hitTokenBucket state config now dry))"
  using refill_ok [of config state now] hit_bucket [of state config now]
  by (cases dry) (auto simp: hit_bucket_dry bucket_ok_def)

lemma hit_bucket_last: "tb_lastRefillMs (fst (hitTokenBucket state config now dry)) = now"
  by (simp add: hitTokenBucket_def Let_def refill_def)

lemma refill_tokens:
  "bucket_ok config tb \<Longrightarrow> tb_lastRefillMs tb \<le> now \<Longrightarrow>
    tb_tokens (refill (Some tb) config now) \<le> tb_tokens tb + getRatePerMs config * (now - tb_lastRefillMs tb)"
  using rate_nonneg [of config] by (auto simp: refill_def Let_def bucket_ok_def mult.commute)

fun bucket_run :: "window_config \<Rightarrow> token_bucket option \<Rightarrow> rat list \<Rightarrow> rat list" where
  "bucket_run config state [] = []"
| "bucket_run config state (now # hits) =
     (let (nxt, r) = hitTokenBucket state config now False in
      (if wr_allowed r then [now] else []) @ bucket_run config (Some nxt) hits)"

lemma bucket_run_subset: "set (bucket_run config state hits) \<subseteq> set hits"
proof (induction config state hits rule: bucket_run.induct)
  case (2 config state now hits)
  obtain nxt r where h: "hitTokenBucket state config now False = (nxt, r)" by fastforce
  show ?case using "2.IH" [OF h [symmetric] refl] by (auto simp: h)
qed simp

lemma bucket_run_later:
  "sorted hits \<Longrightarrow> bucket_ok config tb \<Longrightarrow> \<forall>t \<in> set hits. tb_lastRefillMs tb \<le> t \<Longrightarrow> tb_lastRefillMs tb \<le> b \<Longrightarrow>
    of_nat (length (filter (\<lambda>t. t \<le> b) (bucket_run config (Some tb) hits))) \<le>
      tb_tokens tb + getRatePerMs config * (b - tb_lastRefillMs tb)"
proof (induction hits arbitrary: tb)
  case Nil
  then show ?case using rate_nonneg(1) [of config] by (simp add: bucket_ok_def)
next
  case (Cons now hits)
  obtain nxt r where h: "hitTokenBucket (Some tb) config now False = (nxt, r)" by fastforce
  show ?case
  proof (cases "now \<le> b")
    case False
    then have "filter (\<lambda>t. t \<le> b) (bucket_run config (Some tb) (now # hits)) = []"
      using Cons.prems(1) bucket_run_subset [of config "Some tb" "now # hits"] by (fastforce simp: filter_empty_conv)
    then show ?thesis using Cons.prems(2,4) rate_nonneg(1) [of config] by (simp add: bucket_ok_def del: bucket_run.simps)
  next
    case True
    have ok: "bucket_ok config nxt" using hit_bucket_ok [of config "Some tb" now False] Cons.prems(2)
      by (simp add: h bucket_state_ok_def)
    have last: "tb_lastRefillMs nxt = now" using hit_bucket_last [of "Some tb" config now False] by (simp add: h)
    have ih: "of_nat (length (filter (\<lambda>t. t \<le> b) (bucket_run config (Some nxt) hits))) \<le>
        tb_tokens nxt + getRatePerMs config * (b - now)"
      using Cons.IH [OF _ ok] Cons.prems(1) True by (simp add: last)
    have "tb_tokens nxt + (if wr_allowed r then 1 else 0) = tb_tokens (refill (Some tb) config now)"
      using hit_bucket(1) [of "Some tb" config now] by (simp add: h)
    moreover have "tb_tokens (refill (Some tb) config now) \<le> tb_tokens tb + getRatePerMs config * (now - tb_lastRefillMs tb)"
      using refill_tokens Cons.prems(2,3) by simp
    ultimately show ?thesis using ih True by (auto simp: h algebra_simps)
  qed
qed

lemma bucket_run_bound:
  "sorted hits \<Longrightarrow> bucket_state_ok config state \<Longrightarrow> a \<le> b \<Longrightarrow>
    of_nat (length (filter (\<lambda>t. a \<le> t \<and> t \<le> b) (bucket_run config state hits))) \<le>
      getCapacity config + getRatePerMs config * (b - a)"
proof (induction hits arbitrary: state)
  case Nil
  then show ?case using rate_nonneg [of config] by simp
next
  case (Cons now hits)
  obtain nxt r where h: "hitTokenBucket state config now False = (nxt, r)" by fastforce
  have ok: "bucket_ok config nxt" using hit_bucket_ok [of config state now False] Cons.prems(2) by (simp add: h)
  have last: "tb_lastRefillMs nxt = now" using hit_bucket_last [of state config now False] by (simp add: h)
  consider "now < a" | "a \<le> now" "now \<le> b" | "b < now" by linarith
  then show ?case
  proof cases
    case 1
    then show ?thesis using Cons.IH [of "Some nxt"] Cons.prems ok by (simp add: h bucket_state_ok_def)
  next
    case 2
    have "filter (\<lambda>t. a \<le> t \<and> t \<le> b) (bucket_run config (Some nxt) hits) =
        filter (\<lambda>t. t \<le> b) (bucket_run config (Some nxt) hits)"
      using 2 Cons.prems(1) bucket_run_subset [of config "Some nxt" hits] by (intro filter_cong) fastforce+
    moreover have "of_nat (length (filter (\<lambda>t. t \<le> b) (bucket_run config (Some nxt) hits))) \<le>
        tb_tokens nxt + getRatePerMs config * (b - now)"
      using bucket_run_later [of hits config nxt b] Cons.prems(1) ok 2 by (simp add: last)
    moreover have "tb_tokens nxt + (if wr_allowed r then 1 else 0) = tb_tokens (refill state config now)"
      using hit_bucket(1) [of state config now] by (simp add: h)
    moreover have "tb_tokens (refill state config now) \<le> getCapacity config"
      using refill_ok [OF Cons.prems(2)] by (simp add: bucket_ok_def)
    moreover have "getRatePerMs config * (b - now) \<le> getRatePerMs config * (b - a)"
      using 2 rate_nonneg(1) [of config] by (simp add: mult_left_mono)
    ultimately show ?thesis using 2 by (auto simp: h)
  next
    case 3
    then have "filter (\<lambda>t. a \<le> t \<and> t \<le> b) (bucket_run config state (now # hits)) = []"
      using Cons.prems(1) bucket_run_subset [of config state "now # hits"] by (fastforce simp: filter_empty_conv)
    then show ?thesis using Cons.prems(3) rate_nonneg [of config] by (simp del: bucket_run.simps)
  qed
qed

section \<open>Properties\<close>



text \<open>C33: The token bucket allows, in any interval of time, at most its capacity plus what it refills
  in the interval, and its tokens stay between zero and the capacity, whatever the clock does.\<close>

theorem bucket_interval_bound:
  assumes "sorted hits" and "a \<le> b"
  shows "of_nat (length (filter (\<lambda>t. a \<le> t \<and> t \<le> b) (bucket_run config None hits))) \<le>
      getCapacity config + getRatePerMs config * (b - a)
    \<and> (\<forall>(state :: token_bucket option) now dryRun. (\<forall>tb. state = Some tb \<longrightarrow> 0 \<le> tb_tokens tb \<and> tb_tokens tb \<le> getCapacity config) \<longrightarrow>
        0 \<le> tb_tokens (fst (hitTokenBucket state config now dryRun)) \<and>
        tb_tokens (fst (hitTokenBucket state config now dryRun)) \<le> getCapacity config)"
proof (intro conjI allI impI)
  show "of_nat (length (filter (\<lambda>t. a \<le> t \<and> t \<le> b) (bucket_run config None hits))) \<le>
      getCapacity config + getRatePerMs config * (b - a)"
    by (rule bucket_run_bound [OF assms(1) _ assms(2)]) (simp add: bucket_state_ok_def)
next
  fix state :: "token_bucket option" and now dryRun
  assume "\<forall>tb. state = Some tb \<longrightarrow> 0 \<le> tb_tokens tb \<and> tb_tokens tb \<le> getCapacity config"
  then have "bucket_state_ok config state" by (auto simp: bucket_state_ok_def bucket_ok_def split: option.splits)
  from hit_bucket_ok [OF this, of now dryRun]
  show "0 \<le> tb_tokens (fst (hitTokenBucket state config now dryRun))"
    "tb_tokens (fst (hitTokenBucket state config now dryRun)) \<le> getCapacity config"
    by (simp_all add: bucket_ok_def)
qed

theorem bucket_interval_bound_witness:
  "of_nat (length (filter (\<lambda>t. (0 :: rat) \<le> t \<and> t \<le> 5)
     (bucket_run \<lparr>wc_maxRequests = 2, wc_windowMs = 10\<rparr> None [1, 2, 3]))) \<le> (3 :: rat)"
  using bucket_interval_bound [of "[1, 2, 3]" 0 5 "\<lparr>wc_maxRequests = 2, wc_windowMs = 10\<rparr>"]
  by (simp add: getCapacity_def getRatePerMs_def)

end
