(* ===== verification/RateLimiterDO.thy ===== *)
theory RateLimiterDO
  imports RateLimit StepSystem
begin

text \<open>
  The rate limiter that runs as a Durable Object (\<open>runtime/durable-objects/rate-limiter.ts\<close>):
  its two maps, what it has stored, its alarm, and the requests it answers. Requests run one
  at a time, as \<open>blockConcurrencyWhile\<close> makes them. A stored object lists its keys in
  insertion order; the reordering of keys that look like array indices is left out.
\<close>

datatype algorithm = SlidingWindow | TokenBucket | Shadow

record rate_request =
  rq_key :: jsstring
  rq_maxRequests :: rat
  rq_windowMs :: rat
  rq_algorithm :: "algorithm option"

type_synonym rate_maps = "(jsstring, rat list) js_map \<times> (jsstring, token_bucket) js_map"

record rate_object =
  ro_entries :: "(jsstring, rat list) js_map"
  ro_tokenBuckets :: "(jsstring, token_bucket) js_map"
  ro_lastCleanup :: rat
  ro_stored :: "rate_maps option"
  ro_alarm :: "rat option"

datatype rate_response =
  RateReply window_result algorithm "window_result option"
| RateSuccess
| RateNotFound
| RateError

definition DO_CLEANUP_INTERVAL_MS :: rat where "DO_CLEANUP_INTERVAL_MS = 60000"
definition DO_MAX_KEYS :: int where "DO_MAX_KEYS = 10000"

definition request_config :: "rate_request \<Rightarrow> window_config" where
  "request_config data = \<lparr>wc_maxRequests = rq_maxRequests data, wc_windowMs = rq_windowMs data\<rparr>"

definition request_algorithm :: "rate_request \<Rightarrow> algorithm" where
  "request_algorithm data = (case rq_algorithm data of None \<Rightarrow> SlidingWindow | Some a \<Rightarrow> a)"

text \<open>The constructor: the maps from what is stored, and an alarm if there is none.\<close>

definition do_new :: "rat \<Rightarrow> rate_maps option \<Rightarrow> rat option \<Rightarrow> rate_object" where
  "do_new now stored alarm =
     (let (es, tbs) = (case stored of None \<Rightarrow> ([], []) | Some m \<Rightarrow> m);
          existing = (case alarm of None \<Rightarrow> False | Some t \<Rightarrow> t \<noteq> 0) in
      \<lparr>ro_entries = map_from es, ro_tokenBuckets = map_from tbs, ro_lastCleanup = now, ro_stored = stored,
       ro_alarm = (if existing then alarm else Some (now + DO_CLEANUP_INTERVAL_MS))\<rparr>)"

definition do_persist :: "rate_object \<Rightarrow> rate_object" where
  "do_persist s = s\<lparr>ro_stored := Some (ro_entries s, ro_tokenBuckets s)\<rparr>"

definition do_maybeCleanup :: "rat \<Rightarrow> rat \<Rightarrow> rate_object \<Rightarrow> rate_object" where
  "do_maybeCleanup now windowMs s =
     (if now - ro_lastCleanup s > DO_CLEANUP_INTERVAL_MS
      then s\<lparr>ro_entries := cleanupExpiredEntries (ro_entries s) windowMs now, ro_lastCleanup := now\<rparr>
      else s)"

definition do_checkKeyLimit :: "rate_object \<Rightarrow> rate_object" where
  "do_checkKeyLimit s =
     (let s1 = (if int (length (ro_entries s)) \<ge> DO_MAX_KEYS
                then s\<lparr>ro_entries := fst (enforceKeyLimit (ro_entries s) DO_MAX_KEYS)\<rparr> else s);
          sz = int (length (ro_tokenBuckets s1)) in
      if sz \<ge> DO_MAX_KEYS
      then s1\<lparr>ro_tokenBuckets := evict_first (nat (max 0 (min (sz - DO_MAX_KEYS + 100) sz))) (ro_tokenBuckets s1)\<rparr>
      else s1)"

definition do_handleCheck :: "rat \<Rightarrow> rate_request \<Rightarrow> rate_object \<Rightarrow> rate_response \<times> rate_object" where
  "do_handleCheck now data s =
     (let key = rq_key data; config = request_config data; algorithm = request_algorithm data;
          s1 = do_maybeCleanup now (rq_windowMs data) s in
      if algorithm = TokenBucket then
        let (nxt, result) = hitTokenBucket (map_get (ro_tokenBuckets s1) key) config now True in
        (RateReply result TokenBucket None,
         s1\<lparr>ro_tokenBuckets := map_set key nxt (ro_tokenBuckets s1), ro_entries := map_del key (ro_entries s1)\<rparr>)
      else
        let sliding = snd (hitSlidingWindow (timestamps_of (ro_entries s1) key) config now True) in
        if algorithm = Shadow then
          let (nxt, tokenBucket) = hitTokenBucket (map_get (ro_tokenBuckets s1) key) config now True in
          (RateReply sliding SlidingWindow (Some tokenBucket),
           s1\<lparr>ro_tokenBuckets := map_set key nxt (ro_tokenBuckets s1)\<rparr>)
        else (RateReply sliding SlidingWindow None, s1))"

definition do_handleHit :: "rat \<Rightarrow> rate_request \<Rightarrow> rate_object \<Rightarrow> rate_response \<times> rate_object" where
  "do_handleHit now data s =
     (let key = rq_key data; config = request_config data; algorithm = request_algorithm data;
          s1 = do_checkKeyLimit (do_maybeCleanup now (rq_windowMs data) s) in
      if algorithm = TokenBucket then
        let (nxt, result) = hitTokenBucket (map_get (ro_tokenBuckets s1) key) config now False;
            s2 = s1\<lparr>ro_tokenBuckets := map_set key nxt (ro_tokenBuckets s1), ro_entries := map_del key (ro_entries s1)\<rparr> in
        (RateReply result TokenBucket None, if wr_allowed result then do_persist s2 else s2)
      else
        let (ts, sliding) = hitSlidingWindow (timestamps_of (ro_entries s1) key) config now False;
            s2 = (if wr_allowed sliding then s1\<lparr>ro_entries := map_set key ts (ro_entries s1)\<rparr> else s1) in
        if algorithm = Shadow then
          let (nxt, tokenOut) = hitTokenBucket (map_get (ro_tokenBuckets s2) key) config now False;
              s3 = s2\<lparr>ro_tokenBuckets := map_set key nxt (ro_tokenBuckets s2)\<rparr> in
          (RateReply sliding SlidingWindow (Some tokenOut),
           if wr_allowed sliding \<or> wr_allowed tokenOut then do_persist s3 else s3)
        else (RateReply sliding SlidingWindow None, if wr_allowed sliding then do_persist s2 else s2))"

definition do_handleReset :: "jsstring \<Rightarrow> rate_object \<Rightarrow> rate_response \<times> rate_object" where
  "do_handleReset key s =
     (RateSuccess, do_persist (s\<lparr>ro_entries := map_del key (ro_entries s),
        ro_tokenBuckets := map_del key (ro_tokenBuckets s)\<rparr>))"

definition do_handleAlarm :: "rat \<Rightarrow> rate_object \<Rightarrow> rate_object" where
  "do_handleAlarm now s =
     (let windowMs = 60000; s1 = s\<lparr>ro_entries := cleanupExpiredEntries (ro_entries s) windowMs now\<rparr> in
      if length (ro_entries s1) > 0 \<or> length (ro_tokenBuckets s1) > 0
      then (do_persist s1)\<lparr>ro_alarm := Some (now + DO_CLEANUP_INTERVAL_MS)\<rparr> else s1)"

text \<open>The dispatch: path, whether the method is POST, and the parsed body, if it parses.\<close>

definition do_fetch :: "rat \<Rightarrow> jsstring \<Rightarrow> bool \<Rightarrow> rate_request option \<Rightarrow> rate_object \<Rightarrow> rate_response \<times> rate_object" where
  "do_fetch now path post body s =
     (if path = js ''/check'' \<and> post then
        (case body of None \<Rightarrow> (RateError, s) | Some data \<Rightarrow> do_handleCheck now data s)
      else if path = js ''/hit'' \<and> post then
        (case body of None \<Rightarrow> (RateError, s) | Some data \<Rightarrow> do_handleHit now data s)
      else if path = js ''/reset'' \<and> post then
        (case body of None \<Rightarrow> (RateError, s) | Some data \<Rightarrow> do_handleReset (rq_key data) s)
      else (RateNotFound, s))"

section \<open>The object as a system\<close>

datatype rate_event = Fetch rat jsstring bool "rate_request option" | Alarm rat | Restart rat

inductive rate_step :: "rate_event \<Rightarrow> rate_object \<Rightarrow> rate_object \<Rightarrow> bool" where
  step_fetch: "do_fetch now path post body s = (r, t) \<Longrightarrow> rate_step (Fetch now path post body) s t"
| step_alarm: "ro_alarm s = Some due \<Longrightarrow> due \<le> now \<Longrightarrow> rate_step (Alarm now) s (do_handleAlarm now (s\<lparr>ro_alarm := None\<rparr>))"
| step_restart: "rate_step (Restart now) s (do_new now (ro_stored s) (ro_alarm s))"

inductive_cases rate_stepE: "rate_step e s t"

definition rate_init :: "rate_object \<Rightarrow> bool" where
  "rate_init s \<longleftrightarrow> (\<exists>now. s = do_new now None None)"

definition rate_inv :: "rate_object \<Rightarrow> bool" where
  "rate_inv s \<longleftrightarrow> map_ok (ro_entries s) \<and> map_ok (ro_tokenBuckets s) \<and> int (length (ro_entries s)) \<le> DO_MAX_KEYS \<and>
     (case ro_stored s of None \<Rightarrow> True | Some (es, tbs) \<Rightarrow>
       map_ok es \<and> map_ok tbs \<and> int (length es) \<le> DO_MAX_KEYS)"

lemma map_ok_from_eq: "map_ok m \<Longrightarrow> map_from m = m"
proof -
  have "fold (\<lambda>(k, v). map_set k v) m acc = acc @ m" if "distinct (map fst (acc @ m))" for acc m
    using that
  proof (induction m arbitrary: acc)
    case (Cons kv m)
    obtain k v where kv: "kv = (k, v)" by fastforce
    have "map_set k v acc = acc @ [(k, v)]" using Cons.prems by (induction acc) (auto simp: map_set_def kv)
    then show ?case using Cons.IH [of "acc @ [(k, v)]"] Cons.prems by (simp add: kv)
  qed simp
  from this [of "[]" m] show "map_ok m \<Longrightarrow> map_from m = m" by (simp add: map_from_def map_ok_def)
qed

lemma evict_first_drop: "map_ok m \<Longrightarrow> evict_first n m = drop n m"
proof -
  have "fold map_del (take n (map fst m)) m = drop n m" if "distinct (map fst m)" for n and m :: "(jsstring \<times> 'v) list"
    using that
  proof (induction m arbitrary: n)
    case (Cons kv m)
    have "map_del (fst kv) (kv # m) = m"
      using Cons.prems by (cases kv) (auto simp: map_del_def delete_idem)
    then show ?case using Cons by (cases n) simp_all
  qed simp
  then show "map_ok m \<Longrightarrow> ?thesis" by (simp add: evict_first_def map_keys_def map_ok_def)
qed

lemma map_ok_drop: "map_ok m \<Longrightarrow> map_ok (drop n m)"
  by (simp add: map_ok_def drop_map [symmetric])

lemma key_limit_ok:
  assumes "map_ok m" and "DO_MAX_KEYS \<le> int (length m)"
  shows "map_ok (fst (enforceKeyLimit m DO_MAX_KEYS))" "int (length (fst (enforceKeyLimit m DO_MAX_KEYS))) < DO_MAX_KEYS"
  using assms
  by (auto simp: enforceKeyLimit_def Let_def evict_first_drop map_ok_drop KEY_EVICTION_BUFFER_def DO_MAX_KEYS_def)

lemma length_map_del_le: "length (map_del k m) \<le> length m"
  by (simp add: map_del_def length_delete_le)

lemmas rate_inv_simps = rate_inv_def do_persist_def map_ok_set map_ok_del map_ok_Nil

lemma maybeCleanup_inv: "rate_inv s \<Longrightarrow> rate_inv (do_maybeCleanup now w s)"
  using cleanup_ok [of "ro_entries s" w now] by (auto simp: rate_inv_def do_maybeCleanup_def)

lemma checkKeyLimit_inv:
  "rate_inv s \<Longrightarrow> rate_inv (do_checkKeyLimit s) \<and> int (length (ro_entries (do_checkKeyLimit s))) < DO_MAX_KEYS"
  using key_limit_ok [of "ro_entries s"]
  by (cases "DO_MAX_KEYS \<le> int (length (ro_entries s))")
    (auto simp: rate_inv_def do_checkKeyLimit_def Let_def evict_first_drop map_ok_drop)

lemma entries_set_inv:
  "rate_inv s \<Longrightarrow> int (length (ro_entries s)) < DO_MAX_KEYS \<Longrightarrow> rate_inv (s\<lparr>ro_entries := map_set k v (ro_entries s)\<rparr>)"
  by (simp add: rate_inv_def length_map_set)

lemma entries_del_inv: "rate_inv s \<Longrightarrow> rate_inv (s\<lparr>ro_entries := map_del k (ro_entries s)\<rparr>)"
  using length_map_del_le [of k "ro_entries s"] by (simp add: rate_inv_def)

lemma buckets_inv:
  "rate_inv s \<Longrightarrow> rate_inv (s\<lparr>ro_tokenBuckets := map_set k v (ro_tokenBuckets s)\<rparr>)"
  "rate_inv s \<Longrightarrow> rate_inv (s\<lparr>ro_tokenBuckets := map_del k (ro_tokenBuckets s)\<rparr>)"
  by (simp_all add: rate_inv_def)

lemma persist_inv: "rate_inv s \<Longrightarrow> rate_inv (do_persist s)"
  by (simp add: rate_inv_def do_persist_def)

lemma alarm_field_inv [simp]: "rate_inv (s\<lparr>ro_alarm := a\<rparr>) = rate_inv s"
  by (simp add: rate_inv_def)

lemma handleCheck_inv:
  assumes "rate_inv s"
  shows "rate_inv (snd (do_handleCheck now data s))"
proof -
  define s1 where "s1 = do_maybeCleanup now (rq_windowMs data) s"
  have s1: "rate_inv s1" unfolding s1_def by (rule maybeCleanup_inv [OF assms])
  have "rate_inv (s1\<lparr>ro_tokenBuckets := map_set k v (ro_tokenBuckets s1), ro_entries := map_del k (ro_entries s1)\<rparr>)" for k v
    using entries_del_inv [OF buckets_inv(1) [OF s1, of k v], of k] by simp
  then show ?thesis
    unfolding do_handleCheck_def s1_def [symmetric] Let_def using s1 buckets_inv(1) [OF s1] by (simp add: case_prod_beta)
qed

lemma handleHit_inv:
  assumes "rate_inv s"
  shows "rate_inv (snd (do_handleHit now data s))"
proof -
  define s1 where "s1 = do_checkKeyLimit (do_maybeCleanup now (rq_windowMs data) s)"
  have s1: "rate_inv s1" "int (length (ro_entries s1)) < DO_MAX_KEYS"
    unfolding s1_def using checkKeyLimit_inv [OF maybeCleanup_inv [OF assms]] by blast+
  have del: "rate_inv (s1\<lparr>ro_tokenBuckets := map_set k v (ro_tokenBuckets s1), ro_entries := map_del k (ro_entries s1)\<rparr>)" for k v
    using entries_del_inv [OF buckets_inv(1) [OF s1(1), of k v], of k] by simp
  have set: "rate_inv (s1\<lparr>ro_entries := map_set k ts (ro_entries s1)\<rparr>)"
    "rate_inv (s1\<lparr>ro_entries := map_set k ts (ro_entries s1), ro_tokenBuckets := map_set k v (ro_tokenBuckets s1)\<rparr>)" for k ts v
    using entries_set_inv [OF s1, of k ts] buckets_inv(1) [OF entries_set_inv [OF s1, of k ts], of k v] by simp_all
  show ?thesis
    unfolding do_handleHit_def s1_def [symmetric] Let_def
    using s1(1) buckets_inv(1) [OF s1(1)] del set persist_inv by (simp add: case_prod_beta)
qed

lemma handleReset_inv: "rate_inv s \<Longrightarrow> rate_inv (snd (do_handleReset key s))"
  using persist_inv [OF buckets_inv(2) [OF entries_del_inv [of s key], of key]] by (simp add: do_handleReset_def)

lemma handleAlarm_inv: "rate_inv s \<Longrightarrow> rate_inv (do_handleAlarm now s)"
  using cleanup_ok [of "ro_entries s" 60000 now]
  by (auto simp: rate_inv_def do_handleAlarm_def do_persist_def Let_def)

lemma new_inv: "rate_inv s \<Longrightarrow> rate_inv (do_new now (ro_stored s) a)"
  by (auto simp: rate_inv_def do_new_def Let_def map_ok_from_eq map_from_def [of "[]"] DO_MAX_KEYS_def split: option.splits)

lemma fetch_inv: "rate_inv s \<Longrightarrow> do_fetch now path post body s = (r, t) \<Longrightarrow> rate_inv t"
  using handleCheck_inv [of s now] handleHit_inv [of s now] handleReset_inv [of s]
  by (auto simp: do_fetch_def split: if_splits option.splits) (metis snd_conv)+

interpretation rate: event_system rate_init rate_step rate_inv
proof
  show "rate_init s \<Longrightarrow> rate_inv s" for s
    by (auto simp: rate_init_def rate_inv_def do_new_def map_from_def DO_MAX_KEYS_def)
  show "rate_inv s \<Longrightarrow> rate_step e s t \<Longrightarrow> rate_inv t" for s e t
    by (auto elim!: rate_stepE intro: fetch_inv handleAlarm_inv new_inv)
qed

section \<open>Properties\<close>

text \<open>In every state the object can reach, by requests, alarms and restarts in any order, both
  maps have distinct keys and there are at most as many sliding-window entries as the key limit, in
  memory and in storage.\<close>

theorem rate_entries_bounded:
  assumes "reachable rate_init rate_step s"
  shows "distinct (map fst (ro_entries s)) \<and> distinct (map fst (ro_tokenBuckets s)) \<and>
    length (ro_entries s) \<le> 10000 \<and>
    (\<forall>es tbs. ro_stored s = Some (es, tbs) \<longrightarrow> distinct (map fst es) \<and> length es \<le> 10000)"
  using rate.reachable_inv [OF assms] by (auto simp: rate_inv_def map_ok_def DO_MAX_KEYS_def)

theorem rate_entries_bounded_witness:
  "length (ro_entries (snd (do_fetch 1 (js ''/hit'') True
     (Some \<lparr>rq_key = [], rq_maxRequests = 1, rq_windowMs = 10, rq_algorithm = None\<rparr>) (do_new 0 None None)))) \<le> 10000"
proof -
  have "reachable rate_init rate_step (do_new 0 None None)" by (intro reachable.initial) (auto simp: rate_init_def)
  then have "reachable rate_init rate_step (snd (do_fetch 1 (js ''/hit'') True
     (Some \<lparr>rq_key = [], rq_maxRequests = 1, rq_windowMs = 10, rq_algorithm = None\<rparr>) (do_new 0 None None)))"
    by (rule reachable.further) (rule step_fetch, rule prod.collapse [symmetric])
  from rate_entries_bounded [OF this] show ?thesis by blast
qed

text \<open>A request that was allowed is not forgotten by a restart: the object built from what is
  stored has the same windows and buckets as before, so the limit goes on counting it.\<close>

theorem rate_restart_keeps:
  assumes "reachable rate_init rate_step s" and "do_handleHit now data s = (RateReply r a shadow, t)"
    and "wr_allowed r"
  shows "ro_entries (do_new now' (ro_stored t) alarm) = ro_entries t \<and>
    ro_tokenBuckets (do_new now' (ro_stored t) alarm) = ro_tokenBuckets t"
proof -
  have inv: "rate_inv t" using handleHit_inv [OF rate.reachable_inv [OF assms(1)], of now data] assms(2) by simp
  have "ro_stored t = Some (ro_entries t, ro_tokenBuckets t)"
    using assms(2,3) by (auto simp: do_handleHit_def do_persist_def Let_def case_prod_beta split: if_splits)
  then show ?thesis using inv by (simp add: do_new_def rate_inv_def map_ok_from_eq Let_def)
qed

theorem rate_restart_keeps_witness:
  "ro_entries (do_new 9 (ro_stored (snd (do_handleHit 1 \<lparr>rq_key = js ''k'', rq_maxRequests = 1, rq_windowMs = 10,
      rq_algorithm = None\<rparr> (do_new 0 None None)))) None) = [(js ''k'', [1])]"
proof -
  let ?data = "\<lparr>rq_key = js ''k'', rq_maxRequests = 1, rq_windowMs = 10, rq_algorithm = None\<rparr>"
  have r: "reachable rate_init rate_step (do_new 0 None None)" by (intro reachable.initial) (auto simp: rate_init_def)
  have h: "\<exists>r t. do_handleHit 1 ?data (do_new 0 None None) = (RateReply r SlidingWindow None, t) \<and> wr_allowed r \<and>
      ro_entries t = [(js ''k'', [1])]"
    by (simp add: do_handleHit_def do_new_def do_maybeCleanup_def do_checkKeyLimit_def DO_MAX_KEYS_def
        DO_CLEANUP_INTERVAL_MS_def map_from_def request_algorithm_def request_config_def hitSlidingWindow_def
        timestamps_of_def do_persist_def map_set_def Let_def)
  then obtain r t where h: "do_handleHit 1 ?data (do_new 0 None None) = (RateReply r SlidingWindow None, t)"
    "wr_allowed r" "ro_entries t = [(js ''k'', [1])]" by blast
  from rate_restart_keeps [OF reachable.initial h(1,2), of 9 None] h(1,3) show ?thesis
    by (auto simp: rate_init_def)
qed

fun do_hits :: "(rat \<times> rate_request) list \<Rightarrow> rate_object \<Rightarrow> bool list" where
  "do_hits [] s = []"
| "do_hits ((now, data) # hs) s =
     (let (reply, t) = do_handleHit now data s in
      (case reply of RateReply r _ _ \<Rightarrow> wr_allowed r | _ \<Rightarrow> False) # do_hits hs t)"

lemma checkKeyLimit_small:
  "length (ro_entries s) < 10 \<Longrightarrow> length (ro_tokenBuckets s) < 10 \<Longrightarrow> do_checkKeyLimit s = s"
  by (simp add: do_checkKeyLimit_def DO_MAX_KEYS_def Let_def)

lemma do_hits_plain:
  assumes "rq_algorithm data = None" and "do_maybeCleanup now (rq_windowMs data) s = sc"
    and "length (ro_entries sc) < 10" and "length (ro_tokenBuckets sc) < 10"
    and "live (request_config data) now (timestamps_of (ro_entries sc) (rq_key data)) = lv"
  shows "do_hits ((now, data) # hs) s =
    (if of_nat (length lv) < rq_maxRequests data
     then True # do_hits hs (do_persist (sc\<lparr>ro_entries := map_set (rq_key data) (lv @ [now]) (ro_entries sc)\<rparr>))
     else False # do_hits hs sc)"
  using assms hit_allowed_iff [of "timestamps_of (ro_entries sc) (rq_key data)" "request_config data" now False]
    hit_timestamps [of "timestamps_of (ro_entries sc) (rq_key data)" "request_config data" now]
  by (simp add: do_handleHit_def checkKeyLimit_small request_algorithm_def request_config_def case_prod_beta Let_def)

definition hourly :: rate_request where
  "hourly = \<lparr>rq_key = js ''a'', rq_maxRequests = 1, rq_windowMs = 3600000, rq_algorithm = None\<rparr>"

definition minutely :: rate_request where
  "minutely = \<lparr>rq_key = js ''b'', rq_maxRequests = 1, rq_windowMs = 60000, rq_algorithm = None\<rparr>"

definition after_one :: "rate_object" where
  "after_one = \<lparr>ro_entries = [(js ''a'', [1])], ro_tokenBuckets = [], ro_lastCleanup = 0,
     ro_stored = Some ([(js ''a'', [1])], []), ro_alarm = Some 60000\<rparr>"

lemma hourly_fields:
  "rq_key hourly = js ''a''" "rq_maxRequests hourly = 1" "rq_windowMs hourly = 3600000" "rq_algorithm hourly = None"
  by (simp_all add: hourly_def)

lemma after_one_fields: "ro_entries after_one = [(js ''a'', [1])]" "ro_tokenBuckets after_one = []"
  by (simp_all add: after_one_def)

lemma hourly_once: "do_hits ((1, hourly) # hs) (do_new 0 None None) = True # do_hits hs after_one"
  by (subst do_hits_plain [where lv = "[]" and sc = "do_new 0 None None"])
    (simp_all add: hourly_def do_new_def do_maybeCleanup_def DO_CLEANUP_INTERVAL_MS_def timestamps_of_def live_def
      map_from_def map_set_def do_persist_def after_one_def)

lemma hourly_again: "now \<le> 60000 \<Longrightarrow> 2 \<le> now \<Longrightarrow> do_hits ((now, hourly) # hs) after_one = False # do_hits hs after_one"
  by (subst do_hits_plain [where lv = "[1]" and sc = "after_one"])
    (simp_all add: hourly_def do_maybeCleanup_def DO_CLEANUP_INTERVAL_MS_def timestamps_of_def live_def map_get_def
      after_one_def request_config_def)

lemma minute_cleans:
  "do_maybeCleanup 61000 60000 after_one = after_one\<lparr>ro_entries := [], ro_lastCleanup := 61000\<rparr>"
  by (simp add: do_maybeCleanup_def DO_CLEANUP_INTERVAL_MS_def cleanupExpiredEntries_def cleanup_entry_def after_one_def
      map_del_def)

lemma hour_cleans:
  "do_maybeCleanup 61000 3600000 after_one = after_one\<lparr>ro_lastCleanup := 61000\<rparr>"
  by (simp add: do_maybeCleanup_def DO_CLEANUP_INTERVAL_MS_def cleanupExpiredEntries_def cleanup_entry_def after_one_def
      map_set_def)

text \<open>One object serves keys with different windows, but cleans up with the window of whichever
  request comes by: a key limited to one request per hour is let through twice within 61 seconds,
  since a request for another key with a one-minute window makes the object forget it. Without that
  other request it is refused.\<close>

theorem cleanup_forgets_longer_windows:
  "do_hits [(1, hourly), (2, hourly), (61000, hourly)] (do_new 0 None None) = [True, False, False] \<and>
   do_hits [(1, hourly), (2, hourly), (61000, minutely), (61001, hourly)] (do_new 0 None None) = [True, False, True, True]"
proof
  have "do_hits [(61000, hourly)] after_one = [False]"
    by (subst do_hits_plain [where lv = "[1]" and sc = "after_one\<lparr>ro_lastCleanup := 61000\<rparr>"])
      (simp_all add: hourly_fields hour_cleans timestamps_of_def live_def map_get_def request_config_def after_one_fields)
  then show "do_hits [(1, hourly), (2, hourly), (61000, hourly)] (do_new 0 None None) = [True, False, False]"
    by (simp only: hourly_once) (subst hourly_again, simp_all del: do_hits.simps)
  define s2 where "s2 = do_persist (after_one\<lparr>ro_lastCleanup := 61000, ro_entries := [(js ''b'', [61000])]\<rparr>)"
  have "do_hits [(61001, hourly)] s2 = [True]"
    by (subst do_hits_plain [where lv = "[]" and sc = s2])
      (simp_all add: hourly_def s2_def do_persist_def do_maybeCleanup_def DO_CLEANUP_INTERVAL_MS_def timestamps_of_def live_def
        map_get_def after_one_def js_def)
  moreover have "do_hits [(61000, minutely), (61001, hourly)] after_one = True # do_hits [(61001, hourly)] s2"
    by (subst do_hits_plain [where lv = "[]" and sc = "after_one\<lparr>ro_entries := [], ro_lastCleanup := 61000\<rparr>"])
      (simp_all add: minutely_def minute_cleans timestamps_of_def live_def map_set_def s2_def do_persist_def after_one_fields
        del: do_hits.simps)
  ultimately show "do_hits [(1, hourly), (2, hourly), (61000, minutely), (61001, hourly)] (do_new 0 None None) =
      [True, False, True, True]"
    by (simp only: hourly_once) (subst hourly_again, simp_all del: do_hits.simps)
qed

definition bucket_check :: "jsstring \<Rightarrow> rate_request" where
  "bucket_check key = \<lparr>rq_key = key, rq_maxRequests = 1, rq_windowMs = 1, rq_algorithm = Some TokenBucket\<rparr>"

lemma check_token:
  assumes "rq_algorithm data = Some TokenBucket"
  shows "ro_tokenBuckets (snd (do_handleCheck now data s)) = map_set (rq_key data)
    (fst (hitTokenBucket (map_get (ro_tokenBuckets s) (rq_key data)) (request_config data) now True)) (ro_tokenBuckets s)"
proof -
  have "ro_tokenBuckets (do_maybeCleanup now w s) = ro_tokenBuckets s" for w by (simp add: do_maybeCleanup_def)
  moreover have "request_algorithm data = TokenBucket" by (simp add: request_algorithm_def assms)
  ultimately show ?thesis by (simp add: do_handleCheck_def case_prod_beta Let_def)
qed

definition fresh_buckets :: "nat \<Rightarrow> rate_object \<Rightarrow> bool" where
  "fresh_buckets n s \<longleftrightarrow> length (ro_tokenBuckets s) = n \<and> (\<forall>m \<ge> n. map_get (ro_tokenBuckets s) (replicate m 97) = None)"

lemma new_fresh: "reachable rate_init rate_step (do_new 0 None None) \<and> fresh_buckets 0 (do_new 0 None None)"
  by (auto simp: rate_init_def fresh_buckets_def do_new_def map_from_def intro!: reachable.initial)

lemma check_fresh:
  assumes "reachable rate_init rate_step s \<and> fresh_buckets n s"
  shows "\<exists>t. reachable rate_init rate_step t \<and> fresh_buckets (Suc n) t"
proof -
  let ?d = "bucket_check (replicate n 97)"
  obtain r t where h: "do_handleCheck 0 ?d s = (r, t)" by fastforce
  then have "do_fetch 0 (js ''/check'') True (Some ?d) s = (r, t)" by (simp add: do_fetch_def)
  then have "reachable rate_init rate_step t" using assms reachable.further step_fetch by metis
  moreover have "rq_algorithm ?d = Some TokenBucket" "rq_key ?d = replicate n 97" by (simp_all add: bucket_check_def)
  then obtain v where v: "ro_tokenBuckets t = map_set (replicate n 97) v (ro_tokenBuckets s)"
    using check_token [of ?d 0 s] h by simp
  have "fresh_buckets (Suc n) t" using assms by (simp add: fresh_buckets_def v length_map_set)
  ultimately show ?thesis by blast
qed

text \<open>The key limit does not hold for token buckets: a check adds a bucket for every new key and
  never evicts, so the object can be brought to have any number of buckets.\<close>

theorem rate_buckets_unbounded:
  "\<exists>s. reachable rate_init rate_step s \<and> length (ro_tokenBuckets s) = n"
proof -
  have "\<exists>s. reachable rate_init rate_step s \<and> fresh_buckets n s" for n
  proof (induction n)
    case 0
    then show ?case using new_fresh by blast
  next
    case (Suc n)
    then show ?case using check_fresh by blast
  qed
  then show ?thesis by (auto simp: fresh_buckets_def)
qed

end
