(* ===== verification/SessionDO.thy ===== *)
theory SessionDO
  imports JsText StepSystem
begin

text \<open>
  The session store that runs as a Durable Object (\<open>runtime/durable-objects/session.ts\<close>):
  the maps of sessions and login states, their copies in storage, the clean-up alarm and the
  requests. Times are milliseconds. The platform's storage is a map; the order in which it
  lists its keys does not matter here.
\<close>

section \<open>State\<close>

record session =
  se_id :: jsstring
  se_user_id :: jsstring
  se_expires_at :: int
  se_created_at :: int
  se_last_rotated_at :: "int option"

record oidc_state =
  oi_state :: jsstring
  oi_nonce :: jsstring
  oi_code_verifier :: jsstring
  oi_return_to :: jsstring
  oi_expires_at :: int
  oi_cli_callback :: "jsstring option"

datatype stored_value = StoredSession session | StoredOidc oidc_state

record session_object =
  so_sessions :: "(jsstring, session) js_map"
  so_oidcStates :: "(jsstring, oidc_state) js_map"
  so_storage :: "(jsstring, stored_value) js_map"
  so_alarm :: "int option"

definition SESSION_PREFIX :: jsstring where "SESSION_PREFIX = js ''session:''"
definition OIDC_PREFIX :: jsstring where "OIDC_PREFIX = js ''oidc:''"

section \<open>Operations\<close>

text \<open>The value if it has not expired, else its removal and the sign that it was there.\<close>

definition getIfValid :: "('v \<Rightarrow> int) \<Rightarrow> int \<Rightarrow> (jsstring, 'v) js_map \<Rightarrow> jsstring \<Rightarrow> ('v option \<times> bool) \<times> (jsstring, 'v) js_map" where
  "getIfValid expires now m key =
     (case map_get m key of
       None \<Rightarrow> ((None, False), m)
     | Some v \<Rightarrow> if expires v < now then ((None, True), map_del key m) else ((Some v, False), m))"

definition load_entry :: "jsstring \<times> stored_value \<Rightarrow> session_object \<Rightarrow> session_object" where
  "load_entry kv s =
     (case snd kv of
       StoredSession v \<Rightarrow>
         if js_starts_with (fst kv) SESSION_PREFIX
         then s\<lparr>so_sessions := map_set (drop (length SESSION_PREFIX) (fst kv)) v (so_sessions s)\<rparr> else s
     | StoredOidc v \<Rightarrow>
         if js_starts_with (fst kv) OIDC_PREFIX
         then s\<lparr>so_oidcStates := map_set (drop (length OIDC_PREFIX) (fst kv)) v (so_oidcStates s)\<rparr> else s)"

definition so_new :: "(jsstring, stored_value) js_map \<Rightarrow> int option \<Rightarrow> session_object" where
  "so_new storage alarm =
     fold load_entry storage \<lparr>so_sessions = [], so_oidcStates = [], so_storage = storage, so_alarm = alarm\<rparr>"

definition persistSession :: "jsstring \<Rightarrow> session_object \<Rightarrow> session_object" where
  "persistSession i s =
     (case map_get (so_sessions s) i of
       Some v \<Rightarrow> s\<lparr>so_storage := map_set (SESSION_PREFIX @ i) (StoredSession v) (so_storage s)\<rparr>
     | None \<Rightarrow> s\<lparr>so_storage := map_del (SESSION_PREFIX @ i) (so_storage s)\<rparr>)"

definition deleteSession :: "jsstring \<Rightarrow> session_object \<Rightarrow> session_object" where
  "deleteSession i s =
     s\<lparr>so_sessions := map_del i (so_sessions s), so_storage := map_del (SESSION_PREFIX @ i) (so_storage s)\<rparr>"

definition persistOidcState :: "jsstring \<Rightarrow> session_object \<Rightarrow> session_object" where
  "persistOidcState k s =
     (case map_get (so_oidcStates s) k of
       Some v \<Rightarrow> s\<lparr>so_storage := map_set (OIDC_PREFIX @ k) (StoredOidc v) (so_storage s)\<rparr>
     | None \<Rightarrow> s\<lparr>so_storage := map_del (OIDC_PREFIX @ k) (so_storage s)\<rparr>)"

definition deleteOidcState :: "jsstring \<Rightarrow> session_object \<Rightarrow> session_object" where
  "deleteOidcState k s =
     s\<lparr>so_oidcStates := map_del k (so_oidcStates s), so_storage := map_del (OIDC_PREFIX @ k) (so_storage s)\<rparr>"

text \<open>\<open>None\<close> stands for the \<open>Infinity\<close> the search for the earliest expiry starts from.\<close>

definition earlier :: "int \<Rightarrow> int option \<Rightarrow> int option" where
  "earlier e acc = (case acc of None \<Rightarrow> Some e | Some a \<Rightarrow> if e < a then Some e else Some a)"

definition scheduleCleanupAlarm :: "int \<Rightarrow> session_object \<Rightarrow> session_object" where
  "scheduleCleanupAlarm now s =
     (if so_alarm s \<noteq> None \<and> so_alarm s \<noteq> Some 0 then s
      else let e1 = fold (\<lambda>kv. earlier (se_expires_at (snd kv))) (so_sessions s) None;
               e2 = fold (\<lambda>kv. earlier (oi_expires_at (snd kv))) (so_oidcStates s) e1 in
        (case e2 of None \<Rightarrow> s | Some e \<Rightarrow> s\<lparr>so_alarm := Some (max e (now + 1000))\<rparr>))"

definition expire_session :: "int \<Rightarrow> jsstring \<times> session \<Rightarrow> session_object \<times> jsstring list \<Rightarrow> session_object \<times> jsstring list" where
  "expire_session now kv st =
     (if se_expires_at (snd kv) < now
      then ((fst st)\<lparr>so_sessions := map_del (fst kv) (so_sessions (fst st))\<rparr>, snd st @ [SESSION_PREFIX @ fst kv])
      else st)"

definition expire_oidc :: "int \<Rightarrow> jsstring \<times> oidc_state \<Rightarrow> session_object \<times> jsstring list \<Rightarrow> session_object \<times> jsstring list" where
  "expire_oidc now kv st =
     (if oi_expires_at (snd kv) < now
      then ((fst st)\<lparr>so_oidcStates := map_del (fst kv) (so_oidcStates (fst st))\<rparr>, snd st @ [OIDC_PREFIX @ fst kv])
      else st)"

definition so_handleAlarm :: "int \<Rightarrow> session_object \<Rightarrow> session_object" where
  "so_handleAlarm now s =
     (let (s1, keys1) = fold (expire_session now) (so_sessions s) (s, []);
          (s2, keysToDelete) = fold (expire_oidc now) (so_oidcStates s1) (s1, keys1) in
      scheduleCleanupAlarm now
        (if length keysToDelete > 0 then s2\<lparr>so_storage := fold map_del keysToDelete (so_storage s2)\<rparr> else s2))"

text \<open>
  A request is its path with the parsed body of a POST; \<open>BadBody\<close> is a known path whose
  body does not parse, \<open>OtherRequest\<close> anything else.
\<close>

datatype session_request =
  SessionCreate session | SessionGet jsstring | SessionDelete jsstring |
  OidcCreate oidc_state | OidcGet jsstring | OidcDelete jsstring | BadBody | OtherRequest

datatype session_response =
  Created bool | GotSession "session option" | GotOidc "oidc_state option" | Done | NotFound | Failed

fun so_fetch :: "int \<Rightarrow> session_request \<Rightarrow> session_object \<Rightarrow> session_response \<times> session_object" where
  "so_fetch now (SessionCreate v) s =
     (let existing = map_get (so_sessions s) (se_id v) in
      if existing \<noteq> None \<and> se_expires_at (the existing) \<ge> now then (Created True, s)
      else (Created False, scheduleCleanupAlarm now (persistSession (se_id v)
        (s\<lparr>so_sessions := map_set (se_id v) v (so_sessions s)\<rparr>))))"
| "so_fetch now (SessionGet i) s =
     (let ((v, evicted), m) = getIfValid se_expires_at now (so_sessions s) i; s1 = s\<lparr>so_sessions := m\<rparr> in
      (GotSession v, if evicted then deleteSession i s1 else s1))"
| "so_fetch now (SessionDelete i) s = (Done, deleteSession i s)"
| "so_fetch now (OidcCreate v) s =
     (Done, scheduleCleanupAlarm now (persistOidcState (oi_state v)
        (s\<lparr>so_oidcStates := map_set (oi_state v) v (so_oidcStates s)\<rparr>)))"
| "so_fetch now (OidcGet k) s =
     (let ((v, evicted), m) = getIfValid oi_expires_at now (so_oidcStates s) k; s1 = s\<lparr>so_oidcStates := m\<rparr> in
      (GotOidc v, if evicted then deleteOidcState k s1 else s1))"
| "so_fetch now (OidcDelete k) s = (Done, deleteOidcState k s)"
| "so_fetch now BadBody s = (Failed, s)"
| "so_fetch now OtherRequest s = (NotFound, s)"

section \<open>The object as a system\<close>

datatype session_event = Request int session_request | AlarmFires int | Restarts

inductive session_step :: "session_event \<Rightarrow> session_object \<Rightarrow> session_object \<Rightarrow> bool" where
  step_request: "0 \<le> now \<Longrightarrow> so_fetch now req s = (r, t) \<Longrightarrow> session_step (Request now req) s t"
| step_alarm: "0 \<le> now \<Longrightarrow> so_alarm s \<noteq> None \<Longrightarrow> session_step (AlarmFires now) s (so_handleAlarm now (s\<lparr>so_alarm := None\<rparr>))"
| step_restart: "session_step Restarts s (so_new (so_storage s) (so_alarm s))"

inductive_cases session_stepE: "session_step e s t"
inductive_simps session_request_iff: "session_step (Request now req) s t"

definition session_init :: "session_object \<Rightarrow> bool" where
  "session_init s \<longleftrightarrow> s = so_new [] None"

text \<open>Storage mirrors the maps, keys are the ids of their values, and an alarm is pending.\<close>

definition mirrored :: "session_object \<Rightarrow> bool" where
  "mirrored s \<longleftrightarrow> map_ok (so_sessions s) \<and> map_ok (so_oidcStates s) \<and> map_ok (so_storage s) \<and>
     (\<forall>i. map_get (so_storage s) (SESSION_PREFIX @ i) = map_option StoredSession (map_get (so_sessions s) i)) \<and>
     (\<forall>k. map_get (so_storage s) (OIDC_PREFIX @ k) = map_option StoredOidc (map_get (so_oidcStates s) k)) \<and>
     (\<forall>key v. map_get (so_storage s) key = Some v \<longrightarrow>
       (\<exists>i. key = SESSION_PREFIX @ i) \<or> (\<exists>k. key = OIDC_PREFIX @ k)) \<and>
     (\<forall>i v. map_get (so_sessions s) i = Some v \<longrightarrow> se_id v = i) \<and>
     (\<forall>k v. map_get (so_oidcStates s) k = Some v \<longrightarrow> oi_state v = k)"

definition alarm_pending :: "session_object \<Rightarrow> bool" where
  "alarm_pending s \<longleftrightarrow> so_alarm s \<noteq> Some 0 \<and> (so_sessions s \<noteq> [] \<or> so_oidcStates s \<noteq> [] \<longrightarrow> so_alarm s \<noteq> None)"

definition session_inv :: "session_object \<Rightarrow> bool" where
  "session_inv s \<longleftrightarrow> mirrored s \<and> alarm_pending s"

lemma prefix_neq [simp]: "SESSION_PREFIX @ i \<noteq> OIDC_PREFIX @ k" "OIDC_PREFIX @ k \<noteq> SESSION_PREFIX @ i"
  by (simp_all add: SESSION_PREFIX_def OIDC_PREFIX_def js_def)

lemma mirrored_set_session:
  "mirrored s \<Longrightarrow> mirrored (persistSession (se_id v) (s\<lparr>so_sessions := map_set (se_id v) v (so_sessions s)\<rparr>))"
  by (auto simp: mirrored_def persistSession_def split: if_splits)

lemma mirrored_set_oidc:
  "mirrored s \<Longrightarrow> mirrored (persistOidcState (oi_state v) (s\<lparr>so_oidcStates := map_set (oi_state v) v (so_oidcStates s)\<rparr>))"
  by (auto simp: mirrored_def persistOidcState_def split: if_splits)

lemma mirrored_del:
  "mirrored s \<Longrightarrow> mirrored (deleteSession i s)" "mirrored s \<Longrightarrow> mirrored (deleteOidcState k s)"
  by (auto simp: mirrored_def deleteSession_def deleteOidcState_def split: if_splits)

lemma mirrored_alarm [simp]: "mirrored (s\<lparr>so_alarm := a\<rparr>) = mirrored s"
  by (simp add: mirrored_def)

lemma schedule_fields [simp]:
  "so_sessions (scheduleCleanupAlarm now s) = so_sessions s" "so_oidcStates (scheduleCleanupAlarm now s) = so_oidcStates s"
  "so_storage (scheduleCleanupAlarm now s) = so_storage s" "mirrored (scheduleCleanupAlarm now s) = mirrored s"
  by (auto simp: scheduleCleanupAlarm_def Let_def split: option.splits)

lemma fold_earlier: "fold (\<lambda>kv. earlier (f kv)) m acc = None \<longleftrightarrow> m = [] \<and> acc = None"
  by (induction m arbitrary: acc) (auto simp: earlier_def split: option.splits)

lemma schedule_pending: "0 \<le> now \<Longrightarrow> so_alarm s \<noteq> Some 0 \<Longrightarrow> alarm_pending (scheduleCleanupAlarm now s)"
  by (cases "fold (\<lambda>kv. earlier (oi_expires_at (snd kv))) (so_oidcStates s)
      (fold (\<lambda>kv. earlier (se_expires_at (snd kv))) (so_sessions s) None)")
    (auto simp: alarm_pending_def scheduleCleanupAlarm_def Let_def fold_earlier)

lemma map_del_neq_Nil: "map_del k m \<noteq> [] \<Longrightarrow> m \<noteq> []"
  by (auto simp: map_del_def)

lemma delete_pending:
  "alarm_pending s \<Longrightarrow> alarm_pending (deleteSession i s)" "alarm_pending s \<Longrightarrow> alarm_pending (deleteOidcState k s)"
  by (auto simp: alarm_pending_def deleteSession_def deleteOidcState_def dest: map_del_neq_Nil)

lemma persist_alarm [simp]:
  "so_alarm (persistSession i s) = so_alarm s" "so_alarm (persistOidcState k s) = so_alarm s"
  by (auto simp: persistSession_def persistOidcState_def split: option.splits)

lemma getIfValid_cases:
  "getIfValid ex now m k = (case map_get m k of None \<Rightarrow> ((None, False), m)
    | Some v \<Rightarrow> if ex v < now then ((None, True), map_del k m) else ((Some v, False), m))"
  by (simp add: getIfValid_def)

lemma delete_twice:
  "deleteSession i (s\<lparr>so_sessions := map_del i (so_sessions s)\<rparr>) = deleteSession i s"
  "deleteOidcState k (s\<lparr>so_oidcStates := map_del k (so_oidcStates s)\<rparr>) = deleteOidcState k s"
  by (simp_all add: deleteSession_def deleteOidcState_def map_del_def AList.delete_eq case_prod_unfold)

lemma fetch_state:
  "snd (so_fetch now (SessionGet i) s) = (case map_get (so_sessions s) i of
     Some v \<Rightarrow> if se_expires_at v < now then deleteSession i s else s | None \<Rightarrow> s)"
  "snd (so_fetch now (OidcGet k) s) = (case map_get (so_oidcStates s) k of
     Some v \<Rightarrow> if oi_expires_at v < now then deleteOidcState k s else s | None \<Rightarrow> s)"
  by (auto simp: getIfValid_def delete_twice split: option.splits)

lemma fetch_session_inv: "0 \<le> now \<Longrightarrow> session_inv s \<Longrightarrow> session_inv (snd (so_fetch now req s))"
proof (cases req)
  case (SessionCreate v)
  assume "0 \<le> now" "session_inv s"
  then show ?thesis
    using mirrored_set_session [of s v] schedule_pending [of now "persistSession (se_id v)
      (s\<lparr>so_sessions := map_set (se_id v) v (so_sessions s)\<rparr>)"]
    by (simp add: SessionCreate session_inv_def Let_def alarm_pending_def [of s])
next
  case (OidcCreate v)
  assume "0 \<le> now" "session_inv s"
  then show ?thesis
    using mirrored_set_oidc [of s v] schedule_pending [of now "persistOidcState (oi_state v)
      (s\<lparr>so_oidcStates := map_set (oi_state v) v (so_oidcStates s)\<rparr>)"]
    by (simp add: OidcCreate session_inv_def Let_def alarm_pending_def [of s])
next
  case (SessionGet i)
  then show "session_inv s \<Longrightarrow> ?thesis"
    unfolding SessionGet fetch_state using mirrored_del delete_pending
    by (auto simp: session_inv_def split: option.splits)
next
  case (OidcGet i)
  then show "session_inv s \<Longrightarrow> ?thesis"
    unfolding OidcGet fetch_state using mirrored_del delete_pending
    by (auto simp: session_inv_def split: option.splits)
qed (use mirrored_del delete_pending in \<open>auto simp: session_inv_def\<close>)

lemma expire_sessions:
  "fold (expire_session now) kvs (s, ks) =
    (s\<lparr>so_sessions := fold map_del (map fst (filter (\<lambda>kv. se_expires_at (snd kv) < now) kvs)) (so_sessions s)\<rparr>,
     ks @ map (\<lambda>kv. SESSION_PREFIX @ fst kv) (filter (\<lambda>kv. se_expires_at (snd kv) < now) kvs))"
  by (induction kvs arbitrary: s ks) (auto simp: expire_session_def)

lemma expire_oidcs:
  "fold (expire_oidc now) kvs (s, ks) =
    (s\<lparr>so_oidcStates := fold map_del (map fst (filter (\<lambda>kv. oi_expires_at (snd kv) < now) kvs)) (so_oidcStates s)\<rparr>,
     ks @ map (\<lambda>kv. OIDC_PREFIX @ fst kv) (filter (\<lambda>kv. oi_expires_at (snd kv) < now) kvs))"
  by (induction kvs arbitrary: s ks) (auto simp: expire_oidc_def)

lemma fold_map_del_get: "map_get (fold map_del keys m) k = (if k \<in> set keys then None else map_get m k)"
  by (induction keys arbitrary: m) auto

lemma map_ok_fold_del: "map_ok m \<Longrightarrow> map_ok (fold map_del keys m)"
  by (induction keys arbitrary: m) auto

definition expired_sessions :: "int \<Rightarrow> session_object \<Rightarrow> jsstring list" where
  "expired_sessions now s = map fst (filter (\<lambda>kv. se_expires_at (snd kv) < now) (so_sessions s))"

definition expired_oidcs :: "int \<Rightarrow> session_object \<Rightarrow> jsstring list" where
  "expired_oidcs now s = map fst (filter (\<lambda>kv. oi_expires_at (snd kv) < now) (so_oidcStates s))"

lemma handleAlarm_eq:
  "so_handleAlarm now s = scheduleCleanupAlarm now (s\<lparr>so_sessions := fold map_del (expired_sessions now s) (so_sessions s),
     so_oidcStates := fold map_del (expired_oidcs now s) (so_oidcStates s),
     so_storage := fold map_del (map ((@) SESSION_PREFIX) (expired_sessions now s) @
       map ((@) OIDC_PREFIX) (expired_oidcs now s)) (so_storage s)\<rparr>)"
  by (auto simp: so_handleAlarm_def expire_sessions expire_oidcs expired_sessions_def expired_oidcs_def comp_def)

lemma handleAlarm_mirrored:
  assumes "mirrored s"
  shows "mirrored (so_handleAlarm now s)"
  using assms unfolding handleAlarm_eq
  by (auto simp: mirrored_def fold_map_del_get map_ok_fold_del split: if_splits)

lemma starts_with_iff: "js_starts_with key p \<longleftrightarrow> (\<exists>i. key = p @ i)"
  by (metis append_take_drop_id append_eq_conv_conj js_starts_with_def)

lemma prefix_starts [simp]:
  "js_starts_with (SESSION_PREFIX @ i) SESSION_PREFIX" "js_starts_with (OIDC_PREFIX @ i) OIDC_PREFIX"
  "\<not> js_starts_with (OIDC_PREFIX @ i) SESSION_PREFIX" "\<not> js_starts_with (SESSION_PREFIX @ i) OIDC_PREFIX"
  by (auto simp: starts_with_iff)

lemma load_sessions:
  "distinct (map fst kvs) \<Longrightarrow> map_get (so_sessions (fold load_entry kvs s)) i =
    (case map_of kvs (SESSION_PREFIX @ i) of Some (StoredSession v) \<Rightarrow> Some v | _ \<Rightarrow> map_get (so_sessions s) i)"
proof (induction kvs arbitrary: s)
  case (Cons kv kvs)
  obtain key v where kv: "kv = (key, v)" by fastforce
  have "map_of kvs key = None" using Cons.prems by (simp add: kv map_of_eq_None_iff)
  then show ?case using Cons
    by (cases "js_starts_with key SESSION_PREFIX"; cases v)
      (auto simp: kv load_entry_def starts_with_iff split: stored_value.splits option.splits)
qed simp

lemma load_oidcs:
  "distinct (map fst kvs) \<Longrightarrow> map_get (so_oidcStates (fold load_entry kvs s)) i =
    (case map_of kvs (OIDC_PREFIX @ i) of Some (StoredOidc v) \<Rightarrow> Some v | _ \<Rightarrow> map_get (so_oidcStates s) i)"
proof (induction kvs arbitrary: s)
  case (Cons kv kvs)
  obtain key v where kv: "kv = (key, v)" by fastforce
  have "map_of kvs key = None" using Cons.prems by (simp add: kv map_of_eq_None_iff)
  then show ?case using Cons
    by (cases "js_starts_with key OIDC_PREFIX"; cases v)
      (auto simp: kv load_entry_def starts_with_iff split: stored_value.splits option.splits)
qed simp

lemma load_fields:
  "so_storage (fold load_entry kvs s) = so_storage s" "so_alarm (fold load_entry kvs s) = so_alarm s"
  "map_ok (so_sessions s) \<Longrightarrow> map_ok (so_sessions (fold load_entry kvs s))"
  "map_ok (so_oidcStates s) \<Longrightarrow> map_ok (so_oidcStates (fold load_entry kvs s))"
  by (induction kvs arbitrary: s) (auto simp: load_entry_def split: stored_value.splits)

text \<open>A restart finds every session and login state again.\<close>

lemma restart_get:
  assumes "mirrored s"
  shows "map_get (so_sessions (so_new (so_storage s) a)) i = map_get (so_sessions s) i"
    and "map_get (so_oidcStates (so_new (so_storage s) a)) i = map_get (so_oidcStates s) i"
  using assms load_sessions [of "so_storage s" _ i] load_oidcs [of "so_storage s" _ i]
  by (auto simp: so_new_def mirrored_def map_ok_def map_get_def [of "so_storage s"] split: option.splits)

lemma map_Nil_get: "m = [] \<longleftrightarrow> (\<forall>k. map_get m k = None)"
  by (cases m) (auto simp: map_get_def split: if_splits)

lemma restart_inv:
  assumes "session_inv s"
  shows "session_inv (so_new (so_storage s) (so_alarm s))"
proof -
  let ?t = "so_new (so_storage s) (so_alarm s)"
  have m: "mirrored s" using assms by (simp add: session_inv_def)
  note get = restart_get [OF m, of "so_alarm s"]
  have "so_storage ?t = so_storage s" "so_alarm ?t = so_alarm s" "map_ok (so_sessions ?t)" "map_ok (so_oidcStates ?t)"
    by (simp_all add: so_new_def load_fields)
  moreover have "so_sessions ?t = [] \<longleftrightarrow> so_sessions s = []" "so_oidcStates ?t = [] \<longleftrightarrow> so_oidcStates s = []"
    by (simp_all add: map_Nil_get get)
  ultimately show ?thesis using assms get by (simp add: session_inv_def alarm_pending_def mirrored_def)
qed

interpretation sessions: event_system session_init session_step session_inv
proof
  show "session_init s \<Longrightarrow> session_inv s" for s
    by (simp add: session_init_def session_inv_def so_new_def mirrored_def alarm_pending_def)
  show "session_inv s \<Longrightarrow> session_step e s t \<Longrightarrow> session_inv t" for s e t
  proof (elim session_stepE)
    fix now req r assume "session_inv s" "0 \<le> now" "so_fetch now req s = (r, t)"
    then show "session_inv t" using fetch_session_inv [of now s req] by simp
  next
    fix now assume s: "session_inv s" "0 \<le> now" "t = so_handleAlarm now (s\<lparr>so_alarm := None\<rparr>)"
    have "mirrored t" unfolding s(3) using s(1) by (intro handleAlarm_mirrored) (simp add: session_inv_def)
    moreover have "alarm_pending t" unfolding s(3) handleAlarm_eq by (rule schedule_pending [OF s(2)]) simp
    ultimately show "session_inv t" by (simp add: session_inv_def)
  next
    assume "session_inv s" "t = so_new (so_storage s) (so_alarm s)"
    then show "session_inv t" by (simp add: restart_inv)
  qed
qed

section \<open>Properties\<close>


definition ada_session :: session where
  "ada_session = \<lparr>se_id = js ''s1'', se_user_id = js ''ada'', se_expires_at = 5000, se_created_at = 0, se_last_rotated_at = None\<rparr>"

definition ada_logged_in :: session_object where
  "ada_logged_in = snd (so_fetch 0 (SessionCreate ada_session) (so_new [] None))"

lemma ada_reachable: "reachable session_init session_step ada_logged_in"
proof (rule reachable.further)
  show "reachable session_init session_step (so_new [] None)" by (rule reachable.initial) (simp add: session_init_def)
  show "session_step (Request 0 (SessionCreate ada_session)) (so_new [] None) ada_logged_in"
    unfolding ada_logged_in_def by (rule step_request [OF order_refl prod.collapse [symmetric]])
qed


definition creates :: "jsstring \<Rightarrow> session_event \<Rightarrow> bool" where
  "creates i e = (case e of Request now (SessionCreate v) \<Rightarrow> se_id v = i | _ \<Rightarrow> False)"

lemma step_no_create:
  assumes "session_inv s" and "session_step e s t" and "\<not> creates i e" and "map_get (so_sessions s) i = None"
  shows "map_get (so_sessions t) i = None"
  using assms(2)
proof (cases rule: session_step.cases)
  case (step_request now req r)
  then have t: "t = snd (so_fetch now req s)" by simp
  show ?thesis
  proof (cases req)
    case (SessionCreate v)
    then show ?thesis using assms(3,4) by (simp add: t step_request(1) creates_def Let_def persistSession_def)
  next
    case (OidcCreate v)
    then show ?thesis using assms(4) by (simp add: t persistOidcState_def)
  next
    case (SessionGet j)
    then show ?thesis using assms(4) unfolding t SessionGet fetch_state
      by (simp add: deleteSession_def split: option.splits)
  next
    case (OidcGet j)
    then show ?thesis using assms(4) unfolding t OidcGet fetch_state
      by (simp add: deleteOidcState_def split: option.splits)
  qed (use assms(4) in \<open>simp_all add: t deleteSession_def deleteOidcState_def\<close>)
next
  case (step_alarm now)
  then show ?thesis using assms(4) by (simp add: handleAlarm_eq fold_map_del_get)
next
  case step_restart
  then show ?thesis using assms(1,4) restart_get(1) by (simp add: session_inv_def)
qed

text \<open>C31: A session that was deleted stays logged out: after the deletion, whatever requests, alarms and
  restarts follow, getting its id finds nothing until a session with that id is created. And a
  session that a request gets has the requested id and has not expired.\<close>

theorem deleted_session_stays_out:
  assumes "reachable session_init session_step s" and "so_fetch now (SessionDelete i) s = (r, t)"
    and "steps session_step t es u" and "\<forall>e \<in> set es. \<not> creates i e"
  shows "fst (so_fetch now' (SessionGet i) u) = GotSession None \<and>
    (\<forall>j v. fst (so_fetch now' (SessionGet j) u) = GotSession (Some v) \<longrightarrow> se_id v = j \<and> now' \<le> se_expires_at v)"
proof -
  have t: "session_inv t" "map_get (so_sessions t) i = None"
    using sessions.reachable_inv [OF assms(1)] mirrored_del(1) delete_pending(1) assms(2)
    by (auto simp: session_inv_def deleteSession_def)
  have "map_get (so_sessions u) i = None \<and> session_inv u"
    using assms(3,4) t
  proof (induction rule: steps.induct)
    case (steps_Cons e s t es u)
    then show ?case using step_no_create [of s e t i] sessions.step_inv [of s e t] by simp
  qed simp
  then show ?thesis
    by (auto simp: getIfValid_def session_inv_def mirrored_def split: option.splits if_splits)
qed

theorem deleted_session_stays_out_witness:
  "fst (so_fetch 200 (SessionGet (js ''s1'')) (so_new (so_storage (snd (so_fetch 100 (SessionDelete (js ''s1'')) ada_logged_in)))
     (so_alarm (snd (so_fetch 100 (SessionDelete (js ''s1'')) ada_logged_in))))) = GotSession None"
proof -
  let ?t = "snd (so_fetch 100 (SessionDelete (js ''s1'')) ada_logged_in)"
  have "steps session_step ?t [Restarts] (so_new (so_storage ?t) (so_alarm ?t))"
    unfolding steps_Cons_iff by (intro exI conjI, rule step_restart) simp
  from deleted_session_stays_out [OF ada_reachable prod.collapse [symmetric] this] show ?thesis
    by (simp only: list.set) (simp add: creates_def del: so_fetch.simps)
qed

end
