(* ===== verification/RunDb.thy ===== *)
theory RunDb
  imports AccountDb
begin

text \<open>
  The rows of the run database that the run lifecycle reads and writes
  (\<open>infra/db/schema-agents.ts\<close>, \<open>schema-repos.ts\<close>, \<open>schema-platform-notifications.ts\<close>), and the queue
  policy of \<open>runtime/runner/run-queue-policy.ts\<close>. Text dates are instants in milliseconds: the code writes
  all of them with \<open>toISOString\<close>, whose texts order as the instants do.
\<close>

section \<open>Rows\<close>

datatype run_status = Pending | Queued | Running | Completed | Failed | Cancelled

record run_row =
  r_id :: jsstring
  r_threadId :: jsstring
  r_accountId :: jsstring
  r_requester :: "jsstring option"
  r_sessionId :: "jsstring option"
  r_parentRunId :: "jsstring option"
  r_agentType :: jsstring
  r_input :: jsstring
  r_model :: "jsstring option"
  r_status :: run_status
  r_output :: "jsstring option"
  r_error :: "jsstring option"
  r_usage :: jsstring
  r_serviceId :: "jsstring option"
  r_heartbeat :: "int option"
  r_lease :: int
  r_completionKey :: "jsstring option"
  r_seqStart :: "int option"
  r_checkpoint :: "jsstring option"
  r_checkpointAt :: "int option"
  r_startedAt :: "int option"
  r_completedAt :: "int option"
  r_createdAt :: int

record event_row =
  ev_id :: nat
  ev_runId :: jsstring
  ev_type :: jsstring
  ev_key :: "jsstring option"
  ev_data :: jsstring
  ev_createdAt :: int

datatype job_status = JobQueued | JobEnqueued | JobOther jsstring

record job_row =
  job_id :: jsstring
  job_account :: jsstring
  job_type :: jsstring
  job_target :: "jsstring option"
  job_state :: job_status
  job_claim :: "jsstring option"
  job_startedAt :: "int option"
  job_error :: "jsstring option"
  job_createdAt :: int

datatype delivery_status = DeliveryQueued | DeliveryDispatching | DeliveryDone

record outbox_row =
  ob_id :: jsstring
  ob_runId :: jsstring
  ob_completionKey :: jsstring
  ob_runStatus :: run_status
  ob_delivery :: delivery_status
  ob_claim :: "jsstring option"
  ob_claimedAt :: "int option"
  ob_attempts :: nat
  ob_error :: "jsstring option"
  ob_createdAt :: int
  ob_updatedAt :: int

datatype op_status = OpPending | OpCompleted | OpFailed | OpUncertain

record op_row =
  op_id :: jsstring
  op_runId :: jsstring
  op_key :: jsstring
  op_tool :: jsstring
  op_status :: op_status
  op_output :: "jsstring option"
  op_error :: "jsstring option"
  op_createdAt :: int
  op_completedAt :: "int option"

record thread_row =
  th_id :: jsstring
  th_accountId :: jsstring
  th_next :: int

record message_row =
  msg_id :: jsstring
  msg_threadId :: jsstring
  msg_role :: jsstring
  msg_content :: jsstring
  msg_r2Key :: "jsstring option"
  msg_toolCalls :: "jsstring option"
  msg_toolCallId :: "jsstring option"
  msg_metadata :: jsstring
  msg_sequence :: int
  msg_createdAt :: "int option"

record dlq_row =
  dlq_id :: jsstring
  dlq_queue :: jsstring
  dlq_runId :: jsstring
  dlq_error :: jsstring
  dlq_retryCount :: nat

record run_message =
  rm_runId :: jsstring
  rm_timestamp :: int
  rm_retryCount :: "nat option"
  rm_backpressure :: "int option"
  rm_model :: "jsstring option"

record index_message =
  im_jobId :: jsstring
  im_deliveryId :: jsstring
  im_spaceId :: jsstring
  im_type :: jsstring
  im_targetId :: jsstring
  im_timestamp :: int

record run_state =
  rs_runs :: "run_row list"
  rs_events :: "event_row list"
  rs_jobs :: "job_row list"
  rs_outbox :: "outbox_row list"
  rs_ops :: "op_row list"
  rs_threads :: "thread_row list"
  rs_messages :: "message_row list"
  rs_accounts :: "account_row list"
  rs_memberships :: "membership_row list"
  rs_dlq :: "dlq_row list"
  rs_objects :: "(jsstring, jsstring) js_map"
  rs_runQueue :: "(run_message \<times> nat) list"
  rs_indexQueue :: "index_message list"

definition RUN_TERMINAL_STATUSES :: "run_status list" where
  "RUN_TERMINAL_STATUSES = [Completed, Failed, Cancelled]"

definition terminal :: "run_row \<Rightarrow> bool" where
  "terminal r \<longleftrightarrow> r_status r \<in> set RUN_TERMINAL_STATUSES"

fun status_text :: "run_status \<Rightarrow> jsstring" where
  "status_text Pending = js ''pending''"
| "status_text Queued = js ''queued''"
| "status_text Running = js ''running''"
| "status_text Completed = js ''completed''"
| "status_text Failed = js ''failed''"
| "status_text Cancelled = js ''cancelled''"

section \<open>Statements\<close>

definition update_runs :: "(run_row \<Rightarrow> bool) \<Rightarrow> (run_row \<Rightarrow> run_row) \<Rightarrow> run_state \<Rightarrow> nat \<times> run_state" where
  "update_runs P f s = (sql_count P (rs_runs s), s\<lparr>rs_runs := sql_update P f (rs_runs s)\<rparr>)"

definition get_run :: "run_state \<Rightarrow> jsstring \<Rightarrow> run_row option" where
  "get_run s i = sql_get (\<lambda>r. r_id r = i) (rs_runs s)"

section \<open>Runs by id\<close>

lemma get_run_Some: "get_run s i = Some r \<Longrightarrow> r \<in> set (rs_runs s) \<and> r_id r = i"
  unfolding get_run_def by (drule sql_get_Some) simp

lemma get_run_None: "get_run s i = None \<longleftrightarrow> i \<notin> r_id ` set (rs_runs s)"
  by (auto simp: get_run_def sql_get_None)

lemma get_run_unique:
  assumes "distinct (map r_id (rs_runs s))" and "r \<in> set (rs_runs s)"
  shows "get_run s (r_id r) = Some r"
proof -
  obtain r' where r': "get_run s (r_id r) = Some r'" using assms(2) get_run_None [of s "r_id r"] by (cases "get_run s (r_id r)") auto
  then show ?thesis using assms get_run_Some [OF r'] by (auto dest: eq_key_imp_eq_value simp: distinct_map inj_on_def)
qed

section \<open>Queue policy\<close>

definition RUN_QUEUE_RETRY_BASE_DELAY_SECONDS :: int where "RUN_QUEUE_RETRY_BASE_DELAY_SECONDS = 5"
definition RUN_QUEUE_RETRY_MAX_DELAY_SECONDS :: int where "RUN_QUEUE_RETRY_MAX_DELAY_SECONDS = 5 * 60"
definition RUN_QUEUE_BACKPRESSURE_BASE_DELAY_SECONDS :: int where "RUN_QUEUE_BACKPRESSURE_BASE_DELAY_SECONDS = 5"
definition RUN_QUEUE_BACKPRESSURE_MAX_DELAY_SECONDS :: int where "RUN_QUEUE_BACKPRESSURE_MAX_DELAY_SECONDS = 5 * 60"

definition MAX_SAFE_INTEGER :: int where "MAX_SAFE_INTEGER = 2 ^ 53 - 1"

definition is_safe_integer :: "int \<Rightarrow> bool" where
  "is_safe_integer n \<longleftrightarrow> - MAX_SAFE_INTEGER \<le> n \<and> n \<le> MAX_SAFE_INTEGER"

definition DLQ_TERMINALIZABLE_RUN_STATUSES :: "run_status list" where
  "DLQ_TERMINALIZABLE_RUN_STATUSES = [Pending, Queued]"

text \<open>Attempts that are not finite are \<open>NaN\<close> here; the finite ones are whole, so that rounding down
  does nothing.\<close>

fun runQueueRetryDelaySeconds :: "js_num \<Rightarrow> int" where
  "runQueueRetryDelaySeconds attempts =
    (let normalizedAttempts = (case attempts of Num n \<Rightarrow> max 1 n | NaN \<Rightarrow> 1);
         exponent = min (normalizedAttempts - 1) 30
     in min (RUN_QUEUE_RETRY_BASE_DELAY_SECONDS * 2 ^ nat exponent) RUN_QUEUE_RETRY_MAX_DELAY_SECONDS)"

definition runQueueBackpressureDelaySeconds :: "int \<Rightarrow> int" where
  "runQueueBackpressureDelaySeconds backpressureCount =
    (let normalizedCount = (if is_safe_integer backpressureCount then max 1 backpressureCount else 1);
         exponent = min (normalizedCount - 1) 30
     in min (RUN_QUEUE_BACKPRESSURE_BASE_DELAY_SECONDS * 2 ^ nat exponent) RUN_QUEUE_BACKPRESSURE_MAX_DELAY_SECONDS)"

definition nextRunQueueBackpressureCount :: "int option \<Rightarrow> int" where
  "nextRunQueueBackpressureCount current =
    (case current of None \<Rightarrow> 1
     | Some n \<Rightarrow> if \<not> is_safe_integer n \<or> n < 0 then 1 else min (n + 1) MAX_SAFE_INTEGER)"

lemma retry_delay_bounds: "5 \<le> runQueueRetryDelaySeconds a" "runQueueRetryDelaySeconds a \<le> 300"
  by (auto simp: Let_def RUN_QUEUE_RETRY_BASE_DELAY_SECONDS_def RUN_QUEUE_RETRY_MAX_DELAY_SECONDS_def split: js_num.split)

lemma backpressure_delay_bounds: "5 \<le> runQueueBackpressureDelaySeconds n" "runQueueBackpressureDelaySeconds n \<le> 300"
  by (auto simp: runQueueBackpressureDelaySeconds_def Let_def RUN_QUEUE_BACKPRESSURE_BASE_DELAY_SECONDS_def
      RUN_QUEUE_BACKPRESSURE_MAX_DELAY_SECONDS_def)

end
