(* ===== verification/JsJson.thy ===== *)
theory JsJson
  imports JsText
begin

text \<open>
  JSON values as the program builds and prints them: objects keep their properties in JavaScript's own
  order (array indices ascending, then the others in insertion order), and \<open>JSON.stringify\<close> prints
  without white space. Numbers are the whole ones. A property whose value is \<open>undefined\<close> is simply
  not in the list.
\<close>

datatype json = JNull | JBool bool | JNum js_num | JStr jsstring | JArr "json list" | JObj "(jsstring \<times> json) list"

section \<open>Objects\<close>

text \<open>A property name that is the canonical text of a number below \<open>2^32 - 1\<close>.\<close>

definition array_index :: "jsstring \<Rightarrow> bool" where
  "array_index k \<longleftrightarrow> k \<noteq> [] \<and> (\<forall>c \<in> set k. is_digit 10 c) \<and> digits_val 10 k < 2 ^ 32 - 1 \<and>
    (length k > 1 \<longrightarrow> hd k \<noteq> 48)"

definition own_order :: "(jsstring \<times> 'v) list \<Rightarrow> (jsstring \<times> 'v) list" where
  "own_order ps = sort_key (\<lambda>p. digits_val 10 (fst p)) (filter (\<lambda>p. array_index (fst p)) ps) @
    filter (\<lambda>p. \<not> array_index (fst p)) ps"

definition from_entries :: "(jsstring \<times> 'v) list \<Rightarrow> (jsstring \<times> 'v) list" where
  "from_entries ps = own_order (map_from ps)"

section \<open>Printing\<close>

definition hex4 :: "unit16 \<Rightarrow> jsstring" where
  "hex4 c = [92, 117] @ pad_start 4 48 (radix_str 16 (unat c))"

definition escape_unit :: "unit16 \<Rightarrow> jsstring" where
  "escape_unit c =
    (if c = 34 then [92, 34] else if c = 92 then [92, 92]
     else if c = 8 then [92, 98] else if c = 12 then [92, 102] else if c = 10 then [92, 110]
     else if c = 13 then [92, 114] else if c = 9 then [92, 116]
     else if unat c < 32 then hex4 c else [c])"

text \<open>A surrogate without its partner is written as an escape.\<close>

fun quote_units :: "jsstring \<Rightarrow> jsstring" where
  "quote_units [] = []"
| "quote_units (c # d # s) =
    (if hi_surr c then if lo_surr d then c # d # quote_units s else hex4 c @ quote_units (d # s)
     else if lo_surr c then hex4 c @ quote_units (d # s) else escape_unit c @ quote_units (d # s))"
| "quote_units [c] = (if hi_surr c \<or> lo_surr c then hex4 c else escape_unit c)"

definition quote_string :: "jsstring \<Rightarrow> jsstring" where
  "quote_string s = [34] @ quote_units s @ [34]"

fun stringify :: "json \<Rightarrow> jsstring" where
  "stringify JNull = js ''null''"
| "stringify (JBool b) = (if b then js ''true'' else js ''false'')"
| "stringify (JNum n) = (case n of NaN \<Rightarrow> js ''null'' | Num i \<Rightarrow> int_str i)"
| "stringify (JStr s) = quote_string s"
| "stringify (JArr vs) = [91] @ js_join [44] (map stringify vs) @ [93]"
| "stringify (JObj ps) = [123] @ js_join [44] (map (\<lambda>(k, v). quote_string k @ [58] @ stringify v) ps) @ [125]"

section \<open>Canonical form\<close>

text \<open>\<open>canonicalize\<close> (terminal-transition.ts, complete-run.ts) sorts the properties of every object by
  \<open>localeCompare\<close>, whose order belongs to the platform and is a parameter.\<close>

fun canonicalize :: "(jsstring \<Rightarrow> jsstring \<Rightarrow> int) \<Rightarrow> json \<Rightarrow> json" where
  "canonicalize cmp (JArr vs) = JArr (map (canonicalize cmp) vs)"
| "canonicalize cmp (JObj ps) =
    JObj (from_entries (map (\<lambda>(k, v). (k, canonicalize cmp v)) (js_sort (\<lambda>p q. cmp (fst p) (fst q)) ps)))"
| "canonicalize cmp v = v"

end
