(* ===== verification/JsDate.thy ===== *)
theory JsDate
  imports JsString
begin

text \<open>
  \<open>Date.prototype.toISOString\<close> on an instant in milliseconds since 1970, in the years 0 to 9999: the
  proleptic Gregorian date by counting days in eras of 400 years that begin in March.
\<close>

definition civil_date :: "int \<Rightarrow> int \<times> int \<times> int" where
  "civil_date days =
    (let z = days + 719468; era = z div 146097; doe = z mod 146097;
         yoe = (doe - doe div 1460 + doe div 36524 - doe div 146096) div 365;
         doy = doe - (365 * yoe + yoe div 4 - yoe div 100);
         mp = (5 * doy + 2) div 153;
         d = doy - (153 * mp + 2) div 5 + 1;
         m = (if mp < 10 then mp + 3 else mp - 9)
     in (yoe + era * 400 + (if m \<le> 2 then 1 else 0), m, d))"

definition digits_of :: "nat \<Rightarrow> int \<Rightarrow> jsstring" where
  "digits_of n i = pad_start n 48 (nat_str (nat i))"

definition to_iso :: "int \<Rightarrow> jsstring" where
  "to_iso t =
    (let (y, m, d) = civil_date (t div 86400000); ms = t mod 86400000 in
     digits_of 4 y @ [45] @ digits_of 2 m @ [45] @ digits_of 2 d @ [84] @
     digits_of 2 (ms div 3600000) @ [58] @ digits_of 2 (ms div 60000 mod 60) @ [58] @
     digits_of 2 (ms div 1000 mod 60) @ [46] @ digits_of 3 (ms mod 1000) @ [90])"

end
