(* ===== verification/RunTerminal.thy ===== *)
theory RunTerminal
  imports RunDb JsJson JsDate
begin

text \<open>
  Ending a run atomically (\<open>application/services/run-notifier/terminal-transition.ts\<close>) with the
  outbox rows that are written in the same transaction (\<open>run-notifier/index-outbox.ts\<close>,
  \<open>notifications/run-outbox.ts\<close>). The SHA-256 digest as hexadecimal text and \<open>localeCompare\<close> are
  parameters, as is what becomes of the clean-up of the checkpoint object.
\<close>

section \<open>Input\<close>

text \<open>An optional property is \<open>None\<close> when it is absent; \<open>error\<close> and \<open>output\<close> may also be present and
  \<open>null\<close>. The statuses are the ones the types of the code allow.\<close>

record terminal_input =
  ti_runId :: jsstring
  ti_status :: run_status
  ti_expectedStatuses :: "run_status list"
  ti_expectedServiceId :: "jsstring option"
  ti_expectedLeaseVersion :: "int option"
  ti_completedAt :: int
  ti_usage :: "json option"
  ti_error :: "jsstring option option"
  ti_output :: "jsstring option option"
  ti_eventType :: jsstring
  ti_terminalEvent :: json

definition active_statuses :: "run_status list" where
  "active_statuses = [Pending, Queued, Running]"

definition terminal_input_typed :: "terminal_input \<Rightarrow> bool" where
  "terminal_input_typed i \<longleftrightarrow> ti_status i \<in> set RUN_TERMINAL_STATUSES \<and> set (ti_expectedStatuses i) \<subseteq> set active_statuses"

record terminal_result =
  tr_committed :: bool
  tr_eventId :: "nat option"
  tr_completionKey :: jsstring

fun json_opt :: "jsstring option \<Rightarrow> json" where
  "json_opt None = JNull"
| "json_opt (Some s) = JStr s"

definition input_json :: "terminal_input \<Rightarrow> json" where
  "input_json i = JObj
    ([(js ''runId'', JStr (ti_runId i)), (js ''status'', JStr (status_text (ti_status i))),
      (js ''expectedStatuses'', JArr (map (\<lambda>st. JStr (status_text st)) (ti_expectedStatuses i)))] @
     (case ti_expectedServiceId i of None \<Rightarrow> [] | Some v \<Rightarrow> [(js ''expectedServiceId'', JStr v)]) @
     (case ti_expectedLeaseVersion i of None \<Rightarrow> [] | Some v \<Rightarrow> [(js ''expectedLeaseVersion'', JNum (Num v))]) @
     [(js ''completedAt'', JStr (to_iso (ti_completedAt i)))] @
     (case ti_usage i of None \<Rightarrow> [] | Some v \<Rightarrow> [(js ''usage'', v)]) @
     (case ti_error i of None \<Rightarrow> [] | Some v \<Rightarrow> [(js ''error'', json_opt v)]) @
     (case ti_output i of None \<Rightarrow> [] | Some v \<Rightarrow> [(js ''output'', json_opt v)]) @
     [(js ''eventType'', JStr (ti_eventType i)), (js ''terminalEvent'', ti_terminalEvent i)])"

definition transitionKey ::
  "(bytes \<Rightarrow> jsstring) \<Rightarrow> (jsstring \<Rightarrow> jsstring \<Rightarrow> int) \<Rightarrow> terminal_input \<Rightarrow> jsstring" where
  "transitionKey sha256 localeCompare i =
    js ''control-terminal:'' @ sha256 (utf8_encode (stringify (canonicalize localeCompare (input_json i))))"

section \<open>Outbox rows\<close>

definition terminalIndexJobId :: "jsstring \<Rightarrow> jsstring \<Rightarrow> jsstring" where
  "terminalIndexJobId completionKey ty = js ''index-outbox:'' @ completionKey @ [58] @ ty"

definition TERMINAL_INDEX_JOB_TYPES :: "jsstring list" where
  "TERMINAL_INDEX_JOB_TYPES = [js ''info_unit'', js ''thread_context'']"

definition terminalIndexJobIds :: "jsstring \<Rightarrow> jsstring list" where
  "terminalIndexJobIds completionKey = map (terminalIndexJobId completionKey) TERMINAL_INDEX_JOB_TYPES"

definition index_job :: "jsstring \<Rightarrow> int \<Rightarrow> jsstring \<times> (run_row \<Rightarrow> jsstring) \<Rightarrow> run_row \<Rightarrow> job_row" where
  "index_job completionKey createdAt job r =
    \<lparr>job_id = terminalIndexJobId completionKey (fst job), job_account = r_accountId r, job_type = fst job,
     job_target = Some (snd job r), job_state = JobQueued, job_claim = None, job_startedAt = None,
     job_error = None, job_createdAt = createdAt\<rparr>"

text \<open>The jobs with the column each takes its target from; \<open>INSERT ... SELECT\<close> adds a row for every run
  the predicate selects.\<close>

definition terminal_jobs :: "(jsstring \<times> (run_row \<Rightarrow> jsstring)) list" where
  "terminal_jobs = [(js ''info_unit'', r_id), (js ''thread_context'', r_threadId)]"

definition buildTerminalIndexOutboxStatements :: "jsstring \<Rightarrow> int \<Rightarrow> (run_row \<Rightarrow> bool) \<Rightarrow> run_state \<Rightarrow> run_state" where
  "buildTerminalIndexOutboxStatements completionKey createdAt runPredicate s =
    fold (\<lambda>job s. s\<lparr>rs_jobs :=
        fold (\<lambda>r. sql_insert job_id (index_job completionKey createdAt job r)) (filter runPredicate (rs_runs s)) (rs_jobs s)\<rparr>)
      terminal_jobs s"

definition runNotificationOutboxId :: "jsstring \<Rightarrow> jsstring" where
  "runNotificationOutboxId completionKey = js ''run-notification-outbox:'' @ completionKey"

definition outbox_entry :: "jsstring \<Rightarrow> run_status \<Rightarrow> int \<Rightarrow> run_row \<Rightarrow> outbox_row" where
  "outbox_entry completionKey runStatus createdAt r =
    \<lparr>ob_id = runNotificationOutboxId completionKey, ob_runId = r_id r, ob_completionKey = completionKey,
     ob_runStatus = runStatus, ob_delivery = DeliveryQueued, ob_claim = None, ob_claimedAt = None,
     ob_attempts = 0, ob_error = None, ob_createdAt = createdAt, ob_updatedAt = createdAt\<rparr>"

definition buildRunNotificationOutboxStatements ::
  "jsstring \<Rightarrow> run_status \<Rightarrow> int \<Rightarrow> (run_row \<Rightarrow> bool) \<Rightarrow> run_state \<Rightarrow> run_state" where
  "buildRunNotificationOutboxStatements completionKey runStatus createdAt runPredicate s =
    s\<lparr>rs_outbox := fold (\<lambda>r. sql_insert ob_completionKey (outbox_entry completionKey runStatus createdAt r))
       (filter (\<lambda>r. runPredicate r \<and> r_requester r \<noteq> None) (rs_runs s)) (rs_outbox s)\<rparr>"

section \<open>Terminal events\<close>

definition next_event_id :: "event_row list \<Rightarrow> nat" where
  "next_event_id evs = Suc (fold max (map ev_id evs) 0)"

text \<open>\<open>INSERT ... SELECT ... ON CONFLICT ("event_key") DO NOTHING RETURNING "id"\<close>: the id of the first
  row that was written.\<close>

fun insert_event :: "event_row \<Rightarrow> nat option \<times> event_row list \<Rightarrow> nat option \<times> event_row list" where
  "insert_event e (i, evs) =
    (if ev_key e \<in> ev_key ` set evs then (i, evs)
     else let n = next_event_id evs in (case i of None \<Rightarrow> Some n | Some _ \<Rightarrow> i, evs @ [e\<lparr>ev_id := n\<rparr>]))"

definition control_event_key :: "jsstring \<Rightarrow> jsstring \<Rightarrow> run_status \<Rightarrow> jsstring" where
  "control_event_key runId completionKey st =
    js ''run:'' @ runId @ js '':control:'' @ completionKey @ js '':terminal-status:'' @ status_text st"

definition insert_terminal_event ::
  "jsstring \<Rightarrow> jsstring \<Rightarrow> json \<Rightarrow> int \<Rightarrow> (run_row \<Rightarrow> bool) \<Rightarrow> run_state \<Rightarrow> nat option \<times> run_state" where
  "insert_terminal_event key eventType data createdAt runPredicate s =
    (let (i, evs) = fold (\<lambda>r. insert_event \<lparr>ev_id = 0, ev_runId = r_id r, ev_type = eventType, ev_key = Some key,
                                         ev_data = stringify data, ev_createdAt = createdAt\<rparr>)
                      (filter runPredicate (rs_runs s)) (None, rs_events s)
     in (i, s\<lparr>rs_events := evs\<rparr>))"

section \<open>The transition\<close>

definition activeRunPredicate :: "terminal_input \<Rightarrow> run_row \<Rightarrow> bool" where
  "activeRunPredicate i r \<longleftrightarrow>
    r_id r = ti_runId i \<and> r_status r \<in> set (ti_expectedStatuses i) \<and>
    (case ti_expectedServiceId i of None \<Rightarrow> True | Some v \<Rightarrow> r_serviceId r = Some v) \<and>
    (case ti_expectedLeaseVersion i of None \<Rightarrow> True | Some v \<Rightarrow> r_lease r = v)"

text \<open>The columns the update sets, \<open>error\<close>, \<open>output\<close> and \<open>usage\<close> only when the input has them.\<close>

definition terminal_set :: "terminal_input \<Rightarrow> jsstring \<Rightarrow> run_row \<Rightarrow> run_row" where
  "terminal_set i completionKey r =
    r\<lparr>r_status := ti_status i,
      r_output := (case ti_output i of None \<Rightarrow> r_output r | Some v \<Rightarrow> v),
      r_error := (case ti_error i of None \<Rightarrow> r_error r | Some v \<Rightarrow> v),
      r_usage := (case ti_usage i of None \<Rightarrow> r_usage r | Some v \<Rightarrow> stringify v),
      r_completionKey := Some completionKey, r_checkpoint := None, r_checkpointAt := None,
      r_completedAt := Some (ti_completedAt i)\<rparr>"

definition committed_predicate :: "terminal_input \<Rightarrow> jsstring \<Rightarrow> run_row \<Rightarrow> bool" where
  "committed_predicate i completionKey r \<longleftrightarrow>
    r_id r = ti_runId i \<and> r_status r = ti_status i \<and> r_completionKey r = Some completionKey"

text \<open>\<open>buildStatements\<close> and \<open>execute\<close>: one transaction, whose result is how many runs the update changed
  and the id of the event written.\<close>

definition execute ::
  "terminal_input \<Rightarrow> jsstring \<Rightarrow> jsstring option \<Rightarrow> run_state \<Rightarrow> ((nat \<times> nat option) \<times> run_state) res" where
  "execute i completionKey expectedEngineCheckpoint s =
    (if ti_expectedStatuses i = [] then Inl (Error ''terminal transition requires an expected active status'')
     else
       let (n, s) = update_runs (\<lambda>r. activeRunPredicate i r \<and> r_checkpoint r = expectedEngineCheckpoint)
                      (terminal_set i completionKey) s;
           committed = committed_predicate i completionKey;
           s = buildTerminalIndexOutboxStatements completionKey (ti_completedAt i) committed s;
           s = (if ti_status i = Completed \<or> ti_status i = Failed
                then buildRunNotificationOutboxStatements completionKey (ti_status i) (ti_completedAt i) committed s else s);
           (eventId, s) = insert_terminal_event (control_event_key (ti_runId i) completionKey (ti_status i))
                            (ti_eventType i) (ti_terminalEvent i) (ti_completedAt i) committed s
       in Inr ((n, eventId), s))"

definition readActiveEngineCheckpoint :: "terminal_input \<Rightarrow> run_state \<Rightarrow> (jsstring option option) res" where
  "readActiveEngineCheckpoint i s =
    (if ti_expectedStatuses i = [] then Inl (Error ''terminal transition requires an expected active status'')
     else Inr (map_option r_checkpoint (sql_get (activeRunPredicate i) (rs_runs s))))"

definition engineCheckpointObjectKey :: "jsstring option \<Rightarrow> jsstring option" where
  "engineCheckpointObjectKey stored =
    (case stored of None \<Rightarrow> None
     | Some v \<Rightarrow> if js_starts_with v (js ''r2:'') then (if drop 3 v = [] then None else Some (drop 3 v)) else None)"

text \<open>\<open>offloadBucket\<close> is \<open>None\<close> without a bucket, else whether the deletion succeeds; a failure is only
  logged.\<close>

definition delete_checkpoint_object :: "bool option \<Rightarrow> jsstring option \<Rightarrow> run_state \<Rightarrow> run_state" where
  "delete_checkpoint_object offloadBucket checkpoint s =
    (case (engineCheckpointObjectKey checkpoint, offloadBucket) of
       (Some key, Some True) \<Rightarrow> s\<lparr>rs_objects := map_del key (rs_objects s)\<rparr>
     | _ \<Rightarrow> s)"

definition transitionRunTerminalAtomically ::
  "(bytes \<Rightarrow> jsstring) \<Rightarrow> (jsstring \<Rightarrow> jsstring \<Rightarrow> int) \<Rightarrow> bool option \<Rightarrow> terminal_input \<Rightarrow> run_state \<Rightarrow>
   (terminal_result \<times> run_state) res" where
  "transitionRunTerminalAtomically sha256 localeCompare offloadBucket i s =
    (let completionKey = transitionKey sha256 localeCompare i in
     bind_res (readActiveEngineCheckpoint i s) (\<lambda>current.
       case current of
         None \<Rightarrow> Inr (\<lparr>tr_committed = False, tr_eventId = None, tr_completionKey = completionKey\<rparr>, s)
       | Some checkpoint \<Rightarrow>
           bind_res (execute i completionKey checkpoint s) (\<lambda>((n, eventId), s).
             let committed = 0 < n;
                 s = (if committed then delete_checkpoint_object offloadBucket checkpoint s else s)
             in Inr (\<lparr>tr_committed = committed, tr_eventId = eventId, tr_completionKey = completionKey\<rparr>, s))))"

end
