(* ===== verification/RunCompletion.thy ===== *)
theory RunCompletion
  imports RunTerminal
begin

text \<open>
  The commit of a finished run with its transcript (\<open>application/services/agent/complete-run.ts\<close>,
  \<open>application/services/offload/messages.ts\<close>): messages are staged, large ones in the bucket, and one
  transaction ends the run, reserves a contiguous range of message numbers in its thread and writes
  messages, outbox rows and the terminal event.
\<close>

section \<open>Input\<close>

record complete_message =
  cm_role :: jsstring
  cm_content :: jsstring
  cm_toolCalls :: "json option"
  cm_toolCallId :: "jsstring option"
  cm_metadata :: "(jsstring \<times> json) list option"

record complete_input =
  ci_runId :: jsstring
  ci_threadId :: jsstring
  ci_serviceId :: jsstring
  ci_leaseVersion :: int
  ci_status :: run_status
  ci_usage :: json
  ci_output :: "jsstring option"
  ci_error :: "jsstring option"
  ci_messages :: "complete_message list"
  ci_terminalEvent :: json

definition complete_input_typed :: "complete_input \<Rightarrow> bool" where
  "complete_input_typed i \<longleftrightarrow> ci_status i = Completed \<or> ci_status i = Failed"

record complete_result =
  cr_committed :: bool
  cr_leaseLost :: bool
  cr_idempotent :: bool
  cr_eventId :: "nat option"
  cr_completionKey :: jsstring

record stored_message =
  sm_id :: jsstring
  sm_role :: jsstring
  sm_content :: jsstring
  sm_r2Key :: "jsstring option"
  sm_toolCalls :: "jsstring option"
  sm_toolCallId :: "jsstring option"
  sm_metadata :: jsstring

definition complete_message_json :: "complete_message \<Rightarrow> json" where
  "complete_message_json m = JObj
    ([(js ''role'', JStr (cm_role m)), (js ''content'', JStr (cm_content m))] @
     (case cm_toolCalls m of None \<Rightarrow> [] | Some v \<Rightarrow> [(js ''tool_calls'', v)]) @
     (case cm_toolCallId m of None \<Rightarrow> [] | Some v \<Rightarrow> [(js ''tool_call_id'', JStr v)]) @
     (case cm_metadata m of None \<Rightarrow> [] | Some ps \<Rightarrow> [(js ''metadata'', JObj ps)]))"

definition completeRunKey ::
  "(bytes \<Rightarrow> jsstring) \<Rightarrow> (jsstring \<Rightarrow> jsstring \<Rightarrow> int) \<Rightarrow> complete_input \<Rightarrow> jsstring" where
  "completeRunKey sha256 localeCompare i =
    js ''agent-complete:'' @ sha256 (utf8_encode (stringify (canonicalize localeCompare (JObj
      [(js ''runId'', JStr (ci_runId i)), (js ''threadId'', JStr (ci_threadId i)),
       (js ''serviceId'', JStr (ci_serviceId i)), (js ''leaseVersion'', JNum (Num (ci_leaseVersion i))),
       (js ''status'', JStr (status_text (ci_status i))), (js ''usage'', ci_usage i),
       (js ''output'', json_opt (ci_output i)), (js ''error'', json_opt (ci_error i)),
       (js ''messages'', JArr (map complete_message_json (ci_messages i))),
       (js ''terminalEvent'', ci_terminalEvent i)]))))"

definition terminalEventKey :: "jsstring \<Rightarrow> jsstring \<Rightarrow> run_status \<Rightarrow> jsstring" where
  "terminalEventKey runId completionKey st =
    js ''run:'' @ runId @ js '':completion:'' @ completionKey @ js '':terminal-status:'' @ status_text st"

definition messageId :: "jsstring \<Rightarrow> nat \<Rightarrow> jsstring" where
  "messageId completionKey index =
    js ''msg_terminal_'' @ drop (length (js ''agent-complete:'')) completionKey @ [95] @ nat_str index"

section \<open>Staging\<close>

definition MESSAGE_OFFLOAD_CONTENT_THRESHOLD_CHARS :: nat where "MESSAGE_OFFLOAD_CONTENT_THRESHOLD_CHARS = 4000"
definition MESSAGE_PREVIEW_MAX_CHARS :: nat where "MESSAGE_PREVIEW_MAX_CHARS = 800"
definition MAX_INLINE_MESSAGE_BYTES :: nat where "MAX_INLINE_MESSAGE_BYTES = 256 * 1024"
definition MAX_INLINE_TRANSCRIPT_BYTES :: nat where "MAX_INLINE_TRANSCRIPT_BYTES = 1024 * 1024"

definition messageR2Key :: "jsstring \<Rightarrow> jsstring \<Rightarrow> jsstring" where
  "messageR2Key threadId mid = js ''threads/'' @ threadId @ js ''/messages/'' @ mid @ js ''.json''"

definition shouldOffloadMessage :: "jsstring \<Rightarrow> jsstring \<Rightarrow> bool" where
  "shouldOffloadMessage role content \<longleftrightarrow>
    role = js ''tool'' \<or> length content > MESSAGE_OFFLOAD_CONTENT_THRESHOLD_CHARS"

definition makeMessagePreview :: "jsstring \<Rightarrow> jsstring" where
  "makeMessagePreview content =
    (if length content \<le> MESSAGE_PREVIEW_MAX_CHARS then content
     else take MESSAGE_PREVIEW_MAX_CHARS content @ js ''...'')"

definition writeMessageToR2 ::
  "jsstring \<Rightarrow> jsstring \<Rightarrow> json \<Rightarrow> (jsstring, jsstring) js_map \<Rightarrow> (jsstring, jsstring) js_map" where
  "writeMessageToR2 threadId mid payload objects = map_set (messageR2Key threadId mid) (stringify payload) objects"

definition encodedBytes :: "jsstring \<Rightarrow> nat" where
  "encodedBytes v = length (utf8_encode v)"

definition message_metadata :: "complete_input \<Rightarrow> jsstring \<Rightarrow> complete_message \<Rightarrow> jsstring" where
  "message_metadata i completionKey m = stringify (JObj (from_entries
    ((case cm_metadata m of None \<Rightarrow> [] | Some ps \<Rightarrow> ps) @
     [(js ''runId'', JStr (ci_runId i)), (js ''completionKey'', JStr completionKey)])))"

definition persisted_message ::
  "complete_input \<Rightarrow> jsstring \<Rightarrow> complete_message \<Rightarrow> jsstring option \<Rightarrow> jsstring \<Rightarrow> nat \<Rightarrow> int \<Rightarrow> json" where
  "persisted_message i mid m toolCalls metadata index completedAt = JObj
    [(js ''id'', JStr mid), (js ''thread_id'', JStr (ci_threadId i)), (js ''role'', JStr (cm_role m)),
     (js ''content'', JStr (cm_content m)), (js ''tool_calls'', json_opt toolCalls),
     (js ''tool_call_id'', json_opt (cm_toolCallId m)), (js ''metadata'', JStr metadata),
     (js ''sequence'', JNum (Num (int index))), (js ''created_at'', JStr (to_iso completedAt))]"

text \<open>The loop over the messages: its state is the index, the bytes kept inline and the bucket. What was
  put into the bucket stays there when the loop fails.\<close>

fun stage_loop ::
  "complete_input \<Rightarrow> jsstring \<Rightarrow> int \<Rightarrow> bool \<Rightarrow> nat \<Rightarrow> nat \<Rightarrow> (jsstring, jsstring) js_map \<Rightarrow> complete_message list \<Rightarrow>
   stored_message list res \<times> (jsstring, jsstring) js_map" where
  "stage_loop i completionKey completedAt bucket index inlineTranscriptBytes objects [] = (Inr [], objects)"
| "stage_loop i completionKey completedAt bucket index inlineTranscriptBytes objects (m # ms) =
    (let mid = messageId completionKey index;
         toolCalls = map_option stringify (cm_toolCalls m);
         metadata = message_metadata i completionKey m;
         inlineBytes = encodedBytes (cm_content m) +
           encodedBytes (case toolCalls of None \<Rightarrow> [] | Some t \<Rightarrow> t) + encodedBytes metadata;
         shouldOffload = (shouldOffloadMessage (cm_role m) (cm_content m) \<or> inlineBytes > MAX_INLINE_MESSAGE_BYTES)
     in if shouldOffload \<and> bucket then
          let key = messageR2Key (ci_threadId i) mid;
              objects = (if map_has objects key then objects
                else writeMessageToR2 (ci_threadId i) mid (persisted_message i mid m toolCalls metadata index completedAt) objects);
              stored = \<lparr>sm_id = mid, sm_role = cm_role m, sm_content = makeMessagePreview (cm_content m),
                     sm_r2Key = Some key, sm_toolCalls = None, sm_toolCallId = cm_toolCallId m,
                     sm_metadata = js ''{}''\<rparr>;
              (rest, objects) = stage_loop i completionKey completedAt bucket (Suc index) inlineTranscriptBytes objects ms
          in (bind_res rest (\<lambda>r. Inr (stored # r)), objects)
        else
          let inlineTranscriptBytes = inlineTranscriptBytes + inlineBytes in
          if inlineBytes > MAX_INLINE_MESSAGE_BYTES \<or> inlineTranscriptBytes > MAX_INLINE_TRANSCRIPT_BYTES
          then (Inl (Error ''complete_run_transcript_too_large: TAKOS_OFFLOAD is required for this transcript''), objects)
          else
            let stored = \<lparr>sm_id = mid, sm_role = cm_role m, sm_content = cm_content m, sm_r2Key = None,
                     sm_toolCalls = toolCalls, sm_toolCallId = cm_toolCallId m, sm_metadata = metadata\<rparr>;
                (rest, objects) = stage_loop i completionKey completedAt bucket (Suc index) inlineTranscriptBytes objects ms
            in (bind_res rest (\<lambda>r. Inr (stored # r)), objects))"

definition stageCompletionMessages ::
  "complete_input \<Rightarrow> jsstring \<Rightarrow> int \<Rightarrow> bool \<Rightarrow> (jsstring, jsstring) js_map \<Rightarrow>
   stored_message list res \<times> (jsstring, jsstring) js_map" where
  "stageCompletionMessages i completionKey completedAt bucket objects =
    stage_loop i completionKey completedAt bucket 0 0 objects (ci_messages i)"

section \<open>The transaction\<close>

definition complete_where :: "complete_input \<Rightarrow> jsstring option option \<Rightarrow> run_row \<Rightarrow> bool" where
  "complete_where i expectedEngineCheckpoint r \<longleftrightarrow>
    r_id r = ci_runId i \<and> r_status r = Running \<and> r_serviceId r = Some (ci_serviceId i) \<and> r_lease r = ci_leaseVersion i \<and>
    (case expectedEngineCheckpoint of None \<Rightarrow> True | Some c \<Rightarrow> r_checkpoint r = c)"

definition complete_set :: "complete_input \<Rightarrow> jsstring \<Rightarrow> int \<Rightarrow> run_row \<Rightarrow> run_row" where
  "complete_set i completionKey completedAt r =
    r\<lparr>r_status := ci_status i, r_output := ci_output i, r_error := ci_error i, r_usage := stringify (ci_usage i),
      r_completionKey := Some completionKey, r_checkpoint := None, r_checkpointAt := None, r_completedAt := Some completedAt\<rparr>"

definition completionPredicate :: "complete_input \<Rightarrow> jsstring \<Rightarrow> run_row \<Rightarrow> bool" where
  "completionPredicate i completionKey r \<longleftrightarrow>
    r_id r = ci_runId i \<and> r_status r = ci_status i \<and> r_serviceId r = Some (ci_serviceId i) \<and>
    r_completionKey r = Some completionKey \<and> r_lease r = ci_leaseVersion i"

definition reserve_sequence :: "complete_input \<Rightarrow> jsstring \<Rightarrow> nat \<Rightarrow> run_state \<Rightarrow> run_state" where
  "reserve_sequence i completionKey n s =
    (let thread = map_option r_threadId (sql_get (\<lambda>r. completionPredicate i completionKey r \<and> r_seqStart r = None) (rs_runs s));
         threads = sql_update (\<lambda>t. thread = Some (th_id t)) (\<lambda>t. t\<lparr>th_next := th_next t + int n\<rparr>) (rs_threads s);
         start = (\<lambda>r. map_option (\<lambda>t. th_next t - int n) (sql_get (\<lambda>t. th_id t = r_threadId r) threads))
     in s\<lparr>rs_threads := threads,
          rs_runs := sql_update (\<lambda>r. completionPredicate i completionKey r \<and> r_seqStart r = None)
                       (\<lambda>r. r\<lparr>r_seqStart := start r\<rparr>) (rs_runs s)\<rparr>)"

definition message_of :: "run_row \<Rightarrow> int \<Rightarrow> nat \<times> stored_message \<Rightarrow> message_row" where
  "message_of r start p =
    \<lparr>msg_id = sm_id (snd p), msg_threadId = r_threadId r, msg_role = sm_role (snd p), msg_content = sm_content (snd p),
     msg_r2Key = sm_r2Key (snd p), msg_toolCalls = sm_toolCalls (snd p), msg_toolCallId = sm_toolCallId (snd p),
     msg_metadata = sm_metadata (snd p), msg_sequence = start + int (fst p),
     msg_createdAt = r_completedAt r\<rparr>"

text \<open>One statement inserts a chunk of numbered messages, for the run the predicate selects once it has
  its first number.\<close>

definition insert_chunk :: "complete_input \<Rightarrow> jsstring \<Rightarrow> (nat \<times> stored_message) list \<Rightarrow> run_state \<Rightarrow> run_state" where
  "insert_chunk i completionKey chunk s =
    s\<lparr>rs_messages := fold (\<lambda>r rows. case r_seqStart r of None \<Rightarrow> rows
          | Some start \<Rightarrow> fold (\<lambda>p. sql_insert msg_id (message_of r start p)) chunk rows)
        (filter (completionPredicate i completionKey) (rs_runs s)) (rs_messages s)\<rparr>"

definition MESSAGE_CHUNK_SIZE :: nat where "MESSAGE_CHUNK_SIZE = 10"

function insert_chunks :: "complete_input \<Rightarrow> jsstring \<Rightarrow> (nat \<times> stored_message) list \<Rightarrow> run_state \<Rightarrow> run_state" where
  "insert_chunks i completionKey ps s =
    (if ps = [] then s
     else insert_chunks i completionKey (drop MESSAGE_CHUNK_SIZE ps)
            (insert_chunk i completionKey (take MESSAGE_CHUNK_SIZE ps) s))"
  by pat_completeness auto
termination by (relation "measure (\<lambda>(_, _, ps, _). length ps)") (auto simp: MESSAGE_CHUNK_SIZE_def)

declare insert_chunks.simps [simp del]

definition complete_event_type :: "run_status \<Rightarrow> jsstring" where
  "complete_event_type st = (if st = Failed then js ''error'' else status_text st)"

text \<open>The unique index on thread and sequence: a transaction that breaks it is rolled back.\<close>

definition sequences_unique :: "run_state \<Rightarrow> bool" where
  "sequences_unique s \<longleftrightarrow> distinct (map (\<lambda>m. (msg_threadId m, msg_sequence m)) (rs_messages s))"

definition complete_statements ::
  "complete_input \<Rightarrow> stored_message list \<Rightarrow> jsstring \<Rightarrow> int \<Rightarrow> jsstring option option \<Rightarrow> run_state \<Rightarrow>
   (nat \<times> nat option) \<times> run_state" where
  "complete_statements i stored completionKey completedAt expectedEngineCheckpoint s =
    (let (n, s) = update_runs (complete_where i expectedEngineCheckpoint) (complete_set i completionKey completedAt) s;
         s = (if stored \<noteq> [] then reserve_sequence i completionKey (length stored) s else s);
         s = insert_chunks i completionKey (List.enumerate 0 stored) s;
         s = buildTerminalIndexOutboxStatements completionKey completedAt (completionPredicate i completionKey) s;
         s = buildRunNotificationOutboxStatements completionKey (ci_status i) completedAt
               (completionPredicate i completionKey) s;
         (eventId, s) = insert_terminal_event (terminalEventKey (ci_runId i) completionKey (ci_status i))
               (complete_event_type (ci_status i)) (ci_terminalEvent i) completedAt (completionPredicate i completionKey) s
     in ((n, eventId), s))"

definition executeAtomicBatch ::
  "complete_input \<Rightarrow> stored_message list \<Rightarrow> jsstring \<Rightarrow> int \<Rightarrow> jsstring option option \<Rightarrow> run_state \<Rightarrow>
   ((nat \<times> nat option) \<times> run_state) res" where
  "executeAtomicBatch i stored completionKey completedAt expectedEngineCheckpoint s =
    (let (results, t) = complete_statements i stored completionKey completedAt expectedEngineCheckpoint s
     in if sequences_unique t then Inr (results, t)
        else Inl (Error ''UNIQUE constraint failed: messages.thread_id, messages.sequence''))"

definition same_outcome :: "complete_input \<Rightarrow> jsstring \<Rightarrow> run_row \<Rightarrow> bool" where
  "same_outcome i completionKey r \<longleftrightarrow>
    r_status r = ci_status i \<and> r_usage r = stringify (ci_usage i) \<and> r_output r = ci_output i \<and> r_error r = ci_error i \<and>
    r_serviceId r = Some (ci_serviceId i) \<and> r_lease r = ci_leaseVersion i \<and> r_completionKey r = Some completionKey"

definition completion_outcome :: "complete_input \<Rightarrow> jsstring \<Rightarrow> nat \<times> nat option \<Rightarrow> run_state \<Rightarrow> complete_result" where
  "completion_outcome i completionKey results s =
    (if 0 < fst results
     then \<lparr>cr_committed = True, cr_leaseLost = False, cr_idempotent = False, cr_eventId = snd results,
           cr_completionKey = completionKey\<rparr>
     else
       let current = get_run s (ci_runId i);
           idempotent = (case current of None \<Rightarrow> False | Some r \<Rightarrow> same_outcome i completionKey r)
       in if \<not> idempotent
          then \<lparr>cr_committed = False, cr_leaseLost = True, cr_idempotent = False, cr_eventId = None,
                cr_completionKey = completionKey\<rparr>
          else \<lparr>cr_committed = True, cr_leaseLost = False, cr_idempotent = True,
                cr_eventId = map_option ev_id (sql_get (\<lambda>e. ev_key e =
                  Some (terminalEventKey (ci_runId i) completionKey (ci_status i))) (rs_events s)),
                cr_completionKey = completionKey\<rparr>)"

definition completeRunAtomically ::
  "(bytes \<Rightarrow> jsstring) \<Rightarrow> (jsstring \<Rightarrow> jsstring \<Rightarrow> int) \<Rightarrow> bool \<Rightarrow> int \<Rightarrow> jsstring option option \<Rightarrow> complete_input \<Rightarrow>
   run_state \<Rightarrow> complete_result res \<times> run_state" where
  "completeRunAtomically sha256 localeCompare bucket completedAt expectedEngineCheckpoint i s =
    (let completionKey = completeRunKey sha256 localeCompare i;
         (staged, objects) = stageCompletionMessages i completionKey completedAt bucket (rs_objects s);
         s = s\<lparr>rs_objects := objects\<rparr>
     in case staged of
       Inl e \<Rightarrow> (Inl e, s)
     | Inr stored \<Rightarrow>
         (case executeAtomicBatch i stored completionKey completedAt expectedEngineCheckpoint s of
            Inl e \<Rightarrow> (Inl e, s)
          | Inr (results, s) \<Rightarrow> (Inr (completion_outcome i completionKey results s), s)))"

end
