(* ===== verification/RunOutbox.thy ===== *)
theory RunOutbox
  imports RunTerminal
begin

text \<open>
  Delivery of the outbox rows that terminal transactions write
  (\<open>application/services/run-notifier/index-outbox.ts\<close>, \<open>application/services/notifications/run-outbox.ts\<close>).
  A dispatcher selects some rows, claims each with a compare-and-set, hands it over, and gives the claim
  back when the hand-over fails. What the platform decides is a parameter: which rows a \<open>LIMIT\<close> without
  an order keeps, the clock, the random ids and what becomes of each hand-over, given per position in the
  loop.
\<close>

section \<open>Shared\<close>

definition dispatch_limit :: "int option \<Rightarrow> nat" where
  "dispatch_limit limit = nat (max 1 (min (case limit of None \<Rightarrow> 50 | Some n \<Rightarrow> n) 100))"

definition stale_claim :: "int option \<Rightarrow> int option \<Rightarrow> bool" where
  "stale_claim claimedAt staleBefore \<longleftrightarrow>
    (case staleBefore of None \<Rightarrow> False | Some t \<Rightarrow> claimedAt = None \<or> sql_lt claimedAt t)"

section \<open>Search-index jobs\<close>

record send_answer =
  sa_claimedAt :: int
  sa_deliveryId :: jsstring
  sa_timestamp :: int
  sa_error :: "jsstring option"
  sa_revert :: bool

record index_options =
  io_completionKey :: "jsstring option"
  io_staleBefore :: "int option"
  io_limit :: "int option"

definition isTerminalIndexJobType :: "jsstring \<Rightarrow> bool" where
  "isTerminalIndexJobType t \<longleftrightarrow> t \<in> set TERMINAL_INDEX_JOB_TYPES"

definition index_predicate :: "index_options \<Rightarrow> job_row \<Rightarrow> bool" where
  "index_predicate opts j \<longleftrightarrow>
    isTerminalIndexJobType (job_type j) \<and>
    (job_state j = JobQueued \<or> (job_state j = JobEnqueued \<and> stale_claim (job_startedAt j) (io_staleBefore opts))) \<and>
    (case io_completionKey opts of None \<Rightarrow> True | Some k \<Rightarrow> job_id j \<in> set (terminalIndexJobIds k))"

text \<open>The status a claim expects to find: as the row was read, and still stale if it was.\<close>

definition index_claimable :: "index_options \<Rightarrow> job_row \<Rightarrow> job_row \<Rightarrow> bool" where
  "index_claimable opts read j \<longleftrightarrow>
    job_id j = job_id read \<and>
    (if job_state read = JobQueued then job_state j = JobQueued
     else job_state j = JobEnqueued \<and> stale_claim (job_startedAt j) (io_staleBefore opts))"

definition claim_job :: "index_options \<Rightarrow> job_row \<Rightarrow> send_answer \<Rightarrow> job_row list \<Rightarrow> nat \<times> job_row list" where
  "claim_job opts read a jobs =
    (sql_count (index_claimable opts read) jobs,
     sql_update (index_claimable opts read) (\<lambda>j. j\<lparr>job_state := JobEnqueued, job_claim := Some (sa_deliveryId a),
       job_startedAt := Some (sa_claimedAt a), job_error := None\<rparr>) jobs)"

definition revert_job :: "job_row \<Rightarrow> send_answer \<Rightarrow> jsstring \<Rightarrow> job_row list \<Rightarrow> job_row list" where
  "revert_job read a err jobs =
    sql_update (\<lambda>j. job_id j = job_id read \<and> job_state j = JobEnqueued \<and> job_claim j = Some (sa_deliveryId a) \<and>
        job_startedAt j = Some (sa_claimedAt a))
      (\<lambda>j. j\<lparr>job_state := JobQueued, job_claim := None, job_startedAt := None, job_error := Some (take 2048 err)\<rparr>) jobs"

definition index_job_message :: "job_row \<Rightarrow> jsstring \<Rightarrow> send_answer \<Rightarrow> index_message" where
  "index_job_message j target a = \<lparr>im_jobId = job_id j, im_deliveryId = sa_deliveryId a, im_spaceId = job_account j,
     im_type = job_type j, im_targetId = target, im_timestamp = sa_timestamp a\<rparr>"

definition dispatch_job :: "index_options \<Rightarrow> send_answer \<Rightarrow> job_row \<Rightarrow> nat \<times> run_state \<Rightarrow> nat \<times> run_state" where
  "dispatch_job opts a job st =
    (let (sent, s) = st in
     case job_target job of
       None \<Rightarrow> (sent, s)
     | Some target \<Rightarrow>
       if target = [] \<or> \<not> isTerminalIndexJobType (job_type job) then (sent, s)
       else if job_state job \<noteq> JobQueued \<and> io_staleBefore opts = None then (sent, s)
       else
         let (n, jobs) = claim_job opts job a (rs_jobs s); s = s\<lparr>rs_jobs := jobs\<rparr> in
         if n = 0 then (sent, s)
         else (case sa_error a of
           None \<Rightarrow> (Suc sent, s\<lparr>rs_indexQueue := rs_indexQueue s @ [index_job_message job target a]\<rparr>)
         | Some err \<Rightarrow>
             (sent, if sa_revert a then s\<lparr>rs_jobs := revert_job job a err (rs_jobs s)\<rparr> else s)))"

fun dispatch_jobs :: "index_options \<Rightarrow> (nat \<Rightarrow> send_answer) \<Rightarrow> nat \<Rightarrow> job_row list \<Rightarrow> nat \<times> run_state \<Rightarrow> nat \<times> run_state" where
  "dispatch_jobs opts answers n [] st = st"
| "dispatch_jobs opts answers n (j # rest) st =
     dispatch_jobs opts answers (Suc n) rest (dispatch_job opts (answers n) j st)"

definition dispatchTerminalIndexOutbox ::
  "(nat \<Rightarrow> job_row list \<Rightarrow> job_row list) \<Rightarrow> (nat \<Rightarrow> send_answer) \<Rightarrow> bool \<Rightarrow> index_options \<Rightarrow> run_state \<Rightarrow> nat \<times> run_state" where
  "dispatchTerminalIndexOutbox pick answers hasQueue opts s =
    (if \<not> hasQueue then (0, s)
     else dispatch_jobs opts answers 0
            (pick (dispatch_limit (io_limit opts)) (filter (index_predicate opts) (rs_jobs s))) (0, s))"

section \<open>Run notifications\<close>

datatype push_handoff = HandoffDone | HandoffFailed | HandoffDeferred

record deliver_answer =
  da_claimedAt :: int
  da_claimToken :: jsstring
  da_result :: "jsstring + push_handoff"
  da_doneAt :: int
  da_revertAt :: "int option"

definition notification_predicate :: "index_options \<Rightarrow> outbox_row \<Rightarrow> bool" where
  "notification_predicate opts x \<longleftrightarrow>
    (ob_delivery x = DeliveryQueued \<or>
     (ob_delivery x = DeliveryDispatching \<and> stale_claim (ob_claimedAt x) (io_staleBefore opts))) \<and>
    (ob_runStatus x = Completed \<or> ob_runStatus x = Failed) \<and>
    (case io_completionKey opts of None \<Rightarrow> True | Some k \<Rightarrow> ob_completionKey x = k)"

definition isRunTerminalNotificationStatus :: "run_status \<Rightarrow> bool" where
  "isRunTerminalNotificationStatus st \<longleftrightarrow> st = Completed \<or> st = Failed"

definition notification_claimable :: "index_options \<Rightarrow> outbox_row \<Rightarrow> outbox_row \<Rightarrow> bool" where
  "notification_claimable opts read x \<longleftrightarrow>
    ob_id x = ob_id read \<and>
    (if ob_delivery read = DeliveryQueued then ob_delivery x = DeliveryQueued
     else ob_delivery x = DeliveryDispatching \<and> stale_claim (ob_claimedAt x) (io_staleBefore opts))"

definition claim_notification :: "index_options \<Rightarrow> outbox_row \<Rightarrow> deliver_answer \<Rightarrow> outbox_row list \<Rightarrow> nat \<times> outbox_row list" where
  "claim_notification opts read a rows =
    (sql_count (notification_claimable opts read) rows,
     sql_update (notification_claimable opts read)
       (\<lambda>x. x\<lparr>ob_delivery := DeliveryDispatching, ob_claim := Some (da_claimToken a),
         ob_claimedAt := Some (da_claimedAt a), ob_attempts := Suc (ob_attempts x), ob_error := None,
         ob_updatedAt := da_claimedAt a\<rparr>) rows)"

definition own_claim :: "outbox_row \<Rightarrow> deliver_answer \<Rightarrow> outbox_row \<Rightarrow> bool" where
  "own_claim read a x \<longleftrightarrow> ob_id x = ob_id read \<and> ob_delivery x = DeliveryDispatching \<and>
    ob_claim x = Some (da_claimToken a) \<and> ob_claimedAt x = Some (da_claimedAt a)"

definition finish_notification :: "outbox_row \<Rightarrow> deliver_answer \<Rightarrow> outbox_row list \<Rightarrow> nat \<times> outbox_row list" where
  "finish_notification read a rows =
    (sql_count (own_claim read a) rows,
     sql_update (own_claim read a) (\<lambda>x. x\<lparr>ob_delivery := DeliveryDone, ob_claim := None, ob_claimedAt := None,
       ob_error := None, ob_updatedAt := da_doneAt a\<rparr>) rows)"

definition revert_notification :: "outbox_row \<Rightarrow> deliver_answer \<Rightarrow> jsstring \<Rightarrow> int \<Rightarrow> outbox_row list \<Rightarrow> outbox_row list" where
  "revert_notification read a err now rows =
    sql_update (own_claim read a) (\<lambda>x. x\<lparr>ob_delivery := DeliveryQueued, ob_claim := None, ob_claimedAt := None,
       ob_error := Some (take 2048 err), ob_updatedAt := now\<rparr>) rows"

text \<open>What the notification service answers: an exception or a hand-over, two of whose results are
  turned into exceptions.\<close>

fun handoff_error :: "jsstring + push_handoff \<Rightarrow> jsstring option" where
  "handoff_error (Inl e) = Some e"
| "handoff_error (Inr HandoffDone) = None"
| "handoff_error (Inr HandoffFailed) = Some (js ''Error: notification push handoff failed'')"
| "handoff_error (Inr HandoffDeferred) = Some (js ''Error: notification push handoff deferred'')"

definition dispatch_notification ::
  "index_options \<Rightarrow> deliver_answer \<Rightarrow> outbox_row \<Rightarrow> nat \<times> run_state \<Rightarrow> nat \<times> run_state" where
  "dispatch_notification opts a row st =
    (let (completed, s) = st in
     if \<not> isRunTerminalNotificationStatus (ob_runStatus row) then (completed, s)
     else if ob_delivery row \<noteq> DeliveryQueued \<and> io_staleBefore opts = None then (completed, s)
     else
       let (n, rows) = claim_notification opts row a (rs_outbox s); s = s\<lparr>rs_outbox := rows\<rparr> in
       if n = 0 then (completed, s)
       else (case handoff_error (da_result a) of
         None \<Rightarrow> let (n, rows) = finish_notification row a (rs_outbox s)
                 in (if 0 < n then Suc completed else completed, s\<lparr>rs_outbox := rows\<rparr>)
       | Some err \<Rightarrow> (completed, case da_revertAt a of None \<Rightarrow> s
           | Some now \<Rightarrow> s\<lparr>rs_outbox := revert_notification row a err now (rs_outbox s)\<rparr>)))"

fun dispatch_notifications ::
  "index_options \<Rightarrow> (nat \<Rightarrow> deliver_answer) \<Rightarrow> nat \<Rightarrow> outbox_row list \<Rightarrow> nat \<times> run_state \<Rightarrow> nat \<times> run_state" where
  "dispatch_notifications opts answers n [] st = st"
| "dispatch_notifications opts answers n (r # rs) st =
     dispatch_notifications opts answers (Suc n) rs (dispatch_notification opts (answers n) r st)"

definition dispatchRunNotificationOutbox ::
  "(nat \<Rightarrow> outbox_row list \<Rightarrow> outbox_row list) \<Rightarrow> (nat \<Rightarrow> deliver_answer) \<Rightarrow> index_options \<Rightarrow> run_state \<Rightarrow> nat \<times> run_state" where
  "dispatchRunNotificationOutbox pick answers opts s =
    dispatch_notifications opts answers 0
      (pick (dispatch_limit (io_limit opts)) (filter (notification_predicate opts) (rs_outbox s))) (0, s)"

end
