(* ===== verification/RunAccess.thy ===== *)
theory RunAccess
  imports RunDb
begin

text \<open>
  Who a run acts for, and whether that user may still use the workspace
  (\<open>runtime/container-hosts/executor-run-state.ts\<close>, \<open>application/services/platform/capabilities.ts\<close>,
  \<open>application/services/identity/principals.ts\<close>). Lower-casing is the one of ASCII letters, which is all
  that matters for the four role names.
\<close>

datatype access_error = NotFoundError jsstring | AuthorizationError jsstring

datatype space_role = Owner | Admin | Editor | Viewer

definition get_account :: "run_state \<Rightarrow> jsstring \<Rightarrow> account_row option" where
  "get_account s i = sql_get (\<lambda>a. ac_id a = i) (rs_accounts s)"

definition resolveActorPrincipalId :: "run_state \<Rightarrow> jsstring \<Rightarrow> jsstring option" where
  "resolveActorPrincipalId s actorId = truthy (map_option ac_id (get_account s actorId))"

definition space_role_of :: "jsstring \<Rightarrow> space_role option" where
  "space_role_of role =
    (if role = js ''owner'' then Some Owner else if role = js ''admin'' then Some Admin
     else if role = js ''editor'' then Some Editor else if role = js ''viewer'' then Some Viewer else None)"

definition active_member :: "jsstring \<Rightarrow> jsstring \<Rightarrow> membership_row \<Rightarrow> bool" where
  "active_member spaceId principalId m \<longleftrightarrow>
    mb_accountId m = spaceId \<and> mb_memberId m = principalId \<and> mb_status m = js ''active''"

definition resolveSpaceRole :: "run_state \<Rightarrow> jsstring \<Rightarrow> jsstring \<Rightarrow> space_role option" where
  "resolveSpaceRole s spaceId userId =
    (case resolveActorPrincipalId s userId of
       None \<Rightarrow> None
     | Some principalId \<Rightarrow>
         let workspace = get_account s spaceId in
         if Option.bind workspace ac_owner = Some principalId then Some Owner
         else
           let member = sql_get (active_member spaceId principalId) (rs_memberships s) in
           space_role_of (to_lower (case member of None \<Rightarrow> [] | Some m \<Rightarrow> mb_role m)))"

text \<open>The last two branches of the code, for a workspace of type \<open>user\<close> and for any other, return the same.\<close>

definition resolveExecutionUserIdForRun :: "run_state \<Rightarrow> jsstring \<Rightarrow> access_error + jsstring" where
  "resolveExecutionUserIdForRun s runId =
    (case get_run s runId of
       None \<Rightarrow> Inl (NotFoundError (js ''Run '' @ runId @ js '' while resolving execution user''))
     | Some runRow \<Rightarrow>
         if r_accountId runRow = [] then Inl (NotFoundError (js ''Run '' @ runId @ js '' while resolving execution user''))
         else (case truthy (r_requester runRow) of
           Some requester \<Rightarrow> Inr requester
         | None \<Rightarrow>
             let workspace = get_account s (r_accountId runRow) in
             (case truthy (Option.bind workspace ac_owner) of
                Some owner \<Rightarrow> Inr owner
              | None \<Rightarrow> Inr (r_accountId runRow))))"

definition assertRunExecutionAccess :: "run_state \<Rightarrow> jsstring \<Rightarrow> access_error + jsstring \<times> space_role" where
  "assertRunExecutionAccess s runId =
    (case get_run s runId of
       None \<Rightarrow> Inl (NotFoundError (js ''Run '' @ runId))
     | Some run \<Rightarrow>
         (case resolveExecutionUserIdForRun s runId of
            Inl e \<Rightarrow> Inl e
          | Inr userId \<Rightarrow>
              (case resolveSpaceRole s (r_accountId run) userId of
                 None \<Rightarrow> Inl (AuthorizationError
                   (js ''Run requester '' @ userId @ js '' no longer has access to account '' @ r_accountId run))
               | Some role \<Rightarrow> Inr (userId, role))))"

record run_bootstrap =
  bo_status :: run_status
  bo_spaceId :: jsstring
  bo_threadId :: jsstring
  bo_userId :: jsstring
  bo_agentType :: jsstring

text \<open>The capsule context that \<open>readRunBootstrapCapsuleContext\<close> reads out of the input text is left out.\<close>

definition getRunBootstrap :: "run_state \<Rightarrow> jsstring \<Rightarrow> access_error + run_bootstrap" where
  "getRunBootstrap s runId =
    (case get_run s runId of
       None \<Rightarrow> Inl (NotFoundError (js ''Run '' @ runId))
     | Some run \<Rightarrow>
         (case sql_get (\<lambda>t. th_id t = r_threadId run) (rs_threads s) of
            None \<Rightarrow> Inl (NotFoundError (js ''Thread '' @ r_threadId run))
          | Some thread \<Rightarrow>
              if th_accountId thread \<noteq> r_accountId run
              then Inl (AuthorizationError
                (js ''Thread '' @ r_threadId run @ js '' does not belong to account '' @ r_accountId run))
              else (case assertRunExecutionAccess s runId of
                Inl e \<Rightarrow> Inl e
              | Inr (userId, _) \<Rightarrow> Inr \<lparr>bo_status = r_status run, bo_spaceId = r_accountId run, bo_threadId = r_threadId run,
                  bo_userId = userId, bo_agentType = r_agentType run\<rparr>)))"

section \<open>Authority\<close>

text \<open>What the code promises: a run acts for its requester, for the workspace owner when a run has none,
  and only while that user owns the workspace or is an active member of it with a known role.\<close>

definition may_use :: "run_state \<Rightarrow> jsstring \<Rightarrow> jsstring \<Rightarrow> bool" where
  "may_use s spaceId userId \<longleftrightarrow> userId \<noteq> [] \<and> get_account s userId \<noteq> None \<and>
    ((\<exists>a. get_account s spaceId = Some a \<and> ac_owner a = Some userId) \<or>
     (\<exists>m \<in> set (rs_memberships s). active_member spaceId userId m \<and>
        to_lower (mb_role m) \<in> {js ''owner'', js ''admin'', js ''editor'', js ''viewer''}))"

lemma get_account_id: "get_account s i = Some a \<Longrightarrow> ac_id a = i"
  unfolding get_account_def by (drule sql_get_Some) simp

lemma principal_Some:
  "resolveActorPrincipalId s u = Some p \<longleftrightarrow> p = u \<and> u \<noteq> [] \<and> get_account s u \<noteq> None"
  by (auto simp: resolveActorPrincipalId_def truthy_Some dest: get_account_id)

lemma space_role_known:
  "space_role_of v \<noteq> None \<longleftrightarrow> v \<in> {js ''owner'', js ''admin'', js ''editor'', js ''viewer''}"
  unfolding space_role_of_def by (simp split: if_splits)

lemma resolveSpaceRole_may_use:
  assumes "resolveSpaceRole s spaceId u = Some role"
  shows "may_use s spaceId u"
proof -
  have p: "resolveActorPrincipalId s u = Some u"
    using assms by (cases "resolveActorPrincipalId s u") (auto simp: resolveSpaceRole_def principal_Some)
  then have base: "u \<noteq> []" "get_account s u \<noteq> None" by (simp_all add: principal_Some)
  show ?thesis
  proof (cases "Option.bind (get_account s spaceId) ac_owner = Some u")
    case True
    then show ?thesis using base unfolding may_use_def by (cases "get_account s spaceId") auto
  next
    case False
    then have r: "space_role_of (to_lower (case sql_get (active_member spaceId u) (rs_memberships s) of
        None \<Rightarrow> [] | Some m \<Rightarrow> mb_role m)) = Some role"
      using assms p by (simp add: resolveSpaceRole_def)
    show ?thesis
    proof (cases "sql_get (active_member spaceId u) (rs_memberships s)")
      case None
      then show ?thesis using r by (simp add: space_role_of_def to_lower_def js_def)
    next
      case (Some m)
      have "to_lower (mb_role m) \<in> {js ''owner'', js ''admin'', js ''editor'', js ''viewer''}"
        using r Some space_role_known [of "to_lower (mb_role m)"] by simp
      then show ?thesis using base sql_get_Some [OF Some] unfolding may_use_def by blast
    qed
  qed
qed

end
