(* ===== verification/RunQueue.thy ===== *)
theory RunQueue
  imports RunCompletion RunOutbox RunAccess
begin

text \<open>
  The hands a run passes through: its creation (\<open>application/services/execution/run-creation.ts\<close>,
  \<open>runs/create-thread-run-store.ts\<close>), the queue consumer (\<open>runtime/runner/queue-handler.ts\<close>), the
  recovery by cron (\<open>runtime/runner/cron-handler.ts\<close>) and the executor's requests
  (\<open>runtime/container-hosts/executor-run-state.ts\<close>). The environment's answers (clock, random ids, the
  executor's response, whether a queue takes a message, the model policy) are arguments; notifications
  over web sockets and log entries leave the state alone and are left out.
\<close>

section \<open>Statements on runs\<close>

definition insert_run :: "run_row \<Rightarrow> run_state \<Rightarrow> run_state res" where
  "insert_run r s =
    (if r_id r \<in> r_id ` set (rs_runs s) then Inl (Error ''UNIQUE constraint failed: runs.id'')
     else Inr (s\<lparr>rs_runs := rs_runs s @ [r]\<rparr>))"

record pending_run =
  pr_runId :: jsstring
  pr_threadId :: jsstring
  pr_spaceId :: jsstring
  pr_requester :: jsstring
  pr_parentRunId :: "jsstring option"
  pr_agentType :: jsstring
  pr_model :: jsstring
  pr_input :: jsstring
  pr_createdAt :: int

text \<open>\<open>createPendingRun\<close>: the columns it leaves out have the defaults of the schema.\<close>

definition pending_row :: "pending_run \<Rightarrow> run_row" where
  "pending_row p =
    \<lparr>r_id = pr_runId p, r_threadId = pr_threadId p, r_accountId = pr_spaceId p, r_requester = Some (pr_requester p),
     r_sessionId = None, r_parentRunId = pr_parentRunId p, r_agentType = pr_agentType p, r_input = pr_input p,
     r_model = Some (pr_model p), r_status = Pending, r_output = None, r_error = None, r_usage = js ''{}'',
     r_serviceId = None, r_heartbeat = None, r_lease = 0, r_completionKey = None, r_seqStart = None,
     r_checkpoint = None, r_checkpointAt = None, r_startedAt = None, r_completedAt = None, r_createdAt = pr_createdAt p\<rparr>"

definition createPendingRun :: "pending_run \<Rightarrow> run_state \<Rightarrow> run_state res" where
  "createPendingRun p s = insert_run (pending_row p) s"

definition updateRunStatus :: "jsstring \<Rightarrow> run_status \<Rightarrow> jsstring option \<Rightarrow> run_state \<Rightarrow> run_state" where
  "updateRunStatus runId st err s =
    snd (update_runs (\<lambda>r. r_id r = runId) (\<lambda>r. r\<lparr>r_status := st, r_error := err\<rparr>) s)"

definition STALE_WORKER_THRESHOLD_MS :: int where "STALE_WORKER_THRESHOLD_MS = 5 * 60 * 1000"

text \<open>The queue consumer takes a run back from a worker whose heartbeat is too old.\<close>

definition stale_recovery :: "jsstring \<Rightarrow> int \<Rightarrow> run_state \<Rightarrow> nat \<times> run_state" where
  "stale_recovery runId threshold =
    update_runs (\<lambda>r. r_id r = runId \<and> r_status r = Running \<and> sql_lt (r_heartbeat r) threshold)
      (\<lambda>r. r\<lparr>r_status := Queued, r_serviceId := None, r_heartbeat := None, r_completionKey := None\<rparr>)"

definition claim_run :: "jsstring \<Rightarrow> jsstring \<Rightarrow> int \<Rightarrow> run_state \<Rightarrow> nat \<times> run_state" where
  "claim_run runId serviceId now =
    update_runs (\<lambda>r. r_id r = runId \<and> r_status r = Queued \<and> r_serviceId r = None)
      (\<lambda>r. r\<lparr>r_status := Running, r_serviceId := Some serviceId, r_heartbeat := Some now, r_lease := r_lease r + 1,
             r_startedAt := Some now\<rparr>)"

definition freeze_model :: "jsstring \<Rightarrow> jsstring \<Rightarrow> int \<Rightarrow> jsstring \<Rightarrow> run_state \<Rightarrow> nat \<times> run_state" where
  "freeze_model runId serviceId leaseVersion model =
    update_runs (\<lambda>r. r_id r = runId \<and> r_status r = Running \<and> r_serviceId r = Some serviceId \<and>
        r_lease r = leaseVersion \<and> r_model r = None)
      (\<lambda>r. r\<lparr>r_model := Some model\<rparr>)"

definition reset_owned :: "jsstring \<Rightarrow> jsstring \<Rightarrow> jsstring option \<Rightarrow> run_state \<Rightarrow> nat \<times> run_state" where
  "reset_owned runId serviceId err =
    update_runs (\<lambda>r. r_id r = runId \<and> r_status r = Running \<and> r_serviceId r = Some serviceId)
      (\<lambda>r. r\<lparr>r_status := Queued, r_error := err, r_serviceId := None, r_heartbeat := None,
             r_completionKey := None, r_completedAt := None\<rparr>)"

definition fencePendingOperationsForClaimedRun :: "jsstring \<Rightarrow> int \<Rightarrow> run_state \<Rightarrow> run_state" where
  "fencePendingOperationsForClaimedRun runId now s =
    s\<lparr>rs_ops := sql_update (\<lambda>p. op_runId p = runId \<and> op_status p = OpPending)
       (\<lambda>p. p\<lparr>op_status := OpUncertain, op_output := Some [], op_error :=
              Some (js ''The previous executor lost its Run lease before this side effect recorded an authoritative outcome. Automatic replay is blocked; verify the remote system before issuing a new operation.''),
            op_completedAt := Some now\<rparr>) (rs_ops s)\<rparr>"

definition send_run :: "run_message \<Rightarrow> nat \<Rightarrow> run_state \<Rightarrow> run_state" where
  "send_run m delaySeconds s = s\<lparr>rs_runQueue := rs_runQueue s @ [(m, delaySeconds)]\<rparr>"

section \<open>Terminal payloads\<close>

definition buildTerminalPayload :: "jsstring \<Rightarrow> run_status \<Rightarrow> (jsstring \<times> json) list \<Rightarrow> jsstring option \<Rightarrow> json" where
  "buildTerminalPayload runId st details sessionId = JObj (from_entries
    ([(js ''status'', JStr (status_text st)),
      (js ''run'', JObj [(js ''id'', JStr runId), (js ''session_id'', json_opt sessionId)])] @ details))"

definition buildRunFailedPayload :: "jsstring \<Rightarrow> jsstring \<Rightarrow> bool \<Rightarrow> jsstring option \<Rightarrow> json" where
  "buildRunFailedPayload runId err permanent sessionId =
    buildTerminalPayload runId Failed
      ([(js ''error'', JStr err)] @ (if permanent then [(js ''permanent'', JBool True)] else [])) sessionId"

text \<open>A failure as the queue consumer and the creation report it.\<close>

definition failed_transition ::
  "jsstring \<Rightarrow> run_status list \<Rightarrow> (jsstring \<times> int) option \<Rightarrow> int \<Rightarrow> jsstring \<Rightarrow> json \<Rightarrow> terminal_input" where
  "failed_transition runId expected lease completedAt err payload =
    \<lparr>ti_runId = runId, ti_status = Failed, ti_expectedStatuses = expected,
     ti_expectedServiceId = map_option fst lease, ti_expectedLeaseVersion = map_option snd lease,
     ti_completedAt = completedAt, ti_usage = None, ti_error = Some (Some err), ti_output = None,
     ti_eventType = js ''run.failed'', ti_terminalEvent = payload\<rparr>"

section \<open>The queue consumer\<close>

datatype verdict = Ack | Retry "int option"

datatype dispatch_answer = DispatchThrows jsstring | DispatchResponse nat jsstring

text \<open>What surrounds the program: digest, collation, the bucket, the choice of rows under a limit.\<close>

record platform =
  pf_sha256 :: "bytes \<Rightarrow> jsstring"
  pf_localeCompare :: "jsstring \<Rightarrow> jsstring \<Rightarrow> int"
  pf_bucket :: "bool option"
  pf_pick :: "nat \<Rightarrow> outbox_row list \<Rightarrow> outbox_row list"
  pf_pickJobs :: "nat \<Rightarrow> job_row list \<Rightarrow> job_row list"

record queue_env =
  qe_clock :: int
  qe_now :: int
  qe_fencedAt :: int
  qe_completedAt :: int
  qe_model :: "unit + jsstring"
  qe_dispatch :: dispatch_answer
  qe_sendOk :: bool
  qe_dlqId :: jsstring
  qe_deliver :: "nat \<Rightarrow> deliver_answer"

text \<open>A failed transition, and the delivery of its notification if it was committed.\<close>

definition fail_run :: "platform \<Rightarrow> queue_env \<Rightarrow> terminal_input \<Rightarrow> run_state \<Rightarrow> run_state res" where
  "fail_run pf env input s =
    bind_res (transitionRunTerminalAtomically (pf_sha256 pf) (pf_localeCompare pf) (pf_bucket pf) input s) (\<lambda>(res, s).
      Inr (if tr_committed res
           then snd (dispatchRunNotificationOutbox (pf_pick pf) (qe_deliver env)
             \<lparr>io_completionKey = Some (tr_completionKey res), io_staleBefore = None, io_limit = None\<rparr> s)
           else s))"

definition isExecutorCapacityResponse :: "nat \<Rightarrow> jsstring \<Rightarrow> bool" where
  "isExecutorCapacityResponse status body \<longleftrightarrow> status = 503 \<and>
    (js_includes (to_lower body) (js ''no executor capacity available'') \<or> js_includes (to_lower body) (js ''at capacity''))"

definition requeueRunForExecutorCapacity :: "queue_env \<Rightarrow> js_num \<Rightarrow> run_message \<Rightarrow> run_state \<Rightarrow> verdict \<times> run_state" where
  "requeueRunForExecutorCapacity env attempts body s =
    (let backpressureCount = nextRunQueueBackpressureCount (rm_backpressure body);
         delaySeconds = runQueueBackpressureDelaySeconds backpressureCount
     in if qe_sendOk env
        then (Ack, send_run (body\<lparr>rm_backpressure := Some backpressureCount\<rparr>) (nat delaySeconds) s)
        else (Retry (Some (runQueueRetryDelaySeconds attempts)), s))"

text \<open>The last part of the handler: the executor's answer to the dispatch.\<close>

definition dispatch_run ::
  "platform \<Rightarrow> queue_env \<Rightarrow> jsstring \<Rightarrow> int \<Rightarrow> js_num \<Rightarrow> run_message \<Rightarrow> run_state \<Rightarrow> verdict res \<times> run_state" where
  "dispatch_run pf env serviceId leaseVersion attempts body s =
    (let runId = rm_runId body; retry = Retry (Some (runQueueRetryDelaySeconds attempts)) in
     case qe_dispatch env of
       DispatchThrows err \<Rightarrow>
         (Inr retry, snd (reset_owned runId serviceId (Some (js ''Dispatch exception: '' @ take 500 err)) s))
     | DispatchResponse status text \<Rightarrow>
         if 200 \<le> status \<and> status < 300 then (Inr Ack, s)
         else
           let rejected = js ''Dispatch rejected: '' @ nat_str status @ [32] @ take 500 text in
           if 400 \<le> status \<and> status < 500 then
             let payload = buildRunFailedPayload runId rejected False (Option.bind (get_run s runId) r_sessionId) in
             (case fail_run pf env (failed_transition runId [Running] (Some (serviceId, leaseVersion))
                 (qe_completedAt env) rejected payload) s of
               Inl e \<Rightarrow> (Inl e, s)
             | Inr s \<Rightarrow> (Inr Ack, s))
           else
             let capacity = isExecutorCapacityResponse status text;
                 s = snd (reset_owned runId serviceId (if capacity then None else Some rejected) s)
             in if capacity
                then let (v, s) = requeueRunForExecutorCapacity env attempts body s in (Inr v, s)
                else (Inr retry, s))"

text \<open>The part under \<open>try\<close>: a thrown error is \<open>Inl\<close>, with what had been written before it.\<close>

definition claim_and_dispatch ::
  "platform \<Rightarrow> queue_env \<Rightarrow> jsstring \<Rightarrow> js_num \<Rightarrow> run_message \<Rightarrow> run_state \<Rightarrow> verdict res \<times> run_state" where
  "claim_and_dispatch pf env serviceId attempts body s =
    (let runId = rm_runId body;
         s = snd (stale_recovery runId (qe_clock env - STALE_WORKER_THRESHOLD_MS) s);
         (n, s) = claim_run runId serviceId (qe_now env) s
     in if n = 0 then (Inr Ack, s)
        else case sql_get (\<lambda>r. r_id r = runId \<and> r_serviceId r = Some serviceId) (rs_runs s) of
          None \<Rightarrow> (Inr Ack, s)
        | Some claimed \<Rightarrow>
            let leaseVersion = r_lease claimed;
                s = fencePendingOperationsForClaimedRun runId (qe_fencedAt env) s
            in case assertRunExecutionAccess s runId of
              Inl (NotFoundError msg) \<Rightarrow> (Inl (Error ''NotFoundError''), s)
            | Inl (AuthorizationError msg) \<Rightarrow>
                let accessMessage = js ''Run requester no longer has access to this Workspace'' in
                (case fail_run pf env (failed_transition runId [Running] (Some (serviceId, leaseVersion))
                    (qe_completedAt env) accessMessage (buildRunFailedPayload runId accessMessage True None)) s of
                   Inl e \<Rightarrow> (Inl e, s)
                 | Inr s \<Rightarrow> (Inr Ack, s))
            | Inr _ \<Rightarrow>
                (case truthy (r_model claimed) of
                   Some _ \<Rightarrow> dispatch_run pf env serviceId leaseVersion attempts body s
                 | None \<Rightarrow>
                     (case qe_model env of
                        Inl _ \<Rightarrow> (Inl (Error ''model resolution failed''), s)
                      | Inr dispatchModel \<Rightarrow>
                          let (n, s) = freeze_model runId serviceId leaseVersion dispatchModel s in
                          if n = 0 then (Inr (Retry None), s)
                          else dispatch_run pf env serviceId leaseVersion attempts body s)))"

definition isValidRunQueueMessage :: "run_message \<Rightarrow> bool" where
  "isValidRunQueueMessage m \<longleftrightarrow>
    rm_runId m \<noteq> [] \<and> length (rm_runId m) \<le> 512 \<and>
    (case rm_model m of None \<Rightarrow> True | Some v \<Rightarrow> v \<noteq> [] \<and> length v \<le> 128) \<and>
    (case rm_backpressure m of None \<Rightarrow> True | Some n \<Rightarrow> is_safe_integer n \<and> n \<ge> 0)"

text \<open>One message of the run queue, when the environment is complete.\<close>

definition handle_run_message ::
  "platform \<Rightarrow> queue_env \<Rightarrow> jsstring \<Rightarrow> js_num \<Rightarrow> run_message \<Rightarrow> run_state \<Rightarrow> verdict \<times> run_state" where
  "handle_run_message pf env serviceId attempts body s =
    (if \<not> isValidRunQueueMessage body then (Ack, s)
     else case claim_and_dispatch pf env serviceId attempts body s of
       (Inr v, s) \<Rightarrow> (v, s)
     | (Inl e, s) \<Rightarrow>
         (Retry (Some (runQueueRetryDelaySeconds attempts)),
          snd (reset_owned (rm_runId body) serviceId
            (Some (js ''Run queue handler failed before container dispatch completed'')) s)))"

definition handle_dlq_message ::
  "platform \<Rightarrow> queue_env \<Rightarrow> jsstring \<Rightarrow> nat \<Rightarrow> run_message \<Rightarrow> run_state \<Rightarrow> verdict res \<times> run_state" where
  "handle_dlq_message pf env queueName attempts body s =
    (let runId = rm_runId body; run = get_run s runId; previous = truthy (Option.bind run r_error);
         s = s\<lparr>rs_dlq := rs_dlq s @ [\<lparr>dlq_id = qe_dlqId env, dlq_queue = queueName, dlq_runId = runId,
               dlq_error = (case previous of Some e \<Rightarrow> e | None \<Rightarrow> js ''Max retries exceeded''), dlq_retryCount = attempts\<rparr>]\<rparr>;
         dlqError = js ''DLQ: Run failed permanently after max retries. Previous error: '' @
           (case previous of Some e \<Rightarrow> e | None \<Rightarrow> js ''unknown'');
         payload = buildRunFailedPayload runId (js ''Run failed permanently after multiple retries'') True
           (Option.bind run r_sessionId)
     in case fail_run pf env (failed_transition runId DLQ_TERMINALIZABLE_RUN_STATUSES None (qe_completedAt env)
          dlqError payload) s of
          Inl e \<Rightarrow> (Inl e, s)
        | Inr s \<Rightarrow> (Inr Ack, s))"

section \<open>Recovery by cron\<close>

record cron_env =
  ce_send :: "jsstring \<Rightarrow> bool"
  ce_model :: "jsstring \<Rightarrow> unit + jsstring"
  ce_timestamp :: "jsstring \<Rightarrow> int"

text \<open>\<open>sendRunQueueMessage\<close>: it fails when the model cannot be resolved or the queue does not take the
  message.\<close>

definition sendRunQueueMessage :: "cron_env \<Rightarrow> run_row \<Rightarrow> run_state \<Rightarrow> bool \<times> run_state" where
  "sendRunQueueMessage env run s =
    (case (case r_model run of Some m \<Rightarrow> Inr m | None \<Rightarrow> ce_model env (r_id run)) of
       Inl _ \<Rightarrow> (False, s)
     | Inr model \<Rightarrow>
         if ce_send env (r_id run)
         then (True, send_run \<lparr>rm_runId = r_id run, rm_timestamp = ce_timestamp env (r_id run), rm_retryCount = Some 0,
                rm_backpressure = None, rm_model = Some model\<rparr> 0 s)
         else (False, s))"

definition stale_running :: "int \<Rightarrow> run_row \<Rightarrow> bool" where
  "stale_running threshold r \<longleftrightarrow> r_status r = Running \<and> sql_lt (r_heartbeat r) threshold"

definition cron_reset :: "jsstring \<Rightarrow> int \<Rightarrow> run_state \<Rightarrow> nat \<times> run_state" where
  "cron_reset runId threshold =
    update_runs (\<lambda>r. r_id r = runId \<and> stale_running threshold r)
      (\<lambda>r. r\<lparr>r_status := Queued, r_serviceId := None, r_heartbeat := None, r_completionKey := None, r_completedAt := None\<rparr>)"

definition cron_revert :: "jsstring \<Rightarrow> run_state \<Rightarrow> nat \<times> run_state" where
  "cron_revert runId =
    update_runs (\<lambda>r. r_id r = runId \<and> r_status r = Queued) (\<lambda>r. r\<lparr>r_status := Running, r_heartbeat := Some 0\<rparr>)"

definition reenqueue_running :: "cron_env \<Rightarrow> int \<Rightarrow> run_row \<Rightarrow> run_state \<Rightarrow> run_state" where
  "reenqueue_running env threshold run s =
    (let (n, s) = cron_reset (r_id run) threshold s in
     if n = 0 then s
     else let (sent, s) = sendRunQueueMessage env run s in
       if sent then s else snd (cron_revert (r_id run) s))"

text \<open>\<open>pick 50\<close> is the choice the database makes among the selected rows.\<close>

definition reenqueueStaleRunningRuns ::
  "(nat \<Rightarrow> run_row list \<Rightarrow> run_row list) \<Rightarrow> cron_env \<Rightarrow> int \<Rightarrow> run_state \<Rightarrow> run_state" where
  "reenqueueStaleRunningRuns pick env threshold s =
    fold (reenqueue_running env threshold) (pick 50 (filter (stale_running threshold) (rs_runs s))) s"

definition stale_unclaimed :: "int \<Rightarrow> run_row \<Rightarrow> bool" where
  "stale_unclaimed threshold r \<longleftrightarrow>
    (r_status r = Pending \<or> r_status r = Queued) \<and> r_serviceId r = None \<and> r_createdAt r < threshold \<and>
    (r_heartbeat r = None \<or> sql_lt (r_heartbeat r) threshold)"

definition cron_unclaimed :: "jsstring \<Rightarrow> int \<Rightarrow> int \<Rightarrow> run_state \<Rightarrow> nat \<times> run_state" where
  "cron_unclaimed runId threshold recoveryHeartbeat =
    update_runs (\<lambda>r. r_id r = runId \<and> stale_unclaimed threshold r)
      (\<lambda>r. r\<lparr>r_status := Queued, r_serviceId := None, r_heartbeat := Some recoveryHeartbeat\<rparr>)"

definition reenqueue_unclaimed :: "cron_env \<Rightarrow> int \<Rightarrow> int \<Rightarrow> run_row \<Rightarrow> run_state \<Rightarrow> run_state" where
  "reenqueue_unclaimed env threshold recoveryHeartbeat run s =
    (let (n, s) = cron_unclaimed (r_id run) threshold recoveryHeartbeat s in
     if n = 0 then s else snd (sendRunQueueMessage env run s))"

definition reenqueueStaleUnclaimedRuns ::
  "(nat \<Rightarrow> run_row list \<Rightarrow> run_row list) \<Rightarrow> cron_env \<Rightarrow> int \<Rightarrow> int \<Rightarrow> run_state \<Rightarrow> run_state" where
  "reenqueueStaleUnclaimedRuns pick env recoveryHeartbeat threshold s =
    fold (reenqueue_unclaimed env threshold recoveryHeartbeat)
      (pick 50 (filter (stale_unclaimed threshold) (rs_runs s))) s"

end
