(* ===== verification/RunExecutor.thy ===== *)
theory RunExecutor
  imports RunQueue
begin

text \<open>
  The requests of the executor that owns a run (\<open>runtime/container-hosts/executor-run-state.ts\<close>), the
  end of the creation of a run (\<open>application/services/execution/run-creation.ts\<close>) and the operations
  that keep a side effect from being done twice (\<open>application/tools/idempotency.ts\<close>).
\<close>

section \<open>Executor requests\<close>

record executor_body =
  eb_runId :: "jsstring option"
  eb_serviceId :: "jsstring option"
  eb_workerId :: "jsstring option"
  eb_leaseVersion :: "int option"
  eb_error :: "jsstring option"

datatype executor_reply =
    ReplySuccess
  | ReplyUpdated
  | ReplyStatus "run_status option"
  | ReplyRecord "run_status option" "jsstring option" "jsstring option"
  | ReplyBootstrap run_bootstrap
  | ReplyCancelled bool
  | ReplyErr jsstring nat

definition readRunServiceId :: "executor_body \<Rightarrow> jsstring option" where
  "readRunServiceId b = (case truthy (eb_serviceId b) of Some v \<Rightarrow> Some v | None \<Rightarrow> truthy (eb_workerId b))"

text \<open>The condition every request that writes puts on the row.\<close>

definition holds_lease :: "jsstring \<Rightarrow> jsstring \<Rightarrow> int option \<Rightarrow> run_row \<Rightarrow> bool" where
  "holds_lease runId serviceId leaseVersion r \<longleftrightarrow>
    r_id r = runId \<and> r_serviceId r = Some serviceId \<and> r_status r = Running \<and>
    (case leaseVersion of None \<Rightarrow> True | Some v \<Rightarrow> r_lease r = v)"

definition heartbeat_run :: "jsstring \<Rightarrow> jsstring \<Rightarrow> int option \<Rightarrow> int \<Rightarrow> run_state \<Rightarrow> nat \<times> run_state" where
  "heartbeat_run runId serviceId leaseVersion now =
    update_runs (holds_lease runId serviceId leaseVersion) (\<lambda>r. r\<lparr>r_heartbeat := Some now\<rparr>)"

definition handleHeartbeat :: "int \<Rightarrow> executor_body \<Rightarrow> run_state \<Rightarrow> executor_reply \<times> run_state" where
  "handleHeartbeat now b s =
    (case (truthy (eb_runId b), readRunServiceId b) of
       (Some runId, Some serviceId) \<Rightarrow>
         let (n, s) = heartbeat_run runId serviceId (eb_leaseVersion b) now s
         in (if n = 0 then ReplyErr (js ''Lease lost'') 409 else ReplySuccess, s)
     | _ \<Rightarrow> (ReplyErr (js ''Missing runId or serviceId'') 400, s))"

definition handleRunStatus :: "executor_body \<Rightarrow> run_state \<Rightarrow> executor_reply" where
  "handleRunStatus b s =
    (case truthy (eb_runId b) of None \<Rightarrow> ReplyErr (js ''Missing runId'') 400
     | Some runId \<Rightarrow> ReplyStatus (map_option r_status (get_run s runId)))"

definition handleRunRecord :: "executor_body \<Rightarrow> run_state \<Rightarrow> executor_reply" where
  "handleRunRecord b s =
    (case truthy (eb_runId b) of None \<Rightarrow> ReplyErr (js ''Missing runId'') 400
     | Some runId \<Rightarrow>
         let run = get_run s runId in
         ReplyRecord (map_option r_status run) (map_option r_input run) (Option.bind run r_parentRunId))"

text \<open>\<open>classifyProxyError\<close> on the two errors of the bootstrap: what their texts contain decides.\<close>

definition classifyProxyError :: "jsstring \<Rightarrow> jsstring \<times> nat" where
  "classifyProxyError msg =
    (if js_includes msg (js ''timed out'') \<or> js_includes msg (js ''timeout'') then (js ''Proxy request timed out'', 504)
     else if js_includes msg (js ''SQLITE_BUSY'') \<or> js_includes msg (js ''database is locked'')
     then (js ''Database busy, retry later'', 503)
     else if js_includes msg (js ''SQLITE_CONSTRAINT'') then (js ''Database constraint violation'', 409)
     else if js_includes msg (js ''SQLITE_ERROR'') \<or> js_includes msg (js ''D1_ERROR'') then (js ''Database query error'', 400)
     else if js_includes msg (js ''ECONNREFUSED'') \<or> js_includes msg (js ''ECONNRESET'') \<or> js_includes msg (js ''ENOTFOUND'') \<or>
       js_includes msg (js ''fetch failed'') \<or> js_includes msg (js ''network'') then (js ''Upstream connection failed'', 502)
     else (js ''Internal proxy error'', 500))"

fun access_message :: "access_error \<Rightarrow> jsstring" where
  "access_message (NotFoundError resource) = resource @ js '' not found''"
| "access_message (AuthorizationError m) = m"

definition handleRunBootstrap :: "executor_body \<Rightarrow> run_state \<Rightarrow> executor_reply" where
  "handleRunBootstrap b s =
    (case truthy (eb_runId b) of None \<Rightarrow> ReplyErr (js ''Missing runId'') 400
     | Some runId \<Rightarrow> (case getRunBootstrap s runId of
         Inr boot \<Rightarrow> ReplyBootstrap boot
       | Inl e \<Rightarrow> let (msg, status) = classifyProxyError (access_message e) in ReplyErr msg status))"

definition fail_owned :: "jsstring \<Rightarrow> jsstring \<Rightarrow> int option \<Rightarrow> jsstring \<Rightarrow> int \<Rightarrow> run_state \<Rightarrow> nat \<times> run_state" where
  "fail_owned runId serviceId leaseVersion err now =
    update_runs (holds_lease runId serviceId leaseVersion)
      (\<lambda>r. r\<lparr>r_status := Failed, r_error := Some err, r_completedAt := Some now\<rparr>)"

definition handleRunFail :: "int \<Rightarrow> executor_body \<Rightarrow> run_state \<Rightarrow> executor_reply \<times> run_state" where
  "handleRunFail now b s =
    (case (truthy (eb_runId b), readRunServiceId b) of
       (Some runId, Some serviceId) \<Rightarrow>
         (case eb_error b of
            None \<Rightarrow> (ReplyErr (js ''Missing error'') 400, s)
          | Some err \<Rightarrow>
              if js_trim err = [] then (ReplyErr (js ''Missing error'') 400, s)
              else let (n, s) = fail_owned runId serviceId (eb_leaseVersion b) err now s
                   in (if n = 0 then ReplyErr (js ''Lease lost'') 409 else ReplyUpdated, s))
     | _ \<Rightarrow> (ReplyErr (js ''Missing runId or serviceId'') 400, s))"

definition reset_leased :: "jsstring \<Rightarrow> jsstring \<Rightarrow> int option \<Rightarrow> run_state \<Rightarrow> nat \<times> run_state" where
  "reset_leased runId serviceId leaseVersion =
    update_runs (holds_lease runId serviceId leaseVersion)
      (\<lambda>r. r\<lparr>r_status := Queued, r_serviceId := None, r_heartbeat := None, r_completionKey := None, r_completedAt := None\<rparr>)"

definition handleRunReset :: "executor_body \<Rightarrow> run_state \<Rightarrow> executor_reply \<times> run_state" where
  "handleRunReset b s =
    (case (truthy (eb_runId b), readRunServiceId b) of
       (Some runId, Some serviceId) \<Rightarrow>
         let (n, s) = reset_leased runId serviceId (eb_leaseVersion b) s
         in (if n = 0 then ReplyErr (js ''Lease lost'') 409 else ReplySuccess, s)
     | _ \<Rightarrow> (ReplyErr (js ''Missing runId or serviceId'') 400, s))"

definition handleIsCancelled :: "executor_body \<Rightarrow> run_state \<Rightarrow> executor_reply" where
  "handleIsCancelled b s =
    (case truthy (eb_runId b) of None \<Rightarrow> ReplyErr (js ''Missing runId'') 400
     | Some runId \<Rightarrow> ReplyCancelled (map_option r_status (get_run s runId) = Some Cancelled))"

section \<open>Creation\<close>

text \<open>The steps of \<open>createThreadRun\<close> once its checks have passed; \<open>sendOk\<close> is whether the queue takes the
  message. \<open>Inr\<close> is a created run, \<open>Inl\<close> one that could not be queued.\<close>

definition creation_message :: "pending_run \<Rightarrow> int \<Rightarrow> run_message" where
  "creation_message p now = \<lparr>rm_runId = pr_runId p, rm_timestamp = now, rm_retryCount = None, rm_backpressure = None,
     rm_model = Some (pr_model p)\<rparr>"

definition enqueue_created ::
  "platform \<Rightarrow> queue_env \<Rightarrow> pending_run \<Rightarrow> run_state \<Rightarrow> (jsstring + run_row) res \<times> run_state" where
  "enqueue_created pf env p s =
    (let s = updateRunStatus (pr_runId p) Queued None s in
     if qe_sendOk env then
       let s = send_run (creation_message p (qe_clock env)) 0 s in
       (Inr (case get_run s (pr_runId p) of Some r \<Rightarrow> Inr r | None \<Rightarrow> Inl (js ''Failed to create run'')), s)
     else
       let err = js ''Failed to enqueue run for execution'' in
       (case fail_run pf env (failed_transition (pr_runId p) [Pending, Queued] None (qe_completedAt env) err
            (buildRunFailedPayload (pr_runId p) err False None)) s of
          Inl e \<Rightarrow> (Inl e, s)
        | Inr s \<Rightarrow> (Inr (Inl (js ''Failed to queue run'')), s)))"

definition create_and_enqueue ::
  "platform \<Rightarrow> queue_env \<Rightarrow> pending_run \<Rightarrow> run_state \<Rightarrow> (jsstring + run_row) res \<times> run_state" where
  "create_and_enqueue pf env p s =
    (case createPendingRun p s of Inl e \<Rightarrow> (Inl e, s) | Inr s \<Rightarrow> enqueue_created pf env p s)"

section \<open>Operations with side effects\<close>

definition STALE_PENDING_THRESHOLD_MS :: int where "STALE_PENDING_THRESHOLD_MS = 30 * 60 * 1000"

datatype op_action = Execute | Cached | InProgress

record idempotency_result =
  ir_action :: op_action
  ir_cachedOutput :: "jsstring option"
  ir_cachedError :: "jsstring option"
  ir_operationId :: "jsstring option"
  ir_outcomeUncertain :: bool

definition cached_result :: "jsstring option \<Rightarrow> jsstring option \<Rightarrow> bool \<Rightarrow> idempotency_result" where
  "cached_result output err uncertain = \<lparr>ir_action = Cached, ir_cachedOutput = output, ir_cachedError = err,
     ir_operationId = None, ir_outcomeUncertain = uncertain\<rparr>"

definition in_progress_result :: idempotency_result where
  "in_progress_result = \<lparr>ir_action = InProgress, ir_cachedOutput = None, ir_cachedError = None,
     ir_operationId = None, ir_outcomeUncertain = False\<rparr>"

definition keyConflictResult :: "jsstring \<Rightarrow> jsstring \<Rightarrow> idempotency_result" where
  "keyConflictResult expectedToolName actualToolName = cached_result (Some [])
    (Some (js ''The operation key for '' @ expectedToolName @ js '' was already used by '' @ actualToolName @
      js ''. Automatic execution is blocked because the checkpoint identity is inconsistent.'')) True"

definition same_operation :: "jsstring \<Rightarrow> jsstring \<Rightarrow> op_row \<Rightarrow> bool" where
  "same_operation runId operationKey p \<longleftrightarrow> op_runId p = runId \<and> op_key p = operationKey"

definition uncertain_error :: "jsstring \<Rightarrow> jsstring" where
  "uncertain_error toolName = js ''The previous '' @ toolName @
    js '' call lost its executor before an outcome was recorded. Automatic replay is blocked to avoid duplicating a side effect; verify the remote system before issuing a new operation.''"

text \<open>\<open>INSERT OR IGNORE\<close> under the unique index on run and operation key.\<close>

definition insert_operation :: "op_row \<Rightarrow> op_row list \<Rightarrow> nat \<times> op_row list" where
  "insert_operation p ops =
    (if op_id p \<in> op_id ` set ops \<or> (\<exists>q \<in> set ops. same_operation (op_runId p) (op_key p) q) then (0, ops)
     else (1, ops @ [p]))"

text \<open>The answer for a row that is already there.\<close>

definition race_check :: "jsstring \<Rightarrow> op_row option \<Rightarrow> idempotency_result" where
  "race_check toolName row =
    (case row of
       None \<Rightarrow> in_progress_result
     | Some p \<Rightarrow>
         if op_tool p \<noteq> toolName then keyConflictResult toolName (op_tool p)
         else (case op_status p of
           OpCompleted \<Rightarrow> cached_result (op_output p) (op_error p) False
         | OpUncertain \<Rightarrow> cached_result (Some []) (Some (case op_error p of Some e \<Rightarrow> e | None \<Rightarrow>
             js ''The previous '' @ toolName @ js '' call has an unknown outcome; automatic replay is blocked.'')) True
         | _ \<Rightarrow> in_progress_result))"

definition start_operation :: "jsstring \<Rightarrow> jsstring \<Rightarrow> jsstring \<Rightarrow> jsstring \<Rightarrow> int \<Rightarrow> op_row list \<Rightarrow> idempotency_result \<times> op_row list" where
  "start_operation runId toolName operationKey operationId now ops =
    (let (n, ops) = insert_operation \<lparr>op_id = operationId, op_runId = runId, op_key = operationKey, op_tool = toolName,
           op_status = OpPending, op_output = None, op_error = None, op_createdAt = now, op_completedAt = None\<rparr> ops
     in if n = 0 then (race_check toolName (sql_get (same_operation runId operationKey) ops), ops)
        else (\<lparr>ir_action = Execute, ir_cachedOutput = None, ir_cachedError = None, ir_operationId = Some operationId,
               ir_outcomeUncertain = False\<rparr>, ops))"

definition checkIdempotencyForOperationKey ::
  "jsstring \<Rightarrow> jsstring \<Rightarrow> jsstring \<Rightarrow> jsstring \<Rightarrow> int \<Rightarrow> op_row list \<Rightarrow> idempotency_result \<times> op_row list" where
  "checkIdempotencyForOperationKey runId toolName operationKey operationId now ops =
    (case sql_get (same_operation runId operationKey) ops of
       None \<Rightarrow> start_operation runId toolName operationKey operationId now ops
     | Some existing \<Rightarrow>
         if op_tool existing \<noteq> toolName then (keyConflictResult toolName (op_tool existing), ops)
         else (case op_status existing of
           OpCompleted \<Rightarrow> (cached_result (op_output existing) (op_error existing) False, ops)
         | OpUncertain \<Rightarrow> (cached_result (Some []) (Some (case op_error existing of Some e \<Rightarrow> e | None \<Rightarrow>
             js ''The previous '' @ toolName @ js '' call may have completed, but Takos could not confirm its outcome. Automatic replay is blocked to avoid duplicating a side effect. Verify the remote system and use a new explicit operation if needed.'')) True, ops)
         | OpFailed \<Rightarrow> start_operation runId toolName operationKey operationId now
             (filter (\<lambda>p. op_id p \<noteq> op_id existing) ops)
         | OpPending \<Rightarrow>
             if now - op_createdAt existing > STALE_PENDING_THRESHOLD_MS then
               (cached_result (Some []) (Some (uncertain_error toolName)) True,
                sql_update (\<lambda>p. op_id p = op_id existing)
                  (\<lambda>p. p\<lparr>op_status := OpUncertain, op_error := Some (uncertain_error toolName), op_completedAt := Some now\<rparr>) ops)
             else (in_progress_result, ops)))"

definition completeOperation :: "jsstring \<Rightarrow> jsstring \<Rightarrow> jsstring option \<Rightarrow> int \<Rightarrow> op_row list \<Rightarrow> op_row list" where
  "completeOperation operationId output err now ops =
    sql_update (\<lambda>p. op_id p = operationId \<and> op_status p = OpPending)
      (\<lambda>p. p\<lparr>op_status := (if truthy err \<noteq> None then OpFailed else OpCompleted), op_output := Some output, op_error := err,
            op_completedAt := Some now\<rparr>) ops"

definition markOperationUncertain :: "jsstring \<Rightarrow> jsstring \<Rightarrow> int \<Rightarrow> op_row list \<Rightarrow> op_row list" where
  "markOperationUncertain operationId err now ops =
    sql_update (\<lambda>p. op_id p = operationId \<and> op_status p = OpPending)
      (\<lambda>p. p\<lparr>op_status := OpUncertain, op_output := Some [], op_error := Some err, op_completedAt := Some now\<rparr>) ops"

definition cleanupStaleOperations :: "int \<Rightarrow> run_state \<Rightarrow> nat \<times> run_state" where
  "cleanupStaleOperations now s =
    (let old = (\<lambda>p. op_createdAt p < now - 24 * 60 * 60 * 1000 \<and>
           (\<exists>r \<in> set (rs_runs s). r_id r = op_runId p \<and> terminal r))
     in (sql_count old (rs_ops s), s\<lparr>rs_ops := filter (\<lambda>p. \<not> old p) (rs_ops s)\<rparr>))"

end
