(* ===== verification/RunEvents.thy ===== *)
theory RunEvents
  imports RunExecutor StepSystem
begin

text \<open>
  The life of runs as a system of steps: every statement or transaction the code issues is one event, so
  a sequence of events is any interleaving of queue consumers, cron, executors, cancellations and
  outbox dispatchers.
\<close>

section \<open>Events\<close>

datatype run_event =
    ECreate pending_run
  | EStaleRecovery jsstring int
  | EClaim jsstring jsstring int
  | EFence jsstring int
  | EFreeze jsstring jsstring int jsstring
  | EResetOwned jsstring jsstring "jsstring option"
  | ESend run_message nat
  | EDlq dlq_row
  | ECronReset jsstring int
  | ECronRevert jsstring
  | ECronUnclaimed jsstring int int
  | EHeartbeat jsstring jsstring "int option" int
  | EFail jsstring jsstring "int option" jsstring int
  | EReset jsstring jsstring "int option"
  | ETerminal terminal_input "jsstring option"
  | EComplete complete_input "stored_message list" int "jsstring option option"
  | EPutObject jsstring jsstring
  | EDeleteObject jsstring
  | EClaimJob index_options job_row send_answer
  | ERevertJob job_row send_answer jsstring
  | ESendIndex index_message
  | EClaimNotification index_options outbox_row deliver_answer
  | EFinishNotification outbox_row deliver_answer
  | ERevertNotification outbox_row deliver_answer jsstring int
  | ECheckOperation jsstring jsstring jsstring jsstring int
  | ECompleteOperation jsstring jsstring "jsstring option" int
  | EUncertainOperation jsstring jsstring int
  | ECleanupOperations int
  | EAccess "account_row list" "membership_row list"
  | EUpdateStatus jsstring run_status "jsstring option"

definition or_same :: "'a res \<Rightarrow> 'a \<Rightarrow> 'a" where
  "or_same m s = (case m of Inl _ \<Rightarrow> s | Inr t \<Rightarrow> t)"

fun run_apply :: "platform \<Rightarrow> run_event \<Rightarrow> run_state \<Rightarrow> run_state" where
  "run_apply pf (ECreate p) s = or_same (createPendingRun p s) s"
| "run_apply pf (EStaleRecovery runId threshold) s = snd (stale_recovery runId threshold s)"
| "run_apply pf (EClaim runId serviceId now) s = snd (claim_run runId serviceId now s)"
| "run_apply pf (EFence runId now) s = fencePendingOperationsForClaimedRun runId now s"
| "run_apply pf (EFreeze runId serviceId lease model) s = snd (freeze_model runId serviceId lease model s)"
| "run_apply pf (EResetOwned runId serviceId err) s = snd (reset_owned runId serviceId err s)"
| "run_apply pf (ESend m delay) s = send_run m delay s"
| "run_apply pf (EDlq d) s = s\<lparr>rs_dlq := rs_dlq s @ [d]\<rparr>"
| "run_apply pf (ECronReset runId threshold) s = snd (cron_reset runId threshold s)"
| "run_apply pf (ECronRevert runId) s = snd (cron_revert runId s)"
| "run_apply pf (ECronUnclaimed runId threshold now) s = snd (cron_unclaimed runId threshold now s)"
| "run_apply pf (EHeartbeat runId serviceId lease now) s = snd (heartbeat_run runId serviceId lease now s)"
| "run_apply pf (EFail runId serviceId lease err now) s = snd (fail_owned runId serviceId lease err now s)"
| "run_apply pf (EReset runId serviceId lease) s = snd (reset_leased runId serviceId lease s)"
| "run_apply pf (ETerminal i checkpoint) s =
     or_same (bind_res (execute i (transitionKey (pf_sha256 pf) (pf_localeCompare pf) i) checkpoint s) (\<lambda>(_, t). Inr t)) s"
| "run_apply pf (EComplete i stored completedAt checkpoint) s =
     or_same (bind_res (executeAtomicBatch i stored (completeRunKey (pf_sha256 pf) (pf_localeCompare pf) i) completedAt
       checkpoint s) (\<lambda>(_, t). Inr t)) s"
| "run_apply pf (EPutObject k v) s = s\<lparr>rs_objects := map_set k v (rs_objects s)\<rparr>"
| "run_apply pf (EDeleteObject k) s = s\<lparr>rs_objects := map_del k (rs_objects s)\<rparr>"
| "run_apply pf (EClaimJob opts read a) s = s\<lparr>rs_jobs := snd (claim_job opts read a (rs_jobs s))\<rparr>"
| "run_apply pf (ERevertJob read a err) s = s\<lparr>rs_jobs := revert_job read a err (rs_jobs s)\<rparr>"
| "run_apply pf (ESendIndex m) s = s\<lparr>rs_indexQueue := rs_indexQueue s @ [m]\<rparr>"
| "run_apply pf (EClaimNotification opts read a) s = s\<lparr>rs_outbox := snd (claim_notification opts read a (rs_outbox s))\<rparr>"
| "run_apply pf (EFinishNotification read a) s = s\<lparr>rs_outbox := snd (finish_notification read a (rs_outbox s))\<rparr>"
| "run_apply pf (ERevertNotification read a err now) s = s\<lparr>rs_outbox := revert_notification read a err now (rs_outbox s)\<rparr>"
| "run_apply pf (ECheckOperation runId tool key opId now) s =
     s\<lparr>rs_ops := snd (checkIdempotencyForOperationKey runId tool key opId now (rs_ops s))\<rparr>"
| "run_apply pf (ECompleteOperation opId output err now) s = s\<lparr>rs_ops := completeOperation opId output err now (rs_ops s)\<rparr>"
| "run_apply pf (EUncertainOperation opId err now) s = s\<lparr>rs_ops := markOperationUncertain opId err now (rs_ops s)\<rparr>"
| "run_apply pf (ECleanupOperations now) s = snd (cleanupStaleOperations now s)"
| "run_apply pf (EAccess accounts memberships) s = s\<lparr>rs_accounts := accounts, rs_memberships := memberships\<rparr>"
| "run_apply pf (EUpdateStatus runId st err) s = updateRunStatus runId st err s"

text \<open>The commits that may happen: a commit is the input of a terminal transition or of a completion.\<close>

datatype commit = ControlCommit terminal_input | CompletionCommit complete_input

fun commit_run :: "commit \<Rightarrow> jsstring" where
  "commit_run (ControlCommit i) = ti_runId i"
| "commit_run (CompletionCommit i) = ci_runId i"

fun commit_key :: "platform \<Rightarrow> commit \<Rightarrow> jsstring" where
  "commit_key pf (ControlCommit i) = transitionKey (pf_sha256 pf) (pf_localeCompare pf) i"
| "commit_key pf (CompletionCommit i) = completeRunKey (pf_sha256 pf) (pf_localeCompare pf) i"

text \<open>A SHA-256 digest prints as 64 characters, and the digest tells the commits of different runs in
  \<open>C\<close> apart.\<close>

definition digest_ok :: "platform \<Rightarrow> commit set \<Rightarrow> bool" where
  "digest_ok pf C \<longleftrightarrow> (\<forall>b. length (pf_sha256 pf b) = 64) \<and>
    (\<forall>c \<in> C. \<forall>d \<in> C. commit_key pf c = commit_key pf d \<longrightarrow> commit_run c = commit_run d)"

text \<open>The guarded events are all but the status update of the creation, whose statement has no condition
  on the row's status. It is a step of its own, for a run that is still pending as the creation left it;
  what happens when the run is not is a property of \<open>RunOutcome\<close>.\<close>

fun guarded :: "commit set \<Rightarrow> run_event \<Rightarrow> bool" where
  "guarded C (ETerminal i _) \<longleftrightarrow> ControlCommit i \<in> C \<and> terminal_input_typed i"
| "guarded C (EComplete i _ _ _) \<longleftrightarrow> CompletionCommit i \<in> C \<and> complete_input_typed i"
| "guarded C (EUpdateStatus _ _ _) \<longleftrightarrow> False"
| "guarded C _ \<longleftrightarrow> True"

inductive run_step :: "platform \<Rightarrow> commit set \<Rightarrow> run_event \<Rightarrow> run_state \<Rightarrow> run_state \<Rightarrow> bool"
  for pf :: platform and C :: "commit set" where
  step_guarded: "guarded C e \<Longrightarrow> run_step pf C e s (run_apply pf e s)"
| step_enqueue: "get_run s runId = Some r \<Longrightarrow> r_status r = Pending \<Longrightarrow>
    run_step pf C (EUpdateStatus runId Queued None) s (updateRunStatus runId Queued None s)"

inductive_cases run_stepE: "run_step pf C e s t"
inductive_simps run_step_iff: "run_step pf C e s t"

definition run_init :: "run_state \<Rightarrow> bool" where
  "run_init s \<longleftrightarrow> rs_runs s = [] \<and> rs_events s = [] \<and> rs_jobs s = [] \<and> rs_outbox s = []"

end
