(* ===== verification/RunLifecycle.thy ===== *)
theory RunLifecycle
  imports RunEvents
begin

text \<open>
  What holds in every state a system of runs can reach by the events of \<open>RunEvents\<close>: ending a run is
  final, and every committed run has its event and outbox rows.
\<close>

section \<open>The invariant\<close>

definition event_key_of :: "run_row \<Rightarrow> jsstring \<Rightarrow> jsstring" where
  "event_key_of r k =
    (if js_starts_with k (js ''control-terminal:'') then control_event_key (r_id r) k (r_status r)
     else terminalEventKey (r_id r) k (r_status r))"

definition notifies :: "run_row \<Rightarrow> bool" where
  "notifies r \<longleftrightarrow> (r_status r = Completed \<or> r_status r = Failed) \<and> r_requester r \<noteq> None"

definition outbox_tag :: "outbox_row \<Rightarrow> jsstring \<times> jsstring \<times> run_status" where
  "outbox_tag x = (ob_completionKey x, ob_runId x, ob_runStatus x)"

text \<open>What the rows beside the runs may be: each stems from a committed run.\<close>

definition rows_sound :: "run_row list \<Rightarrow> event_row list \<Rightarrow> jsstring list \<Rightarrow> (jsstring \<times> jsstring \<times> run_status) list \<Rightarrow> bool" where
  "rows_sound runs events jobs outbox \<longleftrightarrow>
    distinct (map ev_key events) \<and> distinct jobs \<and> distinct (map fst outbox) \<and>
    (\<forall>e \<in> set events. \<exists>r \<in> set runs. \<exists>k. r_completionKey r = Some k \<and> ev_key e = Some (event_key_of r k) \<and> ev_runId e = r_id r) \<and>
    (\<forall>j \<in> set jobs. \<exists>r \<in> set runs. \<exists>k. r_completionKey r = Some k \<and> j \<in> set (terminalIndexJobIds k)) \<and>
    (\<forall>x \<in> set outbox. \<exists>r \<in> set runs. \<exists>k. r_completionKey r = Some k \<and> notifies r \<and> x = (k, r_id r, r_status r))"

text \<open>What a committed run has: its event, its two jobs, and its notification if it has one.\<close>

definition rows_complete :: "run_row \<Rightarrow> event_row list \<Rightarrow> jsstring list \<Rightarrow> (jsstring \<times> jsstring \<times> run_status) list \<Rightarrow> bool" where
  "rows_complete r events jobs outbox \<longleftrightarrow>
    (\<forall>k. r_completionKey r = Some k \<longrightarrow>
      Some (event_key_of r k) \<in> ev_key ` set events \<and> set (terminalIndexJobIds k) \<subseteq> set jobs \<and>
      (notifies r \<longrightarrow> k \<in> fst ` set outbox))"

definition runs_ok :: "platform \<Rightarrow> commit set \<Rightarrow> run_row list \<Rightarrow> bool" where
  "runs_ok pf C runs \<longleftrightarrow> distinct (map r_id runs) \<and>
    (\<forall>r \<in> set runs. \<forall>k. r_completionKey r = Some k \<longrightarrow>
      terminal r \<and> (\<exists>c \<in> C. commit_key pf c = k \<and> commit_run c = r_id r))"

definition run_inv :: "platform \<Rightarrow> commit set \<Rightarrow> run_state \<Rightarrow> bool" where
  "run_inv pf C s \<longleftrightarrow> runs_ok pf C (rs_runs s) \<and>
    rows_sound (rs_runs s) (rs_events s) (map job_id (rs_jobs s)) (map outbox_tag (rs_outbox s)) \<and>
    (\<forall>r \<in> set (rs_runs s). rows_complete r (rs_events s) (map job_id (rs_jobs s)) (map outbox_tag (rs_outbox s)))"


section \<open>Event keys\<close>

lemma last_sep_eq:
  assumes "c \<notin> set u" and "c \<notin> set v" and "a @ c # u = b @ c # v"
  shows "a = b \<and> u = v"
proof -
  have "rev u @ c # rev a = rev v @ c # rev b" using arg_cong [OF assms(3), of rev] by simp
  then have "takeWhile (\<lambda>x. x \<noteq> c) (rev u @ c # rev a) = takeWhile (\<lambda>x. x \<noteq> c) (rev v @ c # rev b)" by simp
  then have "rev u = rev v" using assms(1,2) by (subst (asm) (1 2) takeWhile_append_stop) auto
  then show ?thesis using assms(3) by simp
qed

lemma status_text_plain: "58 \<notin> set (status_text st)"
  by (cases st) (simp_all add: js_def)

lemma status_text_inj: "status_text st = status_text st' \<longleftrightarrow> st = st'"
  by (cases st; cases st') (simp_all add: js_def)

lemma terminal_status_eq:
  assumes "a @ js '':terminal-status:'' @ status_text st = b @ js '':terminal-status:'' @ status_text st'"
  shows "a = b \<and> st = st'"
proof -
  have j: "js '':terminal-status:'' = js '':terminal-status'' @ [58]" by (simp add: js_def)
  have "(a @ js '':terminal-status'') @ 58 # status_text st = (b @ js '':terminal-status'') @ 58 # status_text st'"
    using assms by (simp add: j)
  from last_sep_eq [OF status_text_plain status_text_plain this] show ?thesis by (simp add: status_text_inj)
qed

definition key_ok :: "jsstring \<Rightarrow> bool" where
  "key_ok k \<longleftrightarrow> (\<exists>d. length d = 64 \<and> (k = js ''control-terminal:'' @ d \<or> k = js ''agent-complete:'' @ d))"

lemma commit_key_ok: "digest_ok pf C \<Longrightarrow> key_ok (commit_key pf c)"
  by (cases c) (auto simp: key_ok_def digest_ok_def transitionKey_def completeRunKey_def)

lemma completion_not_control: "\<not> js_starts_with (js ''agent-complete:'' @ d) (js ''control-terminal:'')"
  by (simp add: js_starts_with_iff js_def)

lemma control_completion_neq: "a @ js ''control-terminal:'' \<noteq> b @ js ''agent-complete:''"
proof
  assume "a @ js ''control-terminal:'' = b @ js ''agent-complete:''"
  then have "take 2 (rev (a @ js ''control-terminal:'')) = take 2 (rev (b @ js ''agent-complete:''))" by simp
  then show False by (simp add: js_def)
qed

lemma event_key_tail: "\<exists>a. event_key_of r k = (a @ k) @ js '':terminal-status:'' @ status_text (r_status r)"
  by (auto simp: event_key_of_def control_event_key_def terminalEventKey_def)

lemma key_suffix_eq:
  assumes "key_ok k" and "key_ok k'" and "a @ k = b @ k'"
  shows "k = k'"
proof -
  obtain d p where d: "length d = 64" "k = p @ d" "p = js ''control-terminal:'' \<or> p = js ''agent-complete:''"
    using assms(1) by (auto simp: key_ok_def)
  obtain d' p' where d': "length d' = 64" "k' = p' @ d'" "p' = js ''control-terminal:'' \<or> p' = js ''agent-complete:''"
    using assms(2) by (auto simp: key_ok_def)
  have "a @ p = b @ p' \<and> d = d'" using assms(3) d(1,2) d'(1,2) by (simp flip: append_assoc)
  then show ?thesis using d(2,3) d'(2,3) control_completion_neq [of a b] control_completion_neq [of b a] by metis
qed

lemma event_key_inj:
  assumes "key_ok k" and "key_ok k'" and "event_key_of r k = event_key_of r' k'"
  shows "k = k'"
proof -
  obtain a where a: "event_key_of r k = (a @ k) @ js '':terminal-status:'' @ status_text (r_status r)"
    using event_key_tail by blast
  obtain b where b: "event_key_of r' k' = (b @ k') @ js '':terminal-status:'' @ status_text (r_status r')"
    using event_key_tail by blast
  have "a @ k = b @ k'" using terminal_status_eq [of "a @ k" "r_status r" "b @ k'" "r_status r'"] assms(3) a b by simp
  then show ?thesis by (rule key_suffix_eq [OF assms(1,2)])
qed


section \<open>Steps that leave committed runs alone\<close>

lemma runs_ok_unique:
  assumes "runs_ok pf C runs" and "digest_ok pf C" and "r \<in> set runs" and "r' \<in> set runs"
    and "r_completionKey r = Some k" and "r_completionKey r' = Some k"
  shows "r = r'"
proof -
  obtain c d where "c \<in> C" "commit_key pf c = k" "commit_run c = r_id r" "d \<in> C" "commit_key pf d = k" "commit_run d = r_id r'"
    using assms unfolding runs_ok_def by metis
  then have "r_id r = r_id r'" using assms(2) by (metis digest_ok_def)
  then show ?thesis using assms(1,3,4) unfolding runs_ok_def by (metis distinct_map inj_onD)
qed

lemma rows_sound_committed:
  assumes "\<And>r. r_completionKey r \<noteq> None \<Longrightarrow> r \<in> set runs \<longleftrightarrow> r \<in> set runs'"
  shows "rows_sound runs events jobs outbox \<longleftrightarrow> rows_sound runs' events jobs outbox"
proof -
  have eq: "(\<exists>r \<in> set runs. \<exists>k. r_completionKey r = Some k \<and> Q r k) \<longleftrightarrow> (\<exists>r \<in> set runs'. \<exists>k. r_completionKey r = Some k \<and> Q r k)" for Q
    using assms by (metis option.distinct(1))
  show ?thesis unfolding rows_sound_def by (simp only: eq)
qed

lemma sql_update_active:
  assumes "runs_ok pf C runs"
    and "\<And>r. P r \<Longrightarrow> \<not> terminal r" and "\<And>r. P r \<Longrightarrow> r_id (f r) = r_id r"
    and "\<And>r. P r \<Longrightarrow> r_completionKey (f r) = None \<or> r_completionKey (f r) = r_completionKey r"
  shows "runs_ok pf C (sql_update P f runs) \<and>
    (\<forall>r. r_completionKey r \<noteq> None \<longrightarrow> (r \<in> set runs \<longleftrightarrow> r \<in> set (sql_update P f runs)))"
proof -
  have none: "r_completionKey r = None" if "r \<in> set runs" "P r" for r
    using assms(1,2) that unfolding runs_ok_def by (metis not_Some_eq)
  have fnone: "r_completionKey (f r) = None" if "r \<in> set runs" "P r" for r
    using none [OF that] assms(4) [OF that(2)] by auto
  have same: "\<forall>r. r_completionKey r \<noteq> None \<longrightarrow> (r \<in> set runs \<longleftrightarrow> r \<in> set (sql_update P f runs))"
    using none fnone by (force simp: set_sql_update image_iff)
  have "map r_id (sql_update P f runs) = map r_id runs" by (rule map_sql_update) (rule assms(3))
  moreover have "\<forall>r \<in> set (sql_update P f runs). \<forall>k. r_completionKey r = Some k \<longrightarrow>
      terminal r \<and> (\<exists>c \<in> C. commit_key pf c = k \<and> commit_run c = r_id r)"
    using assms(1) same unfolding runs_ok_def by (metis option.distinct(1))
  ultimately show ?thesis using assms(1) same unfolding runs_ok_def by metis
qed

lemma run_inv_runs:
  assumes "run_inv pf C s" and "runs_ok pf C runs"
    and "\<And>r. r_completionKey r \<noteq> None \<Longrightarrow> r \<in> set (rs_runs s) \<longleftrightarrow> r \<in> set runs"
  shows "run_inv pf C (s\<lparr>rs_runs := runs\<rparr>)"
proof -
  have "rows_complete r ev jobs ob" if "r_completionKey r = None" for r ev jobs ob using that by (simp add: rows_complete_def)
  then have "\<forall>r \<in> set runs. rows_complete r (rs_events s) (map job_id (rs_jobs s)) (map outbox_tag (rs_outbox s))"
    using assms(1,3) unfolding run_inv_def by metis
  then show ?thesis using assms rows_sound_committed [of "rs_runs s" runs] by (simp add: run_inv_def)
qed

lemma active_update_inv:
  assumes "run_inv pf C s"
    and "\<And>r. P r \<Longrightarrow> \<not> terminal r" and "\<And>r. P r \<Longrightarrow> r_id (f r) = r_id r"
    and "\<And>r. P r \<Longrightarrow> r_completionKey (f r) = None \<or> r_completionKey (f r) = r_completionKey r"
  shows "run_inv pf C (snd (update_runs P f s))"
proof -
  have ok: "runs_ok pf C (rs_runs s)" using assms(1) by (simp add: run_inv_def)
  note upd = sql_update_active [of pf C "rs_runs s" P f, OF ok assms(2-4)]
  show ?thesis unfolding update_runs_def snd_conv by (rule run_inv_runs [OF assms(1)]) (use upd in auto)
qed

lemma terminal_simps [simp]:
  "r_status r = Pending \<Longrightarrow> \<not> terminal r" "r_status r = Queued \<Longrightarrow> \<not> terminal r" "r_status r = Running \<Longrightarrow> \<not> terminal r"
  by (simp_all add: terminal_def RUN_TERMINAL_STATUSES_def)

lemma run_inv_other:
  assumes "run_inv pf C s" and "rs_runs t = rs_runs s" and "rs_events t = rs_events s"
    and "map job_id (rs_jobs t) = map job_id (rs_jobs s)" and "map outbox_tag (rs_outbox t) = map outbox_tag (rs_outbox s)"
  shows "run_inv pf C t"
  using assms by (simp add: run_inv_def)

lemma create_inv:
  assumes "run_inv pf C s" shows "run_inv pf C (or_same (createPendingRun p s) s)"
proof (cases "pr_runId p \<in> r_id ` set (rs_runs s)")
  case True
  then show ?thesis using assms by (simp add: createPendingRun_def insert_run_def pending_row_def or_same_def)
next
  case False
  have "run_inv pf C (s\<lparr>rs_runs := rs_runs s @ [pending_row p]\<rparr>)"
    by (rule run_inv_runs [OF assms]) (use assms False in \<open>auto simp: run_inv_def runs_ok_def pending_row_def\<close>)
  then show ?thesis using False by (simp add: createPendingRun_def insert_run_def pending_row_def or_same_def)
qed


section \<open>The rows a commit writes\<close>

lemma filter_id_unique:
  assumes "distinct (map r_id runs)" and "\<And>r. r \<in> set runs \<Longrightarrow> P r \<Longrightarrow> r_id r = i"
  shows "filter P runs = [] \<or> (\<exists>r. filter P runs = [r] \<and> r \<in> set runs \<and> P r)"
proof (cases "filter P runs")
  case (Cons r rest)
  have m: "set (filter P runs) = {x \<in> set runs. P x}" by (rule set_filter)
  have "rest = []"
  proof (rule ccontr)
    assume "rest \<noteq> []"
    then obtain r' rest' where "rest = r' # rest'" by (cases rest) auto
    then have eq: "filter P runs = r # r' # rest'" using Cons by simp
    have "distinct (map r_id (filter P runs))" using assms(1) by (rule distinct_map_filter)
    moreover have "{r, r'} \<subseteq> {x \<in> set runs. P x}" using m eq by auto
    ultimately show False using eq assms(2) [of r] assms(2) [of r'] by simp
  qed
  moreover have "r \<in> set runs" "P r" using m Cons by auto
  ultimately show ?thesis using Cons by blast
qed simp

lemma filter_unique_cases:
  assumes "distinct (map r_id runs)" and "\<And>r. r \<in> set runs \<Longrightarrow> P r \<Longrightarrow> r_id r = i"
  shows "(filter P runs = [] \<and> (\<forall>r \<in> set runs. \<not> P r)) \<or>
    (\<exists>r. filter P runs = [r] \<and> r \<in> set runs \<and> P r \<and> (\<forall>r' \<in> set runs. P r' \<longrightarrow> r' = r))"
proof -
  have m: "set (filter P runs) = {x \<in> set runs. P x}" by (rule set_filter)
  have one: "\<forall>r' \<in> set runs. P r' \<longrightarrow> r' = r" if "filter P runs = [r]" for r
  proof (intro ballI impI)
    fix r' assume "r' \<in> set runs" "P r'"
    then have "r' \<in> set (filter P runs)" by simp
    then show "r' = r" using that by simp
  qed
  have none: "\<forall>r \<in> set runs. \<not> P r" if "filter P runs = []" using that m by auto
  show ?thesis
  proof (cases "filter P runs = []")
    case True
    then show ?thesis using none by blast
  next
    case False
    then obtain r where r: "filter P runs = [r]" "r \<in> set runs" "P r" using filter_id_unique [of runs P i] assms by auto
    show ?thesis by (rule disjI2, rule exI [of _ r]) (use r one [OF r(1)] in blast)
  qed
qed

lemma map_sql_insert:
  "map key (sql_insert key r rows) = (if key r \<in> set (map key rows) then map key rows else map key rows @ [key r])"
  by (simp add: sql_insert_def)

lemma index_statements_one:
  assumes "filter P (rs_runs s) = [r]"
  shows "buildTerminalIndexOutboxStatements k t P s = s\<lparr>rs_jobs := rs_jobs (buildTerminalIndexOutboxStatements k t P s)\<rparr>"
    and "set (map job_id (rs_jobs (buildTerminalIndexOutboxStatements k t P s))) =
      set (map job_id (rs_jobs s)) \<union> set (terminalIndexJobIds k)"
    and "distinct (map job_id (rs_jobs s)) \<Longrightarrow> distinct (map job_id (rs_jobs (buildTerminalIndexOutboxStatements k t P s)))"
  using assms by (auto simp: buildTerminalIndexOutboxStatements_def terminal_jobs_def set_sql_insert index_job_def
      terminalIndexJobIds_def TERMINAL_INDEX_JOB_TYPES_def)

lemma index_statements_none:
  "filter P (rs_runs s) = [] \<Longrightarrow> buildTerminalIndexOutboxStatements k t P s = s"
  by (simp add: buildTerminalIndexOutboxStatements_def terminal_jobs_def)

lemma index_statements_fields [simp]:
  "rs_runs (buildTerminalIndexOutboxStatements k t P s) = rs_runs s"
  "rs_events (buildTerminalIndexOutboxStatements k t P s) = rs_events s"
  "rs_outbox (buildTerminalIndexOutboxStatements k t P s) = rs_outbox s"
  by (simp_all add: buildTerminalIndexOutboxStatements_def terminal_jobs_def)

lemma notification_fields [simp]:
  "rs_runs (buildRunNotificationOutboxStatements k st t P s) = rs_runs s"
  "rs_events (buildRunNotificationOutboxStatements k st t P s) = rs_events s"
  "rs_jobs (buildRunNotificationOutboxStatements k st t P s) = rs_jobs s"
  by (simp_all add: buildRunNotificationOutboxStatements_def)

lemma filter_conj_one: "filter P xs = [x] \<Longrightarrow> filter (\<lambda>y. P y \<and> Q y) xs = (if Q x then [x] else [])"
proof -
  assume "filter P xs = [x]"
  moreover have "filter (\<lambda>y. P y \<and> Q y) xs = filter Q (filter P xs)" by (simp only: filter_filter)
  ultimately show ?thesis by simp
qed

lemma outbox_tag_key: "map ob_completionKey rows = map fst (map outbox_tag rows)"
  by (simp add: outbox_tag_def)

lemma notification_one:
  assumes "filter P (rs_runs s) = [r]"
  shows "set (map outbox_tag (rs_outbox (buildRunNotificationOutboxStatements k st t P s))) =
      set (map outbox_tag (rs_outbox s)) \<union>
      (if r_requester r \<noteq> None \<and> k \<notin> fst ` set (map outbox_tag (rs_outbox s)) then {(k, r_id r, st)} else {})"
    and "distinct (map fst (map outbox_tag (rs_outbox s))) \<Longrightarrow>
      distinct (map fst (map outbox_tag (rs_outbox (buildRunNotificationOutboxStatements k st t P s))))"
proof -
  have b: "rs_outbox (buildRunNotificationOutboxStatements k st t P s) =
      (if r_requester r \<noteq> None then sql_insert ob_completionKey (outbox_entry k st t r) (rs_outbox s) else rs_outbox s)"
    by (simp add: buildRunNotificationOutboxStatements_def filter_conj_one [OF assms])
  show "set (map outbox_tag (rs_outbox (buildRunNotificationOutboxStatements k st t P s))) =
      set (map outbox_tag (rs_outbox s)) \<union>
      (if r_requester r \<noteq> None \<and> k \<notin> fst ` set (map outbox_tag (rs_outbox s)) then {(k, r_id r, st)} else {})"
    unfolding b by (auto simp: set_sql_insert outbox_entry_def outbox_tag_def image_image)
  show "distinct (map fst (map outbox_tag (rs_outbox s))) \<Longrightarrow>
      distinct (map fst (map outbox_tag (rs_outbox (buildRunNotificationOutboxStatements k st t P s))))"
    unfolding b outbox_tag_key [symmetric] by simp
qed

lemma notification_none:
  "filter P (rs_runs s) = [] \<Longrightarrow> buildRunNotificationOutboxStatements k st t P s = s"
  by (simp add: buildRunNotificationOutboxStatements_def filter_empty_conv)

lemma event_statement_one:
  assumes "filter P (rs_runs s) = [r]"
  shows "\<exists>evs. snd (insert_terminal_event key ty d t P s) = s\<lparr>rs_events := evs\<rparr> \<and>
    (\<forall>e \<in> set evs. e \<in> set (rs_events s) \<or> (ev_key e = Some key \<and> ev_runId e = r_id r)) \<and>
    ev_key ` set evs = insert (Some key) (ev_key ` set (rs_events s)) \<and>
    (distinct (map ev_key (rs_events s)) \<longrightarrow> distinct (map ev_key evs))"
proof (cases "Some key \<in> ev_key ` set (rs_events s)")
  case True
  then show ?thesis by (intro exI [of _ "rs_events s"]) (auto simp: insert_terminal_event_def assms)
next
  case False
  let ?e = "\<lparr>ev_id = next_event_id (rs_events s), ev_runId = r_id r, ev_type = ty, ev_key = Some key,
    ev_data = stringify d, ev_createdAt = t\<rparr>"
  show ?thesis using False
    by (intro exI [of _ "rs_events s @ [?e]"]) (auto simp: insert_terminal_event_def assms Let_def)
qed

lemma event_statement_none: "filter P (rs_runs s) = [] \<Longrightarrow> insert_terminal_event key ty d t P s = (None, s)"
  by (simp add: insert_terminal_event_def)


section \<open>Commits\<close>

lemma rows_sound_same:
  assumes "rows_sound runs events jobs outbox"
    and "\<And>r. r_id (g r) = r_id r" "\<And>r. r_status (g r) = r_status r"
    and "\<And>r. r_completionKey (g r) = r_completionKey r" "\<And>r. r_requester (g r) = r_requester r"
  shows "rows_sound (map g runs) events jobs outbox"
proof -
  have "event_key_of (g r) k = event_key_of r k" "notifies (g r) = notifies r" for r k
    by (simp_all add: event_key_of_def notifies_def assms)
  then show ?thesis using assms(1) unfolding rows_sound_def by (auto simp: assms)
qed

lemma rows_complete_same:
  assumes "r_id r' = r_id r" "r_status r' = r_status r" "r_completionKey r' = r_completionKey r" "r_requester r' = r_requester r"
  shows "rows_complete r' events jobs outbox = rows_complete r events jobs outbox"
proof -
  have "event_key_of r' k = event_key_of r k" for k by (simp add: event_key_of_def assms)
  then show ?thesis by (simp add: rows_complete_def notifies_def assms)
qed

lemma rows_complete_mono:
  assumes "rows_complete r events jobs outbox" and "ev_key ` set events \<subseteq> ev_key ` set events'"
    and "set jobs \<subseteq> set jobs'" and "set outbox \<subseteq> set outbox'"
  shows "rows_complete r events' jobs' outbox'"
  using assms unfolding rows_complete_def by (meson image_mono subset_eq)

lemma batch_sound:
  assumes "rows_sound runs events jobs outbox" and "r \<in> set runs" and "r_completionKey r = Some k"
    and "\<forall>e \<in> set events'. e \<in> set events \<or> (ev_key e = Some (event_key_of r k) \<and> ev_runId e = r_id r)"
    and "distinct (map ev_key events')" and "set jobs' = set jobs \<union> set (terminalIndexJobIds k)" and "distinct jobs'"
    and "set outbox' \<subseteq> set outbox \<union> (if notifies r then {(k, r_id r, r_status r)} else {})" and "distinct (map fst outbox')"
  shows "rows_sound runs events' jobs' outbox'"
proof -
  note s = assms(1)[unfolded rows_sound_def]
  have "\<exists>r \<in> set runs. \<exists>k. r_completionKey r = Some k \<and> ev_key e = Some (event_key_of r k) \<and> ev_runId e = r_id r"
    if "e \<in> set events'" for e using that s assms(2-4) by metis
  moreover have "\<exists>r \<in> set runs. \<exists>k. r_completionKey r = Some k \<and> j \<in> set (terminalIndexJobIds k)" if "j \<in> set jobs'" for j
    using that s assms(2,3,6) by (metis UnE)
  moreover have "\<exists>r \<in> set runs. \<exists>k. r_completionKey r = Some k \<and> notifies r \<and> x = (k, r_id r, r_status r)"
    if "x \<in> set outbox'" for x
  proof (cases "x \<in> set outbox")
    case False
    then have "notifies r" "x = (k, r_id r, r_status r)" using that assms(8) by (auto split: if_splits)
    then show ?thesis using assms(2,3) by blast
  qed (use s in blast)
  ultimately show ?thesis using assms(5,7,9) unfolding rows_sound_def by blast
qed

text \<open>The statements after the update, in the order of both kinds of commit: jobs, notification, event.\<close>

definition outbox_statements ::
  "jsstring \<Rightarrow> run_status \<Rightarrow> int \<Rightarrow> bool \<Rightarrow> jsstring \<Rightarrow> jsstring \<Rightarrow> json \<Rightarrow> (run_row \<Rightarrow> bool) \<Rightarrow> run_state \<Rightarrow> nat option \<times> run_state" where
  "outbox_statements k st t notify key ty d P s =
    (let s = buildTerminalIndexOutboxStatements k t P s;
         s = (if notify then buildRunNotificationOutboxStatements k st t P s else s)
     in insert_terminal_event key ty d t P s)"

lemma outbox_statements_inv:
  assumes ok: "runs_ok pf C (rs_runs s)"
    and sound: "rows_sound (rs_runs s) (rs_events s) (map job_id (rs_jobs s)) (map outbox_tag (rs_outbox s))"
    and rest: "\<And>r. r \<in> set (rs_runs s) \<Longrightarrow> \<not> P r \<Longrightarrow>
      rows_complete r (rs_events s) (map job_id (rs_jobs s)) (map outbox_tag (rs_outbox s))"
    and P: "\<And>r. P r \<Longrightarrow> r_id r = i \<and> r_completionKey r = Some k \<and> r_status r = st \<and> event_key_of r k = key"
    and notify: "notify \<longleftrightarrow> st = Completed \<or> st = Failed"
  shows "run_inv pf C (snd (outbox_statements k st t notify key ty d P s))"
proof -
  have dist: "distinct (map r_id (rs_runs s))" using ok by (simp add: runs_ok_def)
  note cases = filter_unique_cases [OF dist, of P i]
  consider "filter P (rs_runs s) = []" "\<forall>r \<in> set (rs_runs s). \<not> P r"
    | r where "filter P (rs_runs s) = [r]" "r \<in> set (rs_runs s)" "P r" "\<forall>r' \<in> set (rs_runs s). P r' \<longrightarrow> r' = r"
    using cases P by blast
  then show ?thesis
  proof cases
    case 1
    then have "outbox_statements k st t notify key ty d P s = (None, s)"
      by (simp add: outbox_statements_def index_statements_none notification_none event_statement_none)
    then show ?thesis using ok sound rest 1(2) by (simp add: run_inv_def)
  next
    case (2 r)
    define u where "u = buildTerminalIndexOutboxStatements k t P s"
    define v where "v = (if notify then buildRunNotificationOutboxStatements k st t P u else u)"
    have u: "rs_runs u = rs_runs s" "rs_events u = rs_events s" "rs_outbox u = rs_outbox s"
      "set (map job_id (rs_jobs u)) = set (map job_id (rs_jobs s)) \<union> set (terminalIndexJobIds k)" "distinct (map job_id (rs_jobs u))"
      using index_statements_one(2,3) [OF 2(1)] sound by (simp_all add: u_def rows_sound_def)
    have fu: "filter P (rs_runs u) = [r]" using 2(1) u(1) by simp
    have v: "rs_runs v = rs_runs s" "rs_events v = rs_events s" "rs_jobs v = rs_jobs u" using u by (simp_all add: v_def)
    have du: "distinct (map fst (map outbox_tag (rs_outbox u)))" using sound u(3) by (simp add: rows_sound_def)
    note Pr = P [OF 2(3)]
    have ob: "set (map outbox_tag (rs_outbox v)) \<subseteq> set (map outbox_tag (rs_outbox s)) \<union> (if notifies r then {(k, r_id r, r_status r)} else {})"
      "distinct (map fst (map outbox_tag (rs_outbox v)))" "set (map outbox_tag (rs_outbox s)) \<subseteq> set (map outbox_tag (rs_outbox v))"
      "notifies r \<Longrightarrow> k \<in> fst ` set (map outbox_tag (rs_outbox v))"
      using notification_one [OF fu, of k st t] du notify Pr u(3) by (auto simp: v_def notifies_def)
    have fv: "filter P (rs_runs v) = [r]" using 2(1) v(1) by simp
    obtain evs where evs: "snd (insert_terminal_event key ty d t P v) = v\<lparr>rs_events := evs\<rparr>"
      "\<forall>e \<in> set evs. e \<in> set (rs_events v) \<or> (ev_key e = Some key \<and> ev_runId e = r_id r)"
      "ev_key ` set evs = insert (Some key) (ev_key ` set (rs_events v))"
      "distinct (map ev_key (rs_events v)) \<longrightarrow> distinct (map ev_key evs)"
      using event_statement_one [OF fv, of key ty d t] by blast
    have de: "distinct (map ev_key evs)" using evs(4) sound v(2) by (simp add: rows_sound_def)
    have eq: "outbox_statements k st t notify key ty d P s = insert_terminal_event key ty d t P v"
      unfolding outbox_statements_def u_def v_def Let_def ..
    have res: "snd (outbox_statements k st t notify key ty d P s) = v\<lparr>rs_events := evs\<rparr>"
      unfolding eq by (rule evs(1))
    have "rows_sound (rs_runs s) evs (map job_id (rs_jobs u)) (map outbox_tag (rs_outbox v))"
      by (rule batch_sound [OF sound 2(2)]) (use Pr evs(2) v(2) de u(4,5) ob in auto)
    moreover have "rows_complete r evs (map job_id (rs_jobs u)) (map outbox_tag (rs_outbox v))"
      using Pr evs(3) u(4) ob(4) unfolding rows_complete_def by simp
    moreover have "rows_complete r' evs (map job_id (rs_jobs u)) (map outbox_tag (rs_outbox v))"
      if "r' \<in> set (rs_runs s)" "r' \<noteq> r" for r'
    proof (rule rows_complete_mono)
      show "rows_complete r' (rs_events s) (map job_id (rs_jobs s)) (map outbox_tag (rs_outbox s))"
        using rest [OF that(1)] 2(4) that by blast
    qed (use evs(3) v(2) u(4) ob(3) in auto)
    ultimately show ?thesis unfolding res run_inv_def by (simp add: ok v(1,3)) blast
  qed
qed


lemma commit_update:
  assumes inv: "run_inv pf C s" and active: "\<forall>r. Q r \<longrightarrow> \<not> terminal r"
    and g: "\<forall>r. Q r \<longrightarrow> r_id (g r) = r_id r \<and> terminal (g r) \<and> r_completionKey (g r) = Some k"
    and c: "c \<in> C" "commit_key pf c = k" "\<forall>r. Q r \<longrightarrow> r_id r = commit_run c"
  shows "runs_ok pf C (sql_update Q g (rs_runs s))"
    and "rows_sound (sql_update Q g (rs_runs s)) (rs_events s) (map job_id (rs_jobs s)) (map outbox_tag (rs_outbox s))"
    and "\<And>r. r \<in> set (sql_update Q g (rs_runs s)) \<Longrightarrow> (\<exists>r0 \<in> set (rs_runs s). Q r0 \<and> r = g r0) \<or>
      rows_complete r (rs_events s) (map job_id (rs_jobs s)) (map outbox_tag (rs_outbox s))"
proof -
  note i = inv[unfolded run_inv_def]
  have m: "map r_id (sql_update Q g (rs_runs s)) = map r_id (rs_runs s)" by (rule map_sql_update) (use g in blast)
  have split: "(\<exists>r0 \<in> set (rs_runs s). Q r0 \<and> r = g r0) \<or> (r \<in> set (rs_runs s) \<and> \<not> Q r)"
    if "r \<in> set (sql_update Q g (rs_runs s))" for r
    using that by (auto simp: set_sql_update split: if_splits)
  have each: "terminal r \<and> (\<exists>c \<in> C. commit_key pf c = k' \<and> commit_run c = r_id r)"
    if r: "r \<in> set (sql_update Q g (rs_runs s))" and k': "r_completionKey r = Some k'" for r k'
    using split [OF r]
  proof
    assume "\<exists>r0 \<in> set (rs_runs s). Q r0 \<and> r = g r0"
    then obtain r0 where r0: "Q r0" "r = g r0" by blast
    have "r_id (g r0) = r_id r0" "terminal (g r0)" "r_completionKey (g r0) = Some k" "r_id r0 = commit_run c"
      using g c(3) r0(1) by blast+
    then show ?thesis using c(1,2) r0(2) k' by auto
  next
    assume "r \<in> set (rs_runs s) \<and> \<not> Q r"
    then show ?thesis using i k' unfolding runs_ok_def by blast
  qed
  show "runs_ok pf C (sql_update Q g (rs_runs s))" using i m each unfolding runs_ok_def by simp
  have keep: "r \<in> set (sql_update Q g (rs_runs s))" if "r \<in> set (rs_runs s)" "r_completionKey r = Some k'" for r k'
  proof -
    have "\<not> Q r" using i that active unfolding runs_ok_def by blast
    then show ?thesis using that(1) by (force simp: set_sql_update)
  qed
  have "rows_sound (rs_runs s) (rs_events s) (map job_id (rs_jobs s)) (map outbox_tag (rs_outbox s))" using i by blast
  then show "rows_sound (sql_update Q g (rs_runs s)) (rs_events s) (map job_id (rs_jobs s)) (map outbox_tag (rs_outbox s))"
    using keep unfolding rows_sound_def by meson
  show "\<And>r. r \<in> set (sql_update Q g (rs_runs s)) \<Longrightarrow> (\<exists>r0 \<in> set (rs_runs s). Q r0 \<and> r = g r0) \<or>
      rows_complete r (rs_events s) (map job_id (rs_jobs s)) (map outbox_tag (rs_outbox s))"
    using split i by blast
qed

lemma execute_unfold:
  assumes "ti_expectedStatuses i \<noteq> []"
  shows "execute i k checkpoint s =
    (let (n, s1) = update_runs (\<lambda>r. activeRunPredicate i r \<and> r_checkpoint r = checkpoint) (terminal_set i k) s;
         (eventId, t) = outbox_statements k (ti_status i) (ti_completedAt i) (ti_status i = Completed \<or> ti_status i = Failed)
           (control_event_key (ti_runId i) k (ti_status i)) (ti_eventType i) (ti_terminalEvent i) (committed_predicate i k) s1
     in Inr ((n, eventId), t))"
  using assms by (simp add: execute_def outbox_statements_def Let_def case_prod_beta)

lemma control_key_prefix: "js_starts_with (transitionKey sha cmp i) (js ''control-terminal:'')"
  by (simp add: transitionKey_def)

lemma terminal_typed_active:
  assumes "terminal_input_typed i" and "activeRunPredicate i r" shows "\<not> terminal r"
  using assms by (auto simp: terminal_input_typed_def activeRunPredicate_def active_statuses_def terminal_def
      RUN_TERMINAL_STATUSES_def)

lemma execute_inv:
  assumes inv: "run_inv pf C s" and C: "ControlCommit i \<in> C" and ty: "terminal_input_typed i"
    and ex: "execute i (transitionKey (pf_sha256 pf) (pf_localeCompare pf) i) checkpoint s = Inr (x, t)"
  shows "run_inv pf C t"
proof -
  let ?k = "transitionKey (pf_sha256 pf) (pf_localeCompare pf) i"
  let ?Q = "\<lambda>r. activeRunPredicate i r \<and> r_checkpoint r = checkpoint"
  let ?P = "committed_predicate i ?k"
  define s1 where "s1 = snd (update_runs ?Q (terminal_set i ?k) s)"
  have ne: "ti_expectedStatuses i \<noteq> []" using ex by (auto simp: execute_def)
  have g: "\<forall>r. ?Q r \<longrightarrow> r_id (terminal_set i ?k r) = r_id r \<and> terminal (terminal_set i ?k r) \<and> r_completionKey (terminal_set i ?k r) = Some ?k"
    using ty by (simp add: terminal_set_def terminal_input_typed_def terminal_def)
  have id: "\<forall>r. ?Q r \<longrightarrow> r_id r = commit_run (ControlCommit i)" by (simp add: activeRunPredicate_def)
  have act: "\<forall>r. ?Q r \<longrightarrow> \<not> terminal r" using terminal_typed_active [OF ty] by blast
  have key: "commit_key pf (ControlCommit i) = ?k" by simp
  note upd = commit_update [OF inv act g C key id]
  have runs: "rs_runs s1 = sql_update ?Q (terminal_set i ?k) (rs_runs s)" "rs_events s1 = rs_events s" "rs_jobs s1 = rs_jobs s" "rs_outbox s1 = rs_outbox s"
    by (simp_all add: s1_def update_runs_def)
  have hit: "?P (terminal_set i ?k r)" if "?Q r" for r
    using that by (simp add: committed_predicate_def terminal_set_def activeRunPredicate_def)
  have P: "r_id r = ti_runId i \<and> r_completionKey r = Some ?k \<and> r_status r = ti_status i \<and>
      event_key_of r ?k = control_event_key (ti_runId i) ?k (ti_status i)" if "?P r" for r
    using that control_key_prefix by (simp add: committed_predicate_def event_key_of_def)
  have "t = snd (outbox_statements ?k (ti_status i) (ti_completedAt i) (ti_status i = Completed \<or> ti_status i = Failed)
      (control_event_key (ti_runId i) ?k (ti_status i)) (ti_eventType i) (ti_terminalEvent i) ?P s1)"
    using ex by (simp add: execute_unfold [OF ne] s1_def case_prod_beta Let_def)
  also have "run_inv pf C \<dots>"
  proof (rule outbox_statements_inv)
    show "runs_ok pf C (rs_runs s1)" unfolding runs by (rule upd(1))
    show "rows_sound (rs_runs s1) (rs_events s1) (map job_id (rs_jobs s1)) (map outbox_tag (rs_outbox s1))"
      unfolding runs by (rule upd(2))
    show "rows_complete r (rs_events s1) (map job_id (rs_jobs s1)) (map outbox_tag (rs_outbox s1))"
      if "r \<in> set (rs_runs s1)" "\<not> ?P r" for r
      using upd(3) [OF that(1)[unfolded runs]] that(2) hit unfolding runs by blast
  qed (use P in auto)
  finally show ?thesis .
qed


lemma insert_chunk_fields [simp]:
  "rs_runs (insert_chunk i k ps s) = rs_runs s" "rs_events (insert_chunk i k ps s) = rs_events s"
  "rs_jobs (insert_chunk i k ps s) = rs_jobs s" "rs_outbox (insert_chunk i k ps s) = rs_outbox s"
  "rs_threads (insert_chunk i k ps s) = rs_threads s" "rs_objects (insert_chunk i k ps s) = rs_objects s"
  by (simp_all add: insert_chunk_def)

lemma insert_chunks_fields [simp]:
  "rs_runs (insert_chunks i k ps s) = rs_runs s" "rs_events (insert_chunks i k ps s) = rs_events s"
  "rs_jobs (insert_chunks i k ps s) = rs_jobs s" "rs_outbox (insert_chunks i k ps s) = rs_outbox s"
  "rs_threads (insert_chunks i k ps s) = rs_threads s" "rs_objects (insert_chunks i k ps s) = rs_objects s"
  by (induction i k ps s rule: insert_chunks.induct; subst insert_chunks.simps; simp)+

lemma reserve_fields [simp]:
  "rs_events (reserve_sequence i k n s) = rs_events s" "rs_jobs (reserve_sequence i k n s) = rs_jobs s"
  "rs_outbox (reserve_sequence i k n s) = rs_outbox s" "rs_messages (reserve_sequence i k n s) = rs_messages s"
  by (simp_all add: reserve_sequence_def Let_def)

text \<open>A renumbering touches nothing but the first message number.\<close>

lemma reserve_runs:
  obtains f where "rs_runs (reserve_sequence i k n s) = map (\<lambda>r. r\<lparr>r_seqStart := f r\<rparr>) (rs_runs s)"
proof
  let ?start = "\<lambda>r. map_option (\<lambda>t. th_next t - int n) (sql_get (\<lambda>t. th_id t = r_threadId r)
    (rs_threads (reserve_sequence i k n s)))"
  show "rs_runs (reserve_sequence i k n s) = map (\<lambda>r. r\<lparr>r_seqStart :=
      if completionPredicate i k r \<and> r_seqStart r = None then ?start r else r_seqStart r\<rparr>) (rs_runs s)"
    by (simp add: reserve_sequence_def sql_update_def Let_def)
qed

lemma completion_key_form: "\<not> js_starts_with (completeRunKey sha cmp i) (js ''control-terminal:'')"
  unfolding completeRunKey_def by (rule completion_not_control)

lemma complete_statements_unfold:
  "complete_statements i stored k completedAt checkpoint s =
    (let (n, s1) = update_runs (complete_where i checkpoint) (complete_set i k completedAt) s;
         s2 = insert_chunks i k (List.enumerate 0 stored) (if stored \<noteq> [] then reserve_sequence i k (length stored) s1 else s1);
         (eventId, t) = outbox_statements k (ci_status i) completedAt True
           (terminalEventKey (ci_runId i) k (ci_status i)) (complete_event_type (ci_status i)) (ci_terminalEvent i)
           (completionPredicate i k) s2
     in ((n, eventId), t))"
  by (simp add: complete_statements_def outbox_statements_def Let_def case_prod_beta)

lemma runs_ok_same:
  assumes "runs_ok pf C runs" and "\<And>r. r_id (g r) = r_id r" "\<And>r. r_status (g r) = r_status r"
    "\<And>r. r_completionKey (g r) = r_completionKey r"
  shows "runs_ok pf C (map g runs)"
proof -
  have m: "map r_id (map g runs) = map r_id runs" by (simp add: assms)
  show ?thesis unfolding runs_ok_def m using assms unfolding runs_ok_def terminal_def by auto
qed

lemma complete_statements_inv:
  assumes inv: "run_inv pf C s" and C: "CompletionCommit i \<in> C" and ty: "complete_input_typed i"
  shows "run_inv pf C (snd (complete_statements i stored (completeRunKey (pf_sha256 pf) (pf_localeCompare pf) i)
    completedAt checkpoint s))"
proof -
  let ?k = "completeRunKey (pf_sha256 pf) (pf_localeCompare pf) i"
  let ?Q = "complete_where i checkpoint"
  let ?P = "completionPredicate i ?k"
  define s1 where "s1 = snd (update_runs ?Q (complete_set i ?k completedAt) s)"
  define s2 where "s2 = insert_chunks i ?k (List.enumerate 0 stored)
    (if stored \<noteq> [] then reserve_sequence i ?k (length stored) s1 else s1)"
  have g: "\<forall>r. ?Q r \<longrightarrow> r_id (complete_set i ?k completedAt r) = r_id r \<and> terminal (complete_set i ?k completedAt r) \<and>
      r_completionKey (complete_set i ?k completedAt r) = Some ?k"
    using ty by (auto simp: complete_set_def complete_input_typed_def terminal_def RUN_TERMINAL_STATUSES_def)
  have id: "\<forall>r. ?Q r \<longrightarrow> r_id r = commit_run (CompletionCommit i)" by (simp add: complete_where_def)
  have act: "\<forall>r. ?Q r \<longrightarrow> \<not> terminal r" by (simp add: complete_where_def)
  have key: "commit_key pf (CompletionCommit i) = ?k" by simp
  note upd = commit_update [OF inv act g C key id]
  have s1: "rs_runs s1 = sql_update ?Q (complete_set i ?k completedAt) (rs_runs s)" "rs_events s1 = rs_events s"
    "rs_jobs s1 = rs_jobs s" "rs_outbox s1 = rs_outbox s"
    by (simp_all add: s1_def update_runs_def)
  obtain f where f: "rs_runs s2 = map (\<lambda>r. r\<lparr>r_seqStart := f r\<rparr>) (rs_runs s1)"
  proof (cases "stored = []")
    case True
    then have "rs_runs s2 = map (\<lambda>r. r\<lparr>r_seqStart := r_seqStart r\<rparr>) (rs_runs s1)" by (simp add: s2_def)
    then show thesis by (rule that)
  next
    case False
    then show thesis using that reserve_runs [of i ?k "length stored" s1] by (auto simp: s2_def)
  qed
  have s2: "rs_events s2 = rs_events s" "rs_jobs s2 = rs_jobs s" "rs_outbox s2 = rs_outbox s"
    using s1 by (simp_all add: s2_def)
  have hit: "?P (complete_set i ?k completedAt r)" if "?Q r" for r
    using that by (simp add: completionPredicate_def complete_set_def complete_where_def)
  have P: "r_id r = ci_runId i \<and> r_completionKey r = Some ?k \<and> r_status r = ci_status i \<and>
      event_key_of r ?k = terminalEventKey (ci_runId i) ?k (ci_status i)" if "?P r" for r
    using that completion_key_form by (simp add: completionPredicate_def event_key_of_def)
  have "snd (complete_statements i stored ?k completedAt checkpoint s) =
      snd (outbox_statements ?k (ci_status i) completedAt True (terminalEventKey (ci_runId i) ?k (ci_status i))
        (complete_event_type (ci_status i)) (ci_terminalEvent i) ?P s2)"
    by (simp add: complete_statements_unfold s1_def s2_def case_prod_beta Let_def)
  also have "run_inv pf C \<dots>"
  proof (rule outbox_statements_inv)
    show "runs_ok pf C (rs_runs s2)" unfolding f s1 by (rule runs_ok_same) (use upd(1) in auto)
    show "rows_sound (rs_runs s2) (rs_events s2) (map job_id (rs_jobs s2)) (map outbox_tag (rs_outbox s2))"
      unfolding f s1 s2 by (rule rows_sound_same) (use upd(2) in auto)
    show "rows_complete r (rs_events s2) (map job_id (rs_jobs s2)) (map outbox_tag (rs_outbox s2))"
      if r: "r \<in> set (rs_runs s2)" "\<not> ?P r" for r
    proof -
      obtain r1 where r1: "r1 \<in> set (rs_runs s1)" "r = r1\<lparr>r_seqStart := f r1\<rparr>" using r(1) f by auto
      have "\<not> ?P r1" using r(2) r1(2) by (simp add: completionPredicate_def)
      then have "rows_complete r1 (rs_events s) (map job_id (rs_jobs s)) (map outbox_tag (rs_outbox s))"
        using upd(3) [OF r1(1)[unfolded s1]] hit by blast
      then show ?thesis unfolding s2 using rows_complete_same [of r r1] r1(2) by simp
    qed
  qed (use P ty in \<open>auto simp: complete_input_typed_def\<close>)
  finally show ?thesis .
qed

lemma execute_batch_inv:
  assumes "run_inv pf C s" "CompletionCommit i \<in> C" "complete_input_typed i"
    and "executeAtomicBatch i stored (completeRunKey (pf_sha256 pf) (pf_localeCompare pf) i) completedAt checkpoint s = Inr (x, t)"
  shows "run_inv pf C t"
  using complete_statements_inv [OF assms(1-3), of stored completedAt checkpoint] assms(4)
  by (auto simp: executeAtomicBatch_def case_prod_beta Let_def split: if_splits)


section \<open>Every step keeps the invariant\<close>

lemmas active_updates = stale_recovery_def claim_run_def freeze_model_def reset_owned_def cron_reset_def cron_revert_def
  cron_unclaimed_def heartbeat_run_def fail_owned_def reset_leased_def

lemma stale_unclaimed_active: "stale_unclaimed t r \<Longrightarrow> \<not> terminal r"
  by (auto simp: stale_unclaimed_def)

lemma stale_running_active: "stale_running t r \<Longrightarrow> \<not> terminal r"
  by (simp add: stale_running_def)

lemma holds_lease_active: "holds_lease i v l r \<Longrightarrow> \<not> terminal r"
  by (simp add: holds_lease_def)

lemma claim_job_ids [simp]: "map job_id (snd (claim_job opts read a jobs)) = map job_id jobs"
  by (simp add: claim_job_def map_sql_update)

lemma revert_job_ids [simp]: "map job_id (revert_job read a err jobs) = map job_id jobs"
  by (simp add: revert_job_def map_sql_update)

lemma outbox_tags [simp]:
  "map outbox_tag (snd (claim_notification opts read a rows)) = map outbox_tag rows"
  "map outbox_tag (snd (finish_notification read b rows)) = map outbox_tag rows"
  "map outbox_tag (revert_notification read b err now rows) = map outbox_tag rows"
  by (simp_all add: claim_notification_def finish_notification_def revert_notification_def outbox_tag_def map_sql_update)

lemma terminal_event_inv:
  assumes "run_inv pf C s" "ControlCommit i \<in> C" "terminal_input_typed i"
  shows "run_inv pf C (run_apply pf (ETerminal i checkpoint) s)"
proof (cases "execute i (transitionKey (pf_sha256 pf) (pf_localeCompare pf) i) checkpoint s")
  case (Inl e)
  then show ?thesis using assms(1) by (simp add: or_same_def)
next
  case (Inr p)
  then show ?thesis using execute_inv [OF assms] by (cases p) (simp add: or_same_def)
qed

lemma complete_event_inv:
  assumes "run_inv pf C s" "CompletionCommit i \<in> C" "complete_input_typed i"
  shows "run_inv pf C (run_apply pf (EComplete i stored completedAt checkpoint) s)"
proof (cases "executeAtomicBatch i stored (completeRunKey (pf_sha256 pf) (pf_localeCompare pf) i) completedAt checkpoint s")
  case (Inl e)
  then show ?thesis using assms(1) by (simp add: or_same_def)
next
  case (Inr p)
  then show ?thesis using execute_batch_inv [OF assms] by (cases p) (simp add: or_same_def)
qed

lemma apply_inv:
  assumes inv: "run_inv pf C s" and "guarded C e"
  shows "run_inv pf C (run_apply pf e s)"
proof (cases e)
  case (ECreate p)
  then show ?thesis using create_inv [OF inv] by simp
next
  case (ETerminal i checkpoint)
  then show ?thesis using terminal_event_inv [OF inv] assms(2) by simp
next
  case (EComplete i stored completedAt checkpoint)
  then show ?thesis using complete_event_inv [OF inv] assms(2) by simp
next
  case (EUpdateStatus i st err)
  then show ?thesis using assms(2) by simp
next
  case (EStaleRecovery i t)
  show ?thesis unfolding EStaleRecovery run_apply.simps active_updates by (rule active_update_inv [OF inv]) auto
next
  case (EClaim i v t)
  show ?thesis unfolding EClaim run_apply.simps active_updates by (rule active_update_inv [OF inv]) auto
next
  case (EFreeze i v l m)
  show ?thesis unfolding EFreeze run_apply.simps active_updates by (rule active_update_inv [OF inv]) auto
next
  case (EResetOwned i v err)
  show ?thesis unfolding EResetOwned run_apply.simps active_updates by (rule active_update_inv [OF inv]) auto
next
  case (ECronReset i t)
  show ?thesis unfolding ECronReset run_apply.simps active_updates
    by (rule active_update_inv [OF inv]) (auto dest: stale_running_active)
next
  case (ECronRevert i)
  show ?thesis unfolding ECronRevert run_apply.simps active_updates by (rule active_update_inv [OF inv]) auto
next
  case (ECronUnclaimed i t now)
  show ?thesis unfolding ECronUnclaimed run_apply.simps active_updates
    by (rule active_update_inv [OF inv]) (auto dest: stale_unclaimed_active)
next
  case (EHeartbeat i v l now)
  show ?thesis unfolding EHeartbeat run_apply.simps active_updates
    by (rule active_update_inv [OF inv]) (auto dest: holds_lease_active)
next
  case (EFail i v l err now)
  show ?thesis unfolding EFail run_apply.simps active_updates
    by (rule active_update_inv [OF inv]) (auto dest: holds_lease_active)
next
  case (EReset i v l)
  show ?thesis unfolding EReset run_apply.simps active_updates
    by (rule active_update_inv [OF inv]) (auto dest: holds_lease_active)
qed (rule run_inv_other [OF inv], auto simp: fencePendingOperationsForClaimedRun_def send_run_def cleanupStaleOperations_def)+

section \<open>Ends are final\<close>

text \<open>How a run ended, as its row tells.\<close>

definition outcome :: "jsstring \<Rightarrow> run_state \<Rightarrow>
    (run_status \<times> jsstring option \<times> jsstring option \<times> jsstring option \<times> jsstring) option" where
  "outcome i s =
    (case get_run s i of None \<Rightarrow> None
     | Some r \<Rightarrow> if terminal r then Some (r_status r, r_completionKey r, r_output r, r_error r, r_usage r) else None)"

lemma get_run_other: "rs_runs t = rs_runs s \<Longrightarrow> get_run t i = get_run s i"
  by (simp add: get_run_def)

lemma get_run_update:
  assumes "\<And>r. r_id (f r) = r_id r"
  shows "get_run (snd (update_runs P f s)) i = map_option (\<lambda>r. if P r then f r else r) (get_run s i)"
  unfolding get_run_def update_runs_def by (simp add: sql_get_update [of r_id f, OF assms])

lemma outcome_other: "rs_runs t = rs_runs s \<Longrightarrow> outcome i t = outcome i s"
  by (simp add: outcome_def get_run_def)

lemma outcome_Some: "outcome i s = Some v \<Longrightarrow> \<exists>r. get_run s i = Some r \<and> terminal r"
  by (cases "get_run s i") (auto simp: outcome_def split: if_splits)

lemma outcome_same: "get_run t i = get_run s i \<Longrightarrow> outcome i t = outcome i s"
  by (simp add: outcome_def)

lemma outcome_active_update:
  assumes "\<And>r. P r \<Longrightarrow> \<not> terminal r" and id: "\<And>r. r_id (f r) = r_id r" and "outcome i s = Some v"
  shows "outcome i (snd (update_runs P f s)) = Some v"
proof -
  obtain r where r: "get_run s i = Some r" "terminal r" using outcome_Some [OF assms(3)] by blast
  then have "\<not> P r" using assms(1) by blast
  then have "get_run (snd (update_runs P f s)) i = get_run s i"
    using get_run_update [of f P s i, OF id] r(1) by simp
  then show ?thesis using assms(3) outcome_same by metis
qed

lemma find_append_Some: "find P xs = Some r \<Longrightarrow> find P (xs @ ys) = Some r"
  by (induction xs) auto

lemma outcome_create:
  assumes "outcome i s = Some v" shows "outcome i (or_same (createPendingRun p s) s) = Some v"
proof -
  obtain r where r: "get_run s i = Some r" using outcome_Some [OF assms] by blast
  have "get_run (s\<lparr>rs_runs := rs_runs s @ [x]\<rparr>) i = get_run s i" for x
    using find_append_Some [of _ "rs_runs s"] r by (simp add: get_run_def sql_get_def)
  then have "get_run (or_same (createPendingRun p s) s) i = get_run s i"
    by (simp add: createPendingRun_def insert_run_def or_same_def)
  then show ?thesis using assms outcome_same by metis
qed


lemma insert_event_runs [simp]: "rs_runs (snd (insert_terminal_event key ty d t P s)) = rs_runs s"
  by (simp add: insert_terminal_event_def case_prod_beta Let_def)

lemma outbox_statements_runs [simp]: "rs_runs (snd (outbox_statements k st t n key ty d P s)) = rs_runs s"
  by (simp add: outbox_statements_def Let_def)

lemma outcome_runs: "rs_runs t = rs_runs s \<Longrightarrow> outcome i s = Some v \<Longrightarrow> outcome i t = Some v"
  using outcome_other by metis

lemma outcome_execute:
  assumes "outcome j s = Some v" and ty: "terminal_input_typed i" and ex: "execute i k checkpoint s = Inr (x, t)"
  shows "outcome j t = Some v"
proof -
  define s1 where "s1 = snd (update_runs (\<lambda>r. activeRunPredicate i r \<and> r_checkpoint r = checkpoint) (terminal_set i k) s)"
  have ne: "ti_expectedStatuses i \<noteq> []" using ex by (auto simp: execute_def)
  have "rs_runs t = rs_runs s1"
    using ex unfolding execute_unfold [OF ne] by (auto simp: s1_def case_prod_beta Let_def)
  moreover have "outcome j s1 = Some v" unfolding s1_def
    by (rule outcome_active_update [OF _ _ assms(1)]) (use terminal_typed_active [OF ty] in \<open>auto simp: terminal_set_def\<close>)
  ultimately show ?thesis by (rule outcome_runs)
qed

lemma outcome_map_start:
  assumes "rs_runs t = map (\<lambda>r. r\<lparr>r_seqStart := f r\<rparr>) (rs_runs s)" and "outcome j s = Some v"
  shows "outcome j t = Some v"
proof -
  have u: "rs_runs t = sql_update (\<lambda>_. True) (\<lambda>r. r\<lparr>r_seqStart := f r\<rparr>) (rs_runs s)" using assms(1) by (simp add: sql_update_def)
  have "get_run t j = map_option (\<lambda>r. r\<lparr>r_seqStart := f r\<rparr>) (get_run s j)"
    unfolding get_run_def u by (subst sql_get_update) simp_all
  then show ?thesis using assms(2) outcome_Some [OF assms(2)] by (auto simp: outcome_def terminal_def)
qed

lemma complete_statements_runs:
  obtains f where "rs_runs (snd (complete_statements i stored k completedAt checkpoint s)) =
    map (\<lambda>r. r\<lparr>r_seqStart := f r\<rparr>) (rs_runs (snd (update_runs (complete_where i checkpoint) (complete_set i k completedAt) s)))"
proof (cases "stored = []")
  case True
  then have "rs_runs (snd (complete_statements i stored k completedAt checkpoint s)) =
    map (\<lambda>r. r\<lparr>r_seqStart := r_seqStart r\<rparr>) (rs_runs (snd (update_runs (complete_where i checkpoint) (complete_set i k completedAt) s)))"
    by (simp add: complete_statements_unfold case_prod_beta Let_def)
  then show thesis by (rule that)
next
  case False
  obtain f where "rs_runs (reserve_sequence i k (length stored) (snd (update_runs (complete_where i checkpoint) (complete_set i k completedAt) s))) =
    map (\<lambda>r. r\<lparr>r_seqStart := f r\<rparr>) (rs_runs (snd (update_runs (complete_where i checkpoint) (complete_set i k completedAt) s)))"
    by (rule reserve_runs)
  moreover have "rs_runs (snd (complete_statements i stored k completedAt checkpoint s)) =
    rs_runs (reserve_sequence i k (length stored) (snd (update_runs (complete_where i checkpoint) (complete_set i k completedAt) s)))"
    using False by (simp add: complete_statements_unfold case_prod_beta Let_def)
  ultimately show thesis using that [of f] by simp
qed

lemma outcome_complete:
  assumes "outcome j s = Some v" and "executeAtomicBatch i stored k completedAt checkpoint s = Inr (x, t)"
  shows "outcome j t = Some v"
proof -
  have t: "t = snd (complete_statements i stored k completedAt checkpoint s)"
    using assms(2) by (auto simp: executeAtomicBatch_def case_prod_beta Let_def split: if_splits)
  have "outcome j (snd (update_runs (complete_where i checkpoint) (complete_set i k completedAt) s)) = Some v"
    by (rule outcome_active_update [OF _ _ assms(1)]) (auto simp: complete_where_def complete_set_def)
  moreover obtain f where "rs_runs t =
      map (\<lambda>r. r\<lparr>r_seqStart := f r\<rparr>) (rs_runs (snd (update_runs (complete_where i checkpoint) (complete_set i k completedAt) s)))"
    unfolding t by (rule complete_statements_runs)
  ultimately show ?thesis using outcome_map_start [of t _ "snd (update_runs (complete_where i checkpoint) (complete_set i k completedAt) s)" j v]
    by blast
qed

lemma outcome_apply:
  assumes "guarded C e" and "outcome j s = Some v"
  shows "outcome j (run_apply pf e s) = Some v"
proof (cases e)
  case (ECreate p)
  then show ?thesis using outcome_create [OF assms(2)] by simp
next
  case (ETerminal i checkpoint)
  have "outcome j (or_same (bind_res m (\<lambda>(_, t). Inr t)) s) = Some v"
    if "\<And>x t. m = Inr (x, t) \<Longrightarrow> outcome j t = Some v" for m :: "((nat \<times> nat option) \<times> run_state) res"
    using that assms(2) by (cases m) (auto simp: or_same_def)
  then show ?thesis using ETerminal outcome_execute [OF assms(2), of i _ checkpoint] assms(1) by simp
next
  case (EComplete i stored completedAt checkpoint)
  have "outcome j (or_same (bind_res m (\<lambda>(_, t). Inr t)) s) = Some v"
    if "\<And>x t. m = Inr (x, t) \<Longrightarrow> outcome j t = Some v" for m :: "((nat \<times> nat option) \<times> run_state) res"
    using that assms(2) by (cases m) (auto simp: or_same_def)
  then show ?thesis using EComplete outcome_complete [OF assms(2), of i stored _ completedAt checkpoint] by simp
next
  case (EUpdateStatus i st err)
  then show ?thesis using assms(1) by simp
next
  case (EStaleRecovery i t)
  show ?thesis unfolding EStaleRecovery run_apply.simps active_updates by (rule outcome_active_update [OF _ _ assms(2)]) auto
next
  case (EClaim i v t)
  show ?thesis unfolding EClaim run_apply.simps active_updates by (rule outcome_active_update [OF _ _ assms(2)]) auto
next
  case (EFreeze i v l m)
  show ?thesis unfolding EFreeze run_apply.simps active_updates by (rule outcome_active_update [OF _ _ assms(2)]) auto
next
  case (EResetOwned i v err)
  show ?thesis unfolding EResetOwned run_apply.simps active_updates by (rule outcome_active_update [OF _ _ assms(2)]) auto
next
  case (ECronReset i t)
  show ?thesis unfolding ECronReset run_apply.simps active_updates
    by (rule outcome_active_update [OF _ _ assms(2)]) (auto dest: stale_running_active)
next
  case (ECronRevert i)
  show ?thesis unfolding ECronRevert run_apply.simps active_updates by (rule outcome_active_update [OF _ _ assms(2)]) auto
next
  case (ECronUnclaimed i t now)
  show ?thesis unfolding ECronUnclaimed run_apply.simps active_updates
    by (rule outcome_active_update [OF _ _ assms(2)]) (auto dest: stale_unclaimed_active)
next
  case (EHeartbeat i v l now)
  show ?thesis unfolding EHeartbeat run_apply.simps active_updates
    by (rule outcome_active_update [OF _ _ assms(2)]) (auto dest: holds_lease_active)
next
  case (EFail i v l err now)
  show ?thesis unfolding EFail run_apply.simps active_updates
    by (rule outcome_active_update [OF _ _ assms(2)]) (auto dest: holds_lease_active)
next
  case (EReset i v l)
  show ?thesis unfolding EReset run_apply.simps active_updates
    by (rule outcome_active_update [OF _ _ assms(2)]) (auto dest: holds_lease_active)
qed (rule outcome_runs [OF _ assms(2)], simp add: fencePendingOperationsForClaimedRun_def send_run_def cleanupStaleOperations_def)+

lemma enqueue_pending:
  assumes "run_inv pf C s" and "get_run s i = Some r" and "r_status r = Pending"
  shows "updateRunStatus i st err s =
    snd (update_runs (\<lambda>q. r_id q = i \<and> r_status q = Pending) (\<lambda>q. q\<lparr>r_status := st, r_error := err\<rparr>) s)"
proof -
  have d: "distinct (map r_id (rs_runs s))" using assms(1) by (simp add: run_inv_def runs_ok_def)
  have "r_status q = Pending" if "q \<in> set (rs_runs s)" "r_id q = i" for q
    using get_run_unique [OF d that(1)] that(2) assms(2,3) by simp
  then show ?thesis by (simp add: updateRunStatus_def update_runs_def sql_update_def cong: map_cong)
qed

lemma enqueue_inv:
  assumes "run_inv pf C s" and "get_run s i = Some r" and "r_status r = Pending"
  shows "run_inv pf C (updateRunStatus i Queued None s)"
  unfolding enqueue_pending [OF assms] by (rule active_update_inv [OF assms(1)]) auto

lemma outcome_enqueue:
  assumes "run_inv pf C s" and "get_run s i = Some r" and "r_status r = Pending" and "outcome j s = Some v"
  shows "outcome j (updateRunStatus i Queued None s) = Some v"
  unfolding enqueue_pending [OF assms(1-3)] by (rule outcome_active_update [OF _ _ assms(4)]) auto

interpretation finished: absorbing_system run_init "run_step pf C" "run_inv pf C" "outcome j" for pf C j
proof
  show "run_init s \<Longrightarrow> run_inv pf C s" for s
    by (simp add: run_init_def run_inv_def runs_ok_def rows_sound_def)
  show "run_inv pf C s \<Longrightarrow> run_step pf C e s t \<Longrightarrow> run_inv pf C t" for s e t
    by (auto elim!: run_stepE intro: apply_inv enqueue_inv)
  show "run_inv pf C s \<Longrightarrow> run_step pf C e s t \<Longrightarrow> outcome j s = Some v \<Longrightarrow> outcome j t = Some v" for s e t v
    by (auto elim!: run_stepE intro: outcome_apply outcome_enqueue)
qed


end
