(* ===== verification/RunOutcome.thy ===== *)
theory RunOutcome
  imports RunLifecycle
begin

text \<open>
  Properties of the life of runs: a run ends once, with exactly its event and outbox rows; its end is
  final for all guarded steps; an executor that lost its lease changes nothing any more; and what goes
  wrong where the code leaves this discipline.
\<close>

section \<open>Once and for all\<close>

lemma filter_length_one:
  assumes "distinct (map f xs)" and "x \<in> set xs" "P x" and "\<And>y. y \<in> set xs \<Longrightarrow> P y \<Longrightarrow> f y = c"
  shows "length (filter P xs) = 1"
  using assms
proof (induction xs)
  case (Cons y ys)
  have none: "\<forall>z \<in> set ys. \<not> P z" if "P y"
  proof (intro ballI notI)
    fix z assume z: "z \<in> set ys" "P z"
    have "f z = f y" using Cons.prems(4) [of z] Cons.prems(4) [of y] z that by simp
    then show False using Cons.prems(1) z(1) by (metis distinct.simps(2) image_eqI list.map(2) list.set_map)
  qed
  show ?case
  proof (cases "P y")
    case True
    then have "filter P ys = []" using none by (simp add: filter_empty_conv)
    then show ?thesis using True by simp
  next
    case False
    then show ?thesis using Cons by auto
  qed
qed simp

lemma inv_event_iff:
  assumes inv: "run_inv pf C s" and d: "digest_ok pf C" and r: "r \<in> set (rs_runs s)" and e: "e \<in> set (rs_events s)"
  shows "ev_runId e = r_id r \<longleftrightarrow> (\<exists>k. r_completionKey r = Some k \<and> ev_key e = Some (event_key_of r k))"
proof -
  have ok: "runs_ok pf C (rs_runs s)" using inv by (simp add: run_inv_def)
  obtain r' k' where r': "r' \<in> set (rs_runs s)" "r_completionKey r' = Some k'" "ev_key e = Some (event_key_of r' k')" "ev_runId e = r_id r'"
    using inv e unfolding run_inv_def rows_sound_def by blast
  show ?thesis
  proof
    assume "ev_runId e = r_id r"
    then have "r' = r" using r'(1,4) r ok unfolding runs_ok_def by (metis distinct_map inj_onD)
    then show "\<exists>k. r_completionKey r = Some k \<and> ev_key e = Some (event_key_of r k)" using r' by blast
  next
    assume "\<exists>k. r_completionKey r = Some k \<and> ev_key e = Some (event_key_of r k)"
    then obtain k where k: "r_completionKey r = Some k" "event_key_of r k = event_key_of r' k'" using r'(3) by auto
    have "key_ok k" "key_ok k'" using ok r r'(1,2) k(1) commit_key_ok [OF d] unfolding runs_ok_def by metis+
    then have "k = k'" using event_key_inj k(2) by blast
    then have "r = r'" using runs_ok_unique [OF ok d r r'(1)] k(1) r'(2) by simp
    then show "ev_runId e = r_id r" using r'(4) by simp
  qed
qed

lemma event_count:
  assumes inv: "run_inv pf C s" and d: "digest_ok pf C" and r: "r \<in> set (rs_runs s)"
  shows "length (filter (\<lambda>e. ev_runId e = r_id r) (rs_events s)) = (if r_completionKey r = None then 0 else 1)"
proof (cases "r_completionKey r")
  case None
  then show ?thesis using inv_event_iff [OF inv d r] by (simp add: filter_empty_conv)
next
  case (Some k)
  have dist: "distinct (map ev_key (rs_events s))" and c: "rows_complete r (rs_events s) (map job_id (rs_jobs s)) (map outbox_tag (rs_outbox s))"
    using inv r unfolding run_inv_def rows_sound_def by blast+
  then obtain e where e: "e \<in> set (rs_events s)" "ev_key e = Some (event_key_of r k)" using Some unfolding rows_complete_def by force
  have "length (filter (\<lambda>e. ev_runId e = r_id r) (rs_events s)) = 1"
    by (rule filter_length_one [OF dist e(1)]) (use inv_event_iff [OF inv d r] e Some in auto)
  then show ?thesis using Some by simp
qed

lemma job_count:
  assumes inv: "run_inv pf C s" and r: "r \<in> set (rs_runs s)" "r_completionKey r = Some k" and t: "t \<in> set TERMINAL_INDEX_JOB_TYPES"
  shows "length (filter (\<lambda>j. job_id j = terminalIndexJobId k t) (rs_jobs s)) = 1"
proof -
  have dist: "distinct (map job_id (rs_jobs s))" and c: "rows_complete r (rs_events s) (map job_id (rs_jobs s)) (map outbox_tag (rs_outbox s))"
    using inv r unfolding run_inv_def rows_sound_def by blast+
  have "terminalIndexJobId k t \<in> set (map job_id (rs_jobs s))"
    using c r(2) t unfolding rows_complete_def terminalIndexJobIds_def by auto
  then obtain j where "j \<in> set (rs_jobs s)" "job_id j = terminalIndexJobId k t" by auto
  then show ?thesis using filter_length_one [OF dist, of j "\<lambda>j. job_id j = terminalIndexJobId k t"] by simp
qed

lemma notification_count:
  assumes inv: "run_inv pf C s" and d: "digest_ok pf C" and r: "r \<in> set (rs_runs s)"
  shows "length (filter (\<lambda>x. ob_runId x = r_id r) (rs_outbox s)) = (if r_completionKey r \<noteq> None \<and> notifies r then 1 else 0)"
proof -
  have ok: "runs_ok pf C (rs_runs s)" and dist: "distinct (map ob_completionKey (rs_outbox s))"
    and c: "rows_complete r (rs_events s) (map job_id (rs_jobs s)) (map outbox_tag (rs_outbox s))"
    using inv r unfolding run_inv_def rows_sound_def outbox_tag_key by blast+
  have of: "r_completionKey r = Some (ob_completionKey x) \<and> notifies r" if x: "x \<in> set (rs_outbox s)" "ob_runId x = r_id r" for x
  proof -
    have "outbox_tag x \<in> set (map outbox_tag (rs_outbox s))" using x(1) by simp
    then obtain r' k where r': "r' \<in> set (rs_runs s)" "r_completionKey r' = Some k" "notifies r'" "outbox_tag x = (k, r_id r', r_status r')"
      using inv unfolding run_inv_def rows_sound_def by blast
    then have "r' = r" using x(2) r ok unfolding runs_ok_def outbox_tag_def by (metis distinct_map inj_onD prod.inject)
    then show ?thesis using r' by (simp add: outbox_tag_def)
  qed
  show ?thesis
  proof (cases "r_completionKey r \<noteq> None \<and> notifies r")
    case True
    then obtain k where k: "r_completionKey r = Some k" by blast
    then have "k \<in> fst ` set (map outbox_tag (rs_outbox s))" using c True unfolding rows_complete_def by blast
    then obtain x where x: "x \<in> set (rs_outbox s)" "ob_completionKey x = k" by (auto simp: outbox_tag_def)
    have "outbox_tag x \<in> set (map outbox_tag (rs_outbox s))" using x(1) by simp
    then obtain r' k' where r': "r' \<in> set (rs_runs s)" "r_completionKey r' = Some k'" "outbox_tag x = (k', r_id r', r_status r')"
      using inv unfolding run_inv_def rows_sound_def by blast
    then have "r' = r" using runs_ok_unique [OF ok d r'(1) r, of k] k x(2) by (simp add: outbox_tag_def)
    then have "ob_runId x = r_id r" using r'(3) by (simp add: outbox_tag_def)
    have "length (filter (\<lambda>x. ob_runId x = r_id r) (rs_outbox s)) = 1"
      by (rule filter_length_one [where c = k, OF dist x(1)]) (use of \<open>ob_runId x = r_id r\<close> k in auto)
    then show ?thesis using True by simp
  next
    case False
    then have "filter (\<lambda>x. ob_runId x = r_id r) (rs_outbox s) = []" using of unfolding filter_empty_conv by blast
    then show ?thesis using False by simp
  qed
qed

section \<open>Leases\<close>

lemma lease_update:
  assumes id: "\<And>r. r_id (f r) = r_id r" and up: "\<And>r. r_lease r \<le> r_lease (f r)" and "get_run s i = Some r"
  shows "\<exists>r'. get_run (snd (update_runs P f s)) i = Some r' \<and> r_lease r \<le> r_lease r'"
  using get_run_update [of f P s i, OF id] assms(3) up by (cases "P r") auto

definition lease_le :: "jsstring \<Rightarrow> run_state \<Rightarrow> run_state \<Rightarrow> bool" where
  "lease_le i s t \<longleftrightarrow> (\<forall>r. get_run s i = Some r \<longrightarrow> (\<exists>r'. get_run t i = Some r' \<and> r_lease r \<le> r_lease r'))"

lemma lease_le_same: "get_run t i = get_run s i \<Longrightarrow> lease_le i s t"
  by (simp add: lease_le_def)

lemma lease_le_trans: "lease_le i s t \<Longrightarrow> lease_le i t u \<Longrightarrow> lease_le i s u"
  unfolding lease_le_def by (meson order_trans)

lemma lease_le_update:
  "(\<And>r. r_id (f r) = r_id r) \<Longrightarrow> (\<And>r. r_lease r \<le> r_lease (f r)) \<Longrightarrow> lease_le i s (snd (update_runs P f s))"
  unfolding lease_le_def using lease_update by blast


lemmas lease_update_rule = lease_le_update [where i = i and s = s for i s]

lemma lease_le_runs: "rs_runs t = rs_runs s \<Longrightarrow> lease_le i s t"
  by (rule lease_le_same) (simp add: get_run_def)

lemma lease_le_map_start:
  assumes "rs_runs t = map (\<lambda>r. r\<lparr>r_seqStart := f r\<rparr>) (rs_runs s)"
  shows "lease_le i s t"
proof -
  have u: "rs_runs t = sql_update (\<lambda>_. True) (\<lambda>r. r\<lparr>r_seqStart := f r\<rparr>) (rs_runs s)" using assms by (simp add: sql_update_def)
  have "get_run t i = map_option (\<lambda>r. r\<lparr>r_seqStart := f r\<rparr>) (get_run s i)"
    unfolding get_run_def u by (subst sql_get_update) simp_all
  then show ?thesis by (simp add: lease_le_def)
qed

lemma lease_le_execute:
  assumes "execute c k checkpoint s = Inr (x, t)"
  shows "lease_le i s t"
proof -
  define s1 where "s1 = snd (update_runs (\<lambda>r. activeRunPredicate c r \<and> r_checkpoint r = checkpoint) (terminal_set c k) s)"
  have ne: "ti_expectedStatuses c \<noteq> []" using assms by (auto simp: execute_def)
  have "rs_runs t = rs_runs s1" using assms unfolding execute_unfold [OF ne] by (auto simp: s1_def case_prod_beta Let_def)
  moreover have "lease_le i s s1" unfolding s1_def by (rule lease_le_update) (auto simp: terminal_set_def)
  ultimately show ?thesis using lease_le_trans lease_le_runs by blast
qed

lemma lease_le_complete:
  assumes "executeAtomicBatch c stored k completedAt checkpoint s = Inr (x, t)"
  shows "lease_le i s t"
proof -
  define s1 where "s1 = snd (update_runs (complete_where c checkpoint) (complete_set c k completedAt) s)"
  have t: "t = snd (complete_statements c stored k completedAt checkpoint s)"
    using assms by (auto simp: executeAtomicBatch_def case_prod_beta Let_def split: if_splits)
  obtain f where "rs_runs t = map (\<lambda>r. r\<lparr>r_seqStart := f r\<rparr>) (rs_runs s1)"
    unfolding t s1_def by (rule complete_statements_runs)
  then have "lease_le i s1 t" by (rule lease_le_map_start)
  moreover have "lease_le i s s1" unfolding s1_def by (rule lease_le_update) (auto simp: complete_set_def)
  ultimately show ?thesis using lease_le_trans by blast
qed

lemma lease_le_create: "lease_le i s (or_same (createPendingRun p s) s)"
proof -
  have "get_run s i = Some r \<Longrightarrow> get_run (s\<lparr>rs_runs := rs_runs s @ [x]\<rparr>) i = Some r" for r x
    using find_append_Some [of _ "rs_runs s"] by (simp add: get_run_def sql_get_def)
  then show ?thesis by (auto simp: lease_le_def createPendingRun_def insert_run_def or_same_def)
qed

lemma lease_le_or_same:
  "(\<And>x t. m = Inr (x, t) \<Longrightarrow> lease_le i s t) \<Longrightarrow> lease_le i s (or_same (bind_res m (\<lambda>(_, t). Inr t)) s)"
  by (cases m) (auto simp: or_same_def intro: lease_le_runs)

lemma lease_le_apply: "lease_le i s (run_apply pf e s)"
proof (cases e)
  case (ECreate p)
  show ?thesis unfolding ECreate run_apply.simps by (rule lease_le_create)
next
  case (ETerminal c checkpoint)
  show ?thesis unfolding ETerminal run_apply.simps by (rule lease_le_or_same) (rule lease_le_execute)
next
  case (EComplete c stored completedAt checkpoint)
  show ?thesis unfolding EComplete run_apply.simps by (rule lease_le_or_same) (rule lease_le_complete)
next
  case (EUpdateStatus j st err)
  show ?thesis unfolding EUpdateStatus run_apply.simps updateRunStatus_def by (rule lease_le_update) auto
qed (simp only: run_apply.simps active_updates, rule lease_le_update, simp, simp |
  rule lease_le_runs, simp add: fencePendingOperationsForClaimedRun_def send_run_def cleanupStaleOperations_def)+

lemma lease_le_steps: "steps (run_step pf C) s es t \<Longrightarrow> lease_le i s t"
proof (induction rule: steps.induct)
  case (steps_Nil s)
  show ?case by (rule lease_le_runs) simp
next
  case (steps_Cons e s t es u)
  have "lease_le i s (updateRunStatus j st err s)" for j st err
    using lease_le_apply [of i s pf "EUpdateStatus j st err"] by simp
  then have "lease_le i s t" using steps_Cons.hyps(1) lease_le_apply by (auto elim!: run_stepE)
  then show ?case using steps_Cons.IH lease_le_trans by blast
qed

lemma claim_lease:
  assumes "claim_run i svc now s = (n, t)" and "0 < n" and "get_run s i = Some r"
    and "distinct (map r_id (rs_runs s))"
  shows "\<exists>r'. get_run t i = Some r' \<and> r_lease r' = r_lease r + 1 \<and> r_serviceId r' = Some svc \<and> r_status r' = Running"
proof -
  let ?P = "\<lambda>r. r_id r = i \<and> r_status r = Queued \<and> r_serviceId r = None"
  obtain q where q: "q \<in> set (rs_runs s)" "?P q"
    using assms(1,2) by (auto simp: claim_run_def update_runs_def sql_count_pos)
  then have "q = r" using get_run_unique [OF assms(4) q(1)] assms(3) by simp
  then have P: "?P r" using q(2) by simp
  have t: "t = snd (claim_run i svc now s)" using assms(1) by simp
  show ?thesis unfolding t claim_run_def by (subst get_run_update) (simp_all add: assms(3) P)
qed


section \<open>A concrete platform\<close>

definition demo_platform :: platform where
  "demo_platform = \<lparr>pf_sha256 = (\<lambda>b. replicate 64 97), pf_localeCompare = (\<lambda>x y. 0), pf_bucket = None,
     pf_pick = (\<lambda>n xs. take n xs), pf_pickJobs = (\<lambda>n xs. take n xs)\<rparr>"

definition empty_state :: run_state where
  "empty_state = \<lparr>rs_runs = [], rs_events = [], rs_jobs = [], rs_outbox = [], rs_ops = [], rs_threads = [], rs_messages = [],
     rs_accounts = [], rs_memberships = [], rs_dlq = [], rs_objects = [], rs_runQueue = [], rs_indexQueue = []\<rparr>"

definition demo_run :: pending_run where
  "demo_run = \<lparr>pr_runId = [114], pr_threadId = [116], pr_spaceId = [115], pr_requester = [117], pr_parentRunId = None,
     pr_agentType = [100], pr_model = [109], pr_input = [123, 125], pr_createdAt = 0\<rparr>"

definition demo_cancel :: terminal_input where
  "demo_cancel = \<lparr>ti_runId = [114], ti_status = Cancelled, ti_expectedStatuses = [Pending], ti_expectedServiceId = None,
     ti_expectedLeaseVersion = None, ti_completedAt = 1, ti_usage = None, ti_error = Some None, ti_output = None,
     ti_eventType = js ''cancelled'', ti_terminalEvent = JNull\<rparr>"

abbreviation "demo_commits \<equiv> {ControlCommit demo_cancel}"
abbreviation "demo_step \<equiv> run_step demo_platform demo_commits"
abbreviation "demo_created \<equiv> run_apply demo_platform (ECreate demo_run) empty_state"
abbreviation "demo_cancelled \<equiv> run_apply demo_platform (ETerminal demo_cancel None) demo_created"

lemma demo_digest_ok: "digest_ok demo_platform demo_commits"
  by (simp add: digest_ok_def demo_platform_def)

lemma demo_created_eq: "demo_created = empty_state\<lparr>rs_runs := [pending_row demo_run]\<rparr>"
  by (simp add: createPendingRun_def insert_run_def or_same_def empty_state_def)

lemma demo_created_reachable: "reachable run_init demo_step demo_created"
proof -
  have "reachable run_init demo_step empty_state" by (rule reachable.initial) (simp add: run_init_def empty_state_def)
  then show ?thesis by (rule reachable.further) (rule step_guarded, simp)
qed

lemma demo_cancelled_reachable: "reachable run_init demo_step demo_cancelled"
  by (rule reachable.further [OF demo_created_reachable], rule step_guarded)
    (simp add: demo_cancel_def terminal_input_typed_def RUN_TERMINAL_STATUSES_def active_statuses_def)

lemma demo_cancelled_runs: "rs_runs demo_cancelled =
    [terminal_set demo_cancel (transitionKey (pf_sha256 demo_platform) (pf_localeCompare demo_platform) demo_cancel) (pending_row demo_run)]"
proof -
  have ne: "ti_expectedStatuses demo_cancel \<noteq> []" by (simp add: demo_cancel_def)
  have "activeRunPredicate demo_cancel (pending_row demo_run)" "r_checkpoint (pending_row demo_run) = None"
    by (simp_all add: activeRunPredicate_def demo_cancel_def pending_row_def demo_run_def)
  then show ?thesis
    unfolding run_apply.simps(15) execute_unfold [OF ne] demo_created_eq
    by (simp add: or_same_def case_prod_beta Let_def update_runs_def sql_update_def)
qed

section \<open>Properties\<close>



text \<open>C3: How a run ended is final: once a run is completed, failed or cancelled, its status, completion
  key, output, error and usage stay as they are, whatever steps follow.\<close>

theorem outcome_is_final:
  assumes "reachable run_init (run_step pf C) s" and "outcome i s = Some v" and "steps (run_step pf C) s es t"
  shows "outcome i t = Some v"
  by (rule finished.outcome_final [OF assms(3) finished.reachable_inv [OF assms(1)] assms(2)])

theorem outcome_is_final_witness:
  "map_option fst (outcome [114] (run_apply demo_platform (EClaim [114] [119] 9) demo_cancelled)) = Some Cancelled"
proof -
  have "\<exists>v. outcome [114] demo_cancelled = Some v \<and> fst v = Cancelled"
    unfolding outcome_def get_run_def demo_cancelled_runs
    by (simp add: sql_get_def terminal_set_def pending_row_def demo_run_def demo_cancel_def terminal_def RUN_TERMINAL_STATUSES_def)
  then obtain v where v: "outcome [114] demo_cancelled = Some v" "fst v = Cancelled" by blast
  have "steps demo_step demo_cancelled [EClaim [114] [119] 9] (run_apply demo_platform (EClaim [114] [119] 9) demo_cancelled)"
    by (rule steps_Cons [OF _ steps_Nil]) (rule step_guarded, simp)
  from outcome_is_final [OF demo_cancelled_reachable v(1) this] v(2) show ?thesis by simp
qed


subsection \<open>A lost lease\<close>

lemma update_none: "(\<And>r. r \<in> set (rs_runs s) \<Longrightarrow> \<not> P r) \<Longrightarrow> update_runs P f s = (0, s)"
  by (simp add: update_runs_def sql_update_None)

lemma insert_chunks_none:
  "(\<And>r. r \<in> set (rs_runs s) \<Longrightarrow> \<not> completionPredicate c k r) \<Longrightarrow> insert_chunks c k ps s = s"
proof (induction c k ps s rule: insert_chunks.induct)
  case (1 c k ps s)
  have "filter (completionPredicate c k) (rs_runs s) = []" using 1(2) by (simp add: filter_empty_conv)
  then have "insert_chunk c k (take MESSAGE_CHUNK_SIZE ps) s = s" by (simp add: insert_chunk_def)
  then show ?case using 1 by (subst insert_chunks.simps) simp
qed

lemma complete_none:
  assumes "\<And>r. r \<in> set (rs_runs s) \<Longrightarrow> r_id r = ci_runId c \<Longrightarrow> r_lease r \<noteq> ci_leaseVersion c"
  shows "complete_statements c stored k t checkpoint s = ((0, None), s)"
proof -
  have np: "\<not> completionPredicate c k r" "\<not> complete_where c checkpoint r" if "r \<in> set (rs_runs s)" for r
    using assms [OF that] by (auto simp: completionPredicate_def complete_where_def)
  have "sql_get (\<lambda>r. completionPredicate c k r \<and> r_seqStart r = None) (rs_runs s) = None"
    using np by (simp add: sql_get_None)
  then have "reserve_sequence c k n s = s" for n
    using np by (simp add: reserve_sequence_def sql_update_None Let_def)
  moreover have f: "filter (completionPredicate c k) (rs_runs s) = []" using np by (simp add: filter_empty_conv)
  moreover have "insert_chunks c k ps s = s" for ps by (rule insert_chunks_none) (rule np(1))
  moreover have "outbox_statements k st t b key ty d (completionPredicate c k) s = (None, s)" for st b key ty d
    using f by (simp add: outbox_statements_def index_statements_none notification_none event_statement_none)
  ultimately show ?thesis
    using np(2) by (simp add: complete_statements_unfold update_none)
qed

lemma claim_then_later:
  assumes s: "reachable run_init (run_step pf C) s" and r: "get_run s i = Some r"
    and es: "steps (run_step pf C) s es s'" and c: "claim_run i svc now s' = (n, t)" "0 < n"
    and fs: "steps (run_step pf C) t fs u" and q: "q \<in> set (rs_runs u)" "r_id q = i"
  shows "r_lease r < r_lease q"
proof -
  have s': "reachable run_init (run_step pf C) s'" by (rule reachable_steps [OF es s])
  have "run_step pf C (EClaim i svc now) s' (run_apply pf (EClaim i svc now) s')" by (rule step_guarded) simp
  then have t: "reachable run_init (run_step pf C) t" using reachable.further [OF s'] c(1) by fastforce
  have u: "reachable run_init (run_step pf C) u" by (rule reachable_steps [OF fs t])
  have dist: "distinct (map r_id (rs_runs x))" if "reachable run_init (run_step pf C) x" for x
    using finished.reachable_inv [OF that] by (simp add: run_inv_def runs_ok_def)
  obtain r1 where r1: "get_run s' i = Some r1" "r_lease r \<le> r_lease r1"
    using lease_le_steps [OF es, of i] r unfolding lease_le_def by blast
  obtain r2 where r2: "get_run t i = Some r2" "r_lease r2 = r_lease r1 + 1"
    using claim_lease [OF c r1(1) dist [OF s']] by blast
  obtain r3 where r3: "get_run u i = Some r3" "r_lease r2 \<le> r_lease r3"
    using lease_le_steps [OF fs, of i] r2(1) unfolding lease_le_def by blast
  have "r3 = q" using get_run_unique [OF dist [OF u] q(1)] q(2) r3(1) by simp
  then show ?thesis using r1(2) r2(2) r3(2) by simp
qed

lemma lease_requests_none:
  assumes "eb_runId b = Some i" and "eb_leaseVersion b = Some v"
    and "\<And>q. q \<in> set (rs_runs u) \<Longrightarrow> r_id q = i \<Longrightarrow> r_lease q \<noteq> v"
  shows "snd (handleHeartbeat now b u) = u" "snd (handleRunFail now b u) = u" "snd (handleRunReset b u) = u"
    "readRunServiceId b \<noteq> None \<Longrightarrow> i \<noteq> [] \<Longrightarrow> fst (handleHeartbeat now b u) = ReplyErr (js ''Lease lost'') 409"
proof -
  have n: "update_runs (holds_lease i w (Some v)) f u = (0, u)" for w f
    using assms(3) by (intro update_none) (auto simp: holds_lease_def)
  show "snd (handleHeartbeat now b u) = u"
    using assms(1,2) n by (cases "readRunServiceId b"; cases i) (simp_all add: handleHeartbeat_def heartbeat_run_def truthy_def)
  show "snd (handleRunFail now b u) = u"
    using assms(1,2) n by (cases "readRunServiceId b"; cases i; cases "eb_error b")
      (simp_all add: handleRunFail_def fail_owned_def truthy_def)
  show "snd (handleRunReset b u) = u"
    using assms(1,2) n by (cases "readRunServiceId b"; cases i) (simp_all add: handleRunReset_def reset_leased_def truthy_def)
  show "readRunServiceId b \<noteq> None \<Longrightarrow> i \<noteq> [] \<Longrightarrow> fst (handleHeartbeat now b u) = ReplyErr (js ''Lease lost'') 409"
    using assms(1,2) n by (cases "readRunServiceId b"; cases i) (simp_all add: handleHeartbeat_def heartbeat_run_def truthy_def)
qed



abbreviation one_run :: "run_row \<Rightarrow> run_state" where
  "one_run r \<equiv> empty_state\<lparr>rs_runs := [r]\<rparr>"

lemma update_one_run: "update_runs P f (one_run r) = (if P r then 1 else 0, one_run (if P r then f r else r))"
  by (simp add: update_runs_def sql_count_def sql_update_def)

definition demo_queued :: run_row where
  "demo_queued = (pending_row demo_run)\<lparr>r_status := Queued, r_serviceId := None, r_heartbeat := Some 5\<rparr>"

definition demo_owned :: "jsstring \<Rightarrow> int \<Rightarrow> int \<Rightarrow> run_row" where
  "demo_owned svc lease now = demo_queued\<lparr>r_status := Running, r_serviceId := Some svc, r_heartbeat := Some now,
     r_lease := lease, r_startedAt := Some now\<rparr>"

definition demo_reset :: run_row where
  "demo_reset = (demo_owned [119] 1 6)\<lparr>r_status := Queued, r_serviceId := None, r_heartbeat := None,
     r_completionKey := None, r_completedAt := None\<rparr>"

lemma demo_fields: "r_id demo_queued = [114]" "r_status demo_queued = Queued" "r_serviceId demo_queued = None" "r_lease demo_queued = 0"
  by (simp_all add: demo_queued_def pending_row_def demo_run_def)

lemma demo_owned_reachable: "reachable run_init demo_step (one_run (demo_owned [119] 1 6))"
proof -
  have q: "run_apply demo_platform (ECronUnclaimed [114] 1 5) demo_created = one_run demo_queued"
    unfolding demo_created_eq unfolding run_apply.simps cron_unclaimed_def update_one_run
    by (simp add: demo_queued_def stale_unclaimed_def pending_row_def demo_run_def)
  have c: "run_apply demo_platform (EClaim [114] [119] 6) (one_run demo_queued) = one_run (demo_owned [119] 1 6)"
    unfolding run_apply.simps claim_run_def update_one_run by (simp add: demo_owned_def demo_fields)
  have r: "reachable run_init demo_step (one_run demo_queued)"
    unfolding q [symmetric] by (rule reachable.further [OF demo_created_reachable], rule step_guarded) simp
  have "demo_step (EClaim [114] [119] 6) (one_run demo_queued) (run_apply demo_platform (EClaim [114] [119] 6) (one_run demo_queued))"
    by (rule step_guarded) simp
  from reachable.further [OF r this] show ?thesis unfolding c .
qed

lemma demo_reset_step: "run_apply demo_platform (EReset [114] [119] (Some 1)) (one_run (demo_owned [119] 1 6)) = one_run demo_reset"
  unfolding run_apply.simps reset_leased_def update_one_run
  by (simp add: demo_reset_def holds_lease_def demo_owned_def demo_fields)

lemma demo_reclaim: "claim_run [114] [120] 8 (one_run demo_reset) =
    (1, one_run (demo_reset\<lparr>r_status := Running, r_serviceId := Some [120], r_heartbeat := Some 8, r_lease := 2, r_startedAt := Some 8\<rparr>))"
  unfolding claim_run_def update_one_run by (simp add: demo_reset_def demo_owned_def demo_fields)


subsection \<open>Where the discipline is left\<close>

lemma run_fail_success:
  assumes "eb_runId b = Some i" and "handleRunFail now b s = (ReplyUpdated, t)"
  shows "\<exists>svc err. t = snd (fail_owned i svc (eb_leaseVersion b) err now s) \<and> 0 < fst (fail_owned i svc (eb_leaseVersion b) err now s)"
proof -
  obtain c cs where i: "i = c # cs"
    using assms by (cases i) (auto simp: handleRunFail_def truthy_def split: option.splits)
  obtain svc where svc: "readRunServiceId b = Some svc"
    using assms i by (cases "readRunServiceId b") (auto simp: handleRunFail_def truthy_def)
  obtain err where err: "eb_error b = Some err" "js_trim err \<noteq> []"
    using assms i svc by (cases "eb_error b") (auto simp: handleRunFail_def truthy_def split: if_splits)
  have "0 < fst (fail_owned i svc (eb_leaseVersion b) err now s) \<and> t = snd (fail_owned i svc (eb_leaseVersion b) err now s)"
    using assms i svc err by (auto simp: handleRunFail_def truthy_def case_prod_beta Let_def split: if_splits)
  then show ?thesis by blast
qed

text \<open>The failure request of the executor ends a run outside the terminal transaction: when it
  succeeds, the run is failed for good, but no reachable later state has a terminal event or a
  notification for it.\<close>

theorem run_fail_leaves_no_trace:
  assumes "digest_ok pf C" and "reachable run_init (run_step pf C) s"
    and "eb_runId b = Some i" and "handleRunFail now b s = (ReplyUpdated, t)" and "steps (run_step pf C) t es u"
  shows "map_option fst (outcome i u) = Some Failed \<and> filter (\<lambda>e. ev_runId e = i) (rs_events u) = [] \<and>
    filter (\<lambda>x. ob_runId x = i) (rs_outbox u) = []"
proof -
  obtain svc err where tt: "t = snd (fail_owned i svc (eb_leaseVersion b) err now s)"
    and f: "0 < fst (fail_owned i svc (eb_leaseVersion b) err now s)"
    using run_fail_success [OF assms(3,4)] by blast
  have st: "run_step pf C (EFail i svc (eb_leaseVersion b) err now) s t"
    using step_guarded [of C "EFail i svc (eb_leaseVersion b) err now" pf s] by (simp add: tt)
  have t: "reachable run_init (run_step pf C) t" by (rule reachable.further [OF assms(2) st])
  have invs: "run_inv pf C s" by (rule finished.reachable_inv [OF assms(2)])
  have dist: "distinct (map r_id (rs_runs s))" using invs by (simp add: run_inv_def runs_ok_def)
  obtain q where q: "q \<in> set (rs_runs s)" "holds_lease i svc (eb_leaseVersion b) q"
    using f by (auto simp: fail_owned_def update_runs_def sql_count_pos)
  have qi: "r_id q = i" "\<not> terminal q" using q(2) by (simp_all add: holds_lease_def)
  have gq: "get_run s i = Some q" using get_run_unique [OF dist q(1)] qi(1) by simp
  have kq: "r_completionKey q = None" using invs q(1) qi(2) unfolding run_inv_def runs_ok_def by (meson not_Some_eq)
  have "get_run t i = Some (q\<lparr>r_status := Failed, r_error := Some err, r_completedAt := Some now\<rparr>)"
    unfolding tt fail_owned_def by (subst get_run_update) (simp_all add: gq q(2))
  then have o: "outcome i t = Some (Failed, None, r_output q, Some err, r_usage q)"
    using kq by (simp add: outcome_def terminal_def RUN_TERMINAL_STATUSES_def)
  have ou: "outcome i u = Some (Failed, None, r_output q, Some err, r_usage q)"
    by (rule finished.outcome_final [OF assms(5) finished.reachable_inv [OF t] o])
  then obtain r where r: "get_run u i = Some r" "r_completionKey r = None"
    by (auto simp: outcome_def split: option.splits if_splits)
  have ur: "reachable run_init (run_step pf C) u" by (rule reachable_steps [OF assms(5) t])
  have rin: "r \<in> set (rs_runs u)" "r_id r = i" using get_run_Some [OF r(1)] by auto
  note inv = finished.reachable_inv [OF ur]
  show ?thesis
    using ou event_count [OF inv assms(1) rin(1)] notification_count [OF inv assms(1) rin(1)] rin(2) r(2) by simp
qed


abbreviation "demo_failed \<equiv> one_run ((demo_owned [119] 1 6)\<lparr>r_status := Failed, r_error := Some [101], r_completedAt := Some 9\<rparr>)"

theorem run_fail_leaves_no_trace_witness:
  "map_option fst (outcome [114] demo_failed) = Some Failed \<and> filter (\<lambda>e. ev_runId e = [114]) (rs_events demo_failed) = []"
proof -
  let ?b = "\<lparr>eb_runId = Some [114], eb_serviceId = Some [119], eb_workerId = None, eb_leaseVersion = Some 1, eb_error = Some [101]\<rparr>"
  have "js_trim [101] = [101 :: unit16]" by (simp add: js_trim_def js_ws_def)
  then have f: "handleRunFail 9 ?b (one_run (demo_owned [119] 1 6)) = (ReplyUpdated, demo_failed)"
    unfolding handleRunFail_def fail_owned_def update_one_run
    by (simp add: truthy_def readRunServiceId_def holds_lease_def demo_owned_def demo_fields)
  have "eb_runId ?b = Some [114]" by simp
  from run_fail_leaves_no_trace [OF demo_digest_ok demo_owned_reachable this f steps_Nil] show ?thesis by blast
qed

lemma sql_get_fresh: "(\<And>x. x \<in> set xs \<Longrightarrow> \<not> P x) \<Longrightarrow> P y \<Longrightarrow> sql_get P (xs @ [y]) = Some y"
  by (induction xs) (auto simp: sql_get_def)

lemma update_fresh:
  assumes "i \<notin> r_id ` set rows" and "\<And>r. P r \<Longrightarrow> r_id r = i"
  shows "sql_update P f (rows @ [q]) = rows @ [if P q then f q else q]" and "sql_count P (rows @ [q]) = (if P q then 1 else 0)"
proof -
  have "\<not> P r" if "r \<in> set rows" for r using that assms by blast
  then show "sql_update P f (rows @ [q]) = rows @ [if P q then f q else q]" "sql_count P (rows @ [q]) = (if P q then 1 else 0)"
    by (simp_all add: sql_update_def sql_count_def map_idI filter_empty_conv)
qed

text \<open>The cancellation route (\<open>server/routes/runs/routes.ts\<close>) for a run it saw pending.\<close>

definition cancel_pending :: "jsstring \<Rightarrow> int \<Rightarrow> terminal_input" where
  "cancel_pending runId completedAt =
    \<lparr>ti_runId = runId, ti_status = Cancelled, ti_expectedStatuses = [Pending], ti_expectedServiceId = None,
     ti_expectedLeaseVersion = None, ti_completedAt = completedAt, ti_usage = None, ti_error = Some None, ti_output = None,
     ti_eventType = js ''cancelled'', ti_terminalEvent = buildTerminalPayload runId Cancelled [] None\<rparr>"

lemma cancel_transition:
  assumes fresh: "i \<notin> r_id ` set (rs_runs s)" and q: "r_id q = i" "r_status q = Pending" "r_checkpoint q = None"
  shows "\<exists>res t. transitionRunTerminalAtomically sha cmp b (cancel_pending i now) (s\<lparr>rs_runs := rs_runs s @ [q]\<rparr>) = Inr (res, t) \<and>
    tr_committed res \<and> rs_runs t = rs_runs s @ [terminal_set (cancel_pending i now) (transitionKey sha cmp (cancel_pending i now)) q]"
proof -
  let ?c = "cancel_pending i now"
  let ?s = "s\<lparr>rs_runs := rs_runs s @ [q]\<rparr>"
  have ne: "ti_expectedStatuses ?c \<noteq> []" by (simp add: cancel_pending_def)
  have id: "r_id r = i" if "activeRunPredicate ?c r" for r using that by (simp add: activeRunPredicate_def cancel_pending_def)
  have act: "activeRunPredicate ?c q" using q by (simp add: activeRunPredicate_def cancel_pending_def)
  have rd: "readActiveEngineCheckpoint ?c ?s = Inr (Some None)"
    using sql_get_fresh [of "rs_runs s" "activeRunPredicate ?c" q] id fresh act ne q(3)
    by (auto simp: readActiveEngineCheckpoint_def)
  let ?P = "\<lambda>r. activeRunPredicate ?c r \<and> r_checkpoint r = None"
  have P: "r_id r = i" if "?P r" for r using id that by blast
  have up: "update_runs ?P (terminal_set ?c k) ?s = (1, ?s\<lparr>rs_runs := rs_runs s @ [terminal_set ?c k q]\<rparr>)" for k
    using update_fresh(1) [OF fresh P, of ?P "terminal_set ?c k" q] update_fresh(2) [OF fresh P, of ?P q] act q(3)
    by (simp add: update_runs_def)
  obtain e t where ex: "execute ?c (transitionKey sha cmp ?c) None ?s = Inr ((1, e), t)"
      "rs_runs t = rs_runs s @ [terminal_set ?c (transitionKey sha cmp ?c) q]"
  proof -
    obtain e t where et: "outbox_statements (transitionKey sha cmp ?c) (ti_status ?c) (ti_completedAt ?c) (ti_status ?c = Completed \<or> ti_status ?c = Failed)
           (control_event_key (ti_runId ?c) (transitionKey sha cmp ?c) (ti_status ?c)) (ti_eventType ?c) (ti_terminalEvent ?c)
           (committed_predicate ?c (transitionKey sha cmp ?c))
           (?s\<lparr>rs_runs := rs_runs s @ [terminal_set ?c (transitionKey sha cmp ?c) q]\<rparr>) = (e, t)"
      by (rule prod.exhaust)
    have "execute ?c (transitionKey sha cmp ?c) None ?s = Inr ((1, e), t)"
      unfolding execute_unfold [OF ne] up by (simp only: Let_def prod.case et)
    moreover have "rs_runs t = rs_runs s @ [terminal_set ?c (transitionKey sha cmp ?c) q]"
      using arg_cong [OF et, of "\<lambda>p. rs_runs (snd p)"] by simp
    ultimately show thesis by (rule that)
  qed
  show ?thesis
    by (simp add: transitionRunTerminalAtomically_def rd ex delete_checkpoint_object_def engineCheckpointObjectKey_def Let_def)
qed

text \<open>C34: The creation of a run can bring a cancelled run back: between its insertion as pending and the
  update that queues it, the run can be cancelled for good; the update has no condition on the status, so
  the run is queued again and the next queue message claims and executes it, although the user was told
  it is cancelled. This holds for every fresh run, whatever else is in the database.\<close>

theorem cancelled_run_revived:
  assumes "pr_runId p \<notin> r_id ` set (rs_runs s)" and "qe_sendOk env"
  shows "\<exists>s1 res s2 reply s3. createPendingRun p s = Inr s1 \<and>
    transitionRunTerminalAtomically (pf_sha256 pf) (pf_localeCompare pf) b (cancel_pending (pr_runId p) now) s1 = Inr (res, s2) \<and>
    tr_committed res \<and> map_option fst (outcome (pr_runId p) s2) = Some Cancelled \<and>
    enqueue_created pf env p s2 = (reply, s3) \<and> outcome (pr_runId p) s3 = None \<and>
    fst (claim_run (pr_runId p) svc later s3) = 1"
proof -
  let ?i = "pr_runId p"
  let ?s1 = "s\<lparr>rs_runs := rs_runs s @ [pending_row p]\<rparr>"
  have q: "r_id (pending_row p) = ?i" "r_status (pending_row p) = Pending" "r_checkpoint (pending_row p) = None"
    "r_serviceId (pending_row p) = None" by (simp_all add: pending_row_def)
  have c: "createPendingRun p s = Inr ?s1" using assms(1) q(1) by (simp add: createPendingRun_def insert_run_def)
  define k where "k = transitionKey (pf_sha256 pf) (pf_localeCompare pf) (cancel_pending ?i now)"
  define r where "r = terminal_set (cancel_pending ?i now) k (pending_row p)"
  obtain res s2 where t: "transitionRunTerminalAtomically (pf_sha256 pf) (pf_localeCompare pf) b (cancel_pending ?i now) ?s1 = Inr (res, s2)"
    "tr_committed res" "rs_runs s2 = rs_runs s @ [r]"
    using cancel_transition [OF assms(1) q(1-3), of "pf_sha256 pf" "pf_localeCompare pf" b now] unfolding r_def k_def by blast
  have r: "r_id r = ?i" "r_status r = Cancelled" "r_serviceId r = None" by (simp_all add: r_def terminal_set_def cancel_pending_def q)
  have fresh: "\<not> r_id x = ?i" if "x \<in> set (rs_runs s)" for x using that assms(1) by (metis image_eqI)
  have "get_run s2 ?i = Some r" unfolding get_run_def t(3) by (rule sql_get_fresh) (use fresh r in auto)
  then have o: "map_option fst (outcome ?i s2) = Some Cancelled"
    by (simp add: outcome_def terminal_def RUN_TERMINAL_STATUSES_def r)
  define r' where "r' = r\<lparr>r_status := Queued, r_error := None\<rparr>"
  have r': "r_id r' = ?i" "r_status r' = Queued" "r_serviceId r' = None" by (simp_all add: r'_def r)
  obtain reply s3 where e: "enqueue_created pf env p s2 = (reply, s3)" by (rule prod.exhaust)
  have "rs_runs (updateRunStatus ?i Queued None s2) = rs_runs s @ [r']"
    unfolding updateRunStatus_def update_runs_def snd_conv
    using update_fresh(1) [OF assms(1), of "\<lambda>r. r_id r = ?i" "\<lambda>r. r\<lparr>r_status := Queued, r_error := None\<rparr>" r] r(1)
    by (simp add: t(3) r'_def)
  then have s3: "rs_runs s3 = rs_runs s @ [r']"
    using e assms(2) by (auto simp: enqueue_created_def send_run_def Let_def)
  have "get_run s3 ?i = Some r'" unfolding get_run_def s3 by (rule sql_get_fresh) (use fresh r' in auto)
  then have "outcome ?i s3 = None" by (simp add: outcome_def r')
  moreover have "fst (claim_run ?i svc later s3) = 1"
    unfolding claim_run_def update_runs_def fst_conv s3
    by (subst update_fresh(2) [OF assms(1)]) (simp_all add: r')
  ultimately show ?thesis using c t(1,2) o e by blast
qed

definition demo_env :: queue_env where
  "demo_env = \<lparr>qe_clock = 1, qe_now = 2, qe_fencedAt = 3, qe_completedAt = 4, qe_model = Inr [109],
     qe_dispatch = DispatchThrows [], qe_sendOk = True, qe_dlqId = [],
     qe_deliver = (\<lambda>_. \<lparr>da_claimedAt = 5, da_claimToken = [], da_result = Inr HandoffDone, da_doneAt = 6, da_revertAt = None\<rparr>)\<rparr>"

theorem cancelled_run_revived_witness:
  "\<exists>s1 s2. createPendingRun demo_run empty_state = Inr s1 \<and> map_option fst (outcome [114] s2) = Some Cancelled \<and>
    fst (claim_run [114] [119] 9 (snd (enqueue_created demo_platform demo_env demo_run s2))) = 1"
proof -
  have h: "pr_runId demo_run \<notin> r_id ` set (rs_runs empty_state)" "qe_sendOk demo_env"
    by (simp_all add: empty_state_def demo_env_def)
  have i: "pr_runId demo_run = [114]" by (simp add: demo_run_def)
  from cancelled_run_revived [OF h, where pf = demo_platform and b = None and now = 1 and svc = "[119]" and later = 9]
  obtain s1 s2 reply s3 where "createPendingRun demo_run empty_state = Inr s1" "map_option fst (outcome [114] s2) = Some Cancelled"
    "enqueue_created demo_platform demo_env demo_run s2 = (reply, s3)" "fst (claim_run [114] [119] 9 s3) = 1"
    unfolding i by blast
  then show ?thesis by (metis snd_conv)
qed

end
