(* ===== verification/RunProgress.thy ===== *)
theory RunProgress
  imports RunOutcome
begin

text \<open>
  Progress of runs: the search-index outbox drains when the queue takes its messages, and a run whose
  executor died is recovered by cron and claimed again by the queue consumer.
\<close>

section \<open>The index outbox\<close>

text \<open>What a \<open>LIMIT\<close> promises: that many of the selected rows, or all of them.\<close>

definition limit_choice :: "(nat \<Rightarrow> 'r list \<Rightarrow> 'r list) \<Rightarrow> bool" where
  "limit_choice pick \<longleftrightarrow> (\<forall>n xs. length (pick n xs) = min n (length xs) \<and> set (pick n xs) \<subseteq> set xs \<and>
    (distinct xs \<longrightarrow> distinct (pick n xs)))"

lemma limit_choice_take: "limit_choice take"
  by (auto simp: limit_choice_def dest: in_set_takeD)

definition queued_jobs :: "run_state \<Rightarrow> job_row list" where
  "queued_jobs s = filter (\<lambda>j. job_state j = JobQueued) (rs_jobs s)"

definition sendable :: "job_row \<Rightarrow> bool" where
  "sendable j \<longleftrightarrow> isTerminalIndexJobType (job_type j) \<and> job_target j \<noteq> None \<and> job_target j \<noteq> Some []"

definition flush_all :: index_options where
  "flush_all = \<lparr>io_completionKey = None, io_staleBefore = None, io_limit = None\<rparr>"

definition jobs_ready :: "run_state \<Rightarrow> bool" where
  "jobs_ready s \<longleftrightarrow> distinct (map job_id (rs_jobs s)) \<and> (\<forall>j \<in> set (queued_jobs s). sendable j)"

definition dispatch_round :: "(nat \<Rightarrow> job_row list \<Rightarrow> job_row list) \<Rightarrow> (nat \<Rightarrow> send_answer) \<Rightarrow> run_state \<Rightarrow> run_state" where
  "dispatch_round pick answers s = snd (dispatchTerminalIndexOutbox pick answers True flush_all s)"

lemma dispatch_one:
  assumes "distinct (map job_id (rs_jobs s))" and j: "j \<in> set (queued_jobs s)" "sendable j" and ok: "sa_error a = None"
  shows "\<exists>t. dispatch_job flush_all a j (n, s) = (Suc n, t) \<and> map job_id (rs_jobs t) = map job_id (rs_jobs s) \<and>
    queued_jobs t = filter (\<lambda>x. job_id x \<noteq> job_id j) (queued_jobs s) \<and>
    map im_jobId (rs_indexQueue t) = map im_jobId (rs_indexQueue s) @ [job_id j]"
proof -
  have in_jobs: "j \<in> set (rs_jobs s)" and q: "job_state j = JobQueued" using j(1) by (auto simp: queued_jobs_def)
  obtain target where target: "job_target j = Some target" "target \<noteq> []" and ty: "isTerminalIndexJobType (job_type j)"
    using j(2) by (auto simp: sendable_def)
  let ?P = "index_claimable flush_all j"
  let ?f = "\<lambda>x. x\<lparr>job_state := JobEnqueued, job_claim := Some (sa_deliveryId a), job_startedAt := Some (sa_claimedAt a), job_error := None\<rparr>"
  have pos: "sql_count ?P (rs_jobs s) \<noteq> 0"
  proof -
    have "0 < sql_count ?P (rs_jobs s)" unfolding sql_count_pos using in_jobs q by (auto simp: index_claimable_def)
    then show ?thesis by (rule gr_implies_not0)
  qed
  define t where "t = s\<lparr>rs_jobs := sql_update ?P ?f (rs_jobs s), rs_indexQueue := rs_indexQueue s @ [index_job_message j target a]\<rparr>"
  have "dispatch_job flush_all a j (n, s) = (Suc n, t)"
    using pos target ty q ok by (simp add: dispatch_job_def claim_job_def t_def Let_def)
  moreover have "map job_id (rs_jobs t) = map job_id (rs_jobs s)" by (simp add: t_def map_sql_update)
  moreover have "filter (\<lambda>x. job_state x = JobQueued) (sql_update ?P ?f jobs) =
      filter (\<lambda>x. job_id x \<noteq> job_id j) (filter (\<lambda>x. job_state x = JobQueued) jobs)" for jobs
    by (induction jobs) (auto simp: sql_update_def index_claimable_def q)
  then have "queued_jobs t = filter (\<lambda>x. job_id x \<noteq> job_id j) (queued_jobs s)" by (simp add: queued_jobs_def t_def)
  moreover have "map im_jobId (rs_indexQueue t) = map im_jobId (rs_indexQueue s) @ [job_id j]"
    by (simp add: t_def index_job_message_def)
  ultimately show ?thesis by blast
qed

lemma dispatch_many:
  assumes "distinct (map job_id (rs_jobs s))" and "distinct (map job_id picked)"
    and "\<forall>j \<in> set picked. j \<in> set (queued_jobs s) \<and> sendable j" and ok: "\<forall>n. sa_error (answers n) = None"
  shows "\<exists>t. dispatch_jobs flush_all answers n picked (m, s) = (m + length picked, t) \<and>
    map job_id (rs_jobs t) = map job_id (rs_jobs s) \<and>
    queued_jobs t = filter (\<lambda>x. job_id x \<notin> job_id ` set picked) (queued_jobs s) \<and>
    map im_jobId (rs_indexQueue t) = map im_jobId (rs_indexQueue s) @ map job_id picked"
  using assms(1-3)
proof (induction picked arbitrary: n m s)
  case (Cons j picked)
  have j: "j \<in> set (queued_jobs s)" "sendable j" using Cons.prems(3) by auto
  obtain t where t: "dispatch_job flush_all (answers n) j (m, s) = (Suc m, t)" "map job_id (rs_jobs t) = map job_id (rs_jobs s)"
    "queued_jobs t = filter (\<lambda>x. job_id x \<noteq> job_id j) (queued_jobs s)"
    "map im_jobId (rs_indexQueue t) = map im_jobId (rs_indexQueue s) @ [job_id j]"
    using dispatch_one [OF Cons.prems(1) j spec [OF ok, of n], of m] by blast
  have "\<forall>x \<in> set picked. x \<in> set (queued_jobs t) \<and> sendable x" using Cons.prems(2,3) t(3) by (auto simp: image_iff)
  then obtain u where u: "dispatch_jobs flush_all answers (Suc n) picked (Suc m, t) = (Suc m + length picked, u)"
    "map job_id (rs_jobs u) = map job_id (rs_jobs t)"
    "queued_jobs u = filter (\<lambda>x. job_id x \<notin> job_id ` set picked) (queued_jobs t)"
    "map im_jobId (rs_indexQueue u) = map im_jobId (rs_indexQueue t) @ map job_id picked"
    using Cons.IH [of t "Suc n" "Suc m"] Cons.prems(1,2) unfolding t(2) by auto
  have "queued_jobs u = filter (\<lambda>x. job_id x \<notin> job_id ` set (j # picked)) (queued_jobs s)"
    unfolding u(3) t(3) filter_filter by (rule filter_cong) auto
  then show ?case using t u by simp
qed simp

lemma filter_not_in_length:
  assumes "distinct (map k xs)" and "distinct ys" and "set ys \<subseteq> set xs"
  shows "length (filter (\<lambda>x. k x \<notin> k ` set ys) xs) = length xs - length ys"
proof -
  have inj: "inj_on k (set xs)" and dx: "distinct xs" using assms(1) by (auto simp: distinct_map)
  have "set (filter (\<lambda>x. k x \<notin> k ` set ys) xs) = set xs - set ys" using inj assms(3) by (auto dest: inj_onD)
  then have "length (filter (\<lambda>x. k x \<notin> k ` set ys) xs) = card (set xs - set ys)"
    using dx by (metis distinct_card distinct_filter)
  also have "\<dots> = card (set xs) - card (set ys)" using assms(3) by (intro card_Diff_subset) auto
  finally show ?thesis using dx assms(2) by (simp add: distinct_card)
qed

lemma round_step:
  assumes ready: "jobs_ready s" and pick: "limit_choice pick" and ok: "\<forall>n. sa_error (answers n) = None"
  shows "jobs_ready (dispatch_round pick answers s) \<and>
    length (queued_jobs (dispatch_round pick answers s)) = length (queued_jobs s) - 50 \<and>
    (\<forall>x \<in> set (queued_jobs s). x \<in> set (queued_jobs (dispatch_round pick answers s)) \<or>
      job_id x \<in> im_jobId ` set (rs_indexQueue (dispatch_round pick answers s))) \<and>
    im_jobId ` set (rs_indexQueue s) \<subseteq> im_jobId ` set (rs_indexQueue (dispatch_round pick answers s))"
proof -
  have lim: "dispatch_limit (io_limit flush_all) = 50" by (simp add: dispatch_limit_def flush_all_def)
  have sel: "filter (index_predicate flush_all) (rs_jobs s) = queued_jobs s"
    unfolding queued_jobs_def using ready
    by (intro filter_cong) (auto simp: index_predicate_def flush_all_def stale_claim_def jobs_ready_def queued_jobs_def sendable_def)
  define picked where "picked = pick 50 (queued_jobs s)"
  have dist: "distinct (map job_id (rs_jobs s))" and send: "\<forall>j \<in> set (queued_jobs s). sendable j"
    using ready by (auto simp: jobs_ready_def)
  have dq: "distinct (map job_id (queued_jobs s))" unfolding queued_jobs_def by (rule distinct_map_filter [OF dist])
  note choice = pick [unfolded limit_choice_def, rule_format, of 50 "queued_jobs s", folded picked_def]
  have "distinct (queued_jobs s)" using dq by (simp add: distinct_map)
  then have picked: "length picked = min 50 (length (queued_jobs s))" "set picked \<subseteq> set (queued_jobs s)" "distinct picked"
    using choice by blast+
  have djs: "distinct (map job_id picked)" using picked(2,3) dq by (auto simp: distinct_map dest: inj_on_subset)
  obtain t where t: "dispatch_jobs flush_all answers 0 picked (0, s) = (length picked, t)" "map job_id (rs_jobs t) = map job_id (rs_jobs s)"
    "queued_jobs t = filter (\<lambda>x. job_id x \<notin> job_id ` set picked) (queued_jobs s)"
    "map im_jobId (rs_indexQueue t) = map im_jobId (rs_indexQueue s) @ map job_id picked"
    using dispatch_many [OF dist djs _ ok, of 0 0] picked(2) send by auto
  have r: "dispatch_round pick answers s = t"
    by (simp add: dispatch_round_def dispatchTerminalIndexOutbox_def lim sel picked_def [symmetric] t(1))
  have "length (queued_jobs t) = length (queued_jobs s) - length picked" unfolding t(3) by (rule filter_not_in_length [OF dq picked(3,2)])
  then have len: "length (queued_jobs t) = length (queued_jobs s) - 50" using picked(1) by simp
  have "\<forall>j \<in> set (queued_jobs t). sendable j" using send t(3) by auto
  then have rdy: "jobs_ready t" using dist t(2) by (simp add: jobs_ready_def)
  have ids: "im_jobId ` set (rs_indexQueue t) = im_jobId ` set (rs_indexQueue s) \<union> job_id ` set picked"
    using arg_cong [OF t(4), of set] by simp
  have "x \<in> set (queued_jobs t) \<or> job_id x \<in> im_jobId ` set (rs_indexQueue t)" if "x \<in> set (queued_jobs s)" for x
    using that unfolding t(3) ids by auto
  then show ?thesis unfolding r using rdy len ids by auto
qed

lemma covered:
  assumes "\<forall>x \<in> A. x \<in> B \<or> f x \<in> I" and "\<forall>x \<in> B. f x \<in> J" and "I \<subseteq> J"
  shows "\<forall>x \<in> A. f x \<in> J"
  using assms by auto



section \<open>Recovery of stale runs\<close>

lemma cron_reset_get:
  assumes "get_run s i = Some r"
  shows "get_run (snd (cron_reset j th s)) i = Some (if i = j \<and> stale_running th r
    then r\<lparr>r_status := Queued, r_serviceId := None, r_heartbeat := None, r_completionKey := None, r_completedAt := None\<rparr> else r)"
  using get_run_Some [OF assms] unfolding cron_reset_def by (subst get_run_update) (auto simp: assms)

lemma cron_revert_get:
  assumes "get_run s i = Some r" and "i \<noteq> j"
  shows "get_run (snd (cron_revert j s)) i = Some r"
  using get_run_Some [OF assms(1)] assms(2) unfolding cron_revert_def by (subst get_run_update) (auto simp: assms(1))

lemma send_message_runs: "rs_runs (snd (sendRunQueueMessage env q s)) = rs_runs s"
  by (simp add: sendRunQueueMessage_def send_run_def split: sum.split option.split)

lemma send_message_queue: "set (rs_runQueue s) \<subseteq> set (rs_runQueue (snd (sendRunQueueMessage env q s)))"
  by (auto simp: sendRunQueueMessage_def send_run_def split: sum.split option.split)

lemma update_runs_queue [simp]: "rs_runQueue (snd (update_runs P f s)) = rs_runQueue s"
  by (simp add: update_runs_def)

lemma reenqueue_queue: "set (rs_runQueue s) \<subseteq> set (rs_runQueue (reenqueue_running env th q s))"
  using send_message_queue [of "snd (cron_reset (r_id q) th s)" env q]
  by (simp add: reenqueue_running_def case_prod_beta Let_def cron_reset_def cron_revert_def)

lemma reenqueue_other:
  assumes "get_run s i = Some r" and "r_id q \<noteq> i"
  shows "get_run (reenqueue_running env th q s) i = Some r"
proof -
  let ?s1 = "snd (cron_reset (r_id q) th s)"
  let ?s2 = "snd (sendRunQueueMessage env q ?s1)"
  have 1: "get_run ?s1 i = Some r" using cron_reset_get [OF assms(1), of "r_id q" th] assms(2) by simp
  then have 2: "get_run ?s2 i = Some r" using get_run_other [OF send_message_runs [of env q ?s1]] by simp
  have 3: "get_run (snd (cron_revert (r_id q) ?s2)) i = Some r" by (rule cron_revert_get [OF 2]) (use assms(2) in simp)
  show ?thesis using 1 2 3 by (simp add: reenqueue_running_def case_prod_beta Let_def)
qed

lemma reenqueue_self:
  assumes r: "get_run s i = Some r" and st: "stale_running th r" and m: "r_model r = Some m" and ok: "ce_send env i"
  shows "get_run (reenqueue_running env th r s) i =
      Some (r\<lparr>r_status := Queued, r_serviceId := None, r_heartbeat := None, r_completionKey := None, r_completedAt := None\<rparr>) \<and>
    (\<lparr>rm_runId = i, rm_timestamp = ce_timestamp env i, rm_retryCount = Some 0, rm_backpressure = None, rm_model = Some m\<rparr>, 0)
      \<in> set (rs_runQueue (reenqueue_running env th r s))"
proof -
  let ?m = "\<lparr>rm_runId = i, rm_timestamp = ce_timestamp env i, rm_retryCount = Some 0, rm_backpressure = None, rm_model = Some m\<rparr>"
  let ?s1 = "snd (cron_reset i th s)"
  have i: "r_id r = i" "r \<in> set (rs_runs s)" using get_run_Some [OF r] by auto
  have "fst (cron_reset i th s) \<noteq> 0"
  proof -
    have "0 < fst (cron_reset i th s)" unfolding cron_reset_def update_runs_def fst_conv sql_count_pos using i st by blast
    then show ?thesis by (rule gr_implies_not0)
  qed
  moreover have "sendRunQueueMessage env r ?s1 = (True, send_run ?m 0 ?s1)"
    using m ok i(1) by (simp add: sendRunQueueMessage_def)
  ultimately have e: "reenqueue_running env th r s = send_run ?m 0 ?s1"
    using i(1) by (simp add: reenqueue_running_def case_prod_beta Let_def)
  have "get_run (send_run ?m 0 ?s1) i = get_run ?s1 i" by (rule get_run_other) (simp add: send_run_def)
  then show ?thesis unfolding e using cron_reset_get [OF r, of i th] st by (simp add: send_run_def)
qed

lemma reenqueue_fold_other:
  assumes "get_run s i = Some r" and "i \<notin> r_id ` set qs"
  shows "get_run (fold (reenqueue_running env th) qs s) i = Some r"
  using assms
proof (induction qs arbitrary: s)
  case (Cons q qs)
  have "get_run (reenqueue_running env th q s) i = Some r" by (rule reenqueue_other [OF Cons.prems(1)]) (use Cons.prems(2) in auto)
  then show ?case using Cons.IH Cons.prems(2) by simp
qed simp

lemma reenqueue_fold_queue: "set (rs_runQueue s) \<subseteq> set (rs_runQueue (fold (reenqueue_running env th) qs s))"
  by (induction qs arbitrary: s) (auto dest: subsetD [OF reenqueue_queue])

text \<open>C19: A run whose executor died is taken up again: when cron selects a running run whose heartbeat is
  too old and the queue takes the message, the run is queued with a message for it and nobody's claim, and
  the next consumer's claim succeeds and gives it a lease that is one higher than the dead executor's.\<close>

theorem stale_run_recovered:
  assumes "distinct (map r_id (rs_runs s))" and "get_run s i = Some r"
    and "distinct (pick 50 (filter (stale_running th) (rs_runs s)))"
    and "set (pick 50 (filter (stale_running th) (rs_runs s))) \<subseteq> set (rs_runs s)"
    and "r \<in> set (pick 50 (filter (stale_running th) (rs_runs s)))"
    and "stale_running th r" and "r_model r = Some m" and "ce_send env i"
  shows "(\<lparr>rm_runId = i, rm_timestamp = ce_timestamp env i, rm_retryCount = Some 0, rm_backpressure = None, rm_model = Some m\<rparr>, 0)
      \<in> set (rs_runQueue (reenqueueStaleRunningRuns pick env th s)) \<and>
    (\<exists>q. get_run (snd (claim_run i svc now (reenqueueStaleRunningRuns pick env th s))) i = Some q \<and>
      r_status q = Running \<and> r_serviceId q = Some svc \<and> r_lease q = r_lease r + 1)"
proof -
  let ?picked = "pick 50 (filter (stale_running th) (rs_runs s))"
  let ?new = "r\<lparr>r_status := Queued, r_serviceId := None, r_heartbeat := None, r_completionKey := None, r_completedAt := None\<rparr>"
  have i: "r_id r = i" using get_run_Some [OF assms(2)] by simp
  obtain qs rest where p: "?picked = qs @ r # rest" using assms(5) by (auto dest: split_list)
  have "distinct (map r_id ?picked)" using assms(1,3,4) by (auto simp: distinct_map dest: inj_on_subset)
  then have n: "i \<notin> r_id ` set qs" "i \<notin> r_id ` set rest" using p i by auto
  define s1 where "s1 = fold (reenqueue_running env th) qs s"
  define s2 where "s2 = reenqueue_running env th r s1"
  have s3: "reenqueueStaleRunningRuns pick env th s = fold (reenqueue_running env th) rest s2"
    by (simp add: reenqueueStaleRunningRuns_def p s1_def s2_def)
  have g1: "get_run s1 i = Some r" unfolding s1_def by (rule reenqueue_fold_other [OF assms(2) n(1)])
  note self = reenqueue_self [where env = env, OF g1 assms(6-8), folded s2_def]
  have g3: "get_run (fold (reenqueue_running env th) rest s2) i = Some ?new"
    by (rule reenqueue_fold_other [OF conjunct1 [OF self] n(2)])
  show ?thesis unfolding s3 claim_run_def using conjunct2 [OF self] reenqueue_fold_queue [of s2 env th rest]
    by (subst get_run_update) (auto simp: g3 i)
qed

theorem stale_run_recovered_witness:
  "\<exists>q. get_run (snd (claim_run [114] [119] 9
      (reenqueueStaleRunningRuns take \<lparr>ce_send = (\<lambda>_. True), ce_model = (\<lambda>_. Inl ()), ce_timestamp = (\<lambda>_. 5)\<rparr> 4
        (empty_state\<lparr>rs_runs := [(pending_row demo_run)\<lparr>r_status := Running, r_heartbeat := Some 3, r_lease := 1\<rparr>]\<rparr>)))) [114] = Some q \<and>
    r_lease q = 2"
proof -
  let ?r = "(pending_row demo_run)\<lparr>r_status := Running, r_heartbeat := Some 3, r_lease := 1\<rparr>"
  let ?s = "empty_state\<lparr>rs_runs := [?r]\<rparr>"
  let ?env = "\<lparr>ce_send = (\<lambda>_. True), ce_model = (\<lambda>_. Inl ()), ce_timestamp = (\<lambda>_. 5)\<rparr>"
  have st: "stale_running 4 ?r" by (simp add: stale_running_def sql_lt_def)
  have p: "take 50 (filter (stale_running 4) (rs_runs ?s)) = [?r]" using st by simp
  have g: "get_run ?s [114] = Some ?r" by (simp add: get_run_def sql_get_def pending_row_def demo_run_def)
  have m: "r_model ?r = Some [109]" by (simp add: pending_row_def demo_run_def)
  show ?thesis
    using stale_run_recovered [where pick = take and env = ?env and svc = "[119]" and now = 9, OF _ g _ _ _ st m] unfolding p by auto
qed

end
