(* ===== verification/Spec2Isabelle.thy ===== *)
theory Spec2Isabelle
  imports GitMerge ImportProps RateLimiterDO SessionDO RunProgress
begin

text \<open>
  Verification of the core of the takos worker (\<open>src/src/worker\<close>).
\<close>

end
